(* ===== verification/FabricPrelude.thy ===== *)
theory FabricPrelude
  imports Main "HOL-Library.Word" "HOL-Library.AList" "HOL-Library.Multiset"
begin

text \<open>
  Shared vocabulary of the development: the machine integers of the C++ code, the model of
  \<open>std::unordered_map\<close> (with the locale that states what its clients rely on), the adjacency
  index built from it, iteration orders, and decimal printing (\<open>std::to_string\<close>).
\<close>

section \<open>Machine integers\<close>

type_synonym u8 = "8 word"
type_synonym u16 = "16 word"
type_synonym u32 = "32 word"
type_synonym u64 = "64 word"

lemma unat_succ:
  assumes "(d::'a::len word) < L"
  shows "unat (d + 1) = Suc (unat d)"
proof -
  have "unat L < 2 ^ LENGTH('a)" by (rule unsigned_less)
  moreover have "unat d < unat L" using assms by (simp add: word_less_nat_alt)
  ultimately have "unat d + 1 < 2 ^ LENGTH('a)" by linarith
  then show ?thesis by (simp add: unat_word_ariths)
qed

section \<open>Collections of facts\<close>

named_theorems frame \<open>fields an operation leaves unchanged\<close>
named_theorems inv_intros \<open>preservation of well-formedness invariants\<close>

section \<open>unordered maps\<close>

text \<open>
  A \<open>std::unordered_map\<close> is an association list with distinct keys. Lookup, insertion,
  assignment and erasure are those of the container; the order of the list is never observed:
  wherever the code iterates over a map the model takes the iteration order as a parameter
  (see \<open>um_iter\<close>).
\<close>

type_synonym ('k, 'v) umap = "('k \<times> 'v) list"

definition um_find :: "'k \<Rightarrow> ('k, 'v) umap \<Rightarrow> 'v option" where
  "um_find k m = map_of m k"

definition um_put :: "'k \<Rightarrow> 'v \<Rightarrow> ('k, 'v) umap \<Rightarrow> ('k, 'v) umap" where
  "um_put k v m = AList.update k v m"

definition um_erase :: "'k \<Rightarrow> ('k, 'v) umap \<Rightarrow> ('k, 'v) umap" where
  "um_erase k m = AList.delete k m"

definition um_keys :: "('k, 'v) umap \<Rightarrow> 'k list" where
  "um_keys m = map fst m"

definition um_size :: "('k, 'v) umap \<Rightarrow> nat" where
  "um_size m = length m"

definition um_wf :: "('k, 'v) umap \<Rightarrow> bool" where
  "um_wf m \<longleftrightarrow> distinct (map fst m)"

text \<open>The container contract its clients rely on.\<close>

locale kv_store =
  fixes empty :: "'m"
    and find :: "'k \<Rightarrow> 'm \<Rightarrow> 'v option"
    and put :: "'k \<Rightarrow> 'v \<Rightarrow> 'm \<Rightarrow> 'm"
    and erase :: "'k \<Rightarrow> 'm \<Rightarrow> 'm"
    and keys :: "'m \<Rightarrow> 'k list"
    and wf :: "'m \<Rightarrow> bool"
  assumes find_empty: "find k empty = None"
    and find_put: "find k' (put k v m) = (if k' = k then Some v else find k' m)"
    and find_erase: "find k' (erase k m) = (if k' = k then None else find k' m)"
    and keys_find: "k \<in> set (keys m) \<longleftrightarrow> find k m \<noteq> None"
    and wf_empty: "wf empty"
    and wf_put: "wf m \<Longrightarrow> wf (put k v m)"
    and wf_erase: "wf m \<Longrightarrow> wf (erase k m)"
    and keys_distinct: "wf m \<Longrightarrow> distinct (keys m)"
begin

lemma find_put_same: "find k (put k v m) = Some v"
  by (simp add: find_put)

lemma find_put_other: "k' \<noteq> k \<Longrightarrow> find k' (put k v m) = find k' m"
  by (simp add: find_put)

lemma set_keys_put: "set (keys (put k v m)) = insert k (set (keys m))"
  by (auto simp: keys_find find_put split: if_splits)

lemma set_keys_erase: "set (keys (erase k m)) = set (keys m) - {k}"
  by (auto simp: keys_find find_erase split: if_splits)

lemma keys_put_old: "find k m = Some w \<Longrightarrow> set (keys (put k v m)) = set (keys m)"
  unfolding set_keys_put by (auto simp: keys_find)

lemma size_put_new:
  assumes "wf m" and "find k m = None"
  shows "length (keys (put k v m)) = Suc (length (keys m))"
proof -
  have "length (keys (put k v m)) = card (set (keys (put k v m)))"
    using wf_put[OF assms(1)] by (simp add: distinct_card keys_distinct)
  also have "\<dots> = Suc (card (set (keys m)))"
    unfolding set_keys_put using assms(2) keys_find[of k m] by (simp add: card_insert_if)
  also have "\<dots> = Suc (length (keys m))"
    using assms(1) by (simp add: distinct_card keys_distinct)
  finally show ?thesis .
qed

lemma finite_dom: "finite {k. find k m \<noteq> None}"
proof -
  have "{k. find k m \<noteq> None} = set (keys m)" by (auto simp: keys_find)
  then show ?thesis by simp
qed

end

interpretation um: kv_store "[]" um_find um_put um_erase um_keys um_wf
  by unfold_locales
    (auto simp: um_find_def um_put_def um_erase_def um_keys_def um_wf_def AList.update_conv'
      AList.delete_conv' distinct_update distinct_delete map_of_eq_None_iff)

declare um.find_put [simp] um.find_erase [simp] um.find_empty [simp] um.wf_empty [simp]
declare um.wf_put [simp, inv_intros] um.wf_erase [simp, inv_intros]

lemma um_put_Nil [simp]: "um_put k v [] = [(k, v)]"
  by (simp add: um_put_def)

lemma um_put_Cons [simp]:
  "um_put k v (p # m) = (if k = fst p then (k, v) # m else p # um_put k v m)"
  by (simp add: um_put_def)

lemma um_find_Cons [simp]: "um_find k ((k', v) # m) = (if k = k' then Some v else um_find k m)"
  by (simp add: um_find_def)

lemma um_wf_Cons [simp]: "um_wf ((k, v) # m) \<longleftrightarrow> um_find k m = None \<and> um_wf m"
  by (auto simp: um_wf_def um_find_def map_of_eq_None_iff)

lemma um_find_mem: "um_wf m \<Longrightarrow> um_find k m = Some v \<longleftrightarrow> (k, v) \<in> set m"
  by (simp add: um_find_def um_wf_def)

lemma um_find_SomeD: "um_find k m = Some v \<Longrightarrow> (k, v) \<in> set m"
  by (simp add: um_find_def map_of_SomeD)

lemma um_size_keys: "um_size m = length (um_keys m)"
  by (simp add: um_size_def um_keys_def)

lemma um_keys_put_old [simp]: "um_find k m = Some w \<Longrightarrow> um_keys (um_put k v m) = um_keys m"
  by (auto simp: um_keys_def um_put_def um_find_def AList.update_keys dest: map_of_SomeD
      intro!: image_eqI)

lemma um_size_put_old [simp]: "um_find k m = Some w \<Longrightarrow> um_size (um_put k v m) = um_size m"
  by (simp add: um_size_keys)

lemma um_size_put_new [simp]:
  "um_find k m = None \<Longrightarrow> um_size (um_put k v m) = Suc (um_size m)"
proof (induction m)
  case Nil
  then show ?case by (simp add: um_size_def)
next
  case (Cons p m)
  then show ?case by (cases p) (auto simp: um_size_def split: if_splits)
qed

lemma um_size_erase_le: "um_size (um_erase k m) \<le> um_size m"
  by (simp add: um_size_def um_erase_def length_delete_le)

lemma um_put_same: "um_find k m = Some v \<Longrightarrow> um_put k v m = m"
  by (induction m) (auto simp: um_find_def um_put_def split: if_splits)

subsection \<open>Iteration\<close>

text \<open>
  The order in which \<open>for (auto\& kv : map)\<close> visits an \<open>unordered_map\<close> is unspecified. It is a
  function of the keys that the user of the model chooses; \<open>is_order\<close> says it visits every key
  exactly once.
\<close>

type_synonym 'k order = "'k list \<Rightarrow> 'k list"

definition is_order :: "'k order \<Rightarrow> bool" where
  "is_order \<pi> \<longleftrightarrow> (\<forall>ks. mset (\<pi> ks) = mset ks)"

definition um_iter :: "'k order \<Rightarrow> ('k, 'v) umap \<Rightarrow> ('k \<times> 'v) list" where
  "um_iter \<pi> m = List.map_filter (\<lambda>k. map_option (Pair k) (um_find k m)) (\<pi> (um_keys m))"

lemma is_order_set: "is_order \<pi> \<Longrightarrow> set (\<pi> ks) = set ks"
  unfolding is_order_def by (metis set_mset_mset)

lemma is_order_distinct: "is_order \<pi> \<Longrightarrow> distinct (\<pi> ks) = distinct ks"
  unfolding is_order_def by (metis mset_eq_imp_distinct_iff)

lemma is_order_length: "is_order \<pi> \<Longrightarrow> length (\<pi> ks) = length ks"
  unfolding is_order_def by (metis size_mset)

lemma is_order_id [simp]: "is_order id" "is_order (\<lambda>ks. ks)" "is_order rev"
  by (simp_all add: is_order_def)

lemma um_iter_mem:
  "is_order \<pi> \<Longrightarrow> (k, v) \<in> set (um_iter \<pi> m) \<longleftrightarrow> um_find k m = Some v"
  using um.keys_find[of k m]
  by (force simp: um_iter_def List.map_filter_def is_order_set image_iff)

lemma map_filter_keys:
  "\<forall>k\<in>set ks. um_find k m \<noteq> None \<Longrightarrow>
   map fst (List.map_filter (\<lambda>k. map_option (Pair k) (um_find k m)) ks) = ks"
  by (induction ks) (auto simp: List.map_filter_simps split: option.split)

lemma um_iter_keys: "is_order \<pi> \<Longrightarrow> map fst (um_iter \<pi> m) = \<pi> (um_keys m)"
  unfolding um_iter_def
  by (rule map_filter_keys) (simp add: is_order_set um.keys_find)

lemma um_iter_length: "is_order \<pi> \<Longrightarrow> length (um_iter \<pi> m) = um_size m"
  by (metis um_iter_keys length_map is_order_length um_size_keys)

lemma um_iter_distinct: "is_order \<pi> \<Longrightarrow> um_wf m \<Longrightarrow> distinct (map fst (um_iter \<pi> m))"
  by (simp add: um_iter_keys is_order_distinct um.keys_distinct)

lemma fold_ext:
  "(\<And>x a. x \<in> set xs \<Longrightarrow> f x a = g x a) \<Longrightarrow> fold f xs a = fold g xs a"
  by (induction xs arbitrary: a) auto

section \<open>Adjacency indexes\<close>

text \<open>
  \<open>out_edges_\<close>, \<open>in_edges_\<close> and \<open>node_sets_\<close> map a key to a vector of ids. \<open>operator[]\<close>
  default-constructs the empty vector, so a missing key reads as the empty vector.
\<close>

definition ix_at :: "'k \<Rightarrow> ('k, 'v list) umap \<Rightarrow> 'v list" where
  "ix_at k m = (case um_find k m of None \<Rightarrow> [] | Some vs \<Rightarrow> vs)"

definition ix_push :: "'k \<Rightarrow> 'v \<Rightarrow> ('k, 'v list) umap \<Rightarrow> ('k, 'v list) umap" where
  "ix_push k v m = um_put k (ix_at k m @ [v]) m"

definition ix_erase :: "'k \<Rightarrow> 'v \<Rightarrow> ('k, 'v list) umap \<Rightarrow> ('k, 'v list) umap" where
  "ix_erase k v m = um_put k (removeAll v (ix_at k m)) m"

lemma ix_at_empty [simp]: "ix_at k [] = []"
  by (simp add: ix_at_def)

lemma ix_at_put [simp]: "ix_at k' (um_put k vs m) = (if k' = k then vs else ix_at k' m)"
  by (simp add: ix_at_def)

lemma ix_at_push [simp]:
  "ix_at k' (ix_push k v m) = (if k' = k then ix_at k m @ [v] else ix_at k' m)"
  by (simp add: ix_push_def)

lemma ix_at_erase [simp]:
  "ix_at k' (ix_erase k v m) = (if k' = k then removeAll v (ix_at k m) else ix_at k' m)"
  by (simp add: ix_erase_def)

lemma ix_wf [simp]: "um_wf m \<Longrightarrow> um_wf (ix_push k v m)" "um_wf m \<Longrightarrow> um_wf (ix_erase k v m)"
  by (simp_all add: ix_push_def ix_erase_def)

section \<open>Sequences of operations\<close>

text \<open>An operation answers and changes the state, or (\<open>None\<close>) does not return.\<close>

fun run_acts :: "('c \<Rightarrow> 'g \<Rightarrow> ('r \<times> 'g) option) \<Rightarrow> 'c list \<Rightarrow> 'g \<Rightarrow> 'g option" where
  "run_acts act [] g = Some g"
| "run_acts act (c # cs) g = (case act c g of None \<Rightarrow> None | Some (r, g') \<Rightarrow> run_acts act cs g')"

text \<open>
  The contract of guarded operations: a caller that is not allowed is refused, a refusal changes
  nothing, the invariant is kept and makes the operation return, and no operation changes who is
  allowed.
\<close>

locale guarded_operations =
  fixes act :: "'c \<Rightarrow> 'g \<Rightarrow> ('r \<times> 'g) option"
    and allowed :: "'c \<Rightarrow> 'g \<Rightarrow> bool"
    and accepted :: 'r
    and inv :: "'g \<Rightarrow> bool"
  assumes refuses: "\<not> allowed c g \<Longrightarrow> \<exists>r. r \<noteq> accepted \<and> act c g = Some (r, g)"
    and atomic: "act c g = Some (r, g') \<Longrightarrow> r \<noteq> accepted \<Longrightarrow> g' = g"
    and keeps_inv: "inv g \<Longrightarrow> act c g = Some (r, g') \<Longrightarrow> inv g'"
    and returns: "inv g \<Longrightarrow> act c g \<noteq> None"
    and stable: "act c g = Some (r, g') \<Longrightarrow> allowed d g' = allowed d g"
begin

lemma run_returns: "inv g \<Longrightarrow> \<exists>g'. run_acts act cs g = Some g' \<and> inv g'"
proof (induction cs arbitrary: g)
  case (Cons c cs)
  obtain r h where h: "act c g = Some (r, h)" using returns[OF Cons.prems, of c] by auto
  with keeps_inv[OF Cons.prems h] Cons.IH show ?case by simp
qed simp

text \<open>Requests of callers that are not allowed leave no trace, wherever they are interleaved.\<close>

lemma run_filter:
  "inv g \<Longrightarrow> run_acts act (filter (\<lambda>c. allowed c g) cs) g = run_acts act cs g"
proof (induction cs arbitrary: g)
  case (Cons c cs)
  obtain r h where h: "act c g = Some (r, h)" using returns[OF Cons.prems, of c] by auto
  have allowed: "allowed d h = allowed d g" for d by (rule stable[OF h])
  have IH: "run_acts act (filter (\<lambda>d. allowed d g) cs) h = run_acts act cs h"
    using Cons.IH[OF keeps_inv[OF Cons.prems h]] by (simp add: allowed)
  show ?case
  proof (cases "allowed c g")
    case True
    with h IH show ?thesis by simp
  next
    case False
    with refuses[of c g] h have "h = g" by auto
    with False h IH show ?thesis by simp
  qed
qed simp

end

section \<open>Decimal printing\<close>

text \<open>\<open>std::to_string\<close> of an unsigned integer.\<close>

definition digit_char :: "nat \<Rightarrow> char" where
  "digit_char d = char_of (48 + d)"

fun to_string_nat :: "nat \<Rightarrow> string" where
  "to_string_nat n =
     (if n < 10 then [digit_char n] else to_string_nat (n div 10) @ [digit_char (n mod 10)])"

declare to_string_nat.simps [simp del]

lemma to_string_nat_nonempty [simp]: "to_string_nat n \<noteq> []"
  by (subst to_string_nat.simps) simp

lemma digit_char_inj: "m < 10 \<Longrightarrow> n < 10 \<Longrightarrow> digit_char m = digit_char n \<longleftrightarrow> m = n"
  by (simp add: digit_char_def)

lemma div_mod_10_eq: "(m :: nat) div 10 = n div 10 \<and> m mod 10 = n mod 10 \<longleftrightarrow> m = n"
  by (metis div_mult_mod_eq)

lemma to_string_nat_inj [simp]: "to_string_nat m = to_string_nat n \<longleftrightarrow> m = n"
proof (induction m arbitrary: n rule: to_string_nat.induct)
  case (1 m)
  show ?case
  proof (cases "m < 10 \<longleftrightarrow> n < 10")
    case True
    then show ?thesis
      using 1 by (cases "m < 10")
        (simp_all add: to_string_nat.simps[of m] to_string_nat.simps[of n] digit_char_inj div_mod_10_eq)
  next
    case False
    then show ?thesis
      using to_string_nat_nonempty[symmetric] by (auto simp: to_string_nat.simps[of m] to_string_nat.simps[of n])
  qed
qed

end
