(* ===== verification/Identity.thy ===== *)
theory Identity
  imports FabricPrelude
begin

text \<open>
  \<open>include/dependency_fabric/identity.hpp\<close>: the strongly typed identities and generations.
  \<open>Strong<Tag>\<close> is a datatype with a phantom tag, so identities of different authority domains
  have different HOL types exactly as they have different C++ types. The null value is 0.
\<close>

section \<open>Tags\<close>

typedecl dependency_node_id_tag
typedecl dependency_edge_id_tag
typedecl dependency_set_id_tag
typedecl coordinator_epoch_tag
typedecl source_id_tag
typedecl source_boot_id_tag
typedecl node_generation_tag
typedecl edge_generation_tag
typedecl set_generation_tag
typedecl artifact_generation_tag
typedecl state_generation_tag
typedecl resource_generation_tag
typedecl readiness_generation_tag
typedecl invalidation_generation_tag
typedecl recovery_generation_tag
typedecl policy_generation_tag
typedecl producer_id_tag
typedecl consumer_id_tag
typedecl producer_generation_tag
typedecl consumer_generation_tag

section \<open>The strong type\<close>

datatype 'tag strong = Strong (strong_value: u64)

type_synonym node_id = "dependency_node_id_tag strong"
type_synonym edge_id = "dependency_edge_id_tag strong"
type_synonym set_id = "dependency_set_id_tag strong"
type_synonym coordinator_epoch = "coordinator_epoch_tag strong"
type_synonym source_id = "source_id_tag strong"
type_synonym source_boot_id = "source_boot_id_tag strong"
type_synonym node_generation = "node_generation_tag strong"
type_synonym edge_generation = "edge_generation_tag strong"
type_synonym set_generation = "set_generation_tag strong"
type_synonym artifact_generation = "artifact_generation_tag strong"
type_synonym state_generation = "state_generation_tag strong"
type_synonym resource_generation = "resource_generation_tag strong"
type_synonym readiness_generation = "readiness_generation_tag strong"
type_synonym invalidation_generation = "invalidation_generation_tag strong"
type_synonym recovery_generation = "recovery_generation_tag strong"
type_synonym policy_generation = "policy_generation_tag strong"
type_synonym producer_id = "producer_id_tag strong"
type_synonym consumer_id = "consumer_id_tag strong"
type_synonym producer_generation = "producer_generation_tag strong"
type_synonym consumer_generation = "consumer_generation_tag strong"

definition null_strong :: "'tag strong" where
  "null_strong = Strong 0"

definition valid :: "'tag strong \<Rightarrow> bool" where
  "valid s \<longleftrightarrow> strong_value s \<noteq> 0"

definition strong_to_string :: "'tag strong \<Rightarrow> string" where
  "strong_to_string s = to_string_nat (unat (strong_value s))"

text \<open>\<open>operator<=>\<close> is defaulted: strong values are ordered by their number.\<close>

instantiation strong :: (type) linorder
begin

definition less_eq_strong :: "'a strong \<Rightarrow> 'a strong \<Rightarrow> bool" where
  "less_eq_strong s t \<longleftrightarrow> strong_value s \<le> strong_value t"

definition less_strong :: "'a strong \<Rightarrow> 'a strong \<Rightarrow> bool" where
  "less_strong s t \<longleftrightarrow> strong_value s < strong_value t"

instance
proof
  fix x y z :: "'a strong"
  show "x < y \<longleftrightarrow> x \<le> y \<and> \<not> y \<le> x"
    by (auto simp: less_eq_strong_def less_strong_def)
  show "x \<le> x" by (simp add: less_eq_strong_def)
  show "x \<le> y \<Longrightarrow> y \<le> z \<Longrightarrow> x \<le> z" by (simp add: less_eq_strong_def)
  show "x \<le> y \<Longrightarrow> y \<le> x \<Longrightarrow> x = y"
    by (simp add: less_eq_strong_def strong.expand)
  show "x \<le> y \<or> y \<le> x" by (auto simp: less_eq_strong_def)
qed

end

text \<open>
  \<open>next_counter\<close> (readiness.cpp) and \<open>bump\<close> (invalidation.cpp): the next value of a monotonic
  axis. The addition is unsigned 64-bit and wraps.
\<close>

definition next_counter :: "'tag strong \<Rightarrow> 'tag strong" where
  "next_counter v = (if valid v then Strong (strong_value v + 1) else Strong 1)"

definition bump :: "'tag strong \<Rightarrow> 'tag strong" where
  "bump v = (if valid v then Strong (strong_value v + 1) else Strong 1)"

lemma valid_Strong [simp]: "valid (Strong v) \<longleftrightarrow> v \<noteq> 0"
  by (simp add: valid_def)

lemma valid_null [simp]: "\<not> valid null_strong"
  by (simp add: valid_def null_strong_def)

lemma strong_value_eq [simp]: "strong_value s = strong_value t \<longleftrightarrow> s = t"
  by (auto simp: strong.expand)

lemma strong_less_iff: "Strong v < Strong w \<longleftrightarrow> v < w"
  by (simp add: less_strong_def)

lemma strong_le_iff: "Strong v \<le> Strong w \<longleftrightarrow> v \<le> w"
  by (simp add: less_eq_strong_def)

section \<open>Families\<close>

text \<open>
  The trait \<open>TagFamily\<close>, with the tags as values: a strong number converts to another tag of the same
  family, with its value unchanged. A tag that declares no family is in family 0, together with every
  other such tag.
\<close>

datatype strong_tag =
    DependencyNodeIdTag | ProducerIdTag | ConsumerIdTag | DependencyEdgeIdTag | DependencySetIdTag
  | CoordinatorEpochTag | SourceIdTag | SourceBootIdTag | DependencyNodeGenerationTag | ProducerGenerationTag
  | ConsumerGenerationTag | DependencyEdgeGenerationTag | DependencySetGenerationTag | ArtifactGenerationTag
  | StateGenerationTag | ResourceGenerationTag | ReadinessGenerationTag | InvalidationGenerationTag
  | RecoveryGenerationTag | PolicyGenerationTag | UndeclaredTag nat

fun tag_family :: "strong_tag \<Rightarrow> nat" where
  "tag_family DependencyNodeIdTag = 1" | "tag_family ProducerIdTag = 1" | "tag_family ConsumerIdTag = 1"
| "tag_family DependencyNodeGenerationTag = 2" | "tag_family ProducerGenerationTag = 2"
| "tag_family ConsumerGenerationTag = 2"
| "tag_family DependencyEdgeIdTag = 3" | "tag_family DependencyEdgeGenerationTag = 4"
| "tag_family DependencySetIdTag = 5" | "tag_family DependencySetGenerationTag = 6"
| "tag_family CoordinatorEpochTag = 7" | "tag_family SourceIdTag = 8" | "tag_family SourceBootIdTag = 9"
| "tag_family ArtifactGenerationTag = 10" | "tag_family StateGenerationTag = 11"
| "tag_family ResourceGenerationTag = 12" | "tag_family ReadinessGenerationTag = 13"
| "tag_family InvalidationGenerationTag = 14" | "tag_family RecoveryGenerationTag = 15"
| "tag_family PolicyGenerationTag = 16"
| "tag_family (UndeclaredTag k) = 0"

definition convert_tag :: "strong_tag \<Rightarrow> strong_tag \<times> u64 \<Rightarrow> (strong_tag \<times> u64) option" where
  "convert_tag t s = (if tag_family t = tag_family (fst s) then Some (t, snd s) else None)"

text \<open>The tags of the runtime convert only among the node identities and among the node generations.\<close>

lemma declared_families:
  assumes "tag_family t \<noteq> 0"
  shows "convert_tag t (u, v) \<noteq> None \<longleftrightarrow> t = u \<or>
     {t, u} \<subseteq> {DependencyNodeIdTag, ProducerIdTag, ConsumerIdTag} \<or>
     {t, u} \<subseteq> {DependencyNodeGenerationTag, ProducerGenerationTag, ConsumerGenerationTag}"
  using assms by (cases t; cases u) (simp_all add: convert_tag_def)

lemma conversion_back: "convert_tag t (u, v) = Some s \<Longrightarrow> convert_tag u s = Some (u, v)"
  by (auto simp: convert_tag_def split: if_splits)

end
