(* ===== verification/Enums.thy ===== *)
theory Enums
  imports FabricPrelude
begin

text \<open>
  \<open>include/dependency_fabric/enums.hpp\<close> and \<open>src/graph/enums.cpp\<close>: the enumerations, their
  printed names, their parsers and their byte codes. Constructors carry a two-letter prefix
  (\<open>NK_DATA\<close> for \<open>NodeKind::DATA\<close>). An enumeration the code fills from a wire byte by
  \<open>static_cast\<close> without a range check has one more constructor \<open>_raw b\<close>: the C++ value whose
  underlying byte \<open>b\<close> names no enumerator.
\<close>

section \<open>Enumerations, names and byte codes\<close>

subsection \<open>NodeKind\<close>

datatype node_kind =
    NK_DATA | NK_TENSOR | NK_KV_STATE | NK_CHECKPOINT | NK_MODEL | NK_ADAPTER | NK_KERNEL
    | NK_EXECUTION_GRAPH | NK_ARTIFACT | NK_SERVICE | NK_RESOURCE | NK_TOPOLOGY
    | NK_CAPABILITY | NK_EXECUTION_RESULT | NK_WORKLOAD_PHASE | NK_POLICY | NK_UNKNOWN
    | NK_raw u8

fun node_kind_name :: "node_kind \<Rightarrow> string" where
  "node_kind_name NK_DATA = ''DATA''"
| "node_kind_name NK_TENSOR = ''TENSOR''"
| "node_kind_name NK_KV_STATE = ''KV_STATE''"
| "node_kind_name NK_CHECKPOINT = ''CHECKPOINT''"
| "node_kind_name NK_MODEL = ''MODEL''"
| "node_kind_name NK_ADAPTER = ''ADAPTER''"
| "node_kind_name NK_KERNEL = ''KERNEL''"
| "node_kind_name NK_EXECUTION_GRAPH = ''EXECUTION_GRAPH''"
| "node_kind_name NK_ARTIFACT = ''ARTIFACT''"
| "node_kind_name NK_SERVICE = ''SERVICE''"
| "node_kind_name NK_RESOURCE = ''RESOURCE''"
| "node_kind_name NK_TOPOLOGY = ''TOPOLOGY''"
| "node_kind_name NK_CAPABILITY = ''CAPABILITY''"
| "node_kind_name NK_EXECUTION_RESULT = ''EXECUTION_RESULT''"
| "node_kind_name NK_WORKLOAD_PHASE = ''WORKLOAD_PHASE''"
| "node_kind_name NK_POLICY = ''POLICY''"
| "node_kind_name NK_UNKNOWN = ''UNKNOWN''"
| "node_kind_name (NK_raw _) = ''UNKNOWN''"

fun node_kind_code :: "node_kind \<Rightarrow> u8" where
  "node_kind_code NK_DATA = 0"
| "node_kind_code NK_TENSOR = 1"
| "node_kind_code NK_KV_STATE = 2"
| "node_kind_code NK_CHECKPOINT = 3"
| "node_kind_code NK_MODEL = 4"
| "node_kind_code NK_ADAPTER = 5"
| "node_kind_code NK_KERNEL = 6"
| "node_kind_code NK_EXECUTION_GRAPH = 7"
| "node_kind_code NK_ARTIFACT = 8"
| "node_kind_code NK_SERVICE = 9"
| "node_kind_code NK_RESOURCE = 10"
| "node_kind_code NK_TOPOLOGY = 11"
| "node_kind_code NK_CAPABILITY = 12"
| "node_kind_code NK_EXECUTION_RESULT = 13"
| "node_kind_code NK_WORKLOAD_PHASE = 14"
| "node_kind_code NK_POLICY = 15"
| "node_kind_code NK_UNKNOWN = 16"
| "node_kind_code (NK_raw b) = b"

definition node_kind_of_code :: "u8 \<Rightarrow> node_kind" where
  "node_kind_of_code b =
     (if b = 0 then NK_DATA
     else if b = 1 then NK_TENSOR
     else if b = 2 then NK_KV_STATE
     else if b = 3 then NK_CHECKPOINT
     else if b = 4 then NK_MODEL
     else if b = 5 then NK_ADAPTER
     else if b = 6 then NK_KERNEL
     else if b = 7 then NK_EXECUTION_GRAPH
     else if b = 8 then NK_ARTIFACT
     else if b = 9 then NK_SERVICE
     else if b = 10 then NK_RESOURCE
     else if b = 11 then NK_TOPOLOGY
     else if b = 12 then NK_CAPABILITY
     else if b = 13 then NK_EXECUTION_RESULT
     else if b = 14 then NK_WORKLOAD_PHASE
     else if b = 15 then NK_POLICY
     else if b = 16 then NK_UNKNOWN
     else NK_raw b)"

definition node_kind_enumerator :: "node_kind \<Rightarrow> bool" where
  "node_kind_enumerator k \<longleftrightarrow> (case k of NK_raw _ \<Rightarrow> False | _ \<Rightarrow> True)"

subsection \<open>EdgeKind\<close>

datatype edge_kind =
    EK_REQUIRES | EK_OPTIONAL | EK_PRODUCES | EK_DERIVES_FROM | EK_INVALIDATES_WITH
    | EK_COMPATIBLE_WITH | EK_REQUIRES_RESOURCE | EK_REQUIRES_CAPABILITY | EK_REQUIRES_READY
    | EK_REQUIRES_FRESH | EK_REQUIRES_GENERATION | EK_raw u8

fun edge_kind_name :: "edge_kind \<Rightarrow> string" where
  "edge_kind_name EK_REQUIRES = ''REQUIRES''"
| "edge_kind_name EK_OPTIONAL = ''OPTIONAL''"
| "edge_kind_name EK_PRODUCES = ''PRODUCES''"
| "edge_kind_name EK_DERIVES_FROM = ''DERIVES_FROM''"
| "edge_kind_name EK_INVALIDATES_WITH = ''INVALIDATES_WITH''"
| "edge_kind_name EK_COMPATIBLE_WITH = ''COMPATIBLE_WITH''"
| "edge_kind_name EK_REQUIRES_RESOURCE = ''REQUIRES_RESOURCE''"
| "edge_kind_name EK_REQUIRES_CAPABILITY = ''REQUIRES_CAPABILITY''"
| "edge_kind_name EK_REQUIRES_READY = ''REQUIRES_READY''"
| "edge_kind_name EK_REQUIRES_FRESH = ''REQUIRES_FRESH''"
| "edge_kind_name EK_REQUIRES_GENERATION = ''REQUIRES_GENERATION''"
| "edge_kind_name (EK_raw _) = ''REQUIRES''"

fun edge_kind_code :: "edge_kind \<Rightarrow> u8" where
  "edge_kind_code EK_REQUIRES = 0"
| "edge_kind_code EK_OPTIONAL = 1"
| "edge_kind_code EK_PRODUCES = 2"
| "edge_kind_code EK_DERIVES_FROM = 3"
| "edge_kind_code EK_INVALIDATES_WITH = 4"
| "edge_kind_code EK_COMPATIBLE_WITH = 5"
| "edge_kind_code EK_REQUIRES_RESOURCE = 6"
| "edge_kind_code EK_REQUIRES_CAPABILITY = 7"
| "edge_kind_code EK_REQUIRES_READY = 8"
| "edge_kind_code EK_REQUIRES_FRESH = 9"
| "edge_kind_code EK_REQUIRES_GENERATION = 10"
| "edge_kind_code (EK_raw b) = b"

definition edge_kind_of_code :: "u8 \<Rightarrow> edge_kind" where
  "edge_kind_of_code b =
     (if b = 0 then EK_REQUIRES
     else if b = 1 then EK_OPTIONAL
     else if b = 2 then EK_PRODUCES
     else if b = 3 then EK_DERIVES_FROM
     else if b = 4 then EK_INVALIDATES_WITH
     else if b = 5 then EK_COMPATIBLE_WITH
     else if b = 6 then EK_REQUIRES_RESOURCE
     else if b = 7 then EK_REQUIRES_CAPABILITY
     else if b = 8 then EK_REQUIRES_READY
     else if b = 9 then EK_REQUIRES_FRESH
     else if b = 10 then EK_REQUIRES_GENERATION
     else EK_raw b)"

definition edge_kind_enumerator :: "edge_kind \<Rightarrow> bool" where
  "edge_kind_enumerator k \<longleftrightarrow> (case k of EK_raw _ \<Rightarrow> False | _ \<Rightarrow> True)"

subsection \<open>ReadinessState\<close>

datatype readiness_state =
    RS_UNKNOWN | RS_DECLARED | RS_DISCOVERED | RS_PRESENT | RS_VALIDATING | RS_READY
    | RS_DEGRADED | RS_STALE | RS_INVALIDATED | RS_REVALIDATION_REQUIRED | RS_MISSING
    | RS_FAILED | RS_RECOVERING | RS_BLOCKED | RS_SUPERSEDED | RS_RETIRED | RS_raw u8

fun readiness_state_name :: "readiness_state \<Rightarrow> string" where
  "readiness_state_name RS_UNKNOWN = ''UNKNOWN''"
| "readiness_state_name RS_DECLARED = ''DECLARED''"
| "readiness_state_name RS_DISCOVERED = ''DISCOVERED''"
| "readiness_state_name RS_PRESENT = ''PRESENT''"
| "readiness_state_name RS_VALIDATING = ''VALIDATING''"
| "readiness_state_name RS_READY = ''READY''"
| "readiness_state_name RS_DEGRADED = ''DEGRADED''"
| "readiness_state_name RS_STALE = ''STALE''"
| "readiness_state_name RS_INVALIDATED = ''INVALIDATED''"
| "readiness_state_name RS_REVALIDATION_REQUIRED = ''REVALIDATION_REQUIRED''"
| "readiness_state_name RS_MISSING = ''MISSING''"
| "readiness_state_name RS_FAILED = ''FAILED''"
| "readiness_state_name RS_RECOVERING = ''RECOVERING''"
| "readiness_state_name RS_BLOCKED = ''BLOCKED''"
| "readiness_state_name RS_SUPERSEDED = ''SUPERSEDED''"
| "readiness_state_name RS_RETIRED = ''RETIRED''"
| "readiness_state_name (RS_raw _) = ''UNKNOWN''"

fun readiness_state_code :: "readiness_state \<Rightarrow> u8" where
  "readiness_state_code RS_UNKNOWN = 0"
| "readiness_state_code RS_DECLARED = 1"
| "readiness_state_code RS_DISCOVERED = 2"
| "readiness_state_code RS_PRESENT = 3"
| "readiness_state_code RS_VALIDATING = 4"
| "readiness_state_code RS_READY = 5"
| "readiness_state_code RS_DEGRADED = 6"
| "readiness_state_code RS_STALE = 7"
| "readiness_state_code RS_INVALIDATED = 8"
| "readiness_state_code RS_REVALIDATION_REQUIRED = 9"
| "readiness_state_code RS_MISSING = 10"
| "readiness_state_code RS_FAILED = 11"
| "readiness_state_code RS_RECOVERING = 12"
| "readiness_state_code RS_BLOCKED = 13"
| "readiness_state_code RS_SUPERSEDED = 14"
| "readiness_state_code RS_RETIRED = 15"
| "readiness_state_code (RS_raw b) = b"

definition readiness_state_of_code :: "u8 \<Rightarrow> readiness_state" where
  "readiness_state_of_code b =
     (if b = 0 then RS_UNKNOWN
     else if b = 1 then RS_DECLARED
     else if b = 2 then RS_DISCOVERED
     else if b = 3 then RS_PRESENT
     else if b = 4 then RS_VALIDATING
     else if b = 5 then RS_READY
     else if b = 6 then RS_DEGRADED
     else if b = 7 then RS_STALE
     else if b = 8 then RS_INVALIDATED
     else if b = 9 then RS_REVALIDATION_REQUIRED
     else if b = 10 then RS_MISSING
     else if b = 11 then RS_FAILED
     else if b = 12 then RS_RECOVERING
     else if b = 13 then RS_BLOCKED
     else if b = 14 then RS_SUPERSEDED
     else if b = 15 then RS_RETIRED
     else RS_raw b)"

definition readiness_state_enumerator :: "readiness_state \<Rightarrow> bool" where
  "readiness_state_enumerator k \<longleftrightarrow> (case k of RS_raw _ \<Rightarrow> False | _ \<Rightarrow> True)"

subsection \<open>DynamicEvidence\<close>

datatype dynamic_evidence =
    DE_REVALIDATION_REQUIRED | DE_STALE | DE_UNKNOWN | DE_FRESH

fun dynamic_evidence_name :: "dynamic_evidence \<Rightarrow> string" where
  "dynamic_evidence_name DE_REVALIDATION_REQUIRED = ''REVALIDATION_REQUIRED''"
| "dynamic_evidence_name DE_STALE = ''STALE''"
| "dynamic_evidence_name DE_UNKNOWN = ''UNKNOWN''"
| "dynamic_evidence_name DE_FRESH = ''FRESH''"

fun dynamic_evidence_code :: "dynamic_evidence \<Rightarrow> u8" where
  "dynamic_evidence_code DE_REVALIDATION_REQUIRED = 0"
| "dynamic_evidence_code DE_STALE = 1"
| "dynamic_evidence_code DE_UNKNOWN = 2"
| "dynamic_evidence_code DE_FRESH = 3"

definition dynamic_evidence_of_code :: "u8 \<Rightarrow> dynamic_evidence option" where
  "dynamic_evidence_of_code b =
     (if b = 0 then Some DE_REVALIDATION_REQUIRED
     else if b = 1 then Some DE_STALE
     else if b = 2 then Some DE_UNKNOWN
     else if b = 3 then Some DE_FRESH
     else None)"

subsection \<open>GenerationPredicateKind\<close>

datatype generation_predicate_kind =
    GP_EXACT | GP_MINIMUM | GP_COMPATIBLE_SET | GP_NONE | GP_raw u8

fun generation_predicate_kind_name :: "generation_predicate_kind \<Rightarrow> string" where
  "generation_predicate_kind_name GP_EXACT = ''EXACT''"
| "generation_predicate_kind_name GP_MINIMUM = ''MINIMUM''"
| "generation_predicate_kind_name GP_COMPATIBLE_SET = ''COMPATIBLE_SET''"
| "generation_predicate_kind_name GP_NONE = ''NONE''"
| "generation_predicate_kind_name (GP_raw _) = ''NONE''"

fun generation_predicate_kind_code :: "generation_predicate_kind \<Rightarrow> u8" where
  "generation_predicate_kind_code GP_EXACT = 0"
| "generation_predicate_kind_code GP_MINIMUM = 1"
| "generation_predicate_kind_code GP_COMPATIBLE_SET = 2"
| "generation_predicate_kind_code GP_NONE = 3"
| "generation_predicate_kind_code (GP_raw b) = b"

definition generation_predicate_kind_of_code :: "u8 \<Rightarrow> generation_predicate_kind" where
  "generation_predicate_kind_of_code b =
     (if b = 0 then GP_EXACT
     else if b = 1 then GP_MINIMUM
     else if b = 2 then GP_COMPATIBLE_SET
     else if b = 3 then GP_NONE
     else GP_raw b)"

definition generation_predicate_kind_enumerator :: "generation_predicate_kind \<Rightarrow> bool" where
  "generation_predicate_kind_enumerator k \<longleftrightarrow> (case k of GP_raw _ \<Rightarrow> False | _ \<Rightarrow> True)"

subsection \<open>SetOperator\<close>

datatype set_operator =
    SO_ALL_OF | SO_ANY_OF | SO_AT_LEAST_N | SO_OPTIONAL_GROUP

fun set_operator_name :: "set_operator \<Rightarrow> string" where
  "set_operator_name SO_ALL_OF = ''ALL_OF''"
| "set_operator_name SO_ANY_OF = ''ANY_OF''"
| "set_operator_name SO_AT_LEAST_N = ''AT_LEAST_N''"
| "set_operator_name SO_OPTIONAL_GROUP = ''OPTIONAL_GROUP''"

fun set_operator_code :: "set_operator \<Rightarrow> u8" where
  "set_operator_code SO_ALL_OF = 0"
| "set_operator_code SO_ANY_OF = 1"
| "set_operator_code SO_AT_LEAST_N = 2"
| "set_operator_code SO_OPTIONAL_GROUP = 3"

definition set_operator_of_code :: "u8 \<Rightarrow> set_operator option" where
  "set_operator_of_code b =
     (if b = 0 then Some SO_ALL_OF
     else if b = 1 then Some SO_ANY_OF
     else if b = 2 then Some SO_AT_LEAST_N
     else if b = 3 then Some SO_OPTIONAL_GROUP
     else None)"

subsection \<open>Outcome\<close>

datatype outcome =
    OC_READY | OC_BLOCKED | OC_DEGRADED | OC_REVALIDATION_REQUIRED | OC_RECOMPUTE_REQUIRED
    | OC_RECOVERY_REQUIRED | OC_REJECT_STALE_EPOCH | OC_REJECT_STALE_BOOT
    | OC_REJECT_STALE_NODE_GENERATION | OC_REJECT_STALE_EDGE_GENERATION | OC_REJECT_CYCLE
    | OC_REJECT_DUPLICATE_ID | OC_REJECT_INVALID_TRANSITION | OC_REJECT_UNKNOWN_DEPENDENCY
    | OC_REJECT_MALFORMED | OC_UNKNOWN | OC_ACCEPTED | OC_raw u8

fun outcome_name :: "outcome \<Rightarrow> string" where
  "outcome_name OC_READY = ''READY''"
| "outcome_name OC_BLOCKED = ''BLOCKED''"
| "outcome_name OC_DEGRADED = ''DEGRADED''"
| "outcome_name OC_REVALIDATION_REQUIRED = ''REVALIDATION_REQUIRED''"
| "outcome_name OC_RECOMPUTE_REQUIRED = ''RECOMPUTE_REQUIRED''"
| "outcome_name OC_RECOVERY_REQUIRED = ''RECOVERY_REQUIRED''"
| "outcome_name OC_REJECT_STALE_EPOCH = ''REJECT_STALE_EPOCH''"
| "outcome_name OC_REJECT_STALE_BOOT = ''REJECT_STALE_BOOT''"
| "outcome_name OC_REJECT_STALE_NODE_GENERATION = ''REJECT_STALE_NODE_GENERATION''"
| "outcome_name OC_REJECT_STALE_EDGE_GENERATION = ''REJECT_STALE_EDGE_GENERATION''"
| "outcome_name OC_REJECT_CYCLE = ''REJECT_CYCLE''"
| "outcome_name OC_REJECT_DUPLICATE_ID = ''REJECT_DUPLICATE_ID''"
| "outcome_name OC_REJECT_INVALID_TRANSITION = ''REJECT_INVALID_TRANSITION''"
| "outcome_name OC_REJECT_UNKNOWN_DEPENDENCY = ''REJECT_UNKNOWN_DEPENDENCY''"
| "outcome_name OC_REJECT_MALFORMED = ''REJECT_MALFORMED''"
| "outcome_name OC_UNKNOWN = ''UNKNOWN''"
| "outcome_name OC_ACCEPTED = ''ACCEPTED''"
| "outcome_name (OC_raw _) = ''UNKNOWN''"

fun outcome_code :: "outcome \<Rightarrow> u8" where
  "outcome_code OC_READY = 0"
| "outcome_code OC_BLOCKED = 1"
| "outcome_code OC_DEGRADED = 2"
| "outcome_code OC_REVALIDATION_REQUIRED = 3"
| "outcome_code OC_RECOMPUTE_REQUIRED = 4"
| "outcome_code OC_RECOVERY_REQUIRED = 5"
| "outcome_code OC_REJECT_STALE_EPOCH = 6"
| "outcome_code OC_REJECT_STALE_BOOT = 7"
| "outcome_code OC_REJECT_STALE_NODE_GENERATION = 8"
| "outcome_code OC_REJECT_STALE_EDGE_GENERATION = 9"
| "outcome_code OC_REJECT_CYCLE = 10"
| "outcome_code OC_REJECT_DUPLICATE_ID = 11"
| "outcome_code OC_REJECT_INVALID_TRANSITION = 12"
| "outcome_code OC_REJECT_UNKNOWN_DEPENDENCY = 13"
| "outcome_code OC_REJECT_MALFORMED = 14"
| "outcome_code OC_UNKNOWN = 15"
| "outcome_code OC_ACCEPTED = 16"
| "outcome_code (OC_raw b) = b"

definition outcome_of_code :: "u8 \<Rightarrow> outcome" where
  "outcome_of_code b =
     (if b = 0 then OC_READY
     else if b = 1 then OC_BLOCKED
     else if b = 2 then OC_DEGRADED
     else if b = 3 then OC_REVALIDATION_REQUIRED
     else if b = 4 then OC_RECOMPUTE_REQUIRED
     else if b = 5 then OC_RECOVERY_REQUIRED
     else if b = 6 then OC_REJECT_STALE_EPOCH
     else if b = 7 then OC_REJECT_STALE_BOOT
     else if b = 8 then OC_REJECT_STALE_NODE_GENERATION
     else if b = 9 then OC_REJECT_STALE_EDGE_GENERATION
     else if b = 10 then OC_REJECT_CYCLE
     else if b = 11 then OC_REJECT_DUPLICATE_ID
     else if b = 12 then OC_REJECT_INVALID_TRANSITION
     else if b = 13 then OC_REJECT_UNKNOWN_DEPENDENCY
     else if b = 14 then OC_REJECT_MALFORMED
     else if b = 15 then OC_UNKNOWN
     else if b = 16 then OC_ACCEPTED
     else OC_raw b)"

definition outcome_enumerator :: "outcome \<Rightarrow> bool" where
  "outcome_enumerator k \<longleftrightarrow> (case k of OC_raw _ \<Rightarrow> False | _ \<Rightarrow> True)"

subsection \<open>RecoveryAction\<close>

datatype recovery_action =
    RA_REVALIDATION | RA_RECOMPUTATION | RA_RELOAD | RA_RESTART | RA_REBIND
    | RA_RESOURCE_REACQUISITION | RA_CHECKPOINT_RESTORE | RA_MANUAL_INTERVENTION

fun recovery_action_name :: "recovery_action \<Rightarrow> string" where
  "recovery_action_name RA_REVALIDATION = ''REVALIDATION''"
| "recovery_action_name RA_RECOMPUTATION = ''RECOMPUTATION''"
| "recovery_action_name RA_RELOAD = ''RELOAD''"
| "recovery_action_name RA_RESTART = ''RESTART''"
| "recovery_action_name RA_REBIND = ''REBIND''"
| "recovery_action_name RA_RESOURCE_REACQUISITION = ''RESOURCE_REACQUISITION''"
| "recovery_action_name RA_CHECKPOINT_RESTORE = ''CHECKPOINT_RESTORE''"
| "recovery_action_name RA_MANUAL_INTERVENTION = ''MANUAL_INTERVENTION''"

subsection \<open>InvalidationReason\<close>

datatype invalidation_reason =
    IR_EXPLICIT | IR_UPSTREAM_GONE | IR_UPSTREAM_GENERATION_CHANGED
    | IR_COMPATIBILITY_CHANGED | IR_RESOURCE_UNAVAILABLE | IR_FRESHNESS_EXPIRED
    | IR_INTEGRITY_FAILED | IR_AUTHORITY_ADVANCED | IR_SUPERSEDED | IR_raw u8

fun invalidation_reason_name :: "invalidation_reason \<Rightarrow> string" where
  "invalidation_reason_name IR_EXPLICIT = ''EXPLICIT''"
| "invalidation_reason_name IR_UPSTREAM_GONE = ''UPSTREAM_GONE''"
| "invalidation_reason_name IR_UPSTREAM_GENERATION_CHANGED = ''UPSTREAM_GENERATION_CHANGED''"
| "invalidation_reason_name IR_COMPATIBILITY_CHANGED = ''COMPATIBILITY_CHANGED''"
| "invalidation_reason_name IR_RESOURCE_UNAVAILABLE = ''RESOURCE_UNAVAILABLE''"
| "invalidation_reason_name IR_FRESHNESS_EXPIRED = ''FRESHNESS_EXPIRED''"
| "invalidation_reason_name IR_INTEGRITY_FAILED = ''INTEGRITY_FAILED''"
| "invalidation_reason_name IR_AUTHORITY_ADVANCED = ''AUTHORITY_ADVANCED''"
| "invalidation_reason_name IR_SUPERSEDED = ''SUPERSEDED''"
| "invalidation_reason_name (IR_raw _) = ''EXPLICIT''"

fun invalidation_reason_code :: "invalidation_reason \<Rightarrow> u8" where
  "invalidation_reason_code IR_EXPLICIT = 0"
| "invalidation_reason_code IR_UPSTREAM_GONE = 1"
| "invalidation_reason_code IR_UPSTREAM_GENERATION_CHANGED = 2"
| "invalidation_reason_code IR_COMPATIBILITY_CHANGED = 3"
| "invalidation_reason_code IR_RESOURCE_UNAVAILABLE = 4"
| "invalidation_reason_code IR_FRESHNESS_EXPIRED = 5"
| "invalidation_reason_code IR_INTEGRITY_FAILED = 6"
| "invalidation_reason_code IR_AUTHORITY_ADVANCED = 7"
| "invalidation_reason_code IR_SUPERSEDED = 8"
| "invalidation_reason_code (IR_raw b) = b"

definition invalidation_reason_of_code :: "u8 \<Rightarrow> invalidation_reason" where
  "invalidation_reason_of_code b =
     (if b = 0 then IR_EXPLICIT
     else if b = 1 then IR_UPSTREAM_GONE
     else if b = 2 then IR_UPSTREAM_GENERATION_CHANGED
     else if b = 3 then IR_COMPATIBILITY_CHANGED
     else if b = 4 then IR_RESOURCE_UNAVAILABLE
     else if b = 5 then IR_FRESHNESS_EXPIRED
     else if b = 6 then IR_INTEGRITY_FAILED
     else if b = 7 then IR_AUTHORITY_ADVANCED
     else if b = 8 then IR_SUPERSEDED
     else IR_raw b)"

definition invalidation_reason_enumerator :: "invalidation_reason \<Rightarrow> bool" where
  "invalidation_reason_enumerator k \<longleftrightarrow> (case k of IR_raw _ \<Rightarrow> False | _ \<Rightarrow> True)"

subsection \<open>InvalidationMode\<close>

datatype invalidation_mode =
    IM_DIRECT | IM_RECURSIVE | IM_BOUNDED | IM_GENERATION | IM_raw u8

fun invalidation_mode_name :: "invalidation_mode \<Rightarrow> string" where
  "invalidation_mode_name IM_DIRECT = ''DIRECT''"
| "invalidation_mode_name IM_RECURSIVE = ''RECURSIVE''"
| "invalidation_mode_name IM_BOUNDED = ''BOUNDED''"
| "invalidation_mode_name IM_GENERATION = ''GENERATION''"
| "invalidation_mode_name (IM_raw _) = ''RECURSIVE''"

fun invalidation_mode_code :: "invalidation_mode \<Rightarrow> u8" where
  "invalidation_mode_code IM_DIRECT = 0"
| "invalidation_mode_code IM_RECURSIVE = 1"
| "invalidation_mode_code IM_BOUNDED = 2"
| "invalidation_mode_code IM_GENERATION = 3"
| "invalidation_mode_code (IM_raw b) = b"

definition invalidation_mode_of_code :: "u8 \<Rightarrow> invalidation_mode" where
  "invalidation_mode_of_code b =
     (if b = 0 then IM_DIRECT
     else if b = 1 then IM_RECURSIVE
     else if b = 2 then IM_BOUNDED
     else if b = 3 then IM_GENERATION
     else IM_raw b)"

definition invalidation_mode_enumerator :: "invalidation_mode \<Rightarrow> bool" where
  "invalidation_mode_enumerator k \<longleftrightarrow> (case k of IM_raw _ \<Rightarrow> False | _ \<Rightarrow> True)"

subsection \<open>StaleDisposition\<close>

datatype stale_disposition =
    SD_REQUIRE_REVALIDATION | SD_REQUIRE_RESOURCE | SD_REQUIRE_NONE

fun stale_disposition_name :: "stale_disposition \<Rightarrow> string" where
  "stale_disposition_name SD_REQUIRE_REVALIDATION = ''REQUIRE_REVALIDATION''"
| "stale_disposition_name SD_REQUIRE_RESOURCE = ''REQUIRE_RESOURCE''"
| "stale_disposition_name SD_REQUIRE_NONE = ''REQUIRE_NONE''"

section \<open>Parsers\<close>

text \<open>\<open>parse\<close> scans a table and returns the value of the first equal name.\<close>

fun parse :: "string \<Rightarrow> (string \<times> 'a) list \<Rightarrow> 'a option" where
  "parse s [] = None"
| "parse s ((name, v) # table) = (if name = s then Some v else parse s table)"

definition node_kind_from_name :: "string \<Rightarrow> node_kind option" where
  "node_kind_from_name s = parse s
     [(''DATA'', NK_DATA), (''TENSOR'', NK_TENSOR), (''KV_STATE'', NK_KV_STATE),
      (''CHECKPOINT'', NK_CHECKPOINT), (''MODEL'', NK_MODEL), (''ADAPTER'', NK_ADAPTER),
      (''KERNEL'', NK_KERNEL), (''EXECUTION_GRAPH'', NK_EXECUTION_GRAPH),
      (''ARTIFACT'', NK_ARTIFACT), (''SERVICE'', NK_SERVICE), (''RESOURCE'', NK_RESOURCE),
      (''TOPOLOGY'', NK_TOPOLOGY), (''CAPABILITY'', NK_CAPABILITY),
      (''EXECUTION_RESULT'', NK_EXECUTION_RESULT), (''WORKLOAD_PHASE'', NK_WORKLOAD_PHASE),
      (''POLICY'', NK_POLICY), (''UNKNOWN'', NK_UNKNOWN)]"

definition edge_kind_from_name :: "string \<Rightarrow> edge_kind option" where
  "edge_kind_from_name s = parse s
     [(''REQUIRES'', EK_REQUIRES), (''OPTIONAL'', EK_OPTIONAL), (''PRODUCES'', EK_PRODUCES),
      (''DERIVES_FROM'', EK_DERIVES_FROM), (''INVALIDATES_WITH'', EK_INVALIDATES_WITH),
      (''COMPATIBLE_WITH'', EK_COMPATIBLE_WITH), (''REQUIRES_RESOURCE'', EK_REQUIRES_RESOURCE),
      (''REQUIRES_CAPABILITY'', EK_REQUIRES_CAPABILITY),
      (''REQUIRES_READY'', EK_REQUIRES_READY), (''REQUIRES_FRESH'', EK_REQUIRES_FRESH),
      (''REQUIRES_GENERATION'', EK_REQUIRES_GENERATION)]"

definition readiness_state_from_name :: "string \<Rightarrow> readiness_state option" where
  "readiness_state_from_name s = parse s
     [(''UNKNOWN'', RS_UNKNOWN), (''DECLARED'', RS_DECLARED), (''DISCOVERED'', RS_DISCOVERED),
      (''PRESENT'', RS_PRESENT), (''VALIDATING'', RS_VALIDATING), (''READY'', RS_READY),
      (''DEGRADED'', RS_DEGRADED), (''STALE'', RS_STALE), (''INVALIDATED'', RS_INVALIDATED),
      (''REVALIDATION_REQUIRED'', RS_REVALIDATION_REQUIRED), (''MISSING'', RS_MISSING),
      (''FAILED'', RS_FAILED), (''RECOVERING'', RS_RECOVERING), (''BLOCKED'', RS_BLOCKED),
      (''SUPERSEDED'', RS_SUPERSEDED), (''RETIRED'', RS_RETIRED)]"

definition outcome_from_name :: "string \<Rightarrow> outcome option" where
  "outcome_from_name s = parse s
     [(''READY'', OC_READY), (''BLOCKED'', OC_BLOCKED), (''DEGRADED'', OC_DEGRADED),
      (''REVALIDATION_REQUIRED'', OC_REVALIDATION_REQUIRED),
      (''RECOMPUTE_REQUIRED'', OC_RECOMPUTE_REQUIRED),
      (''RECOVERY_REQUIRED'', OC_RECOVERY_REQUIRED),
      (''REJECT_STALE_EPOCH'', OC_REJECT_STALE_EPOCH),
      (''REJECT_STALE_BOOT'', OC_REJECT_STALE_BOOT),
      (''REJECT_STALE_NODE_GENERATION'', OC_REJECT_STALE_NODE_GENERATION),
      (''REJECT_STALE_EDGE_GENERATION'', OC_REJECT_STALE_EDGE_GENERATION),
      (''REJECT_CYCLE'', OC_REJECT_CYCLE), (''REJECT_DUPLICATE_ID'', OC_REJECT_DUPLICATE_ID),
      (''REJECT_INVALID_TRANSITION'', OC_REJECT_INVALID_TRANSITION),
      (''REJECT_UNKNOWN_DEPENDENCY'', OC_REJECT_UNKNOWN_DEPENDENCY),
      (''REJECT_MALFORMED'', OC_REJECT_MALFORMED), (''UNKNOWN'', OC_UNKNOWN),
      (''ACCEPTED'', OC_ACCEPTED)]"

definition recovery_action_from_name :: "string \<Rightarrow> recovery_action option" where
  "recovery_action_from_name s = parse s
     [(''REVALIDATION'', RA_REVALIDATION), (''RECOMPUTATION'', RA_RECOMPUTATION),
      (''RELOAD'', RA_RELOAD), (''RESTART'', RA_RESTART), (''REBIND'', RA_REBIND),
      (''RESOURCE_REACQUISITION'', RA_RESOURCE_REACQUISITION),
      (''CHECKPOINT_RESTORE'', RA_CHECKPOINT_RESTORE),
      (''MANUAL_INTERVENTION'', RA_MANUAL_INTERVENTION)]"

definition invalidation_reason_from_name :: "string \<Rightarrow> invalidation_reason option" where
  "invalidation_reason_from_name s = parse s
     [(''EXPLICIT'', IR_EXPLICIT), (''UPSTREAM_GONE'', IR_UPSTREAM_GONE),
      (''UPSTREAM_GENERATION_CHANGED'', IR_UPSTREAM_GENERATION_CHANGED),
      (''COMPATIBILITY_CHANGED'', IR_COMPATIBILITY_CHANGED),
      (''RESOURCE_UNAVAILABLE'', IR_RESOURCE_UNAVAILABLE),
      (''FRESHNESS_EXPIRED'', IR_FRESHNESS_EXPIRED),
      (''INTEGRITY_FAILED'', IR_INTEGRITY_FAILED),
      (''AUTHORITY_ADVANCED'', IR_AUTHORITY_ADVANCED), (''SUPERSEDED'', IR_SUPERSEDED)]"

definition set_operator_from_name :: "string \<Rightarrow> set_operator option" where
  "set_operator_from_name s = parse s
     [(''ALL_OF'', SO_ALL_OF), (''ANY_OF'', SO_ANY_OF), (''AT_LEAST_N'', SO_AT_LEAST_N),
      (''OPTIONAL_GROUP'', SO_OPTIONAL_GROUP)]"

definition generation_predicate_from_name :: "string \<Rightarrow> generation_predicate_kind option" where
  "generation_predicate_from_name s = parse s
     [(''EXACT'', GP_EXACT), (''MINIMUM'', GP_MINIMUM),
      (''COMPATIBLE_SET'', GP_COMPATIBLE_SET), (''NONE'', GP_NONE)]"

section \<open>Names and codes are faithful\<close>

text \<open>A table with distinct names is a function: scanning it finds exactly its entries.\<close>

lemma parse_Some: "distinct (map fst table) \<Longrightarrow> parse s table = Some v \<longleftrightarrow> (s, v) \<in> set table"
  by (induction s table rule: parse.induct) force+

named_theorems enum_defs \<open>definitions of the enumeration tables\<close>

declare
  node_kind_of_code_def [enum_defs] node_kind_enumerator_def [enum_defs]
  edge_kind_of_code_def [enum_defs] edge_kind_enumerator_def [enum_defs]
  readiness_state_of_code_def [enum_defs] readiness_state_enumerator_def [enum_defs]
  generation_predicate_kind_of_code_def [enum_defs] generation_predicate_kind_enumerator_def [enum_defs]
  outcome_of_code_def [enum_defs] outcome_enumerator_def [enum_defs]
  invalidation_reason_of_code_def [enum_defs] invalidation_reason_enumerator_def [enum_defs]
  invalidation_mode_of_code_def [enum_defs] invalidation_mode_enumerator_def [enum_defs]
  set_operator_of_code_def [enum_defs] dynamic_evidence_of_code_def [enum_defs]

lemma node_kind_code_of_code [simp]: "node_kind_code (node_kind_of_code b) = b"
  by (simp add: enum_defs)

lemma node_kind_of_code_code: "node_kind_enumerator k \<Longrightarrow> node_kind_of_code (node_kind_code k) = k"
  by (cases k) (simp_all add: enum_defs)

lemma edge_kind_code_of_code [simp]: "edge_kind_code (edge_kind_of_code b) = b"
  by (simp add: enum_defs)

lemma edge_kind_of_code_code: "edge_kind_enumerator k \<Longrightarrow> edge_kind_of_code (edge_kind_code k) = k"
  by (cases k) (simp_all add: enum_defs)

lemma readiness_state_code_of_code [simp]: "readiness_state_code (readiness_state_of_code b) = b"
  by (simp add: enum_defs)

lemma readiness_state_of_code_code: "readiness_state_enumerator k \<Longrightarrow> readiness_state_of_code (readiness_state_code k) = k"
  by (cases k) (simp_all add: enum_defs)

lemma generation_predicate_kind_code_of_code [simp]: "generation_predicate_kind_code (generation_predicate_kind_of_code b) = b"
  by (simp add: enum_defs)

lemma generation_predicate_kind_of_code_code: "generation_predicate_kind_enumerator k \<Longrightarrow> generation_predicate_kind_of_code (generation_predicate_kind_code k) = k"
  by (cases k) (simp_all add: enum_defs)

lemma outcome_code_of_code [simp]: "outcome_code (outcome_of_code b) = b"
  by (simp add: enum_defs)

lemma outcome_of_code_code: "outcome_enumerator k \<Longrightarrow> outcome_of_code (outcome_code k) = k"
  by (cases k) (simp_all add: enum_defs)

lemma invalidation_reason_code_of_code [simp]: "invalidation_reason_code (invalidation_reason_of_code b) = b"
  by (simp add: enum_defs)

lemma invalidation_reason_of_code_code: "invalidation_reason_enumerator k \<Longrightarrow> invalidation_reason_of_code (invalidation_reason_code k) = k"
  by (cases k) (simp_all add: enum_defs)

lemma invalidation_mode_code_of_code [simp]: "invalidation_mode_code (invalidation_mode_of_code b) = b"
  by (simp add: enum_defs)

lemma invalidation_mode_of_code_code: "invalidation_mode_enumerator k \<Longrightarrow> invalidation_mode_of_code (invalidation_mode_code k) = k"
  by (cases k) (simp_all add: enum_defs)

lemma set_operator_of_code_code [simp]: "set_operator_of_code (set_operator_code k) = Some k"
  by (cases k) (simp_all add: enum_defs)

lemma dynamic_evidence_of_code_code [simp]: "dynamic_evidence_of_code (dynamic_evidence_code k) = Some k"
  by (cases k) (simp_all add: enum_defs)

lemma node_kind_from_name_iff: "node_kind_from_name s = Some k \<longleftrightarrow> node_kind_enumerator k \<and> s = node_kind_name k"
  unfolding node_kind_from_name_def by (subst parse_Some) (simp, cases k, simp_all add: enum_defs)

lemma edge_kind_from_name_iff: "edge_kind_from_name s = Some k \<longleftrightarrow> edge_kind_enumerator k \<and> s = edge_kind_name k"
  unfolding edge_kind_from_name_def by (subst parse_Some) (simp, cases k, simp_all add: enum_defs)

lemma readiness_state_from_name_iff: "readiness_state_from_name s = Some k \<longleftrightarrow> readiness_state_enumerator k \<and> s = readiness_state_name k"
  unfolding readiness_state_from_name_def by (subst parse_Some) (simp, cases k, simp_all add: enum_defs)

lemma outcome_from_name_iff: "outcome_from_name s = Some k \<longleftrightarrow> outcome_enumerator k \<and> s = outcome_name k"
  unfolding outcome_from_name_def by (subst parse_Some) (simp, cases k, simp_all add: enum_defs)

lemma recovery_action_from_name_iff: "recovery_action_from_name s = Some k \<longleftrightarrow> s = recovery_action_name k"
  unfolding recovery_action_from_name_def by (subst parse_Some) (simp, cases k, simp_all)

lemma invalidation_reason_from_name_iff: "invalidation_reason_from_name s = Some k \<longleftrightarrow> invalidation_reason_enumerator k \<and> s = invalidation_reason_name k"
  unfolding invalidation_reason_from_name_def by (subst parse_Some) (simp, cases k, simp_all add: enum_defs)

lemma set_operator_from_name_iff: "set_operator_from_name s = Some k \<longleftrightarrow> s = set_operator_name k"
  unfolding set_operator_from_name_def by (subst parse_Some) (simp, cases k, simp_all)

lemma generation_predicate_from_name_iff: "generation_predicate_from_name s = Some k \<longleftrightarrow> generation_predicate_kind_enumerator k \<and> s = generation_predicate_kind_name k"
  unfolding generation_predicate_from_name_def by (subst parse_Some) (simp, cases k, simp_all add: enum_defs)

end
