(* ===== verification/GraphTypes.thy ===== *)
theory GraphTypes
  imports Identity Enums
begin

text \<open>
  The data of the runtime: \<open>node.hpp\<close>, \<open>edge.hpp\<close>, \<open>predicates.hpp\<close>, \<open>dependency_set.hpp\<close>,
  \<open>queries.hpp\<close>, the adapter interface of \<open>adapters.hpp\<close> and the private state of
  \<open>Graph\<close> (\<open>graph.hpp\<close>). Field names keep the source's names behind a two-letter prefix.
  Strings are byte strings (\<open>char list\<close>).
\<close>

section \<open>Nodes\<close>

record node =
  nd_id :: node_id
  nd_kind :: node_kind
  nd_generation_history :: "node_generation list"
  nd_current_generation :: node_generation
  nd_artifact_generation :: artifact_generation
  nd_state_generation :: state_generation
  nd_resource_generation :: resource_generation
  nd_readiness_generation :: readiness_generation
  nd_invalidation_generation :: invalidation_generation
  nd_recovery_generation :: recovery_generation
  nd_policy_generation :: policy_generation
  nd_state :: readiness_state
  nd_static_durable_fact :: bool
  nd_dynamic_evidence :: bool
  nd_recovered_evidence :: dynamic_evidence
  nd_was_ready_before_restart :: bool
  nd_origin_source :: source_id
  nd_origin_boot :: source_boot_id
  nd_superseded_generations :: "node_generation list"
  nd_claimed_capabilities :: "string list"
  nd_resource_available :: bool
  nd_integrity_valid :: bool
  nd_freshness_valid :: bool
  nd_provenance_confidence :: u64
  nd_completion_state :: string
  nd_last_invalidation_reason :: invalidation_reason
  nd_ever_invalidated :: bool
  nd_descriptor :: string

text \<open>The constructor \<open>Node(node_id, node_kind, desc)\<close> with the in-class default initialisers.\<close>

definition make_node :: "node_id \<Rightarrow> node_kind \<Rightarrow> string \<Rightarrow> node" where
  "make_node i k desc =
     \<lparr>nd_id = i, nd_kind = k, nd_generation_history = [], nd_current_generation = null_strong,
      nd_artifact_generation = null_strong, nd_state_generation = null_strong,
      nd_resource_generation = null_strong, nd_readiness_generation = null_strong,
      nd_invalidation_generation = null_strong, nd_recovery_generation = null_strong,
      nd_policy_generation = null_strong, nd_state = RS_UNKNOWN,
      nd_static_durable_fact = False, nd_dynamic_evidence = False,
      nd_recovered_evidence = DE_UNKNOWN, nd_was_ready_before_restart = False,
      nd_origin_source = null_strong, nd_origin_boot = null_strong,
      nd_superseded_generations = [], nd_claimed_capabilities = [],
      nd_resource_available = False, nd_integrity_valid = False, nd_freshness_valid = False,
      nd_provenance_confidence = 0, nd_completion_state = [],
      nd_last_invalidation_reason = IR_EXPLICIT, nd_ever_invalidated = False,
      nd_descriptor = desc\<rparr>"

definition highest_generation :: "node \<Rightarrow> node_generation" where
  "highest_generation n =
     (if nd_generation_history n \<noteq> [] then last (nd_generation_history n)
      else nd_current_generation n)"

definition has_generation :: "node \<Rightarrow> node_generation \<Rightarrow> bool" where
  "has_generation n g \<longleftrightarrow> list_ex (\<lambda>h. strong_value h = strong_value g) (nd_generation_history n)"

record source_registration =
  sr_source :: source_id
  sr_boot :: source_boot_id
  sr_epoch :: coordinator_epoch
  sr_active :: bool

section \<open>Predicates, edges, dependency sets\<close>

record dependency_predicate =
  pr_generation_kind :: generation_predicate_kind
  pr_exact_generation :: node_generation
  pr_minimum_generation :: node_generation
  pr_compatible_generations :: "node_generation list"
  pr_required_readiness :: readiness_state
  pr_required_capability :: string
  pr_requires_resource_available :: bool
  pr_requires_fresh :: bool
  pr_requires_integrity :: bool
  pr_minimal_provenance_confidence :: u64
  pr_required_completion_state :: string
  pr_is_required :: bool
  pr_note :: string

definition default_predicate :: dependency_predicate where
  "default_predicate =
     \<lparr>pr_generation_kind = GP_NONE, pr_exact_generation = null_strong,
      pr_minimum_generation = null_strong, pr_compatible_generations = [],
      pr_required_readiness = RS_READY, pr_required_capability = [],
      pr_requires_resource_available = False, pr_requires_fresh = False,
      pr_requires_integrity = False, pr_minimal_provenance_confidence = 0,
      pr_required_completion_state = [], pr_is_required = True, pr_note = []\<rparr>"

record edge =
  ed_id :: edge_id
  ed_generation :: edge_generation
  ed_kind :: edge_kind
  ed_producer_id :: node_id
  ed_consumer_id :: node_id
  ed_bound_producer_generation :: producer_generation
  ed_bound_consumer_generation :: consumer_generation
  ed_predicate :: dependency_predicate
  ed_active :: bool

definition edge_required :: "edge \<Rightarrow> bool" where
  "edge_required e \<longleftrightarrow> ed_kind e \<noteq> EK_OPTIONAL \<and> pr_is_required (ed_predicate e)"

record dependency_set =
  ds_id :: set_id
  ds_generation :: set_generation
  ds_owner :: node_id
  ds_op :: set_operator
  ds_at_least_n :: u32
  ds_members :: "edge_id list"
  ds_active :: bool

record invalidation_policy =
  ip_mode :: invalidation_mode
  ip_max_depth :: u32
  ip_propagate_through_optional :: bool
  ip_degrade_optional_dependents :: bool
  ip_cascade_blocked :: bool

text \<open>A patch of evidence facts (\<open>graph.hpp\<close>): each fact with its \<open>set_\<close> flag.\<close>

record node_evidence_patch =
  np_claimed_capabilities :: "string list"
  np_set_resource_available :: bool
  np_resource_available :: bool
  np_set_integrity :: bool
  np_integrity_valid :: bool
  np_set_freshness :: bool
  np_freshness_valid :: bool
  np_set_provenance :: bool
  np_provenance_confidence :: u64
  np_set_completion :: bool
  np_completion_state :: string

section \<open>Query results\<close>

record blocking_dependency =
  bd_edge_id :: edge_id
  bd_edge_generation :: edge_generation
  bd_producer :: node_id
  bd_producer_kind :: node_kind
  bd_kind :: edge_kind
  bd_optional :: bool
  bd_is_set_member :: bool
  bd_set_label :: string
  bd_constraint_kind :: generation_predicate_kind
  bd_required_generation :: node_generation
  bd_actual_generation :: node_generation
  bd_reason :: string

record explanation =
  ex_node :: node_id
  ex_kind :: node_kind
  ex_outcome :: outcome
  ex_state :: readiness_state
  ex_current_generation :: node_generation
  ex_origin_source :: source_id
  ex_origin_boot :: source_boot_id
  ex_summary :: string
  ex_blockers :: "blocking_dependency list"
  ex_upstream_invalidation_notes :: "string list"
  ex_changes_since_ready :: "string list"
  ex_required_actions :: "string list"

record recovery_intent =
  ri_node :: node_id
  ri_kind :: node_kind
  ri_action :: recovery_action
  ri_reason :: invalidation_reason
  ri_owner_runtime :: string
  ri_detail :: string

record affected_closure =
  ac_nodes :: "node_id list"
  ac_edges :: "edge_id list"
  ac_frontier :: "node_id list"

section \<open>Adapters\<close>

text \<open>
  \<open>IDependencyAdapter\<close> is an interface of const queries: a record of functions. The graph holds
  a nullable pointer to one, modelled by an \<open>option\<close>.
\<close>

record dependency_adapter =
  ad_current_artifact_generation :: "node_id \<Rightarrow> artifact_generation option"
  ad_current_state_generation :: "node_id \<Rightarrow> state_generation option"
  ad_current_resource_generation :: "node_id \<Rightarrow> resource_generation option"
  ad_resource_available :: "node_id \<Rightarrow> bool"
  ad_capability_claimed :: "node_id \<Rightarrow> string \<Rightarrow> bool"
  ad_integrity_ok :: "node_id \<Rightarrow> bool"
  ad_freshness_ok :: "node_id \<Rightarrow> bool"
  ad_provenance_confidence :: "node_id \<Rightarrow> u64"
  ad_completion_state :: "node_id \<Rightarrow> string"
  ad_owning_runtime :: "node_kind \<Rightarrow> string"

section \<open>The graph\<close>

record graph =
  gr_nodes :: "(node_id, node) umap"
  gr_edges :: "(edge_id, edge) umap"
  gr_sets :: "(set_id, dependency_set) umap"
  gr_sources :: "(source_id, source_registration) umap"
  gr_out_edges :: "(node_id, edge_id list) umap"
  gr_in_edges :: "(node_id, edge_id list) umap"
  gr_node_sets :: "(node_id, set_id list) umap"
  gr_epoch :: coordinator_epoch
  gr_adapter :: "dependency_adapter option"

definition empty_graph :: graph where
  "empty_graph =
     \<lparr>gr_nodes = [], gr_edges = [], gr_sets = [], gr_sources = [], gr_out_edges = [],
      gr_in_edges = [], gr_node_sets = [], gr_epoch = Strong 1, gr_adapter = None\<rparr>"

definition kMaxGraphNodes :: nat where
  "kMaxGraphNodes = 2 ^ 24"

definition kMaxGraphEdges :: nat where
  "kMaxGraphEdges = 2 ^ 26"

definition kDefaultMaxTraversalDepth :: u32 where
  "kDefaultMaxTraversalDepth = 4096"

abbreviation find_node :: "graph \<Rightarrow> node_id \<Rightarrow> node option" where
  "find_node g i \<equiv> um_find i (gr_nodes g)"

abbreviation find_edge :: "graph \<Rightarrow> edge_id \<Rightarrow> edge option" where
  "find_edge g i \<equiv> um_find i (gr_edges g)"

abbreviation find_set :: "graph \<Rightarrow> set_id \<Rightarrow> dependency_set option" where
  "find_set g i \<equiv> um_find i (gr_sets g)"

abbreviation put_node :: "node_id \<Rightarrow> node \<Rightarrow> graph \<Rightarrow> graph" where
  "put_node i n g \<equiv> g\<lparr>gr_nodes := um_put i n (gr_nodes g)\<rparr>"

text \<open>
  The active edges listed in an index vector: every traversal of the code skips an edge id that
  is not in \<open>edges_\<close> and an edge that is inactive.
\<close>

definition active_edges :: "graph \<Rightarrow> edge_id list \<Rightarrow> (edge_id \<times> edge) list" where
  "active_edges g eids =
     List.map_filter (\<lambda>i. case find_edge g i of None \<Rightarrow> None
                          | Some e \<Rightarrow> if ed_active e then Some (i, e) else None) eids"

definition out_active :: "graph \<Rightarrow> node_id \<Rightarrow> (edge_id \<times> edge) list" where
  "out_active g v = active_edges g (ix_at v (gr_out_edges g))"

definition in_active :: "graph \<Rightarrow> node_id \<Rightarrow> (edge_id \<times> edge) list" where
  "in_active g v = active_edges g (ix_at v (gr_in_edges g))"

lemma active_edges_Nil [simp]: "active_edges g [] = []"
  by (simp add: active_edges_def List.map_filter_simps)

lemma active_edges_Cons [simp]:
  "active_edges g (i # is) =
     (case find_edge g i of None \<Rightarrow> active_edges g is
      | Some e \<Rightarrow> if ed_active e then (i, e) # active_edges g is else active_edges g is)"
  by (simp add: active_edges_def List.map_filter_simps split: option.split)

lemma active_edges_append [simp]:
  "active_edges g (is @ js) = active_edges g is @ active_edges g js"
  by (induction "is") (auto split: option.split)

lemma active_edges_mem:
  "(i, e) \<in> set (active_edges g eids) \<longleftrightarrow>
     i \<in> set eids \<and> find_edge g i = Some e \<and> ed_active e"
  by (induction eids) (auto split: option.splits)

lemma active_edges_edges_cong:
  "gr_edges g' = gr_edges g \<Longrightarrow> active_edges g' eids = active_edges g eids"
  by (simp add: active_edges_def)

text \<open>
  The dependency relation: \<open>(p, c)\<close> when an active edge makes \<open>c\<close> depend on \<open>p\<close>, whatever the
  indexes say.
\<close>

definition dep_rel :: "graph \<Rightarrow> (node_id \<times> node_id) set" where
  "dep_rel g = {(ed_producer_id e, ed_consumer_id e) |i e. find_edge g i = Some e \<and> ed_active e}"

definition acyclic_graph :: "graph \<Rightarrow> bool" where
  "acyclic_graph g \<longleftrightarrow> acyclic (dep_rel g)"

text \<open>The index relation: what a traversal along \<open>out_edges_\<close> follows.\<close>

definition succs :: "graph \<Rightarrow> node_id \<Rightarrow> node_id list" where
  "succs g v = map (ed_consumer_id \<circ> snd) (out_active g v)"

definition succ_rel :: "graph \<Rightarrow> (node_id \<times> node_id) set" where
  "succ_rel g = {(v, w). w \<in> set (succs g v)}"

definition consumers :: "graph \<Rightarrow> node_id set" where
  "consumers g = (\<lambda>(i, e). ed_consumer_id e) ` set (gr_edges g)"

definition producers :: "graph \<Rightarrow> node_id set" where
  "producers g = (\<lambda>(i, e). ed_producer_id e) ` set (gr_edges g)"

lemma finite_consumers [simp]: "finite (consumers g)" and finite_producers [simp]: "finite (producers g)"
  by (simp_all add: consumers_def producers_def)

lemma out_active_consumer: "(i, e) \<in> set (out_active g v) \<Longrightarrow> ed_consumer_id e \<in> consumers g"
  by (force simp: out_active_def active_edges_mem consumers_def dest: um_find_SomeD)

lemma in_active_producer: "(i, e) \<in> set (in_active g v) \<Longrightarrow> ed_producer_id e \<in> producers g"
  by (force simp: in_active_def active_edges_mem producers_def dest: um_find_SomeD)

lemma succ_rel_iff:
  "(v, w) \<in> succ_rel g \<longleftrightarrow> (\<exists>i e. (i, e) \<in> set (out_active g v) \<and> ed_consumer_id e = w)"
  by (force simp: succ_rel_def succs_def)

end
