(* ===== verification/Search.thy ===== *)
theory Search
  imports FabricPrelude "HOL-Library.While_Combinator"
begin

text \<open>
  The work-list search that the graph code repeats: a \<open>std::deque\<close> of items, an
  \<open>unordered_set\<close> of visited ids, and a loop that pops the front item, walks its candidates in
  index order, and pushes each candidate whose id is new. A \<open>search\<close> record holds what differs
  between the occurrences; the loop itself is \<open>search_scan\<close> (the inner \<open>for\<close>), \<open>search_step\<close>
  (one turn of the \<open>while\<close>) and \<open>search\<close>.

  The locales state the contract of such a record: with finitely many ids the loop ends
  (\<open>bounded_search\<close>); if candidates are the successors of a relation it visits exactly the ids
  reachable from the start (\<open>reach_search\<close>); and the order in which items are popped or
  discovered lists each of them once (\<open>popping_search\<close>, \<open>finding_search\<close>).
\<close>

section \<open>The loop\<close>

text \<open>
  \<open>s_expand\<close>: the candidates of a popped item, in index order;
  \<open>s_key\<close>: the id that \<open>visited.insert\<close> sees;
  \<open>s_item\<close>: what is pushed for a new candidate (nothing or one item);
  \<open>s_pop\<close>: the effect of popping an item;
  \<open>s_note\<close>: the effect of a candidate (the flag says whether its id was new);
  \<open>s_stop\<close>: the early-return condition.
\<close>

record ('i, 'c, 'k, 'a) search =
  s_expand :: "'i \<Rightarrow> 'c list"
  s_key :: "'c \<Rightarrow> 'k"
  s_item :: "'c \<Rightarrow> 'i list"
  s_pop :: "'i \<Rightarrow> 'a \<Rightarrow> 'a"
  s_note :: "bool \<Rightarrow> 'c \<Rightarrow> 'a \<Rightarrow> 'a"
  s_stop :: "'a \<Rightarrow> bool"

type_synonym ('i, 'k, 'a) search_state = "'i list \<times> 'k set \<times> 'a"

fun search_scan :: "('i, 'c, 'k, 'a) search \<Rightarrow> 'c list \<Rightarrow> ('i, 'k, 'a) search_state \<Rightarrow>
    ('i, 'k, 'a) search_state" where
  "search_scan S [] st = st"
| "search_scan S (c # cs) (q, vis, a) =
     (if s_stop S a then (q, vis, a)
      else if s_key S c \<in> vis then search_scan S cs (q, vis, s_note S False c a)
      else search_scan S cs (q @ s_item S c, insert (s_key S c) vis, s_note S True c a))"

definition search_running :: "('i, 'c, 'k, 'a) search \<Rightarrow> ('i, 'k, 'a) search_state \<Rightarrow> bool" where
  "search_running S st \<longleftrightarrow> (case st of (q, vis, a) \<Rightarrow> q \<noteq> [] \<and> \<not> s_stop S a)"

fun search_step :: "('i, 'c, 'k, 'a) search \<Rightarrow> ('i, 'k, 'a) search_state \<Rightarrow>
    ('i, 'k, 'a) search_state" where
  "search_step S ([], vis, a) = ([], vis, a)"
| "search_step S (i # q, vis, a) = search_scan S (s_expand S i) (q, vis, s_pop S i a)"

definition search :: "('i, 'c, 'k, 'a) search \<Rightarrow> ('i, 'k, 'a) search_state \<Rightarrow>
    ('i, 'k, 'a) search_state" where
  "search S st = while (search_running S) (search_step S) st"

definition search_result :: "('i, 'c, 'k, 'a) search \<Rightarrow> ('i, 'k, 'a) search_state \<Rightarrow> 'a" where
  "search_result S st = snd (snd (search S st))"

lemma search_unfold:
  "search S st = (if search_running S st then search S (search_step S st) else st)"
  unfolding search_def by (rule while_unfold)

lemma search_scan_rule:
  assumes "P st"
    and "\<And>c q vis a. c \<in> set cs \<Longrightarrow> P (q, vis, a) \<Longrightarrow> \<not> s_stop S a \<Longrightarrow> s_key S c \<in> vis \<Longrightarrow>
           P (q, vis, s_note S False c a)"
    and "\<And>c q vis a. c \<in> set cs \<Longrightarrow> P (q, vis, a) \<Longrightarrow> \<not> s_stop S a \<Longrightarrow> s_key S c \<notin> vis \<Longrightarrow>
           P (q @ s_item S c, insert (s_key S c) vis, s_note S True c a)"
  shows "P (search_scan S cs st)"
  using assms
proof (induction S cs st rule: search_scan.induct)
  case (2 S c cs q vis a)
  then show ?case by simp
qed simp

section \<open>Termination\<close>

locale bounded_search =
  fixes S :: "('i, 'c, 'k, 'a) search" and U :: "'k set"
  assumes finite_universe: "finite U"
    and key_bounded: "c \<in> set (s_expand S i) \<Longrightarrow> s_key S c \<in> U"
    and item_bounded: "length (s_item S c) \<le> 1"
begin

fun work :: "('i, 'k, 'a) search_state \<Rightarrow> nat" where
  "work (q, vis, a) = card (U - vis) + length q"

lemma work_scan:
  "(\<And>c. c \<in> set cs \<Longrightarrow> s_key S c \<in> U) \<Longrightarrow> work (search_scan S cs st) \<le> work st"
proof (rule search_scan_rule[where P = "\<lambda>st'. work st' \<le> work st"])
  fix c q vis a
  assume U: "\<And>c. c \<in> set cs \<Longrightarrow> s_key S c \<in> U"
    and c: "c \<in> set cs" and le: "work (q, vis, a) \<le> work st" and new: "s_key S c \<notin> vis"
  have "U - insert (s_key S c) vis = (U - vis) - {s_key S c}" by blast
  moreover have "s_key S c \<in> U - vis" using U[OF c] new by blast
  moreover from this have "0 < card (U - vis)"
    using finite_universe by (metis card_gt_0_iff empty_iff finite_Diff)
  ultimately have "card (U - insert (s_key S c) vis) + 1 = card (U - vis)"
    by simp
  with le item_bounded[of c]
  show "work (q @ s_item S c, insert (s_key S c) vis, s_note S True c a) \<le> work st"
    by simp
qed simp_all

lemma work_step:
  assumes "search_running S st"
  shows "work (search_step S st) < work st"
proof -
  obtain i q vis a where st: "st = (i # q, vis, a)"
    using assms by (cases st) (auto simp: search_running_def neq_Nil_conv)
  have "work (search_step S st) \<le> work (q, vis, s_pop S i a)"
    unfolding st search_step.simps by (rule work_scan) (rule key_bounded)
  then show ?thesis by (simp add: st)
qed

lemma search_terminates: "\<exists>t. while_option (search_running S) (search_step S) st = Some t"
  by (rule measure_while_option_Some[where P = "\<lambda>_. True" and f = work]) (auto simp: work_step)

lemma search_rule:
  assumes "P st" and "\<And>st. P st \<Longrightarrow> search_running S st \<Longrightarrow> P (search_step S st)"
  shows "P (search S st) \<and> \<not> search_running S (search S st)"
  unfolding search_def
  by (rule while_rule[where P = P and r = "measure work"]) (auto simp: assms work_step)

end

section \<open>Reachability\<close>

locale keyed_search = bounded_search S U
  for S :: "('i, 'c, 'k, 'a) search" and U :: "'k set" +
  fixes ikey :: "'i \<Rightarrow> 'k"
  assumes item_key: "map ikey (s_item S c) = [s_key S c]"
begin

lemma item_keys: "ikey ` set (s_item S c) = {s_key S c}"
  using item_key[of c] by (metis image_set list.simps(15) list.set(1))

lemma scan_queue:
  assumes "search_scan S cs (q, vis, a) = (q', vis', a')"
  shows "vis \<subseteq> vis' \<and> vis' \<subseteq> vis \<union> s_key S ` set cs \<and>
    (\<exists>new. q' = q @ new \<and> ikey ` set new = vis' - vis \<and> set new \<subseteq> (\<Union>c \<in> set cs. set (s_item S c))) \<and>
    (s_stop S a' \<or> vis' = vis \<union> s_key S ` set cs)"
  using assms
proof (induction cs arbitrary: q vis a)
  case (Cons c cs)
  consider (stop) "s_stop S a" "(q', vis', a') = (q, vis, a)"
    | (seen) "s_key S c \<in> vis" "search_scan S cs (q, vis, s_note S False c a) = (q', vis', a')"
    | (new) "s_key S c \<notin> vis"
        "search_scan S cs (q @ s_item S c, insert (s_key S c) vis, s_note S True c a) = (q', vis', a')"
    using Cons.prems by (auto split: if_splits)
  then show ?case
  proof cases
    case seen
    from Cons.IH[OF seen(2)] obtain new where n: "q' = q @ new" "ikey ` set new = vis' - vis"
      "set new \<subseteq> (\<Union>c \<in> set cs. set (s_item S c))"
      by blast
    show ?thesis
      using Cons.IH[OF seen(2)] seen(1) n by (intro conjI exI[of _ new]) auto
  next
    case new
    from Cons.IH[OF new(2)] obtain more where n: "q' = (q @ s_item S c) @ more"
      "ikey ` set more = vis' - insert (s_key S c) vis"
      "set more \<subseteq> (\<Union>c \<in> set cs. set (s_item S c))"
      by blast
    show ?thesis
      using Cons.IH[OF new(2)] new(1) n
      by (intro conjI exI[of _ "s_item S c @ more"]) (auto simp: item_keys image_Un)
  qed auto
qed auto

lemma scan_effect:
  assumes "search_scan S cs (q, vis, a) = (q', vis', a')"
  shows "vis \<subseteq> vis'" "vis' \<subseteq> vis \<union> s_key S ` set cs"
    "ikey ` set q' = ikey ` set q \<union> (vis' - vis)"
    "s_stop S a' \<or> vis' = vis \<union> s_key S ` set cs"
proof -
  note sq = scan_queue[OF assms]
  from sq show "vis \<subseteq> vis'" "vis' \<subseteq> vis \<union> s_key S ` set cs"
    "s_stop S a' \<or> vis' = vis \<union> s_key S ` set cs"
    by blast+
  from sq obtain new where "q' = q @ new" "ikey ` set new = vis' - vis" by blast
  then show "ikey ` set q' = ikey ` set q \<union> (vis' - vis)" by (simp add: image_Un)
qed

end

locale reach_search = keyed_search S U ikey
  for S :: "('i, 'c, 'k, 'a) search" and U :: "'k set" and ikey :: "'i \<Rightarrow> 'k" +
  fixes R :: "('k \<times> 'k) set"
  assumes expand_succ: "s_key S ` set (s_expand S i) = R `` {ikey i}"
begin

definition reach_inv :: "'k set \<Rightarrow> ('i, 'k, 'a) search_state \<Rightarrow> bool" where
  "reach_inv A st \<longleftrightarrow> (case st of (q, vis, a) \<Rightarrow>
     A \<subseteq> vis \<and> vis \<subseteq> R\<^sup>* `` A \<and> ikey ` set q \<subseteq> vis \<and>
     (s_stop S a \<or> (\<forall>v \<in> vis - ikey ` set q. R `` {v} \<subseteq> vis)))"

lemma reach_inv_step:
  assumes inv: "reach_inv A st" and run: "search_running S st"
  shows "reach_inv A (search_step S st)"
proof -
  obtain i q vis a where st: "st = (i # q, vis, a)" and go: "\<not> s_stop S a"
    using run by (cases st) (auto simp: search_running_def neq_Nil_conv)
  obtain q' vis' a' where sc:
      "search_scan S (s_expand S i) (q, vis, s_pop S i a) = (q', vis', a')"
    by (metis prod_cases3)
  note eff = scan_effect[OF sc, unfolded expand_succ]
  from inv go have A: "A \<subseteq> vis" and R: "vis \<subseteq> R\<^sup>* `` A" and Q: "ikey ` set (i # q) \<subseteq> vis"
    and C: "\<forall>v \<in> vis - ikey ` set (i # q). R `` {v} \<subseteq> vis"
    by (auto simp: st reach_inv_def)
  have "R `` {ikey i} \<subseteq> R\<^sup>* `` A"
  proof
    fix x
    assume "x \<in> R `` {ikey i}"
    moreover have "ikey i \<in> R\<^sup>* `` A" using Q R by auto
    ultimately show "x \<in> R\<^sup>* `` A" by (auto intro: rtrancl.rtrancl_into_rtrancl)
  qed
  with eff(2) R have "vis' \<subseteq> R\<^sup>* `` A" by blast
  moreover have "A \<subseteq> vis'" "ikey ` set q' \<subseteq> vis'" using A Q eff(1,3) by auto
  moreover have "s_stop S a' \<or> (\<forall>v \<in> vis' - ikey ` set q'. R `` {v} \<subseteq> vis')"
  proof (cases "s_stop S a'")
    case False
    with eff(4) have v': "vis' = vis \<union> R `` {ikey i}" by blast
    show ?thesis using C v' eff(3) by auto
  qed simp
  ultimately show ?thesis by (simp add: st sc reach_inv_def)
qed

theorem search_reaches:
  assumes "ikey ` set q = A" and "search S (q, A, a) = (q', vis', a')"
  shows "s_stop S a' \<or> q' = [] \<and> vis' = R\<^sup>* `` A" and "vis' \<subseteq> R\<^sup>* `` A"
proof -
  have "reach_inv A (q, A, a)" using assms(1) by (auto simp: reach_inv_def)
  then have *: "reach_inv A (q', vis', a') \<and> \<not> search_running S (q', vis', a')"
    using search_rule[where P = "reach_inv A", OF _ reach_inv_step] assms(2) by metis
  then show "vis' \<subseteq> R\<^sup>* `` A" by (simp add: reach_inv_def)
  show "s_stop S a' \<or> q' = [] \<and> vis' = R\<^sup>* `` A"
  proof (cases "s_stop S a'")
    case False
    with * have q': "q' = []" and "A \<subseteq> vis'" and "R `` vis' \<subseteq> vis'"
      by (auto simp: reach_inv_def search_running_def)
    then have "R\<^sup>* `` A \<subseteq> vis'"
      by (metis Image_closed_trancl Image_mono subset_refl)
    with * q' show ?thesis by (auto simp: reach_inv_def)
  qed simp
qed

end

section \<open>Listing what is popped, or what is found\<close>

locale popping_search = reach_search S U ikey R
  for S :: "('i, 'c, 'k, 'i list) search" and U :: "'k set" and ikey :: "'i \<Rightarrow> 'k" and R +
  assumes pop_appends: "s_pop S i a = a @ [i]"
    and note_ignores: "s_note S fresh c a = a"
    and no_stop: "\<not> s_stop S a"
begin

definition list_inv :: "('i, 'k, 'i list) search_state \<Rightarrow> bool" where
  "list_inv st \<longleftrightarrow> (case st of (q, vis, a) \<Rightarrow>
     distinct (map ikey (a @ q)) \<and> ikey ` set (a @ q) = vis)"

lemma list_inv_scan: "list_inv st \<Longrightarrow> list_inv (search_scan S cs st)"
proof (rule search_scan_rule[where P = list_inv])
  fix c q vis a
  assume "list_inv (q, vis, a)" and "s_key S c \<notin> vis"
  then show "list_inv (q @ s_item S c, insert (s_key S c) vis, s_note S True c a)"
    using item_key[of c] item_keys[of c]
    by (auto simp: list_inv_def note_ignores image_Un)
qed (simp_all add: list_inv_def note_ignores)

lemma list_inv_step:
  assumes "list_inv st" and "search_running S st"
  shows "list_inv (search_step S st)"
proof -
  obtain i q vis a where st: "st = (i # q, vis, a)"
    using assms(2) by (cases st) (auto simp: search_running_def neq_Nil_conv)
  with assms(1) have "list_inv (q, vis, s_pop S i a)"
    by (auto simp: list_inv_def pop_appends)
  then show ?thesis by (simp add: st list_inv_scan)
qed

theorem popped_reachable:
  assumes "ikey ` set q = A" and "distinct (map ikey q)"
  shows "ikey ` set (search_result S (q, A, [])) = R\<^sup>* `` A"
    and "distinct (map ikey (search_result S (q, A, [])))"
proof -
  obtain q' vis' a' where s: "search S (q, A, []) = (q', vis', a')" by (metis prod_cases3)
  have "list_inv (q, A, [])" using assms by (simp add: list_inv_def)
  then have "list_inv (q', vis', a')"
    using search_rule[where P = list_inv, OF _ list_inv_step] s by metis
  moreover have "q' = []" "vis' = R\<^sup>* `` A"
    using search_reaches(1)[OF assms(1) s] no_stop by auto
  ultimately show "ikey ` set (search_result S (q, A, [])) = R\<^sup>* `` A"
    and "distinct (map ikey (search_result S (q, A, [])))"
    by (simp_all add: list_inv_def search_result_def s)
qed

end

text \<open>
  A search whose accumulator is updated once per newly found id: \<open>mark\<close> is the update.
\<close>

locale marking_search = keyed_search S U ikey
  for S :: "('i, 'c, 'k, 'a) search" and U :: "'k set" and ikey :: "'i \<Rightarrow> 'k" +
  fixes mark :: "'k \<Rightarrow> 'a \<Rightarrow> 'a"
  assumes pop_ignores: "s_pop S i a = a"
    and note_marks: "s_note S fresh c a = (if fresh then mark (s_key S c) a else a)"
begin

definition mark_inv :: "'k set \<Rightarrow> 'a \<Rightarrow> ('i, 'k, 'a) search_state \<Rightarrow> bool" where
  "mark_inv A a0 st \<longleftrightarrow> (case st of (q, vis, a) \<Rightarrow>
     \<exists>ks. distinct ks \<and> set ks \<inter> A = {} \<and> vis = A \<union> set ks \<and> a = fold mark ks a0)"

lemma mark_inv_step:
  assumes "mark_inv A a0 st" and "search_running S st"
  shows "mark_inv A a0 (search_step S st)"
proof -
  obtain i q vis a where st: "st = (i # q, vis, a)"
    using assms(2) by (cases st) (auto simp: search_running_def neq_Nil_conv)
  with assms(1) have "mark_inv A a0 (q, vis, s_pop S i a)"
    by (simp add: mark_inv_def pop_ignores)
  then have "mark_inv A a0 (search_scan S (s_expand S i) (q, vis, s_pop S i a))"
  proof (rule search_scan_rule)
    fix c q vis a
    assume "mark_inv A a0 (q, vis, a)" and new: "s_key S c \<notin> vis"
    then obtain ks where ks: "distinct ks" "set ks \<inter> A = {}" "vis = A \<union> set ks" "a = fold mark ks a0"
      by (auto simp: mark_inv_def)
    show "mark_inv A a0 (q @ s_item S c, insert (s_key S c) vis, s_note S True c a)"
      unfolding mark_inv_def prod.case
      by (rule exI[of _ "ks @ [s_key S c]"]) (use ks new in \<open>auto simp: note_marks\<close>)
  qed (simp add: mark_inv_def note_marks)
  then show ?thesis by (simp add: st)
qed

theorem search_marks:
  assumes "search S (q, A, a0) = (q', vis', a')"
  obtains ks where "distinct ks" "set ks = vis' - A" "A \<subseteq> vis'" "a' = fold mark ks a0"
proof -
  have "mark_inv A a0 (q, A, a0)"
    unfolding mark_inv_def prod.case by (rule exI[of _ "[]"]) simp
  then have "mark_inv A a0 (q', vis', a')"
    using search_rule[where P = "mark_inv A a0", OF _ mark_inv_step] assms by metis
  then obtain ks where "distinct ks" "set ks \<inter> A = {}" "vis' = A \<union> set ks" "a' = fold mark ks a0"
    by (auto simp: mark_inv_def)
  with that[of ks] show thesis by auto
qed

end

text \<open>The list of the found ids is the marking whose update appends.\<close>

locale finding_search = reach_search S U ikey R + marking_search S U ikey "\<lambda>k a. a @ [k]"
  for S :: "('i, 'c, 'k, 'k list) search" and U :: "'k set" and ikey :: "'i \<Rightarrow> 'k" and R +
  assumes no_stop: "\<not> s_stop S a"
begin

theorem found_reachable:
  assumes "ikey ` set q = A"
  shows "set (search_result S (q, A, [])) = R\<^sup>* `` A - A"
    and "distinct (search_result S (q, A, []))"
proof -
  have app: "fold (\<lambda>k a. a @ [k]) ks a = a @ ks" for ks a :: "'k list"
    by (induction ks arbitrary: a) auto
  obtain q' vis' a' where s: "search S (q, A, []) = (q', vis', a')" by (metis prod_cases3)
  obtain ks where ks: "distinct ks" "set ks = vis' - A" "A \<subseteq> vis'" "a' = fold (\<lambda>k a. a @ [k]) ks []"
    by (rule search_marks[OF s])
  have "vis' = R\<^sup>* `` A" using search_reaches(1)[OF assms s] no_stop by auto
  with ks show "set (search_result S (q, A, [])) = R\<^sup>* `` A - A"
    and "distinct (search_result S (q, A, []))"
    by (simp_all add: search_result_def s app)
qed

end

section \<open>Breadth-first layers\<close>

text \<open>
  A search whose items carry their distance from the start and are expanded only below a depth
  limit: it visits exactly the ids within that many steps. The queue never holds items more
  than one layer apart, so the first visit of an id is by a shortest path.
\<close>

definition ball :: "('k \<times> 'k) set \<Rightarrow> 'k \<Rightarrow> nat \<Rightarrow> 'k set" where
  "ball R s n = {w. \<exists>m \<le> n. (s, w) \<in> R ^^ m}"

lemma ball_0 [simp]: "ball R s 0 = {s}"
  by (auto simp: ball_def)

lemma ball_Suc: "ball R s (Suc n) = ball R s n \<union> R `` ball R s n"
proof -
  have "w \<in> ball R s n \<union> R `` ball R s n" if w: "w \<in> ball R s (Suc n)" for w
  proof -
    from w obtain m where m: "m \<le> Suc n" "(s, w) \<in> R ^^ m" by (auto simp: ball_def)
    then show ?thesis by (cases "m \<le> n") (auto simp: ball_def le_Suc_eq)
  qed
  moreover have "w \<in> ball R s (Suc n)" if "w \<in> R `` ball R s n" for w
  proof -
    from that obtain x m where "m \<le> n" "(s, x) \<in> R ^^ m" "(x, w) \<in> R" by (auto simp: ball_def)
    then have "Suc m \<le> Suc n \<and> (s, w) \<in> R ^^ Suc m" by auto
    then show ?thesis unfolding ball_def by blast
  qed
  moreover have "ball R s n \<subseteq> ball R s (Suc n)" by (auto simp: ball_def intro: le_SucI)
  ultimately show ?thesis by blast
qed

lemma ball_closed: "R `` ball R s n \<subseteq> ball R s n \<Longrightarrow> ball R s (n + m) = ball R s n"
  by (induction m) (auto simp: ball_Suc)

lemma ball_subset_rtrancl: "ball R s n \<subseteq> R\<^sup>* `` {s}"
  by (auto simp: ball_def dest: relpow_imp_rtrancl)

locale layered_search = keyed_search S U ikey
  for S :: "('i, 'c, 'k, 'a) search" and U :: "'k set" and ikey :: "'i \<Rightarrow> 'k" +
  fixes depth :: "'i \<Rightarrow> nat" and limit :: nat and R :: "('k \<times> 'k) set"
  assumes item_depth: "c \<in> set (s_expand S i) \<Longrightarrow> j \<in> set (s_item S c) \<Longrightarrow> depth i < limit \<Longrightarrow>
          depth j = Suc (depth i)"
    and expand_below: "depth i < limit \<Longrightarrow> s_key S ` set (s_expand S i) = R `` {ikey i}"
    and expand_limit: "depth i = limit \<Longrightarrow> s_expand S i = []"
    and no_stop: "\<not> s_stop S a"
begin

definition layer :: "nat \<Rightarrow> 'i list \<Rightarrow> 'k set" where
  "layer n q = ikey ` {i \<in> set q. depth i = n}"

text \<open>The invariant while layer \<open>n\<close> is being expanded.\<close>

definition layer_inv :: "'k \<Rightarrow> nat \<Rightarrow> ('i, 'k, 'a) search_state \<Rightarrow> bool" where
  "layer_inv s n st \<longleftrightarrow> (case st of (q, vis, a) \<Rightarrow>
     n \<le> limit \<and> (\<exists>xs ys. q = xs @ ys \<and> (\<forall>i \<in> set xs. depth i = n) \<and> (\<forall>i \<in> set ys. depth i = Suc n)) \<and>
     (n = limit \<longrightarrow> (\<forall>i \<in> set q. depth i = n)) \<and>
     vis = ball R s n \<union> layer (Suc n) q \<and> layer n q \<subseteq> ball R s n \<and>
     layer (Suc n) q \<subseteq> ball R s (Suc n) \<and>
     (n < limit \<longrightarrow> (\<forall>v \<in> ball R s n - layer n q. R `` {v} \<subseteq> vis)))"

lemma layer_next:
  assumes inv: "layer_inv s n (q, vis, a)" and lt: "n < limit" and q: "\<forall>i \<in> set q. depth i = Suc n"
  shows "layer_inv s (Suc n) (q, vis, a)"
proof -
  have e: "layer n q = {}" "layer (Suc (Suc n)) q = {}" using q by (auto simp: layer_def)
  from inv lt have v: "vis = ball R s n \<union> layer (Suc n) q" and b: "layer (Suc n) q \<subseteq> ball R s (Suc n)"
    and c: "\<forall>v \<in> ball R s n. R `` {v} \<subseteq> vis"
    by (auto simp: layer_inv_def e)
  have vis: "vis = ball R s (Suc n)" using v b c by (auto simp: ball_Suc)
  have "\<exists>xs ys. q = xs @ ys \<and> (\<forall>i \<in> set xs. depth i = Suc n) \<and> (\<forall>i \<in> set ys. depth i = Suc (Suc n))"
    by (rule exI[of _ q], rule exI[of _ "[]"]) (use q in simp)
  moreover have "\<forall>v \<in> ball R s (Suc n) - layer (Suc n) q. R `` {v} \<subseteq> vis"
    using c v vis by blast
  ultimately show ?thesis using lt q b vis by (simp add: layer_inv_def e)
qed

lemma layer_expand:
  assumes inv: "layer_inv s n (i # q, vis, a)" and i: "depth i = n"
  shows "layer_inv s n (search_step S (i # q, vis, a))"
proof -
  obtain q' vis' a' where sc: "search_scan S (s_expand S i) (q, vis, s_pop S i a) = (q', vis', a')"
    by (metis prod_cases3)
  note sq = scan_queue[OF sc]
  from inv have n: "n \<le> limit" and top: "n = limit \<longrightarrow> (\<forall>j \<in> set (i # q). depth j = n)"
    and v: "vis = ball R s n \<union> layer (Suc n) (i # q)" and l: "layer n (i # q) \<subseteq> ball R s n"
    and b: "layer (Suc n) (i # q) \<subseteq> ball R s (Suc n)"
    and c: "n < limit \<longrightarrow> (\<forall>v \<in> ball R s n - layer n (i # q). R `` {v} \<subseteq> vis)"
    by (auto simp: layer_inv_def)
  from inv obtain xs ys where split: "i # q = xs @ ys" "\<forall>j \<in> set xs. depth j = n"
    "\<forall>j \<in> set ys. depth j = Suc n"
    by (auto simp: layer_inv_def)
  then have "xs \<noteq> []" using i by (cases xs) auto
  then obtain xs' where xs: "q = xs' @ ys" "\<forall>j \<in> set xs'. depth j = n"
    using split by (cases xs) auto
  have ly: "layer (Suc n) (i # q) = layer (Suc n) q" "layer n (i # q) = insert (ikey i) (layer n q)"
    using i by (auto simp: layer_def)
  show ?thesis
  proof (cases "n < limit")
    case False
    with n i have lim: "n = limit" by simp
    then have "s_expand S i = []" using i by (simp add: expand_limit)
    then have "search_step S (i # q, vis, a) = (q, vis, s_pop S i a)" by simp
    moreover have "\<exists>xs ys. q = xs @ ys \<and> (\<forall>i \<in> set xs. depth i = n) \<and> (\<forall>i \<in> set ys. depth i = Suc n)"
      using xs split(3) by blast
    ultimately show ?thesis using top v l b lim ly by (simp add: layer_inv_def)
  next
    case True
    obtain new where new: "q' = q @ new" "ikey ` set new = vis' - vis"
      "set new \<subseteq> (\<Union>c \<in> set (s_expand S i). set (s_item S c))"
      using sq by blast
    have dnew: "\<forall>j \<in> set new. depth j = Suc n" using new(3) item_depth[of _ i] i True by fastforce
    have vis': "vis' = vis \<union> R `` {ikey i}"
      using sq no_stop[of a'] expand_below[of i] i True by simp
    have "{j \<in> set q'. depth j = Suc n} = {j \<in> set q. depth j = Suc n} \<union> set new"
      and "{j \<in> set q'. depth j = n} = {j \<in> set q. depth j = n}"
      using dnew new(1) by auto
    then have l': "layer n q' = layer n q" "layer (Suc n) q' = layer (Suc n) q \<union> (vis' - vis)"
      using new(2) by (simp_all add: layer_def image_Un)
    have "ikey i \<in> ball R s n" using l ly by simp
    then have "layer (Suc n) q' \<subseteq> ball R s (Suc n)" using b ly l' vis' by (auto simp: ball_Suc)
    moreover have "vis' = ball R s n \<union> layer (Suc n) q'" using v ly l' vis' by auto
    moreover have "\<forall>v \<in> ball R s n - layer n q'. R `` {v} \<subseteq> vis'" using c True ly l' vis' by auto
    moreover have "\<exists>xs ys. q' = xs @ ys \<and> (\<forall>i \<in> set xs. depth i = n) \<and> (\<forall>i \<in> set ys. depth i = Suc n)"
      by (rule exI[of _ xs'], rule exI[of _ "ys @ new"]) (use new(1) xs split(3) dnew in auto)
    moreover have "layer n q' \<subseteq> ball R s n" using l ly l' by simp
    ultimately show ?thesis using True by (simp add: layer_inv_def sc)
  qed
qed

lemma layer_inv_step:
  assumes "\<exists>n. layer_inv s n st" and run: "search_running S st"
  shows "\<exists>n. layer_inv s n (search_step S st)"
proof -
  obtain i q vis a where st: "st = (i # q, vis, a)"
    using run by (cases st) (auto simp: search_running_def neq_Nil_conv)
  from assms(1) obtain n where inv: "layer_inv s n (i # q, vis, a)" by (auto simp: st)
  show ?thesis
  proof (cases "depth i = n")
    case True
    with layer_expand[OF inv] st show ?thesis by blast
  next
    case False
    from inv obtain xs ys where split: "i # q = xs @ ys" "\<forall>j \<in> set xs. depth j = n"
      "\<forall>j \<in> set ys. depth j = Suc n" and "n \<le> limit" "n = limit \<longrightarrow> depth i = n"
      by (auto simp: layer_inv_def)
    then have "n < limit" and all: "\<forall>j \<in> set (i # q). depth j = Suc n"
      using False by (cases xs; auto)+
    have "layer_inv s (Suc n) (search_step S (i # q, vis, a))"
      by (rule layer_expand[OF layer_next[OF inv \<open>n < limit\<close> all]]) (use all in simp)
    then show ?thesis unfolding st by blast
  qed
qed

theorem search_ball:
  assumes "ikey i = s" and "depth i = 0" and "search S ([i], {s}, a) = (q', vis', a')"
  shows "vis' = ball R s limit"
proof -
  have "layer_inv s 0 ([i], {s}, a)"
    unfolding layer_inv_def prod.case
  proof (intro conjI)
    show "\<exists>xs ys. [i] = xs @ ys \<and> (\<forall>i \<in> set xs. depth i = 0) \<and> (\<forall>i \<in> set ys. depth i = Suc 0)"
      by (rule exI[of _ "[i]"]) (use assms(2) in simp)
  qed (use assms(1,2) in \<open>auto simp: layer_def\<close>)
  then have "\<exists>n. layer_inv s n ([i], {s}, a)" by blast
  then have *: "(\<exists>n. layer_inv s n (q', vis', a')) \<and> \<not> search_running S (q', vis', a')"
    using search_rule[where P = "\<lambda>st. \<exists>n. layer_inv s n st", OF _ layer_inv_step] assms(3) by metis
  then have "q' = []" using no_stop by (simp add: search_running_def)
  with * obtain n where n: "n \<le> limit" "vis' = ball R s n"
    and c: "n < limit \<longrightarrow> (\<forall>v \<in> ball R s n. R `` {v} \<subseteq> vis')"
    by (auto simp: layer_inv_def layer_def)
  show ?thesis
  proof (cases "n < limit")
    case True
    then have "R `` ball R s n \<subseteq> ball R s n" using c n(2) by blast
    from ball_closed[OF this, of "limit - n"] n show ?thesis by simp
  qed (use n in simp)
qed

end

end
