(* ===== verification/Readiness.thy ===== *)
theory Readiness
  imports GraphTypes Search
begin

text \<open>
  \<open>src/graph/readiness.cpp\<close>: evaluation of an edge and of a dependency set, recomputation of
  one node's derived state, of the closure of some roots and of the whole graph, and the
  explanations derived from the same evaluation.

  Out-parameters of the C++ (\<open>blockers\<close>, \<open>blocked\<close>, \<open>degraded\<close>, \<open>stale\<close>) are the fields of
  the accumulator \<open>eval_acc\<close>, which every check takes and returns.
\<close>

section \<open>Coarse classification of kinds and states\<close>

definition is_gate_kind :: "node_kind \<Rightarrow> bool" where
  "is_gate_kind k \<longleftrightarrow> k = NK_WORKLOAD_PHASE \<or> k = NK_SERVICE"

definition requires_own_generation :: "node_kind \<Rightarrow> bool" where
  "requires_own_generation k = (case k of NK_WORKLOAD_PHASE \<Rightarrow> False | _ \<Rightarrow> True)"

fun readiness_rank :: "readiness_state \<Rightarrow> int" where
  "readiness_rank RS_READY = 100"
| "readiness_rank RS_PRESENT = 80"
| "readiness_rank RS_VALIDATING = 70"
| "readiness_rank RS_DEGRADED = 60"
| "readiness_rank RS_DISCOVERED = 50"
| "readiness_rank RS_DECLARED = 40"
| "readiness_rank RS_RECOVERING = 30"
| "readiness_rank RS_STALE = 20"
| "readiness_rank RS_REVALIDATION_REQUIRED = 16"
| "readiness_rank RS_SUPERSEDED = 14"
| "readiness_rank RS_INVALIDATED = 12"
| "readiness_rank RS_BLOCKED = 10"
| "readiness_rank RS_MISSING = 5"
| "readiness_rank RS_FAILED = 3"
| "readiness_rank RS_UNKNOWN = 1"
| "readiness_rank RS_RETIRED = 0"
| "readiness_rank (RS_raw _) = 1"

definition hmax :: "node_generation list \<Rightarrow> u64" where
  "hmax gens = fold (\<lambda>g m. max m (strong_value g)) gens 0"

fun outcome_for_state :: "readiness_state \<Rightarrow> outcome" where
  "outcome_for_state RS_READY = OC_READY"
| "outcome_for_state RS_DEGRADED = OC_DEGRADED"
| "outcome_for_state RS_STALE = OC_RECOMPUTE_REQUIRED"
| "outcome_for_state RS_INVALIDATED = OC_RECOVERY_REQUIRED"
| "outcome_for_state RS_REVALIDATION_REQUIRED = OC_REVALIDATION_REQUIRED"
| "outcome_for_state RS_MISSING = OC_RECOVERY_REQUIRED"
| "outcome_for_state RS_FAILED = OC_RECOVERY_REQUIRED"
| "outcome_for_state RS_RECOVERING = OC_RECOVERY_REQUIRED"
| "outcome_for_state RS_BLOCKED = OC_BLOCKED"
| "outcome_for_state RS_SUPERSEDED = OC_REVALIDATION_REQUIRED"
| "outcome_for_state RS_DECLARED = OC_REVALIDATION_REQUIRED"
| "outcome_for_state RS_PRESENT = OC_REVALIDATION_REQUIRED"
| "outcome_for_state RS_DISCOVERED = OC_REVALIDATION_REQUIRED"
| "outcome_for_state RS_VALIDATING = OC_REVALIDATION_REQUIRED"
| "outcome_for_state RS_UNKNOWN = OC_UNKNOWN"
| "outcome_for_state RS_RETIRED = OC_UNKNOWN"
| "outcome_for_state (RS_raw _) = OC_UNKNOWN"

definition meets_readiness_constraint :: "readiness_state \<Rightarrow> readiness_state \<Rightarrow> bool" where
  "meets_readiness_constraint actual required \<longleftrightarrow> readiness_rank required \<le> readiness_rank actual"

text \<open>
  The out-parameters \<open>required\<close> and \<open>kind\<close> are threaded as the last two arguments and results.
\<close>

definition meets_generation_constraint ::
  "node \<Rightarrow> dependency_predicate \<Rightarrow> node_generation \<Rightarrow> generation_predicate_kind \<Rightarrow>
   bool \<times> node_generation \<times> generation_predicate_kind" where
  "meets_generation_constraint producer pred required kind =
     (let cur = nd_current_generation producer in
      case pr_generation_kind pred of
        GP_NONE \<Rightarrow> (True, required, GP_NONE)
      | GP_EXACT \<Rightarrow>
          (valid cur \<and> strong_value cur = strong_value (pr_exact_generation pred),
           pr_exact_generation pred, GP_EXACT)
      | GP_MINIMUM \<Rightarrow>
          (valid cur \<and> strong_value (pr_minimum_generation pred) \<le> strong_value cur,
           pr_minimum_generation pred, GP_MINIMUM)
      | GP_COMPATIBLE_SET \<Rightarrow>
          (if \<not> valid cur then (False, required, GP_COMPATIBLE_SET)
           else if list_ex (\<lambda>g. strong_value g = strong_value cur) (pr_compatible_generations pred)
           then (True, required, GP_COMPATIBLE_SET)
           else (False, cur, GP_COMPATIBLE_SET))
      | GP_raw _ \<Rightarrow> (False, required, kind))"

section \<open>Evaluation of one edge\<close>

record eval_acc =
  ea_blockers :: "blocking_dependency list"
  ea_blocked :: bool
  ea_degraded :: bool
  ea_stale :: bool

definition empty_acc :: eval_acc where
  "empty_acc = \<lparr>ea_blockers = [], ea_blocked = False, ea_degraded = False, ea_stale = False\<rparr>"

definition add_blocker ::
  "edge \<Rightarrow> node option \<Rightarrow> string \<Rightarrow> generation_predicate_kind \<Rightarrow> node_generation \<Rightarrow>
   node_generation \<Rightarrow> eval_acc \<Rightarrow> eval_acc" where
  "add_blocker e p reason kind reqg actual acc =
     acc\<lparr>ea_blockers := ea_blockers acc @
       [\<lparr>bd_edge_id = ed_id e, bd_edge_generation = ed_generation e,
         bd_producer = ed_producer_id e,
         bd_producer_kind = (case p of None \<Rightarrow> NK_UNKNOWN | Some n \<Rightarrow> nd_kind n),
         bd_kind = ed_kind e, bd_optional = (\<not> edge_required e),
         bd_is_set_member = False, bd_set_label = [],
         bd_constraint_kind = kind, bd_required_generation = reqg,
         bd_actual_generation = actual, bd_reason = reason\<rparr>]\<rparr>"

text \<open>
  \<open>if (req) { blocked = true; add_blocker(..) } else { degraded = true; add_blocker(..) }\<close>
\<close>

definition unmet :: "edge \<Rightarrow> node option \<Rightarrow> string \<Rightarrow> string \<Rightarrow> eval_acc \<Rightarrow> eval_acc" where
  "unmet e p req_reason opt_reason acc =
     (if edge_required e
      then add_blocker e p req_reason GP_NONE null_strong null_strong (acc\<lparr>ea_blocked := True\<rparr>)
      else add_blocker e p opt_reason GP_NONE null_strong null_strong (acc\<lparr>ea_degraded := True\<rparr>))"

definition generation_advanced :: "edge \<Rightarrow> node \<Rightarrow> bool" where
  "generation_advanced e p \<longleftrightarrow>
     (let pr = ed_predicate e; cur = nd_current_generation p in
      (pr_generation_kind pr = GP_EXACT \<and> valid cur \<and>
       strong_value (pr_exact_generation pr) < strong_value cur) \<or>
      (pr_generation_kind pr = GP_COMPATIBLE_SET \<and> pr_compatible_generations pr \<noteq> [] \<and>
       valid cur \<and> hmax (pr_compatible_generations pr) < strong_value cur))"

definition check_generation :: "edge \<Rightarrow> node \<Rightarrow> eval_acc \<Rightarrow> eval_acc" where
  "check_generation e p acc =
     (case meets_generation_constraint p (ed_predicate e) null_strong GP_NONE of
        (gen_ok, reqg, kind) \<Rightarrow>
          if gen_ok then acc
          else if generation_advanced e p then
            (add_blocker e (Some p)
               ''producer generation advanced beyond pinned dependency generation; node is STALE''
               kind reqg (nd_current_generation p) (acc\<lparr>ea_stale := True\<rparr>))\<lparr>ea_degraded := True\<rparr>
          else if edge_required e then
            add_blocker e (Some p)
              ''producer generation does not satisfy required generation constraint (not yet available)''
              kind reqg (nd_current_generation p) (acc\<lparr>ea_blocked := True\<rparr>)
          else
            add_blocker e (Some p)
              ''optional producer generation does not satisfy generation constraint''
              kind reqg (nd_current_generation p) (acc\<lparr>ea_degraded := True\<rparr>))"

definition check_readiness :: "edge \<Rightarrow> node \<Rightarrow> eval_acc \<Rightarrow> eval_acc" where
  "check_readiness e p acc =
     (if meets_readiness_constraint (nd_state p) (pr_required_readiness (ed_predicate e)) then acc
      else
        let reason = ''producer readiness '' @ readiness_state_name (nd_state p) @
                     '' does not meet required '' @
                     readiness_state_name (pr_required_readiness (ed_predicate e))
        in if edge_required e then
             (if nd_state p = RS_STALE \<or> nd_state p = RS_SUPERSEDED
              then add_blocker e (Some p) reason GP_NONE null_strong null_strong
                     (acc\<lparr>ea_stale := True\<rparr>)
              else add_blocker e (Some p) reason GP_NONE null_strong null_strong
                     (acc\<lparr>ea_blocked := True\<rparr>))
           else add_blocker e (Some p) reason GP_NONE null_strong null_strong
                  (acc\<lparr>ea_degraded := True\<rparr>))"

text \<open>
  The remaining facts are read from the attached adapter, or from the node when there is none.
\<close>

definition resource_fact :: "graph \<Rightarrow> node_id \<Rightarrow> node \<Rightarrow> bool" where
  "resource_fact g i p =
     (case gr_adapter g of Some a \<Rightarrow> ad_resource_available a i | None \<Rightarrow> nd_resource_available p)"

definition capability_fact :: "graph \<Rightarrow> node_id \<Rightarrow> node \<Rightarrow> string \<Rightarrow> bool" where
  "capability_fact g i p cap =
     (case gr_adapter g of Some a \<Rightarrow> ad_capability_claimed a i cap
      | None \<Rightarrow> list_ex (\<lambda>c. c = cap) (nd_claimed_capabilities p))"

definition freshness_fact :: "graph \<Rightarrow> node_id \<Rightarrow> node \<Rightarrow> bool" where
  "freshness_fact g i p =
     (case gr_adapter g of Some a \<Rightarrow> ad_freshness_ok a i | None \<Rightarrow> nd_freshness_valid p)"

definition integrity_fact :: "graph \<Rightarrow> node_id \<Rightarrow> node \<Rightarrow> bool" where
  "integrity_fact g i p =
     (case gr_adapter g of Some a \<Rightarrow> ad_integrity_ok a i | None \<Rightarrow> nd_integrity_valid p)"

definition provenance_fact :: "graph \<Rightarrow> node_id \<Rightarrow> node \<Rightarrow> u64" where
  "provenance_fact g i p =
     (case gr_adapter g of Some a \<Rightarrow> ad_provenance_confidence a i
      | None \<Rightarrow> nd_provenance_confidence p)"

definition completion_fact :: "graph \<Rightarrow> node_id \<Rightarrow> node \<Rightarrow> string" where
  "completion_fact g i p =
     (case gr_adapter g of Some a \<Rightarrow> ad_completion_state a i | None \<Rightarrow> nd_completion_state p)"

definition check_resource :: "graph \<Rightarrow> edge \<Rightarrow> node \<Rightarrow> eval_acc \<Rightarrow> eval_acc" where
  "check_resource g e p acc =
     (if pr_requires_resource_available (ed_predicate e) \<and> \<not> resource_fact g (ed_producer_id e) p
      then unmet e (Some p) ''required resource is not available''
             ''optional resource is not available'' acc
      else acc)"

definition check_capability :: "graph \<Rightarrow> edge \<Rightarrow> node \<Rightarrow> eval_acc \<Rightarrow> eval_acc" where
  "check_capability g e p acc =
     (let cap = pr_required_capability (ed_predicate e) in
      if cap \<noteq> [] \<and> \<not> capability_fact g (ed_producer_id e) p cap
      then unmet e (Some p)
             (''required capability '' @ [CHR 0x27] @ cap @ [CHR 0x27] @ '' is not claimed'')
             (''optional capability '' @ [CHR 0x27] @ cap @ [CHR 0x27] @ '' is not claimed'') acc
      else acc)"

definition check_freshness :: "graph \<Rightarrow> edge \<Rightarrow> node \<Rightarrow> eval_acc \<Rightarrow> eval_acc" where
  "check_freshness g e p acc =
     (if pr_requires_fresh (ed_predicate e) \<and> \<not> freshness_fact g (ed_producer_id e) p
      then unmet e (Some p) ''producer freshness has expired''
             ''optional producer freshness has expired'' acc
      else acc)"

definition check_integrity :: "graph \<Rightarrow> edge \<Rightarrow> node \<Rightarrow> eval_acc \<Rightarrow> eval_acc" where
  "check_integrity g e p acc =
     (if pr_requires_integrity (ed_predicate e) \<and> \<not> integrity_fact g (ed_producer_id e) p
      then unmet e (Some p) ''producer integrity validation failed''
             ''optional producer integrity validation failed'' acc
      else acc)"

definition check_provenance :: "graph \<Rightarrow> edge \<Rightarrow> node \<Rightarrow> eval_acc \<Rightarrow> eval_acc" where
  "check_provenance g e p acc =
     (let needed = pr_minimal_provenance_confidence (ed_predicate e) in
      if 0 < needed \<and> provenance_fact g (ed_producer_id e) p < needed
      then unmet e (Some p) ''provenance confidence below required threshold''
             ''optional provenance confidence below required threshold'' acc
      else acc)"

definition check_completion :: "graph \<Rightarrow> edge \<Rightarrow> node \<Rightarrow> eval_acc \<Rightarrow> eval_acc" where
  "check_completion g e p acc =
     (let needed = pr_required_completion_state (ed_predicate e) in
      if needed \<noteq> [] \<and> completion_fact g (ed_producer_id e) p \<noteq> needed
      then unmet e (Some p) ''producer completion state does not match required''
             ''optional producer completion state does not match required'' acc
      else acc)"

definition eval_edge_locked :: "graph \<Rightarrow> edge \<Rightarrow> eval_acc \<Rightarrow> outcome \<times> eval_acc" where
  "eval_edge_locked g e acc =
     (case find_node g (ed_producer_id e) of
        None \<Rightarrow>
          (if edge_required e then OC_BLOCKED else OC_DEGRADED,
           unmet e None ''prerequisite node is missing/unknown''
             ''optional prerequisite is missing/unknown'' acc)
      | Some p \<Rightarrow>
          let acc1 = check_generation e p acc;
              acc2 = check_readiness e p acc1;
              acc3 = check_resource g e p acc2;
              acc4 = check_capability g e p acc3;
              acc5 = check_freshness g e p acc4;
              acc6 = check_integrity g e p acc5;
              acc7 = check_provenance g e p acc6;
              acc8 = check_completion g e p acc7
          in (if ea_blocked acc8 then OC_BLOCKED
              else if ea_degraded acc8 then OC_DEGRADED else OC_READY, acc8))"

section \<open>Evaluation of a dependency set\<close>

record set_scan =
  ss_total :: u32
  ss_ok_count :: u32
  ss_any_optional_fail :: bool
  ss_any_failed :: bool
  ss_blockers :: "blocking_dependency list"
  ss_stale :: bool

definition eval_member :: "graph \<Rightarrow> edge_id \<Rightarrow> set_scan \<Rightarrow> set_scan" where
  "eval_member g eid s =
     (case find_edge g eid of
        None \<Rightarrow> s
      | Some e \<Rightarrow>
          if \<not> ed_active e then s
          else
            let acc = snd (eval_edge_locked g e empty_acc);
                local_blockers = map (\<lambda>b. b\<lparr>bd_is_set_member := True\<rparr>) (ea_blockers acc);
                s1 = s\<lparr>ss_total := ss_total s + 1, ss_blockers := ss_blockers s @ local_blockers\<rparr>
            in if ea_blocked acc then s1\<lparr>ss_any_failed := True\<rparr>
               else if ea_degraded acc \<and> edge_required e then
                 s1\<lparr>ss_ok_count := ss_ok_count s + 1,
                    ss_stale := (ss_stale s \<or> ea_stale acc),
                    ss_any_optional_fail := (ss_any_optional_fail s \<or> \<not> edge_required e)\<rparr>
               else if ea_degraded acc \<and> \<not> edge_required e then
                 s1\<lparr>ss_any_optional_fail := True\<rparr>
               else
                 s1\<lparr>ss_ok_count := ss_ok_count s + 1, ss_stale := (ss_stale s \<or> ea_stale acc)\<rparr>)"

definition set_satisfied :: "dependency_set \<Rightarrow> u32 \<Rightarrow> u32 \<Rightarrow> bool" where
  "set_satisfied s tot ok_count =
     (case ds_op s of
        SO_ALL_OF \<Rightarrow> ok_count = tot
      | SO_ANY_OF \<Rightarrow> 1 \<le> ok_count
      | SO_AT_LEAST_N \<Rightarrow> ds_at_least_n s \<le> ok_count
      | SO_OPTIONAL_GROUP \<Rightarrow> True)"

definition eval_set_locked ::
  "graph \<Rightarrow> dependency_set \<Rightarrow> eval_acc \<Rightarrow> outcome \<times> eval_acc \<times> u32" where
  "eval_set_locked g s acc =
     (let r = fold (eval_member g) (ds_members s)
                \<lparr>ss_total = 0, ss_ok_count = 0, ss_any_optional_fail = False,
                 ss_any_failed = False, ss_blockers = ea_blockers acc, ss_stale = ea_stale acc\<rparr>
      in if set_satisfied s (ss_total r) (ss_ok_count r) then
           (OC_READY,
            acc\<lparr>ea_blockers := take (length (ea_blockers acc)) (ss_blockers r),
                ea_stale := ss_stale r,
                ea_degraded := (ea_degraded acc \<or> ss_any_optional_fail r \<or> ss_stale r \<or>
                  (ds_op s = SO_OPTIONAL_GROUP \<and> ss_any_failed r))\<rparr>,
            ss_ok_count r)
         else
           (OC_BLOCKED,
            acc\<lparr>ea_blockers := ss_blockers r, ea_stale := ss_stale r, ea_blocked := True\<rparr>,
            ss_ok_count r))"

section \<open>Recomputation of one node\<close>

text \<open>
  \<open>eval_sets\<close> runs over the sets of the node and collects the member edges of the active ones;
  \<open>eval_implicit\<close> runs over the inbound edges that belong to no active set.
\<close>

definition eval_sets :: "graph \<Rightarrow> set_id list \<Rightarrow> eval_acc \<times> edge_id list \<Rightarrow>
    eval_acc \<times> edge_id list" where
  "eval_sets g sids st =
     fold (\<lambda>sid (acc, members).
       case find_set g sid of
         None \<Rightarrow> (acc, members)
       | Some s \<Rightarrow>
           if \<not> ds_active s then (acc, members)
           else (fst (snd (eval_set_locked g s acc)), members @ ds_members s)) sids st"

definition eval_implicit :: "graph \<Rightarrow> edge_id list \<Rightarrow> edge_id list \<Rightarrow> eval_acc \<Rightarrow> eval_acc" where
  "eval_implicit g members eids acc =
     fold (\<lambda>eid acc.
       if eid \<in> set members then acc
       else case find_edge g eid of
              None \<Rightarrow> acc
            | Some e \<Rightarrow> if \<not> ed_active e then acc else snd (eval_edge_locked g e acc)) eids acc"

definition eval_node :: "graph \<Rightarrow> node_id \<Rightarrow> eval_acc" where
  "eval_node g i =
     (case eval_sets g (ix_at i (gr_node_sets g)) (empty_acc, []) of
        (acc, members) \<Rightarrow> eval_implicit g members (ix_at i (gr_in_edges g)) acc)"

definition derived_state :: "node \<Rightarrow> eval_acc \<Rightarrow> readiness_state" where
  "derived_state n acc =
     (if ea_blocked acc then RS_BLOCKED
      else if ea_stale acc then (if is_gate_kind (nd_kind n) then RS_BLOCKED else RS_STALE)
      else if ea_degraded acc then RS_DEGRADED
      else if requires_own_generation (nd_kind n) \<and> \<not> valid (nd_current_generation n)
      then RS_DECLARED
      else RS_READY)"

definition escape_state :: "readiness_state \<Rightarrow> bool" where
  "escape_state s \<longleftrightarrow> s \<in> {RS_RETIRED, RS_MISSING, RS_FAILED, RS_RECOVERING}"

definition touch :: "node \<Rightarrow> node" where
  "touch n = n\<lparr>nd_readiness_generation := next_counter (nd_readiness_generation n)\<rparr>"

definition recompute_node_locked :: "graph \<Rightarrow> node_id \<Rightarrow> outcome \<times> graph" where
  "recompute_node_locked g i =
     (case find_node g i of
        None \<Rightarrow> (OC_REJECT_UNKNOWN_DEPENDENCY, g)
      | Some n \<Rightarrow>
          if escape_state (nd_state n) then (OC_ACCEPTED, put_node i (touch n) g)
          else if nd_state n = RS_INVALIDATED then (OC_ACCEPTED, put_node i (touch n) g)
          else if nd_dynamic_evidence n \<and> nd_recovered_evidence n = DE_REVALIDATION_REQUIRED then
            (OC_REVALIDATION_REQUIRED,
             if nd_state n \<noteq> RS_REVALIDATION_REQUIRED
             then put_node i (touch (n\<lparr>nd_state := RS_REVALIDATION_REQUIRED\<rparr>)) g else g)
          else
            let derived = derived_state n (eval_node g i) in
            (outcome_for_state derived,
             if nd_state n \<noteq> derived then put_node i (touch (n\<lparr>nd_state := derived\<rparr>)) g else g))"

definition recompute_nodes :: "node_id list \<Rightarrow> graph \<Rightarrow> graph" where
  "recompute_nodes order g = fold (\<lambda>i g. snd (recompute_node_locked g i)) order g"

section \<open>What the evaluation of an edge means\<close>

text \<open>
  A declarative reading of one edge against the current producer: the generation constraint,
  the readiness level, and the evidence facts. \<open>edge_satisfied\<close> is the contract a consumer
  relies on; the three ways to fall short of it are \<open>edge_hard\<close> (the consumer must block),
  \<open>edge_stale\<close> (it is built on a superseded lineage) and \<open>edge_soft\<close> (it degrades).
\<close>

definition generation_ok :: "edge \<Rightarrow> node \<Rightarrow> bool" where
  "generation_ok e p =
     (let pr = ed_predicate e; cur = nd_current_generation p in
      case pr_generation_kind pr of
        GP_NONE \<Rightarrow> True
      | GP_EXACT \<Rightarrow> valid cur \<and> cur = pr_exact_generation pr
      | GP_MINIMUM \<Rightarrow> valid cur \<and> pr_minimum_generation pr \<le> cur
      | GP_COMPATIBLE_SET \<Rightarrow> valid cur \<and> cur \<in> set (pr_compatible_generations pr)
      | GP_raw _ \<Rightarrow> False)"

definition level_ok :: "edge \<Rightarrow> node \<Rightarrow> bool" where
  "level_ok e p \<longleftrightarrow> meets_readiness_constraint (nd_state p) (pr_required_readiness (ed_predicate e))"

definition evidence_ok :: "graph \<Rightarrow> edge \<Rightarrow> node \<Rightarrow> bool" where
  "evidence_ok g e p \<longleftrightarrow>
     (let pr = ed_predicate e; i = ed_producer_id e in
      (pr_requires_resource_available pr \<longrightarrow> resource_fact g i p) \<and>
      (pr_required_capability pr \<noteq> [] \<longrightarrow> capability_fact g i p (pr_required_capability pr)) \<and>
      (pr_requires_fresh pr \<longrightarrow> freshness_fact g i p) \<and>
      (pr_requires_integrity pr \<longrightarrow> integrity_fact g i p) \<and>
      pr_minimal_provenance_confidence pr \<le> provenance_fact g i p \<and>
      (pr_required_completion_state pr \<noteq> [] \<longrightarrow>
         completion_fact g i p = pr_required_completion_state pr))"

definition lineage_stale :: "node \<Rightarrow> bool" where
  "lineage_stale p \<longleftrightarrow> nd_state p = RS_STALE \<or> nd_state p = RS_SUPERSEDED"

definition edge_satisfied :: "graph \<Rightarrow> edge \<Rightarrow> bool" where
  "edge_satisfied g e \<longleftrightarrow>
     (case find_node g (ed_producer_id e) of None \<Rightarrow> False
      | Some p \<Rightarrow> generation_ok e p \<and> level_ok e p \<and> evidence_ok g e p)"

definition edge_hard :: "graph \<Rightarrow> edge \<Rightarrow> bool" where
  "edge_hard g e \<longleftrightarrow> edge_required e \<and>
     (case find_node g (ed_producer_id e) of None \<Rightarrow> True
      | Some p \<Rightarrow> (\<not> generation_ok e p \<and> \<not> generation_advanced e p) \<or>
                  (\<not> level_ok e p \<and> \<not> lineage_stale p) \<or> \<not> evidence_ok g e p)"

definition edge_stale :: "graph \<Rightarrow> edge \<Rightarrow> bool" where
  "edge_stale g e \<longleftrightarrow>
     (case find_node g (ed_producer_id e) of None \<Rightarrow> False
      | Some p \<Rightarrow> (\<not> generation_ok e p \<and> generation_advanced e p) \<or>
                  (edge_required e \<and> \<not> level_ok e p \<and> lineage_stale p))"

definition edge_soft :: "graph \<Rightarrow> edge \<Rightarrow> bool" where
  "edge_soft g e \<longleftrightarrow>
     (case find_node g (ed_producer_id e) of None \<Rightarrow> \<not> edge_required e
      | Some p \<Rightarrow> (\<not> generation_ok e p \<and> (generation_advanced e p \<or> \<not> edge_required e)) \<or>
                  (\<not> edge_required e \<and> (\<not> level_ok e p \<or> \<not> evidence_ok g e p)))"

named_theorems check_simps \<open>flags after one check of an edge\<close>

lemma add_blocker_flags [check_simps]:
  "ea_blocked (add_blocker e p r k rg ag acc) = ea_blocked acc"
  "ea_degraded (add_blocker e p r k rg ag acc) = ea_degraded acc"
  "ea_stale (add_blocker e p r k rg ag acc) = ea_stale acc"
  by (simp_all add: add_blocker_def)

lemma unmet_flags [check_simps]:
  "ea_blocked (unmet e p r o' acc) = (ea_blocked acc \<or> edge_required e)"
  "ea_degraded (unmet e p r o' acc) = (ea_degraded acc \<or> \<not> edge_required e)"
  "ea_stale (unmet e p r o' acc) = ea_stale acc"
  by (simp_all add: unmet_def check_simps)

lemma generation_constraint_ok:
  "fst (meets_generation_constraint p (ed_predicate e) rg k) = generation_ok e p"
  by (auto simp: meets_generation_constraint_def generation_ok_def less_eq_strong_def Let_def
      list_ex_iff split: generation_predicate_kind.split)

lemma check_generation_flags [check_simps]:
  "ea_blocked (check_generation e p acc) =
     (ea_blocked acc \<or> (edge_required e \<and> \<not> generation_ok e p \<and> \<not> generation_advanced e p))"
  "ea_degraded (check_generation e p acc) =
     (ea_degraded acc \<or> (\<not> generation_ok e p \<and> (generation_advanced e p \<or> \<not> edge_required e)))"
  "ea_stale (check_generation e p acc) =
     (ea_stale acc \<or> (\<not> generation_ok e p \<and> generation_advanced e p))"
  using generation_constraint_ok[of p e null_strong GP_NONE]
  by (auto simp: check_generation_def check_simps split: prod.splits)

lemma check_readiness_flags [check_simps]:
  "ea_blocked (check_readiness e p acc) =
     (ea_blocked acc \<or> (edge_required e \<and> \<not> level_ok e p \<and> \<not> lineage_stale p))"
  "ea_degraded (check_readiness e p acc) =
     (ea_degraded acc \<or> (\<not> edge_required e \<and> \<not> level_ok e p))"
  "ea_stale (check_readiness e p acc) =
     (ea_stale acc \<or> (edge_required e \<and> \<not> level_ok e p \<and> lineage_stale p))"
  by (auto simp: check_readiness_def level_ok_def lineage_stale_def check_simps Let_def)

text \<open>Each evidence check either passes or is one \<open>unmet\<close> fact.\<close>

lemmas evidence_checks = check_resource_def check_capability_def check_freshness_def
  check_integrity_def check_provenance_def check_completion_def

definition check_evidence :: "graph \<Rightarrow> edge \<Rightarrow> node \<Rightarrow> eval_acc \<Rightarrow> eval_acc" where
  "check_evidence g e p acc =
     check_completion g e p (check_provenance g e p (check_integrity g e p
       (check_freshness g e p (check_capability g e p (check_resource g e p acc)))))"

lemma provenance_le_iff: "(0 < (m::u64) \<longrightarrow> \<not> c < m) \<longleftrightarrow> m \<le> c"
  by (metis not_less word_coorder.extremum word_gt_0)

lemma evidence_check_blocked:
  "ea_blocked (check_resource g e p acc) = (ea_blocked acc \<or> (edge_required e \<and>
     pr_requires_resource_available (ed_predicate e) \<and> \<not> resource_fact g (ed_producer_id e) p))"
  "ea_blocked (check_capability g e p acc) = (ea_blocked acc \<or> (edge_required e \<and>
     pr_required_capability (ed_predicate e) \<noteq> [] \<and>
     \<not> capability_fact g (ed_producer_id e) p (pr_required_capability (ed_predicate e))))"
  "ea_blocked (check_freshness g e p acc) = (ea_blocked acc \<or> (edge_required e \<and>
     pr_requires_fresh (ed_predicate e) \<and> \<not> freshness_fact g (ed_producer_id e) p))"
  "ea_blocked (check_integrity g e p acc) = (ea_blocked acc \<or> (edge_required e \<and>
     pr_requires_integrity (ed_predicate e) \<and> \<not> integrity_fact g (ed_producer_id e) p))"
  "ea_blocked (check_provenance g e p acc) = (ea_blocked acc \<or> (edge_required e \<and>
     \<not> pr_minimal_provenance_confidence (ed_predicate e) \<le> provenance_fact g (ed_producer_id e) p))"
  "ea_blocked (check_completion g e p acc) = (ea_blocked acc \<or> (edge_required e \<and>
     pr_required_completion_state (ed_predicate e) \<noteq> [] \<and>
     completion_fact g (ed_producer_id e) p \<noteq> pr_required_completion_state (ed_predicate e)))"
  unfolding provenance_le_iff[symmetric]
  by (auto simp: evidence_checks Let_def check_simps)

lemma evidence_check_degraded:
  "ea_degraded (check_resource g e p acc) = (ea_degraded acc \<or> (\<not> edge_required e \<and>
     pr_requires_resource_available (ed_predicate e) \<and> \<not> resource_fact g (ed_producer_id e) p))"
  "ea_degraded (check_capability g e p acc) = (ea_degraded acc \<or> (\<not> edge_required e \<and>
     pr_required_capability (ed_predicate e) \<noteq> [] \<and>
     \<not> capability_fact g (ed_producer_id e) p (pr_required_capability (ed_predicate e))))"
  "ea_degraded (check_freshness g e p acc) = (ea_degraded acc \<or> (\<not> edge_required e \<and>
     pr_requires_fresh (ed_predicate e) \<and> \<not> freshness_fact g (ed_producer_id e) p))"
  "ea_degraded (check_integrity g e p acc) = (ea_degraded acc \<or> (\<not> edge_required e \<and>
     pr_requires_integrity (ed_predicate e) \<and> \<not> integrity_fact g (ed_producer_id e) p))"
  "ea_degraded (check_provenance g e p acc) = (ea_degraded acc \<or> (\<not> edge_required e \<and>
     \<not> pr_minimal_provenance_confidence (ed_predicate e) \<le> provenance_fact g (ed_producer_id e) p))"
  "ea_degraded (check_completion g e p acc) = (ea_degraded acc \<or> (\<not> edge_required e \<and>
     pr_required_completion_state (ed_predicate e) \<noteq> [] \<and>
     completion_fact g (ed_producer_id e) p \<noteq> pr_required_completion_state (ed_predicate e)))"
  unfolding provenance_le_iff[symmetric]
  by (auto simp: evidence_checks Let_def check_simps)

lemma evidence_check_stale:
  "ea_stale (check_resource g e p acc) = ea_stale acc"
  "ea_stale (check_capability g e p acc) = ea_stale acc"
  "ea_stale (check_freshness g e p acc) = ea_stale acc"
  "ea_stale (check_integrity g e p acc) = ea_stale acc"
  "ea_stale (check_provenance g e p acc) = ea_stale acc"
  "ea_stale (check_completion g e p acc) = ea_stale acc"
  by (simp_all add: evidence_checks Let_def check_simps)

lemma check_evidence_flags [check_simps]:
  "ea_blocked (check_evidence g e p acc) =
     (ea_blocked acc \<or> (edge_required e \<and> \<not> evidence_ok g e p))"
  "ea_degraded (check_evidence g e p acc) =
     (ea_degraded acc \<or> (\<not> edge_required e \<and> \<not> evidence_ok g e p))"
  "ea_stale (check_evidence g e p acc) = ea_stale acc"
  unfolding check_evidence_def evidence_ok_def Let_def evidence_check_blocked
    evidence_check_degraded evidence_check_stale by blast+

lemma eval_edge_locked_alt:
  "snd (eval_edge_locked g e acc) =
     (case find_node g (ed_producer_id e) of
        None \<Rightarrow> unmet e None ''prerequisite node is missing/unknown''
                 ''optional prerequisite is missing/unknown'' acc
      | Some p \<Rightarrow> check_evidence g e p (check_readiness e p (check_generation e p acc)))"
  by (simp add: eval_edge_locked_def check_evidence_def Let_def split: option.split)

lemma eval_edge_flags:
  "ea_blocked (snd (eval_edge_locked g e acc)) = (ea_blocked acc \<or> edge_hard g e)"
  "ea_degraded (snd (eval_edge_locked g e acc)) = (ea_degraded acc \<or> edge_soft g e)"
  "ea_stale (snd (eval_edge_locked g e acc)) = (ea_stale acc \<or> edge_stale g e)"
  by (auto simp: eval_edge_locked_alt edge_hard_def edge_soft_def edge_stale_def check_simps
      split: option.split)

lemma eval_edge_outcome:
  "fst (eval_edge_locked g e acc) =
     (if ea_blocked (snd (eval_edge_locked g e acc)) \<and>
         (find_node g (ed_producer_id e) = None \<longrightarrow> edge_required e) then OC_BLOCKED
      else if ea_degraded (snd (eval_edge_locked g e acc)) then OC_DEGRADED else OC_READY)"
  by (auto simp: eval_edge_locked_def check_simps Let_def split: option.split)

lemma edge_satisfied_iff:
  "edge_satisfied g e \<longleftrightarrow> \<not> edge_hard g e \<and> \<not> edge_soft g e \<and> \<not> edge_stale g e"
  by (auto simp: edge_satisfied_def edge_hard_def edge_soft_def edge_stale_def split: option.splits)

lemma edge_hard_required: "edge_hard g e \<Longrightarrow> edge_required e"
  by (simp add: edge_hard_def)

section \<open>What the evaluation of a set means\<close>

text \<open>
  A member counts as satisfied (\<open>member_ok\<close>) unless it fails hard or is an optional edge that
  falls short; a required member that is only stale still counts and makes the set stale.
\<close>

definition member_edges :: "graph \<Rightarrow> dependency_set \<Rightarrow> edge list" where
  "member_edges g s = map snd (active_edges g (ds_members s))"

definition member_ok :: "graph \<Rightarrow> edge \<Rightarrow> bool" where
  "member_ok g e \<longleftrightarrow> \<not> edge_hard g e \<and> (edge_soft g e \<longrightarrow> edge_required e)"

definition set_ok :: "graph \<Rightarrow> dependency_set \<Rightarrow> bool" where
  "set_ok g s =
     (case ds_op s of
        SO_ALL_OF \<Rightarrow> list_all (member_ok g) (member_edges g s)
      | SO_ANY_OF \<Rightarrow> list_ex (member_ok g) (member_edges g s)
      | SO_AT_LEAST_N \<Rightarrow>
          unat (ds_at_least_n s) \<le> length (filter (member_ok g) (member_edges g s))
      | SO_OPTIONAL_GROUP \<Rightarrow> True)"

definition set_stale :: "graph \<Rightarrow> dependency_set \<Rightarrow> bool" where
  "set_stale g s \<longleftrightarrow> list_ex (\<lambda>e. member_ok g e \<and> edge_stale g e) (member_edges g s)"

definition set_soft :: "graph \<Rightarrow> dependency_set \<Rightarrow> bool" where
  "set_soft g s \<longleftrightarrow>
     list_ex (\<lambda>e. \<not> edge_hard g e \<and> edge_soft g e \<and> \<not> edge_required e) (member_edges g s) \<or>
     (ds_op s = SO_OPTIONAL_GROUP \<and> list_ex (edge_hard g) (member_edges g s))"

definition set_in_range :: "dependency_set \<Rightarrow> bool" where
  "set_in_range s \<longleftrightarrow> length (ds_members s) < 2 ^ 32"

lemma eval_member_effect:
  "ss_total (eval_member g i s) =
     ss_total s + of_nat (length (active_edges g [i]))"
  "ss_ok_count (eval_member g i s) =
     ss_ok_count s + of_nat (length (filter (member_ok g) (map snd (active_edges g [i]))))"
  "ss_any_failed (eval_member g i s) =
     (ss_any_failed s \<or> list_ex (edge_hard g) (map snd (active_edges g [i])))"
  "ss_any_optional_fail (eval_member g i s) =
     (ss_any_optional_fail s \<or> list_ex (\<lambda>e. \<not> edge_hard g e \<and> edge_soft g e \<and> \<not> edge_required e)
        (map snd (active_edges g [i])))"
  "ss_stale (eval_member g i s) =
     (ss_stale s \<or> list_ex (\<lambda>e. member_ok g e \<and> edge_stale g e) (map snd (active_edges g [i])))"
  by (auto simp: eval_member_def Let_def eval_edge_flags empty_acc_def member_ok_def
      split: option.split)

lemma eval_member_blockers:
  "\<exists>bs. ss_blockers (eval_member g i s) = ss_blockers s @ bs"
  by (auto simp: eval_member_def Let_def split: option.split)

lemma eval_members_effect:
  fixes g :: graph and js :: "edge_id list"
  defines "ms \<equiv> map snd (active_edges g js)"
  shows "ss_total (fold (eval_member g) js s) = ss_total s + of_nat (length ms)"
    "ss_ok_count (fold (eval_member g) js s) =
       ss_ok_count s + of_nat (length (filter (member_ok g) ms))"
    "ss_any_failed (fold (eval_member g) js s) = (ss_any_failed s \<or> list_ex (edge_hard g) ms)"
    "ss_any_optional_fail (fold (eval_member g) js s) =
       (ss_any_optional_fail s \<or> list_ex (\<lambda>e. \<not> edge_hard g e \<and> edge_soft g e \<and> \<not> edge_required e) ms)"
    "ss_stale (fold (eval_member g) js s) =
       (ss_stale s \<or> list_ex (\<lambda>e. member_ok g e \<and> edge_stale g e) ms)"
    "\<exists>bs. ss_blockers (fold (eval_member g) js s) = ss_blockers s @ bs"
proof -
  have "ss_total (fold (eval_member g) js s) =
          ss_total s + of_nat (length (map snd (active_edges g js))) \<and>
    ss_ok_count (fold (eval_member g) js s) =
       ss_ok_count s + of_nat (length (filter (member_ok g) (map snd (active_edges g js)))) \<and>
    ss_any_failed (fold (eval_member g) js s) =
       (ss_any_failed s \<or> list_ex (edge_hard g) (map snd (active_edges g js))) \<and>
    ss_any_optional_fail (fold (eval_member g) js s) =
       (ss_any_optional_fail s \<or> list_ex (\<lambda>e. \<not> edge_hard g e \<and> edge_soft g e \<and> \<not> edge_required e)
          (map snd (active_edges g js))) \<and>
    ss_stale (fold (eval_member g) js s) =
       (ss_stale s \<or> list_ex (\<lambda>e. member_ok g e \<and> edge_stale g e) (map snd (active_edges g js))) \<and>
    (\<exists>bs. ss_blockers (fold (eval_member g) js s) = ss_blockers s @ bs)"
  proof (induction js arbitrary: s)
    case (Cons i ks)
    have split: "map snd (active_edges g (i # ks)) =
        map snd (active_edges g [i]) @ map snd (active_edges g ks)"
      by (metis active_edges_append append_Cons append_Nil map_append)
    obtain bs where "ss_blockers (eval_member g i s) = ss_blockers s @ bs"
      using eval_member_blockers by blast
    with Cons.IH[of "eval_member g i s"] show ?case
      unfolding split list_ex_append filter_append length_append of_nat_add
      by (simp add: eval_member_effect del: active_edges_Cons) (auto simp del: active_edges_Cons)
  qed simp
  then show "ss_total (fold (eval_member g) js s) = ss_total s + of_nat (length ms)"
    "ss_ok_count (fold (eval_member g) js s) =
       ss_ok_count s + of_nat (length (filter (member_ok g) ms))"
    "ss_any_failed (fold (eval_member g) js s) = (ss_any_failed s \<or> list_ex (edge_hard g) ms)"
    "ss_any_optional_fail (fold (eval_member g) js s) =
       (ss_any_optional_fail s \<or> list_ex (\<lambda>e. \<not> edge_hard g e \<and> edge_soft g e \<and> \<not> edge_required e) ms)"
    "ss_stale (fold (eval_member g) js s) =
       (ss_stale s \<or> list_ex (\<lambda>e. member_ok g e \<and> edge_stale g e) ms)"
    "\<exists>bs. ss_blockers (fold (eval_member g) js s) = ss_blockers s @ bs"
    unfolding ms_def by blast+
qed

lemma length_active_edges: "length (active_edges g is) \<le> length is"
  by (induction "is") (auto split: option.split)

lemma unat_of_nat_u32: "n < 2 ^ 32 \<Longrightarrow> unat (of_nat n :: u32) = n"
  by (simp add: unsigned_of_nat take_bit_nat_eq_self)

lemma of_nat_u32_eq: "m < 2 ^ 32 \<Longrightarrow> n < 2 ^ 32 \<Longrightarrow> (of_nat m :: u32) = of_nat n \<longleftrightarrow> m = n"
  by (metis unat_of_nat_u32)

lemma of_nat_u32_le: "m < 2 ^ 32 \<Longrightarrow> (w :: u32) \<le> of_nat m \<longleftrightarrow> unat w \<le> m"
  by (simp add: word_le_nat_alt unat_of_nat_u32)

lemma filter_all_iff: "length (filter P xs) = length xs \<longleftrightarrow> list_all P xs"
  by (metis filter_True filter_id_conv list_all_iff length_filter_less linorder_neq_iff)

lemma filter_ex_iff: "1 \<le> length (filter P xs) \<longleftrightarrow> list_ex P xs"
  by (induction xs) auto

lemma set_satisfied_iff:
  assumes "set_in_range s"
  shows "set_satisfied s (of_nat (length (member_edges g s)))
           (of_nat (length (filter (member_ok g) (member_edges g s)))) = set_ok g s"
proof -
  have l: "length (member_edges g s) < 2 ^ 32"
    using assms length_active_edges[of g "ds_members s"]
    by (simp add: set_in_range_def member_edges_def)
  have f: "length (filter (member_ok g) (member_edges g s)) < 2 ^ 32"
    using l by (meson le_less_trans length_filter_le)
  show ?thesis
    using l f filter_all_iff[of "member_ok g" "member_edges g s"]
      filter_ex_iff[of "member_ok g" "member_edges g s"]
    by (cases "ds_op s")
      (simp_all add: set_satisfied_def set_ok_def of_nat_u32_eq of_nat_u32_le)
qed

lemma eval_set_flags:
  assumes "set_in_range s"
  shows "ea_blocked (fst (snd (eval_set_locked g s acc))) = (ea_blocked acc \<or> \<not> set_ok g s)"
    "ea_stale (fst (snd (eval_set_locked g s acc))) = (ea_stale acc \<or> set_stale g s)"
    "set_ok g s \<Longrightarrow> \<not> ea_stale acc \<Longrightarrow> \<not> set_stale g s \<Longrightarrow>
     ea_degraded (fst (snd (eval_set_locked g s acc))) = (ea_degraded acc \<or> set_soft g s)"
    "fst (eval_set_locked g s acc) = (if set_ok g s then OC_READY else OC_BLOCKED)"
  using set_satisfied_iff[OF assms, of g]
  by (auto simp: eval_set_locked_def Let_def eval_members_effect member_edges_def[symmetric]
      set_stale_def set_soft_def)

text \<open>The blockers of the members of a satisfied set are dropped, the others are kept.\<close>

lemma eval_set_blockers:
  assumes "set_in_range s" and "set_ok g s"
  shows "ea_blockers (fst (snd (eval_set_locked g s acc))) = ea_blockers acc"
proof -
  obtain bs where "ss_blockers (fold (eval_member g) (ds_members s)
      \<lparr>ss_total = 0, ss_ok_count = 0, ss_any_optional_fail = False, ss_any_failed = False,
       ss_blockers = ea_blockers acc, ss_stale = ea_stale acc\<rparr>) = ea_blockers acc @ bs"
    using eval_members_effect(6)[of g "ds_members s"
      "\<lparr>ss_total = 0, ss_ok_count = 0, ss_any_optional_fail = False, ss_any_failed = False,
        ss_blockers = ea_blockers acc, ss_stale = ea_stale acc\<rparr>"] by auto
  with set_satisfied_iff[OF assms(1), of g] assms(2) show ?thesis
    by (simp add: eval_set_locked_def Let_def eval_members_effect member_edges_def[symmetric])
qed

section \<open>What the evaluation of a node means\<close>

definition active_sets :: "graph \<Rightarrow> node_id \<Rightarrow> dependency_set list" where
  "active_sets g i =
     List.map_filter (\<lambda>sid. case find_set g sid of None \<Rightarrow> None
        | Some s \<Rightarrow> if ds_active s then Some s else None) (ix_at i (gr_node_sets g))"

definition set_members :: "graph \<Rightarrow> node_id \<Rightarrow> edge_id list" where
  "set_members g i = concat (map ds_members (active_sets g i))"

definition implicit_edges :: "graph \<Rightarrow> node_id \<Rightarrow> edge list" where
  "implicit_edges g i =
     map snd (filter (\<lambda>(eid, e). eid \<notin> set (set_members g i)) (in_active g i))"

definition sets_in_range :: "graph \<Rightarrow> node_id \<Rightarrow> bool" where
  "sets_in_range g i \<longleftrightarrow> list_all set_in_range (active_sets g i)"

definition node_hard :: "graph \<Rightarrow> node_id \<Rightarrow> bool" where
  "node_hard g i \<longleftrightarrow> list_ex (\<lambda>s. \<not> set_ok g s) (active_sets g i) \<or>
                     list_ex (edge_hard g) (implicit_edges g i)"

definition node_stale :: "graph \<Rightarrow> node_id \<Rightarrow> bool" where
  "node_stale g i \<longleftrightarrow> list_ex (set_stale g) (active_sets g i) \<or>
                      list_ex (edge_stale g) (implicit_edges g i)"

definition node_soft :: "graph \<Rightarrow> node_id \<Rightarrow> bool" where
  "node_soft g i \<longleftrightarrow> list_ex (set_soft g) (active_sets g i) \<or>
                     list_ex (edge_soft g) (implicit_edges g i)"

text \<open>The state a node must have given its prerequisites.\<close>

definition node_verdict :: "graph \<Rightarrow> node_id \<Rightarrow> node \<Rightarrow> readiness_state" where
  "node_verdict g i n =
     (if node_hard g i then RS_BLOCKED
      else if node_stale g i then (if is_gate_kind (nd_kind n) then RS_BLOCKED else RS_STALE)
      else if node_soft g i then RS_DEGRADED
      else if requires_own_generation (nd_kind n) \<and> \<not> valid (nd_current_generation n)
      then RS_DECLARED else RS_READY)"

definition eval_active_sets :: "graph \<Rightarrow> dependency_set list \<Rightarrow> eval_acc \<Rightarrow> eval_acc" where
  "eval_active_sets g ss acc = fold (\<lambda>s acc. fst (snd (eval_set_locked g s acc))) ss acc"

definition eval_edges :: "graph \<Rightarrow> edge list \<Rightarrow> eval_acc \<Rightarrow> eval_acc" where
  "eval_edges g es acc = fold (\<lambda>e acc. snd (eval_edge_locked g e acc)) es acc"

lemma eval_sets_alt:
  "eval_sets g sids (acc, members) =
     (let ss = List.map_filter (\<lambda>sid. case find_set g sid of None \<Rightarrow> None
                 | Some s \<Rightarrow> if ds_active s then Some s else None) sids
      in (eval_active_sets g ss acc, members @ concat (map ds_members ss)))"
proof (induction sids arbitrary: acc members)
  case Nil
  then show ?case by (simp add: eval_sets_def eval_active_sets_def List.map_filter_simps)
next
  case (Cons sid sids)
  have step: "eval_sets g (sid # sids) (acc, members) =
      eval_sets g sids (case find_set g sid of None \<Rightarrow> (acc, members)
        | Some s \<Rightarrow> if \<not> ds_active s then (acc, members)
            else (fst (snd (eval_set_locked g s acc)), members @ ds_members s))"
    by (simp add: eval_sets_def)
  show ?case
    unfolding step
    by (auto simp: Cons.IH Let_def eval_active_sets_def List.map_filter_simps split: option.split)
qed

lemma eval_implicit_alt:
  "eval_implicit g members eids acc =
     eval_edges g (map snd (filter (\<lambda>(eid, e). eid \<notin> set members) (active_edges g eids))) acc"
  by (induction eids arbitrary: acc)
    (auto simp: eval_implicit_def eval_edges_def split: option.split)

lemma eval_node_alt:
  "eval_node g i = eval_edges g (implicit_edges g i) (eval_active_sets g (active_sets g i) empty_acc)"
  by (simp add: eval_node_def eval_sets_alt Let_def eval_implicit_alt implicit_edges_def
      set_members_def active_sets_def in_active_def)

lemma eval_edges_flags:
  "ea_blocked (eval_edges g es acc) = (ea_blocked acc \<or> list_ex (edge_hard g) es)"
  "ea_degraded (eval_edges g es acc) = (ea_degraded acc \<or> list_ex (edge_soft g) es)"
  "ea_stale (eval_edges g es acc) = (ea_stale acc \<or> list_ex (edge_stale g) es)"
  by (induction es arbitrary: acc) (auto simp: eval_edges_def eval_edge_flags)

lemma eval_active_sets_flags:
  assumes "list_all set_in_range ss"
  shows "ea_blocked (eval_active_sets g ss acc) = (ea_blocked acc \<or> list_ex (\<lambda>s. \<not> set_ok g s) ss)"
    "ea_stale (eval_active_sets g ss acc) = (ea_stale acc \<or> list_ex (set_stale g) ss)"
    "list_all (set_ok g) ss \<Longrightarrow> \<not> ea_stale acc \<Longrightarrow> \<not> list_ex (set_stale g) ss \<Longrightarrow>
     ea_degraded (eval_active_sets g ss acc) = (ea_degraded acc \<or> list_ex (set_soft g) ss)"
  using assms
  by (induction ss arbitrary: acc) (auto simp: eval_active_sets_def eval_set_flags)

theorem derived_state_verdict:
  assumes "sets_in_range g i"
  shows "derived_state n (eval_node g i) = node_verdict g i n"
proof -
  have range: "list_all set_in_range (active_sets g i)"
    using assms by (simp add: sets_in_range_def)
  have b: "ea_blocked (eval_node g i) = node_hard g i"
    and st: "ea_stale (eval_node g i) = node_stale g i"
    by (simp_all add: eval_node_alt eval_edges_flags eval_active_sets_flags[OF range]
        node_hard_def node_stale_def empty_acc_def)
  have "ea_degraded (eval_node g i) = node_soft g i"
    if "\<not> node_hard g i" and "\<not> node_stale g i"
  proof -
    have "list_all (set_ok g) (active_sets g i)" and "\<not> list_ex (set_stale g) (active_sets g i)"
      using that by (auto simp: node_hard_def node_stale_def list_all_iff list_ex_iff)
    then show ?thesis
      using eval_active_sets_flags(3)[OF range, where acc = empty_acc]
      by (simp add: eval_node_alt eval_edges_flags node_soft_def empty_acc_def)
  qed
  with b st show ?thesis by (simp add: derived_state_def node_verdict_def)
qed

end
