(* ===== verification/Recompute.thy ===== *)
theory Recompute
  imports Readiness
begin

text \<open>
  The two schedulers of \<open>src/graph/readiness.cpp\<close>: \<open>recompute_all_locked\<close>, which recomputes
  every node in Kahn's topological order, and \<open>recompute_closure_locked\<close>, which recomputes the
  nodes reachable from some roots in breadth-first order; with \<open>Graph::acyclic\<close>
  (\<open>recovery.cpp\<close>), which runs the same in-degree loop.
\<close>

section \<open>What a recomputation touches\<close>

text \<open>The state that recomputing node \<open>i\<close> gives it.\<close>

definition gated :: "node \<Rightarrow> bool" where
  "gated n \<longleftrightarrow> nd_dynamic_evidence n \<and> nd_recovered_evidence n = DE_REVALIDATION_REQUIRED"

definition recomputed_state :: "graph \<Rightarrow> node_id \<Rightarrow> node \<Rightarrow> readiness_state" where
  "recomputed_state g i n =
     (if escape_state (nd_state n) \<or> nd_state n = RS_INVALIDATED then nd_state n
      else if gated n then RS_REVALIDATION_REQUIRED
      else derived_state n (eval_node g i))"

definition settled :: "graph \<Rightarrow> node_id \<Rightarrow> bool" where
  "settled g i \<longleftrightarrow> (case find_node g i of None \<Rightarrow> True
                   | Some n \<Rightarrow> recomputed_state g i n = nd_state n)"

text \<open>Everything of a node that evaluation can see: all but the readiness counter.\<close>

definition view :: "node \<Rightarrow> node" where
  "view n = n\<lparr>nd_readiness_generation := null_strong\<rparr>"

lemma view_touch [simp]: "view (touch n) = view n"
  by (simp add: view_def touch_def)

definition recomputed_node :: "graph \<Rightarrow> node_id \<Rightarrow> node \<Rightarrow> node" where
  "recomputed_node g i n =
     (if escape_state (nd_state n) \<or> nd_state n = RS_INVALIDATED
         \<or> recomputed_state g i n \<noteq> nd_state n
      then touch (n\<lparr>nd_state := recomputed_state g i n\<rparr>) else n)"

lemma node_state_id: "nd_state n = s \<Longrightarrow> n\<lparr>nd_state := s\<rparr> = n"
  by auto

lemma recompute_node_locked_eq:
  "snd (recompute_node_locked g i) =
     (case find_node g i of None \<Rightarrow> g | Some n \<Rightarrow> put_node i (recomputed_node g i n) g)"
proof (cases "find_node g i")
  case (Some n)
  have "put_node i n g = g" using Some by (simp add: um_put_same)
  with Some show ?thesis
    by (auto simp: recompute_node_locked_def recomputed_node_def recomputed_state_def gated_def
        Let_def node_state_id)
qed (simp add: recompute_node_locked_def)

lemma recompute_find:
  "find_node (snd (recompute_node_locked g i)) j =
     (if j = i then map_option (recomputed_node g i) (find_node g i) else find_node g j)"
  by (auto simp: recompute_node_locked_eq split: option.split)

lemma recompute_frame [simp, frame]:
  "gr_edges (snd (recompute_node_locked g i)) = gr_edges g"
  "gr_sets (snd (recompute_node_locked g i)) = gr_sets g"
  "gr_sources (snd (recompute_node_locked g i)) = gr_sources g"
  "gr_out_edges (snd (recompute_node_locked g i)) = gr_out_edges g"
  "gr_in_edges (snd (recompute_node_locked g i)) = gr_in_edges g"
  "gr_node_sets (snd (recompute_node_locked g i)) = gr_node_sets g"
  "gr_epoch (snd (recompute_node_locked g i)) = gr_epoch g"
  "gr_adapter (snd (recompute_node_locked g i)) = gr_adapter g"
  "um_keys (gr_nodes (snd (recompute_node_locked g i))) = um_keys (gr_nodes g)"
  by (simp_all add: recompute_node_locked_eq split: option.split)

lemma recompute_nodes_Cons [simp]:
  "recompute_nodes (i # is) g = recompute_nodes is (snd (recompute_node_locked g i))"
  by (simp add: recompute_nodes_def)

lemma recompute_nodes_Nil [simp]: "recompute_nodes [] g = g"
  by (simp add: recompute_nodes_def)

lemma recompute_nodes_append:
  "recompute_nodes (is @ js) g = recompute_nodes js (recompute_nodes is g)"
  by (simp add: recompute_nodes_def)

lemma recompute_nodes_frame [simp, frame]:
  "gr_edges (recompute_nodes is g) = gr_edges g"
  "gr_sets (recompute_nodes is g) = gr_sets g"
  "gr_sources (recompute_nodes is g) = gr_sources g"
  "gr_out_edges (recompute_nodes is g) = gr_out_edges g"
  "gr_in_edges (recompute_nodes is g) = gr_in_edges g"
  "gr_node_sets (recompute_nodes is g) = gr_node_sets g"
  "gr_epoch (recompute_nodes is g) = gr_epoch g"
  "gr_adapter (recompute_nodes is g) = gr_adapter g"
  "um_keys (gr_nodes (recompute_nodes is g)) = um_keys (gr_nodes g)"
  by (induction "is" arbitrary: g) simp_all

text \<open>A recomputation writes the state and the readiness counter of a node, nothing else.\<close>

definition durable :: "node \<Rightarrow> node" where
  "durable n = n\<lparr>nd_state := RS_UNKNOWN, nd_readiness_generation := null_strong\<rparr>"

lemma durable_recomputed [simp]: "durable (recomputed_node g i n) = durable n"
  by (simp add: durable_def recomputed_node_def touch_def)

lemma durable_gated: "gated (durable n) = gated n"
  by (simp add: durable_def gated_def)

lemma recompute_durable:
  "map_option durable (find_node (snd (recompute_node_locked g i)) j) = map_option durable (find_node g j)"
  by (cases "find_node g i") (auto simp: recompute_find)

lemma recompute_nodes_durable:
  "map_option durable (find_node (recompute_nodes is g) j) = map_option durable (find_node g j)"
  by (induction "is" arbitrary: g) (simp_all add: recompute_durable)

lemma recompute_nodes_other: "j \<notin> set is \<Longrightarrow> find_node (recompute_nodes is g) j = find_node g j"
  by (induction "is" arbitrary: g) (auto simp: recompute_find)

section \<open>Locality of the evaluation\<close>

text \<open>The producers whose nodes the evaluation of \<open>i\<close> reads.\<close>

definition reads :: "graph \<Rightarrow> node_id \<Rightarrow> node_id set" where
  "reads g i = ed_producer_id ` (set (implicit_edges g i) \<union>
     (\<Union>s \<in> set (active_sets g i). set (member_edges g s)))"

definition same_frame :: "graph \<Rightarrow> graph \<Rightarrow> bool" where
  "same_frame g g' \<longleftrightarrow> gr_edges g' = gr_edges g \<and> gr_sets g' = gr_sets g \<and>
     gr_in_edges g' = gr_in_edges g \<and> gr_node_sets g' = gr_node_sets g \<and>
     gr_adapter g' = gr_adapter g"

text \<open>The part of the frame that evaluation looks up, whatever the representation of the maps.\<close>

definition same_lookups :: "graph \<Rightarrow> graph \<Rightarrow> bool" where
  "same_lookups g g' \<longleftrightarrow> (\<forall>i. find_edge g' i = find_edge g i) \<and> (\<forall>i. find_set g' i = find_set g i) \<and>
     (\<forall>i. ix_at i (gr_in_edges g') = ix_at i (gr_in_edges g)) \<and>
     (\<forall>i. ix_at i (gr_node_sets g') = ix_at i (gr_node_sets g)) \<and> gr_adapter g' = gr_adapter g"

lemma same_frame_lookups: "same_frame g g' \<Longrightarrow> same_lookups g g'"
  by (simp add: same_frame_def same_lookups_def)

lemma same_lookups_active:
  assumes "same_lookups g g'"
  shows "active_edges g' is = active_edges g is" "in_active g' i = in_active g i"
    "active_sets g' i = active_sets g i" "set_members g' i = set_members g i"
    "implicit_edges g' i = implicit_edges g i" "member_edges g' s = member_edges g s"
proof -
  show e: "active_edges g' is = active_edges g is" for "is"
    using assms by (simp add: active_edges_def same_lookups_def)
  show "in_active g' i = in_active g i" "active_sets g' i = active_sets g i"
    "set_members g' i = set_members g i" "implicit_edges g' i = implicit_edges g i"
    "member_edges g' s = member_edges g s"
    using assms by (simp_all add: in_active_def active_sets_def set_members_def implicit_edges_def
        member_edges_def e same_lookups_def)
qed

definition same_view :: "graph \<Rightarrow> graph \<Rightarrow> node_id \<Rightarrow> bool" where
  "same_view g g' p \<longleftrightarrow> map_option view (find_node g' p) = map_option view (find_node g p)"

lemma view_fields:
  assumes "view n' = view n"
  shows "nd_kind n' = nd_kind n" "nd_current_generation n' = nd_current_generation n"
    "nd_state n' = nd_state n" "nd_resource_available n' = nd_resource_available n"
    "nd_claimed_capabilities n' = nd_claimed_capabilities n"
    "nd_freshness_valid n' = nd_freshness_valid n" "nd_integrity_valid n' = nd_integrity_valid n"
    "nd_provenance_confidence n' = nd_provenance_confidence n"
    "nd_completion_state n' = nd_completion_state n"
    "nd_dynamic_evidence n' = nd_dynamic_evidence n"
    "nd_recovered_evidence n' = nd_recovered_evidence n"
  using assms by (cases n; cases n'; simp add: view_def)+

lemma eval_edge_cong:
  assumes "gr_adapter g' = gr_adapter g" and "same_view g g' (ed_producer_id e)"
  shows "eval_edge_locked g' e acc = eval_edge_locked g e acc"
proof (cases "find_node g (ed_producer_id e)")
  case None
  with assms(2) have "find_node g' (ed_producer_id e) = None" by (simp add: same_view_def)
  with None show ?thesis by (simp add: eval_edge_locked_def)
next
  case (Some p)
  with assms(2) obtain p' where p': "find_node g' (ed_producer_id e) = Some p'" "view p' = view p"
    by (auto simp: same_view_def)
  note f = view_fields[OF p'(2)]
  have blk: "add_blocker e (Some p') r k rg ag a = add_blocker e (Some p) r k rg ag a" for r k rg ag a
    by (simp add: add_blocker_def f)
  have gen: "meets_generation_constraint p' = meets_generation_constraint p"
    "generation_advanced e p' = generation_advanced e p"
    by (simp_all add: fun_eq_iff meets_generation_constraint_def generation_advanced_def f)
  have "check_generation e p' a = check_generation e p a"
    and "check_readiness e p' a = check_readiness e p a" for a
    unfolding check_generation_def check_readiness_def gen blk f by (rule refl)+
  moreover have facts: "resource_fact g' i p' = resource_fact g i p"
    "capability_fact g' i p' = capability_fact g i p" "freshness_fact g' i p' = freshness_fact g i p"
    "integrity_fact g' i p' = integrity_fact g i p" "provenance_fact g' i p' = provenance_fact g i p"
    "completion_fact g' i p' = completion_fact g i p" for i
    by (simp_all add: fun_eq_iff resource_fact_def capability_fact_def freshness_fact_def
        integrity_fact_def provenance_fact_def completion_fact_def f assms(1) split: option.split)
  have un: "unmet e (Some p') r s a = unmet e (Some p) r s a" for r s a
    unfolding unmet_def blk by (rule refl)
  have "check_evidence g' e p' a = check_evidence g e p a" for a
    unfolding check_evidence_def evidence_checks facts un by (rule refl)
  ultimately show ?thesis
    using Some p'(1) by (simp add: eval_edge_locked_def Let_def check_evidence_def)
qed

lemma eval_member_cong:
  assumes "same_lookups g g'"
    and "\<And>e. find_edge g i = Some e \<Longrightarrow> ed_active e \<Longrightarrow> same_view g g' (ed_producer_id e)"
  shows "eval_member g' i s = eval_member g i s"
  using assms eval_edge_cong[of g' g]
  by (auto simp: eval_member_def same_lookups_def split: option.split)

lemma eval_set_cong:
  assumes "same_lookups g g'"
    and "\<And>e. e \<in> set (member_edges g s) \<Longrightarrow> same_view g g' (ed_producer_id e)"
  shows "eval_set_locked g' s acc = eval_set_locked g s acc"
proof -
  have "eval_member g' i = eval_member g i" if "i \<in> set (ds_members s)" for i
  proof
    fix x
    show "eval_member g' i x = eval_member g i x"
    proof (rule eval_member_cong[OF assms(1)])
      fix e
      assume "find_edge g i = Some e" "ed_active e"
      with that have "(i, e) \<in> set (active_edges g (ds_members s))"
        by (simp add: active_edges_mem)
      then have "e \<in> set (member_edges g s)" by (force simp: member_edges_def)
      then show "same_view g g' (ed_producer_id e)" by (rule assms(2))
    qed
  qed
  then have "fold (eval_member g') (ds_members s) x = fold (eval_member g) (ds_members s) x" for x
    by (intro fold_ext) simp
  then show ?thesis by (simp add: eval_set_locked_def)
qed

lemma eval_node_cong:
  assumes fr: "same_lookups g g'" and v: "\<And>p. p \<in> reads g i \<Longrightarrow> same_view g g' p"
  shows "eval_node g' i = eval_node g i"
proof -
  have sets: "active_sets g' i = active_sets g i" and edges: "implicit_edges g' i = implicit_edges g i"
    by (simp_all add: same_lookups_active[OF fr])
  have "eval_set_locked g' s acc = eval_set_locked g s acc" if "s \<in> set (active_sets g i)" for s acc
    by (rule eval_set_cong[OF fr], rule v) (use that in \<open>unfold reads_def, blast\<close>)
  moreover have "eval_edge_locked g' e acc = eval_edge_locked g e acc"
    if "e \<in> set (implicit_edges g i)" for e acc
    by (rule eval_edge_cong) (use that fr in \<open>auto simp: reads_def same_lookups_def intro!: v\<close>)
  ultimately have "eval_active_sets g' (active_sets g i) acc = eval_active_sets g (active_sets g i) acc"
    and "eval_edges g' (implicit_edges g i) acc = eval_edges g (implicit_edges g i) acc" for acc
    by (auto simp: eval_active_sets_def eval_edges_def intro!: fold_ext)
  then show ?thesis by (simp add: eval_node_alt sets edges)
qed

lemma recomputed_state_cong:
  assumes "same_lookups g g'" and "\<And>p. p \<in> reads g i \<Longrightarrow> same_view g g' p" and "view n' = view n"
  shows "recomputed_state g' i n' = recomputed_state g i n"
  by (simp add: recomputed_state_def gated_def derived_state_def eval_node_cong[OF assms(1,2)]
      view_fields[OF assms(3)])

lemma reads_frame: "same_lookups g g' \<Longrightarrow> reads g' i = reads g i"
  by (simp add: reads_def same_lookups_active)

lemma same_lookups_recompute: "same_lookups g (snd (recompute_node_locked g i))"
  by (simp add: same_lookups_def)

lemma derived_not_escape:
  "\<not> escape_state (derived_state n acc)" "derived_state n acc \<noteq> RS_INVALIDATED"
  by (auto simp: derived_state_def escape_state_def)

text \<open>A node that reads none of its own state is settled by one recomputation.\<close>

lemma recompute_settles:
  assumes "i \<notin> reads g i"
  shows "settled (snd (recompute_node_locked g i)) i"
proof (cases "find_node g i")
  case (Some n)
  let ?g' = "snd (recompute_node_locked g i)" and ?n' = "recomputed_node g i n"
  have "recomputed_state ?g' i ?n' = recomputed_state g i ?n'"
    by (rule recomputed_state_cong[OF same_lookups_recompute])
      (use assms in \<open>auto simp: same_view_def recompute_find\<close>)
  also have "\<dots> = nd_state ?n'"
    using derived_not_escape[of n "eval_node g i"]
    by (auto simp: recomputed_node_def recomputed_state_def touch_def gated_def derived_state_def)
  finally show ?thesis using Some by (simp add: settled_def recompute_find)
qed (simp add: settled_def recompute_find)

lemma recompute_keeps_settled:
  assumes "settled g j" and "i \<notin> reads g j" and "i \<noteq> j"
  shows "settled (snd (recompute_node_locked g i)) j"
proof (cases "find_node g j")
  case (Some n)
  have "recomputed_state (snd (recompute_node_locked g i)) j n = recomputed_state g j n"
    by (rule recomputed_state_cong[OF same_lookups_recompute])
      (use assms(2) in \<open>auto simp: same_view_def recompute_find\<close>)
  with Some assms show ?thesis by (simp add: settled_def recompute_find)
qed (use assms in \<open>simp add: settled_def recompute_find\<close>)

text \<open>
  Recomputing in an order in which no node reads itself or a node after it settles every node of
  the order.
\<close>

lemma recompute_ordered_settles:
  assumes "distinct is"
    and "\<And>js i ks. is = js @ i # ks \<Longrightarrow> reads g i \<inter> set (i # ks) = {}"
  shows "\<forall>i \<in> set is. settled (recompute_nodes is g) i"
  using assms
proof (induction "is" rule: rev_induct)
  case (snoc c js)
  let ?h = "recompute_nodes js g"
  have fr: "same_lookups g ?h" by (simp add: same_lookups_def)
  have c: "c \<notin> reads ?h c" using snoc.prems(2)[of js c "[]"] by (simp add: reads_frame[OF fr])
  have js: "\<forall>i \<in> set js. settled ?h i"
  proof (rule snoc.IH)
    fix xs i ys
    assume "js = xs @ i # ys"
    then show "reads g i \<inter> set (i # ys) = {}" using snoc.prems(2)[of xs i "ys @ [c]"] by auto
  qed (use snoc.prems(1) in simp)
  have "settled (snd (recompute_node_locked ?h c)) i" if "i \<in> set js" for i
  proof (rule recompute_keeps_settled)
    show "settled ?h i" using js that by blast
    show "c \<noteq> i" using snoc.prems(1) that by auto
    from that obtain xs ys where split: "js = xs @ i # ys" by (meson in_set_conv_decomp)
    then have "reads g i \<inter> set (i # ys @ [c]) = {}" using snoc.prems(2)[of xs i "ys @ [c]"] by simp
    then show "c \<notin> reads ?h i" by (auto simp: reads_frame[OF fr])
  qed
  moreover have "settled (snd (recompute_node_locked ?h c)) c" by (rule recompute_settles[OF c])
  ultimately show ?case by (simp add: recompute_nodes_append)
qed simp

text \<open>
  States a recomputation never leaves: the escape states and INVALIDATED, and the revalidation
  gate of recovered dynamic evidence.
\<close>

definition sticky :: "node \<Rightarrow> bool" where
  "sticky n \<longleftrightarrow> escape_state (nd_state n) \<or> nd_state n = RS_INVALIDATED \<or>
     (gated n \<and> nd_state n = RS_REVALIDATION_REQUIRED)"

lemma sticky_recomputed:
  assumes "sticky n"
  shows "nd_state (recomputed_node g i n) = nd_state n" "sticky (recomputed_node g i n)"
  using assms by (auto simp: sticky_def recomputed_node_def recomputed_state_def touch_def gated_def)

lemma recompute_nodes_sticky:
  assumes "find_node g i = Some n" and "sticky n"
  shows "\<exists>m. find_node (recompute_nodes is g) i = Some m \<and> nd_state m = nd_state n \<and> sticky m"
  using assms
proof (induction "is" arbitrary: g n)
  case (Cons j "is")
  obtain m where m: "find_node (snd (recompute_node_locked g j)) i = Some m"
    "nd_state m = nd_state n" "sticky m"
    using Cons.prems sticky_recomputed[OF Cons.prems(2)] by (cases "i = j") (simp_all add: recompute_find)
  from Cons.IH[OF m(1,3)] m(2) show ?case by simp
qed simp

text \<open>Conversely no recomputation brings a node into a state that the guards keep.\<close>

lemma recompute_nodes_awake:
  assumes "find_node g i = Some n" and "\<not> escape_state (nd_state n)" "nd_state n \<noteq> RS_INVALIDATED"
  shows "\<exists>m. find_node (recompute_nodes is g) i = Some m \<and> \<not> escape_state (nd_state m) \<and> nd_state m \<noteq> RS_INVALIDATED"
  using assms
proof (induction "is" arbitrary: g n)
  case (Cons j "is")
  have awake: "\<not> escape_state (recomputed_state g j n) \<and> recomputed_state g j n \<noteq> RS_INVALIDATED"
    using Cons.prems derived_not_escape[of n "eval_node g j"] by (simp add: recomputed_state_def escape_state_def)
  obtain m where "find_node (snd (recompute_node_locked g j)) i = Some m" "\<not> escape_state (nd_state m)"
    "nd_state m \<noteq> RS_INVALIDATED"
    using Cons.prems awake by (cases "i = j") (simp_all add: recompute_find recomputed_node_def touch_def)
  then show ?case using Cons.IH by simp
qed simp

section \<open>Kahn's in-degree loop\<close>

text \<open>
  The iteration orders of the graph's maps: one function per key type, since the maps keyed by
  the same ids and walked in one operation need not be told apart.
\<close>

record iteration =
  it_nodes :: "node_id order"
  it_edges :: "edge_id order"
  it_sets :: "set_id order"
  it_sources :: "source_id order"

definition iteration_ok :: "iteration \<Rightarrow> bool" where
  "iteration_ok it \<longleftrightarrow> is_order (it_nodes it) \<and> is_order (it_edges it) \<and>
     is_order (it_sets it) \<and> is_order (it_sources it)"

type_synonym indegrees = "(node_id, u32) umap"

definition indeg_at :: "node_id \<Rightarrow> indegrees \<Rightarrow> u32" where
  "indeg_at c m = (case um_find c m of None \<Rightarrow> 0 | Some d \<Rightarrow> d)"

definition count_edge :: "edge_id \<times> edge \<Rightarrow> indegrees \<Rightarrow> indegrees" where
  "count_edge kv m =
     (let e = snd kv in
      if \<not> ed_active e then m
      else um_put (ed_consumer_id e) (indeg_at (ed_consumer_id e) m + 1) m)"

definition init_indeg :: "iteration \<Rightarrow> graph \<Rightarrow> indegrees" where
  "init_indeg it g =
     fold count_edge (um_iter (it_edges it) (gr_edges g))
       (fold (\<lambda>kv m. um_put (fst kv) 0 m) (um_iter (it_nodes it) (gr_nodes g)) [])"

definition kahn_roots :: "iteration \<Rightarrow> indegrees \<Rightarrow> node_id list" where
  "kahn_roots it m = map fst (filter (\<lambda>kv. snd kv = 0) (um_iter (it_nodes it) m))"

type_synonym kahn_state = "indegrees \<times> node_id list \<times> node_id list"

definition kahn_edge :: "edge \<Rightarrow> indegrees \<times> node_id list \<Rightarrow> indegrees \<times> node_id list" where
  "kahn_edge e st =
     (case st of (m, q) \<Rightarrow>
       let c = ed_consumer_id e; d = indeg_at c m - 1
       in (um_put c d m, if d = 0 then q @ [c] else q))"

fun kahn_step :: "graph \<Rightarrow> kahn_state \<Rightarrow> kahn_state" where
  "kahn_step g (m, [], order) = (m, [], order)"
| "kahn_step g (m, cur # q, order) =
     (case fold kahn_edge (map snd (out_active g cur)) (m, q) of
        (m', q') \<Rightarrow> (m', q', order @ [cur]))"

text \<open>
  The loop may fail to end on an index whose vectors repeat an edge 2^32 times, when the unsigned
  counter wraps; not ending is the value \<open>None\<close>.
\<close>

definition kahn :: "graph \<Rightarrow> kahn_state \<Rightarrow> kahn_state option" where
  "kahn g st = while_option (\<lambda>(m, q, order). q \<noteq> []) (kahn_step g) st"

definition recompute_all_locked :: "iteration \<Rightarrow> graph \<Rightarrow> graph option" where
  "recompute_all_locked it g =
     (let indeg = init_indeg it g in
      case kahn g (indeg, kahn_roots it indeg, []) of
        None \<Rightarrow> None
      | Some (m, q, order) \<Rightarrow>
          let order' = fold (\<lambda>kv ord. if fst kv \<in> set ord then ord else ord @ [fst kv])
                         (um_iter (it_nodes it) m) order
          in Some (recompute_nodes order' g))"

definition acyclic_query :: "iteration \<Rightarrow> graph \<Rightarrow> bool option" where
  "acyclic_query it g =
     (let indeg = init_indeg it g in
      case kahn g (indeg, kahn_roots it indeg, []) of
        None \<Rightarrow> None
      | Some (m, q, order) \<Rightarrow> Some (length order = um_size (gr_nodes g)))"

section \<open>A well-formed graph\<close>

text \<open>
  \<open>graph_wf\<close>: the maps have distinct keys, every edge joins two nodes of the graph, and the
  number of edges is within the cap. \<open>index_sound\<close>: the index vectors list edges of the graph at
  the right node, and every active edge is listed. \<open>index_exact\<close>: the out-vector of a node lists
  exactly its active outgoing edges, once each, and its in-vector exactly its active incoming ones.
\<close>

definition graph_wf :: "graph \<Rightarrow> bool" where
  "graph_wf g \<longleftrightarrow> um_wf (gr_nodes g) \<and> um_wf (gr_edges g) \<and>
     um_wf (gr_sets g) \<and> um_wf (gr_sources g) \<and> um_size (gr_edges g) \<le> kMaxGraphEdges \<and>
     (\<forall>i e. find_edge g i = Some e \<longrightarrow>
        find_node g (ed_producer_id e) \<noteq> None \<and> find_node g (ed_consumer_id e) \<noteq> None)"

definition index_exact :: "graph \<Rightarrow> bool" where
  "index_exact g \<longleftrightarrow>
     (\<forall>v. distinct (ix_at v (gr_out_edges g)) \<and> distinct (ix_at v (gr_in_edges g))) \<and>
     (\<forall>v i. i \<in> set (ix_at v (gr_out_edges g)) \<longleftrightarrow>
        (\<exists>e. find_edge g i = Some e \<and> ed_active e \<and> ed_producer_id e = v)) \<and>
     (\<forall>v i. i \<in> set (ix_at v (gr_in_edges g)) \<longleftrightarrow>
        (\<exists>e. find_edge g i = Some e \<and> ed_active e \<and> ed_consumer_id e = v))"

definition index_sound :: "graph \<Rightarrow> bool" where
  "index_sound g \<longleftrightarrow>
     (\<forall>v i. i \<in> set (ix_at v (gr_out_edges g)) \<longrightarrow>
        (\<exists>e. find_edge g i = Some e \<and> ed_producer_id e = v)) \<and>
     (\<forall>v i. i \<in> set (ix_at v (gr_in_edges g)) \<longrightarrow>
        (\<exists>e. find_edge g i = Some e \<and> ed_consumer_id e = v)) \<and>
     (\<forall>i e. find_edge g i = Some e \<and> ed_active e \<longrightarrow>
        i \<in> set (ix_at (ed_producer_id e) (gr_out_edges g)) \<and>
        i \<in> set (ix_at (ed_consumer_id e) (gr_in_edges g)))"

lemma index_exact_sound: "index_exact g \<Longrightarrow> index_sound g"
  unfolding index_exact_def index_sound_def by blast

lemma out_active_sound:
  assumes "index_sound g"
  shows "(i, e) \<in> set (out_active g v) \<longleftrightarrow> find_edge g i = Some e \<and> ed_active e \<and> ed_producer_id e = v"
    and "(i, e) \<in> set (in_active g v) \<longleftrightarrow> find_edge g i = Some e \<and> ed_active e \<and> ed_consumer_id e = v"
  using assms unfolding index_sound_def out_active_def in_active_def active_edges_mem
  by (metis option.inject)+

lemma finite_dep_rel: "finite (dep_rel g)"
proof -
  have "dep_rel g \<subseteq> (\<lambda>(i, e). (ed_producer_id e, ed_consumer_id e)) ` set (gr_edges g)"
    by (force simp: dep_rel_def dest: um_find_SomeD)
  then show ?thesis by (rule finite_subset) simp
qed

text \<open>The edges into \<open>c\<close> still to be counted off: producer not in \<open>D\<close>, edge not in \<open>X\<close>.\<close>

definition pending :: "graph \<Rightarrow> node_id set \<Rightarrow> edge_id set \<Rightarrow> node_id \<Rightarrow> edge_id set" where
  "pending g D X c = {i. i \<notin> X \<and> (\<exists>e. find_edge g i = Some e \<and> ed_active e \<and>
     ed_consumer_id e = c \<and> ed_producer_id e \<notin> D)}"

lemma finite_pending [simp]: "finite (pending g D X c)"
proof -
  have "pending g D X c \<subseteq> fst ` set (gr_edges g)"
    by (force simp: pending_def dest: um_find_SomeD)
  then show ?thesis by (rule finite_subset) simp
qed

lemma card_pending:
  assumes "graph_wf g"
  shows "card (pending g D X c) < 2 ^ 32"
proof -
  have "pending g D X c \<subseteq> fst ` set (gr_edges g)"
    by (force simp: pending_def dest: um_find_SomeD)
  then have "card (pending g D X c) \<le> card (fst ` set (gr_edges g))"
    by (rule card_mono[rotated]) simp
  also have "\<dots> \<le> length (gr_edges g)"
    by (metis card_length image_set length_map)
  also have "\<dots> \<le> kMaxGraphEdges" using assms by (simp add: graph_wf_def um_size_def)
  finally show ?thesis by (simp add: kMaxGraphEdges_def)
qed

lemma pending_empty_iff:
  "pending g D {} c = {} \<longleftrightarrow> (\<forall>p. (p, c) \<in> dep_rel g \<longrightarrow> p \<in> D)"
  by (auto simp: pending_def dep_rel_def)

subsection \<open>The initial counters\<close>

lemma init_zero:
  "indeg_at c (fold (\<lambda>kv m. um_put (fst kv) 0 m) kvs m) =
     (if c \<in> fst ` set kvs then 0 else indeg_at c m)"
  by (induction kvs arbitrary: m) (auto simp: indeg_at_def)

lemma keys_zero:
  "set (um_keys (fold (\<lambda>kv m. um_put (fst kv) 0 m) kvs m)) = fst ` set kvs \<union> set (um_keys m)"
  by (induction kvs arbitrary: m) (auto simp: um.set_keys_put)

lemma wf_zero: "um_wf m \<Longrightarrow> um_wf (fold (\<lambda>kv m. um_put (fst kv) 0 m) kvs m)"
  by (induction kvs arbitrary: m) auto

lemma count_edges:
  "indeg_at c (fold count_edge kvs m) =
     indeg_at c m + of_nat (length (filter (\<lambda>kv. ed_active (snd kv) \<and> ed_consumer_id (snd kv) = c) kvs))"
  by (induction kvs arbitrary: m)
    (auto simp: count_edge_def Let_def indeg_at_def split: option.split)

lemma keys_count:
  "set (um_keys (fold count_edge kvs m)) =
     {c. \<exists>kv \<in> set kvs. ed_active (snd kv) \<and> ed_consumer_id (snd kv) = c} \<union> set (um_keys m)"
  by (induction kvs arbitrary: m) (auto simp: count_edge_def Let_def um.set_keys_put)

lemma wf_count: "um_wf m \<Longrightarrow> um_wf (fold count_edge kvs m)"
  by (induction kvs arbitrary: m) (auto simp: count_edge_def Let_def)

lemma length_filter_pending:
  assumes "um_wf (gr_edges g)" and "is_order \<pi>"
  shows "length (filter (\<lambda>kv. ed_active (snd kv) \<and> ed_consumer_id (snd kv) = c)
           (um_iter \<pi> (gr_edges g))) = card (pending g {} {} c)"
proof -
  let ?f = "filter (\<lambda>kv. ed_active (snd kv) \<and> ed_consumer_id (snd kv) = c) (um_iter \<pi> (gr_edges g))"
  have "distinct (map fst ?f)"
    using um_iter_distinct[OF assms(2,1)] by (rule distinct_map_filter)
  from distinct_card[OF this] have "length ?f = card (set (map fst ?f))" by (simp only: length_map)
  moreover have "i \<in> set (map fst ?f) \<longleftrightarrow> (\<exists>e. (i, e) \<in> set (um_iter \<pi> (gr_edges g)) \<and>
      ed_active e \<and> ed_consumer_id e = c)" for i
    by (auto simp: image_iff)
  then have "set (map fst ?f) = pending g {} {} c"
    unfolding um_iter_mem[OF assms(2)] by (simp add: pending_def set_eq_iff)
  ultimately show ?thesis by simp
qed

lemma init_indeg_spec:
  assumes wf: "graph_wf g" and it: "iteration_ok it"
  shows "indeg_at c (init_indeg it g) = of_nat (card (pending g {} {} c))"
    and "set (um_keys (init_indeg it g)) = set (um_keys (gr_nodes g))"
    and "um_wf (init_indeg it g)"
proof -
  have o: "is_order (it_nodes it)" "is_order (it_edges it)" using it by (auto simp: iteration_ok_def)
  have w: "um_wf (gr_edges g)" using wf by (simp add: graph_wf_def)
  show "indeg_at c (init_indeg it g) = of_nat (card (pending g {} {} c))"
    by (simp add: init_indeg_def count_edges init_zero length_filter_pending[OF w o(2)])
      (simp add: indeg_at_def)
  show "um_wf (init_indeg it g)" by (simp add: init_indeg_def wf_count wf_zero)
  have "fst ` set (um_iter (it_nodes it) (gr_nodes g)) = set (um_keys (gr_nodes g))"
    by (metis um_iter_keys[OF o(1)] image_set is_order_set[OF o(1)])
  then show "set (um_keys (init_indeg it g)) = set (um_keys (gr_nodes g))"
    using wf by (auto simp: init_indeg_def keys_count keys_zero um_iter_mem[OF o(2)] graph_wf_def
        um.keys_find)
qed

subsection \<open>Topological orders\<close>

definition topo :: "graph \<Rightarrow> node_id list \<Rightarrow> bool" where
  "topo g xs \<longleftrightarrow> (\<forall>ys c zs p. xs = ys @ c # zs \<and> (p, c) \<in> dep_rel g \<longrightarrow> p \<in> set ys)"

lemma topo_Nil [simp]: "topo g []"
  by (simp add: topo_def)

lemma topo_snoc: "topo g (xs @ [c]) \<longleftrightarrow> topo g xs \<and> (\<forall>p. (p, c) \<in> dep_rel g \<longrightarrow> p \<in> set xs)"
proof
  assume t: "topo g (xs @ [c])"
  have "topo g xs"
    unfolding topo_def using t[unfolded topo_def] by (metis append_Cons append_assoc)
  moreover have "\<forall>p. (p, c) \<in> dep_rel g \<longrightarrow> p \<in> set xs"
    using t[unfolded topo_def] by blast
  ultimately show "topo g xs \<and> (\<forall>p. (p, c) \<in> dep_rel g \<longrightarrow> p \<in> set xs)" ..
next
  assume t: "topo g xs \<and> (\<forall>p. (p, c) \<in> dep_rel g \<longrightarrow> p \<in> set xs)"
  show "topo g (xs @ [c])"
    unfolding topo_def
  proof (intro allI impI)
    fix ys d zs p
    assume a: "xs @ [c] = ys @ d # zs \<and> (p, d) \<in> dep_rel g"
    show "p \<in> set ys"
    proof (cases zs rule: rev_cases)
      case Nil
      with a t show ?thesis by simp
    next
      case (snoc zs' z)
      with a have "xs = ys @ d # zs'" by simp
      with a t show ?thesis unfolding topo_def by blast
    qed
  qed
qed

lemma topo_acyclic:
  assumes "topo g xs" and "\<And>p c. (p, c) \<in> dep_rel g \<Longrightarrow> c \<in> set xs" and "distinct xs"
  shows "acyclic (dep_rel g)"
proof -
  have "dep_rel g \<subseteq> measure (\<lambda>x. length (takeWhile (\<lambda>y. y \<noteq> x) xs))"
  proof
    fix pc
    assume pc: "pc \<in> dep_rel g"
    obtain p c where [simp]: "pc = (p, c)" by (cases pc)
    obtain ys zs where xs: "xs = ys @ c # zs" using assms(2) pc by (metis in_set_conv_decomp \<open>pc = (p, c)\<close>)
    have "p \<in> set ys" using assms(1) pc xs unfolding topo_def by auto
    then obtain us vs where ys: "ys = us @ p # vs" by (meson in_set_conv_decomp)
    have before: "takeWhile (\<lambda>y. y \<noteq> x) (as @ x # bs) = as" if "x \<notin> set as" for x as bs
      using that by (induction as) auto
    have "takeWhile (\<lambda>y. y \<noteq> c) xs = ys" unfolding xs by (rule before) (use xs assms(3) in simp)
    moreover have "takeWhile (\<lambda>y. y \<noteq> p) (us @ p # (vs @ c # zs)) = us"
      by (rule before) (use xs ys assms(3) in simp)
    then have "takeWhile (\<lambda>y. y \<noteq> p) xs = us" by (simp add: xs ys)
    ultimately show "pc \<in> measure (\<lambda>x. length (takeWhile (\<lambda>y. y \<noteq> x) xs))" by (simp add: ys)
  qed
  then show ?thesis by (meson acyclic_subset wf_acyclic wf_measure)
qed

subsection \<open>The loop invariant\<close>

definition kahn_inv :: "graph \<Rightarrow> node_id list \<Rightarrow> node_id set \<Rightarrow> edge_id set \<Rightarrow>
    indegrees \<times> node_id list \<Rightarrow> bool" where
  "kahn_inv g out D X st \<longleftrightarrow> (case st of (m, q) \<Rightarrow>
     um_wf m \<and> set (um_keys m) = set (um_keys (gr_nodes g)) \<and>
     distinct (out @ q) \<and> set (out @ q) \<subseteq> set (um_keys (gr_nodes g)) \<and>
     (\<forall>c. indeg_at c m = of_nat (card (pending g D X c))) \<and>
     (\<forall>c \<in> set (um_keys (gr_nodes g)). c \<in> set (out @ q) \<longleftrightarrow> pending g D X c = {}))"

lemma pending_insert:
  assumes "find_edge g i = Some e" "ed_active e" "ed_producer_id e \<notin> D" "i \<notin> X"
  shows "pending g D (insert i X) c = pending g D X c - {i}"
    and "i \<in> pending g D X c \<longleftrightarrow> ed_consumer_id e = c"
  using assms by (auto simp: pending_def)

lemma kahn_inv_edge:
  assumes inv: "kahn_inv g out D X (m, q)" and wf: "graph_wf g"
    and e: "find_edge g i = Some e" "ed_active e" "ed_producer_id e \<notin> D" "i \<notin> X"
  shows "kahn_inv g out D (insert i X) (kahn_edge e (m, q))"
proof -
  note pend = pending_insert[OF e]
  let ?c = "ed_consumer_id e" and ?V = "set (um_keys (gr_nodes g))"
  let ?n = "card (pending g D (insert i X) ?c)"
  have cV: "?c \<in> ?V" using wf e(1) by (auto simp: graph_wf_def um.keys_find)
  have "card (pending g D X ?c) = Suc ?n"
    unfolding pend(1) by (rule card_Suc_Diff1[OF finite_pending, symmetric]) (simp add: pend(2))
  with inv have d: "indeg_at ?c m - 1 = of_nat ?n"
    by (simp add: kahn_inv_def)
  have zero: "indeg_at ?c m - 1 = 0 \<longleftrightarrow> pending g D (insert i X) ?c = {}"
    using d of_nat_u32_eq[OF card_pending[OF wf], of 0 D "insert i X" ?c] by simp
  have "pending g D X ?c \<noteq> {}" using pend(2)[of ?c] by blast
  then have fresh: "?c \<notin> set (out @ q)" using inv cV unfolding kahn_inv_def by simp
  have other: "pending g D (insert i X) c = pending g D X c" if "c \<noteq> ?c" for c
    unfolding pend(1) using that pend(2)[of c] by (simp add: Diff_triv)
  let ?m = "um_put ?c (indeg_at ?c m - 1) m"
  let ?q = "if indeg_at ?c m - 1 = 0 then q @ [?c] else q"
  from inv have m: "um_wf m" "set (um_keys m) = ?V" and dq: "distinct (out @ q)"
    and sub: "set (out @ q) \<subseteq> ?V"
    and cnt: "\<And>c. indeg_at c m = of_nat (card (pending g D X c))"
    and mem: "\<And>c. c \<in> ?V \<Longrightarrow> c \<in> set (out @ q) \<longleftrightarrow> pending g D X c = {}"
    by (auto simp: kahn_inv_def)
  have "set (um_keys ?m) = ?V" using m cV by (auto simp: um.set_keys_put)
  moreover have "distinct (out @ ?q)" "set (out @ ?q) \<subseteq> ?V" using dq sub fresh cV by auto
  moreover have "indeg_at c ?m = of_nat (card (pending g D (insert i X) c))" for c
  proof (cases "c = ?c")
    case True
    then show ?thesis using d by (simp add: indeg_at_def)
  next
    case False
    then have "indeg_at c ?m = indeg_at c m" by (simp add: indeg_at_def)
    then show ?thesis by (simp only: cnt other[OF False])
  qed
  moreover have "c \<in> set (out @ ?q) \<longleftrightarrow> pending g D (insert i X) c = {}" if "c \<in> ?V" for c
  proof (cases "c = ?c")
    case True
    then show ?thesis using fresh zero by auto
  next
    case False
    then have "c \<in> set (out @ ?q) \<longleftrightarrow> c \<in> set (out @ q)" by simp
    then show ?thesis by (simp only: mem[OF that] other[OF False])
  qed
  ultimately show ?thesis
    unfolding kahn_inv_def kahn_edge_def Let_def prod.case using um.wf_put[OF m(1)] by blast
qed

lemma kahn_inv_edges:
  assumes "kahn_inv g out D X st" and "graph_wf g"
    and "distinct (map fst kvs)" and "fst ` set kvs \<inter> X = {}"
    and "\<And>i e. (i, e) \<in> set kvs \<Longrightarrow> find_edge g i = Some e \<and> ed_active e \<and> ed_producer_id e \<notin> D"
  shows "kahn_inv g out D (X \<union> fst ` set kvs) (fold kahn_edge (map snd kvs) st)"
  using assms
proof (induction kvs arbitrary: X st)
  case (Cons kv kvs)
  obtain i e where kv: "kv = (i, e)" by (cases kv)
  obtain m q where st: "st = (m, q)" by (cases st)
  have "kahn_inv g out D (insert i X) (kahn_edge e st)"
    unfolding st by (rule kahn_inv_edge) (use Cons.prems kv st in auto)
  then have "kahn_inv g out D (insert i X \<union> fst ` set kvs) (fold kahn_edge (map snd kvs) (kahn_edge e st))"
    by (rule Cons.IH) (use Cons.prems kv in auto)
  then show ?case by (simp add: kv)
qed simp

definition kahn_loop_inv :: "graph \<Rightarrow> kahn_state \<Rightarrow> bool" where
  "kahn_loop_inv g st \<longleftrightarrow> (case st of (m, q, order) \<Rightarrow>
     kahn_inv g order (set order) {} (m, q) \<and> topo g order)"

lemma pending_out:
  assumes "index_exact g"
  shows "pending g D (fst ` set (out_active g v)) c = pending g (insert v D) {} c"
proof -
  have out: "i \<in> fst ` set (out_active g v) \<longleftrightarrow>
      (\<exists>e. find_edge g i = Some e \<and> ed_active e \<and> ed_producer_id e = v)" for i
  proof -
    have "i \<in> fst ` set (out_active g v) \<longleftrightarrow> (\<exists>e. (i, e) \<in> set (out_active g v))"
      by force
    also have "\<dots> \<longleftrightarrow> i \<in> set (ix_at v (gr_out_edges g)) \<and> (\<exists>e. find_edge g i = Some e \<and> ed_active e)"
      by (auto simp: out_active_def active_edges_mem)
    also have "\<dots> \<longleftrightarrow> (\<exists>e. find_edge g i = Some e \<and> ed_active e \<and> ed_producer_id e = v)"
      using assms unfolding index_exact_def by (metis option.inject)
    finally show ?thesis .
  qed
  have "i \<in> pending g D (fst ` set (out_active g v)) c \<longleftrightarrow> i \<in> pending g (insert v D) {} c" for i
    unfolding pending_def mem_Collect_eq out by (cases "find_edge g i") auto
  then show ?thesis by blast
qed

lemma distinct_active_edges: "distinct eids \<Longrightarrow> distinct (map fst (active_edges g eids))"
  by (induction eids) (auto simp: active_edges_mem split: option.split)

lemma kahn_loop_step:
  assumes inv: "kahn_loop_inv g (m, q, order)" and "q \<noteq> []" and wf: "graph_wf g"
    and ix: "index_exact g"
  shows "kahn_loop_inv g (kahn_step g (m, q, order))"
    and "set (snd (snd (kahn_step g (m, q, order)))) = insert (hd q) (set order)"
proof -
  obtain cur q' where q: "q = cur # q'" using assms(2) by (cases q) auto
  obtain m2 q2 where f: "fold kahn_edge (map snd (out_active g cur)) (m, q') = (m2, q2)"
    by (cases "fold kahn_edge (map snd (out_active g cur)) (m, q')")
  have k: "kahn_inv g (order @ [cur]) (set order) {} (m, q')"
    and cur: "cur \<notin> set order" "pending g (set order) {} cur = {}" and t: "topo g order"
    using inv by (auto simp: kahn_loop_inv_def kahn_inv_def q)
  have "kahn_inv g (order @ [cur]) (set order) ({} \<union> fst ` set (out_active g cur)) (m2, q2)"
    unfolding f[symmetric]
  proof (rule kahn_inv_edges[OF k wf])
    show "distinct (map fst (out_active g cur))"
      using ix by (simp add: out_active_def index_exact_def distinct_active_edges)
    show "find_edge g i = Some e \<and> ed_active e \<and> ed_producer_id e \<notin> set order"
      if "(i, e) \<in> set (out_active g cur)" for i e
      using that cur(1) by (simp add: out_active_sound[OF index_exact_sound[OF ix]])
  qed simp
  then have "kahn_inv g (order @ [cur]) (insert cur (set order)) {} (m2, q2)"
    by (simp add: kahn_inv_def pending_out[OF ix])
  moreover have "topo g (order @ [cur])"
    using t cur(2) by (simp add: topo_snoc pending_empty_iff)
  ultimately show "kahn_loop_inv g (kahn_step g (m, q, order))"
    and "set (snd (snd (kahn_step g (m, q, order)))) = insert (hd q) (set order)"
    by (simp_all add: q f kahn_loop_inv_def)
qed

lemma kahn_start:
  assumes wf: "graph_wf g" and it: "iteration_ok it"
  shows "kahn_loop_inv g (init_indeg it g, kahn_roots it (init_indeg it g), [])"
proof -
  note spec = init_indeg_spec[OF wf it]
  have o: "is_order (it_nodes it)" using it by (simp add: iteration_ok_def)
  let ?m = "init_indeg it g"
  have "distinct (map fst (um_iter (it_nodes it) ?m))" by (rule um_iter_distinct[OF o spec(3)])
  then have "distinct (kahn_roots it ?m)" unfolding kahn_roots_def by (rule distinct_map_filter)
  moreover have "c \<in> set (kahn_roots it ?m) \<longleftrightarrow> um_find c ?m = Some 0" for c
    by (auto simp: kahn_roots_def um_iter_mem[OF o] image_iff)
  moreover have "um_find c ?m = Some 0 \<longleftrightarrow> pending g {} {} c = {}"
    if "c \<in> set (um_keys (gr_nodes g))" for c
  proof -
    have "c \<in> set (um_keys ?m)" using that spec(2) by simp
    then obtain d where d: "um_find c ?m = Some d" unfolding um.keys_find by blast
    then have "d = of_nat (card (pending g {} {} c))" using spec(1)[of c] by (simp add: indeg_at_def)
    with d show ?thesis
      using of_nat_u32_eq[OF card_pending[OF wf], of 0 "{}" "{}" c] by simp
  qed
  moreover have "um_find c ?m = Some 0 \<Longrightarrow> c \<in> set (um_keys (gr_nodes g))" for c
    using spec(2) um.keys_find[of c ?m] by auto
  ultimately show ?thesis
    using spec by (auto simp: kahn_loop_inv_def kahn_inv_def)
qed

theorem kahn_terminates:
  assumes wf: "graph_wf g" and ix: "index_exact g" and it: "iteration_ok it"
  obtains m order where
    "kahn g (init_indeg it g, kahn_roots it (init_indeg it g), []) = Some (m, [], order)"
    "kahn_loop_inv g (m, [], order)"
proof -
  let ?st = "(init_indeg it g, kahn_roots it (init_indeg it g), [])"
  let ?left = "\<lambda>(m :: indegrees, q :: node_id list, order).
    card (set (um_keys (gr_nodes g)) - set order)"
  have step: "kahn_loop_inv g (kahn_step g st)" "?left (kahn_step g st) < ?left st"
    if inv: "kahn_loop_inv g st" and run: "case st of (m, q, order) \<Rightarrow> q \<noteq> []" for st
  proof -
    obtain m q order where st: "st = (m, q, order)" by (cases st)
    with run have q: "q \<noteq> []" by simp
    note * = kahn_loop_step[OF inv[unfolded st] q wf ix]
    show "kahn_loop_inv g (kahn_step g st)" using *(1) by (simp add: st)
    have "hd q \<in> set (um_keys (gr_nodes g)) - set order"
      using inv q by (cases q) (auto simp: st kahn_loop_inv_def kahn_inv_def)
    then have "card (set (um_keys (gr_nodes g)) - insert (hd q) (set order)) <
               card (set (um_keys (gr_nodes g)) - set order)"
      by (intro psubset_card_mono) auto
    then show "?left (kahn_step g st) < ?left st"
      using *(2) by (cases "kahn_step g (m, q, order)") (simp add: st)
  qed
  have "\<exists>t. while_option (\<lambda>(m, q, order). q \<noteq> []) (kahn_step g) ?st = Some t"
    by (rule measure_while_option_Some[where P = "kahn_loop_inv g" and f = ?left])
      (use step kahn_start[OF wf it] in blast)+
  then obtain t where t: "kahn g ?st = Some t" by (auto simp: kahn_def)
  have inv: "kahn_loop_inv g t"
    using while_option_rule[where P = "kahn_loop_inv g", OF _ t[unfolded kahn_def]]
      step(1) kahn_start[OF wf it] by blast
  have "case t of (m, q, order) \<Rightarrow> q = []"
    using while_option_stop[OF t[unfolded kahn_def]] by (cases t) simp
  with t inv that show thesis by (cases t) auto
qed

end
