(* ===== verification/Scheduling.thy ===== *)
theory Scheduling
  imports Recompute Search
begin

text \<open>
  What the two schedulers of \<open>src/graph/readiness.cpp\<close> achieve. The full recomputation visits an
  acyclic graph in topological order and settles every node; the closure recomputation
  (\<open>recompute_closure_locked\<close>) touches exactly the nodes downstream of its roots, in
  breadth-first order, and leaves every other node as it was.
\<close>

section \<open>The full recomputation\<close>

lemma dep_rel_nodes:
  assumes "graph_wf g" and "(p, c) \<in> dep_rel g"
  shows "p \<in> set (um_keys (gr_nodes g))" "c \<in> set (um_keys (gr_nodes g))"
  using assms by (auto simp: graph_wf_def dep_rel_def um.keys_find)

lemma wf_dep_rel: "acyclic_graph g \<Longrightarrow> wf (dep_rel g)"
  by (simp add: acyclic_graph_def finite_acyclic_wf finite_dep_rel)

lemma kahn_inv_done:
  assumes "kahn_loop_inv g (m, [], order)"
  shows "topo g order" "distinct order" "set order \<subseteq> set (um_keys (gr_nodes g))"
    "um_wf m" "set (um_keys m) = set (um_keys (gr_nodes g))"
    "\<And>c. c \<in> set (um_keys (gr_nodes g)) \<Longrightarrow>
       c \<in> set order \<longleftrightarrow> pending g (set order) {} c = {}"
  using assms by (auto simp: kahn_loop_inv_def kahn_inv_def)

lemma kahn_visits_all:
  assumes inv: "kahn_loop_inv g (m, [], order)" and wf: "graph_wf g" and ac: "acyclic_graph g"
  shows "set order = set (um_keys (gr_nodes g))"
proof -
  note dn = kahn_inv_done[OF inv]
  have "c \<in> set (um_keys (gr_nodes g)) \<longrightarrow> c \<in> set order" for c
  proof (induction c rule: wf_induct_rule[OF wf_dep_rel[OF ac]])
    case (1 c)
    show ?case
    proof
      assume c: "c \<in> set (um_keys (gr_nodes g))"
      have "\<forall>p. (p, c) \<in> dep_rel g \<longrightarrow> p \<in> set order"
        using 1 dep_rel_nodes(1)[OF wf] by blast
      then have "pending g (set order) {} c = {}" by (simp add: pending_empty_iff)
      then show "c \<in> set order" using dn(6)[OF c] by simp
    qed
  qed
  then show ?thesis using dn(3) by blast
qed

lemma wf_keys_length: "um_wf m \<Longrightarrow> um_size m = card (set (um_keys m))"
  by (metis um_size_keys um.keys_distinct distinct_card)

lemma kahn_length_iff:
  assumes inv: "kahn_loop_inv g (m, [], order)" and wf: "graph_wf g"
  shows "length order = um_size (gr_nodes g) \<longleftrightarrow> acyclic_graph g"
proof -
  note dn = kahn_inv_done[OF inv]
  have sz: "um_size (gr_nodes g) = card (set (um_keys (gr_nodes g)))"
    using wf by (simp add: wf_keys_length graph_wf_def)
  have len: "length order = card (set order)" using dn(2) by (simp add: distinct_card)
  show ?thesis
  proof
    assume "length order = um_size (gr_nodes g)"
    then have all: "set order = set (um_keys (gr_nodes g))"
      using sz len card_subset_eq[OF _ dn(3)] by simp
    show "acyclic_graph g"
      unfolding acyclic_graph_def
      by (rule topo_acyclic[OF dn(1) _ dn(2)]) (use dep_rel_nodes(2)[OF wf] all in blast)
  next
    assume "acyclic_graph g"
    then show "length order = um_size (gr_nodes g)"
      using kahn_visits_all[OF inv wf] sz len by simp
  qed
qed

lemma acyclic_query_decides:
  assumes "graph_wf g" and "index_exact g" and "iteration_ok it"
  shows "acyclic_query it g = Some (acyclic_graph g)"
  by (rule kahn_terminates[OF assms])
    (simp add: acyclic_query_def Let_def kahn_length_iff[OF _ assms(1)])

lemma complete_order:
  "distinct ord \<Longrightarrow> distinct (map fst kvs) \<Longrightarrow>
   distinct (fold (\<lambda>kv ord. if fst kv \<in> set ord then ord else ord @ [fst kv]) kvs ord) \<and>
   set (fold (\<lambda>kv ord. if fst kv \<in> set ord then ord else ord @ [fst kv]) kvs ord) =
     set ord \<union> fst ` set kvs"
  by (induction kvs arbitrary: ord) auto

lemma complete_order_id:
  "fst ` set kvs \<subseteq> set ord \<Longrightarrow>
   fold (\<lambda>kv ord. if fst kv \<in> set ord then ord else ord @ [fst kv]) kvs ord = ord"
  by (induction kvs) auto

text \<open>
  The full recomputation always ends, and it recomputes every node of the graph once; on an
  acyclic graph it does so in topological order.
\<close>

lemma recompute_all_order:
  assumes wf: "graph_wf g" and ix: "index_exact g" and it: "iteration_ok it"
  obtains order where "recompute_all_locked it g = Some (recompute_nodes order g)"
    and "distinct order" and "set order = set (um_keys (gr_nodes g))"
    and "acyclic_graph g \<longrightarrow> topo g order"
proof -
  obtain m ord where k: "kahn g (init_indeg it g, kahn_roots it (init_indeg it g), []) = Some (m, [], ord)"
    and inv: "kahn_loop_inv g (m, [], ord)"
    by (rule kahn_terminates[OF assms])
  let ?kvs = "um_iter (it_nodes it) m"
  let ?order = "fold (\<lambda>kv ord. if fst kv \<in> set ord then ord else ord @ [fst kv]) ?kvs ord"
  note dn = kahn_inv_done[OF inv]
  have o: "is_order (it_nodes it)" using it by (simp add: iteration_ok_def)
  have "distinct (map fst ?kvs)" by (rule um_iter_distinct[OF o dn(4)])
  moreover have keys: "fst ` set ?kvs = set (um_keys (gr_nodes g))"
    by (metis um_iter_keys[OF o] image_set is_order_set[OF o] dn(5))
  ultimately have "distinct ?order" "set ?order = set (um_keys (gr_nodes g))"
    using complete_order[OF dn(2)] dn(3) by auto
  moreover have "?order = ord" if "acyclic_graph g"
    by (rule complete_order_id) (use kahn_visits_all[OF inv wf that] keys in simp)
  moreover have "recompute_all_locked it g = Some (recompute_nodes ?order g)"
    by (simp add: recompute_all_locked_def Let_def k)
  ultimately show thesis using that[of ?order] dn(1) by auto
qed

text \<open>
  \<open>members_local\<close>: the members of an active set point at the set's owner. \<open>add_dependency_set\<close>
  checks it.
\<close>

definition members_local :: "graph \<Rightarrow> bool" where
  "members_local g \<longleftrightarrow>
     (\<forall>v. \<forall>s \<in> set (active_sets g v). \<forall>e \<in> set (member_edges g s). ed_consumer_id e = v)"

lemma reads_dep_rel:
  assumes ix: "index_sound g" and ml: "members_local g" and p: "p \<in> reads g c"
  shows "(p, c) \<in> dep_rel g"
proof -
  from p obtain e where e: "ed_producer_id e = p"
    "e \<in> set (implicit_edges g c) \<or> (\<exists>s \<in> set (active_sets g c). e \<in> set (member_edges g s))"
    by (auto simp: reads_def)
  then have "\<exists>i. find_edge g i = Some e \<and> ed_active e \<and> ed_consumer_id e = c"
  proof (elim disjE bexE)
    assume "e \<in> set (implicit_edges g c)"
    then obtain i where "(i, e) \<in> set (in_active g c)" by (auto simp: implicit_edges_def)
    then show ?thesis by (auto simp: out_active_sound[OF ix])
  next
    fix s assume s: "s \<in> set (active_sets g c)" and m: "e \<in> set (member_edges g s)"
    then have "ed_consumer_id e = c" using ml by (auto simp: members_local_def)
    with m show ?thesis by (auto simp: member_edges_def active_edges_mem)
  qed
  with e(1) show ?thesis by (auto simp: dep_rel_def)
qed

lemma topo_suffix:
  assumes "topo g (js @ i # ks)" "distinct (js @ i # ks)" "(p, i) \<in> dep_rel g"
  shows "p \<notin> set (i # ks)"
proof -
  have "p \<in> set js" using assms(1,3) unfolding topo_def by blast
  then show ?thesis using assms(2) by auto
qed

lemma recompute_all_settles:
  assumes wf: "graph_wf g" and ix: "index_exact g" and it: "iteration_ok it"
    and ac: "acyclic_graph g" and ml: "members_local g"
  obtains g' where "recompute_all_locked it g = Some g'" and "\<forall>i. settled g' i"
    and "same_frame g g'" and "um_keys (gr_nodes g') = um_keys (gr_nodes g)"
    and "\<And>j. map_option durable (find_node g' j) = map_option durable (find_node g j)"
proof -
  obtain order where r: "recompute_all_locked it g = Some (recompute_nodes order g)"
    and d: "distinct order" and s: "set order = set (um_keys (gr_nodes g))"
    and t: "topo g order"
    by (rule recompute_all_order[OF wf ix it]) (use ac in blast)
  have "\<forall>i \<in> set order. settled (recompute_nodes order g) i"
  proof (rule recompute_ordered_settles[OF d])
    fix js i ks
    assume o: "order = js @ i # ks"
    show "reads g i \<inter> set (i # ks) = {}"
      using topo_suffix[of g js i ks] t d reads_dep_rel[OF index_exact_sound[OF ix] ml] unfolding o by blast
  qed
  moreover have "settled (recompute_nodes order g) i" if "i \<notin> set order" for i
  proof -
    have "find_node g i = None" using that s um.keys_find[of i "gr_nodes g"] by simp
    then show ?thesis by (simp add: settled_def recompute_nodes_other[OF that])
  qed
  ultimately have "\<forall>i. settled (recompute_nodes order g) i" by blast
  then show thesis
    by (rule that[OF r]) (simp_all add: same_frame_def recompute_nodes_durable)
qed

text \<open>What a settled READY node can rely on.\<close>

lemma settled_ready:
  assumes "settled g i" and "find_node g i = Some n" and "nd_state n = RS_READY"
    and "sets_in_range g i"
  shows "\<not> gated n" "list_all (edge_satisfied g) (implicit_edges g i)"
    "list_all (set_ok g) (active_sets g i)"
    "requires_own_generation (nd_kind n) \<longrightarrow> valid (nd_current_generation n)"
proof -
  have r: "recomputed_state g i n = RS_READY" using assms by (simp add: settled_def)
  then show ng: "\<not> gated n" using assms(3) by (auto simp: recomputed_state_def escape_state_def)
  with r assms(3) have "node_verdict g i n = RS_READY"
    by (simp add: recomputed_state_def escape_state_def derived_state_verdict[OF assms(4)])
  then show "list_all (edge_satisfied g) (implicit_edges g i)"
    and "list_all (set_ok g) (active_sets g i)"
    and "requires_own_generation (nd_kind n) \<longrightarrow> valid (nd_current_generation n)"
    by (auto simp: node_verdict_def node_hard_def node_stale_def node_soft_def list_all_iff
        list_ex_iff edge_satisfied_iff split: if_splits)
qed

section \<open>The closure recomputation\<close>

text \<open>
  The breadth-first order that \<open>recompute_closure_locked\<close> and \<open>topology_order_locked\<close>
  (\<open>recovery.cpp\<close>) both build: valid, not yet seen start ids, then the consumers of what is
  popped.
\<close>

definition start_queue :: "node_id list \<Rightarrow> node_id list \<times> node_id set" where
  "start_queue roots =
     fold (\<lambda>r (q, seen). if valid r \<and> r \<notin> seen then (q @ [r], insert r seen) else (q, seen))
       roots ([], {})"

definition closure_search :: "graph \<Rightarrow> (node_id, node_id, node_id, node_id list) search" where
  "closure_search g =
     \<lparr>s_expand = succs g, s_key = (\<lambda>c. c), s_item = (\<lambda>c. [c]), s_pop = (\<lambda>i a. a @ [i]),
      s_note = (\<lambda>fresh c a. a), s_stop = (\<lambda>a. False)\<rparr>"

definition topology_order_locked :: "graph \<Rightarrow> node_id list \<Rightarrow> node_id list" where
  "topology_order_locked g start =
     (case start_queue start of (q, seen) \<Rightarrow> search_result (closure_search g) (q, seen, []))"

definition recompute_closure_locked :: "node_id list \<Rightarrow> graph \<Rightarrow> graph" where
  "recompute_closure_locked roots g =
     recompute_nodes
       (case start_queue roots of (q, seen) \<Rightarrow> search_result (closure_search g) (q, seen, [])) g"

lemma succs_bounded: "c \<in> set (succs g v) \<Longrightarrow> c \<in> consumers g"
  by (auto simp: succs_def dest: out_active_consumer)

interpretation closure_walk: popping_search "closure_search g" "consumers g" "\<lambda>v. v" "succ_rel g"
  for g
  by unfold_locales (auto simp: closure_search_def succ_rel_def dest: succs_bounded)

lemma start_queue_fold:
  assumes "distinct q0" and "set q0 = seen0"
    and "fold (\<lambda>r (q, seen). if valid r \<and> r \<notin> seen then (q @ [r], insert r seen) else (q, seen))
           roots (q0, seen0) = (q, seen)"
  shows "distinct q \<and> set q = seen \<and> seen = seen0 \<union> {r \<in> set roots. valid r}"
  using assms
proof (induction roots arbitrary: q0 seen0)
  case (Cons r roots)
  show ?case
  proof (cases "valid r \<and> r \<notin> seen0")
    case True
    have "distinct q \<and> set q = seen \<and> seen = insert r seen0 \<union> {r \<in> set roots. valid r}"
      by (rule Cons.IH[of "q0 @ [r]"]) (use Cons.prems True in auto)
    with True show ?thesis by auto
  next
    case False
    have "distinct q \<and> set q = seen \<and> seen = seen0 \<union> {r \<in> set roots. valid r}"
      by (rule Cons.IH[of q0]) (use Cons.prems False in auto)
    with False show ?thesis by auto
  qed
qed auto

lemma start_queue_spec:
  assumes "start_queue roots = (q, seen)"
  shows "distinct q" "set q = seen" "seen = {r \<in> set roots. valid r}"
  using start_queue_fold[of "[]" "{}" roots q seen] assms by (auto simp: start_queue_def)

lemma topology_order_spec:
  "set (topology_order_locked g roots) = (succ_rel g)\<^sup>* `` {r \<in> set roots. valid r}"
  "distinct (topology_order_locked g roots)"
proof -
  obtain q seen where s: "start_queue roots = (q, seen)" by (cases "start_queue roots")
  note spec = start_queue_spec[OF s]
  have "(\<lambda>v. v) ` set (search_result (closure_search g) (q, seen, [])) = (succ_rel g)\<^sup>* `` seen"
    and "distinct (map (\<lambda>v. v) (search_result (closure_search g) (q, seen, [])))"
    by (rule closure_walk.popped_reachable; use spec in simp)+
  then show "set (topology_order_locked g roots) = (succ_rel g)\<^sup>* `` {r \<in> set roots. valid r}"
    and "distinct (topology_order_locked g roots)"
    by (simp_all add: topology_order_locked_def s spec(3)[symmetric])
qed

lemma recompute_closure_alt:
  "recompute_closure_locked roots g = recompute_nodes (topology_order_locked g roots) g"
  by (simp add: recompute_closure_locked_def topology_order_locked_def)

lemma succ_rel_dep_rel:
  assumes "index_sound g"
  shows "succ_rel g = dep_rel g"
proof -
  have "(v, w) \<in> succ_rel g \<longleftrightarrow> (v, w) \<in> dep_rel g" for v w
    unfolding succ_rel_iff out_active_sound[OF assms] dep_rel_def by blast
  then show ?thesis by auto
qed

lemma recompute_closure_frame [simp, frame]:
  "gr_edges (recompute_closure_locked roots g) = gr_edges g"
  "gr_sets (recompute_closure_locked roots g) = gr_sets g"
  "gr_sources (recompute_closure_locked roots g) = gr_sources g"
  "gr_out_edges (recompute_closure_locked roots g) = gr_out_edges g"
  "gr_in_edges (recompute_closure_locked roots g) = gr_in_edges g"
  "gr_node_sets (recompute_closure_locked roots g) = gr_node_sets g"
  "gr_epoch (recompute_closure_locked roots g) = gr_epoch g"
  "gr_adapter (recompute_closure_locked roots g) = gr_adapter g"
  "um_keys (gr_nodes (recompute_closure_locked roots g)) = um_keys (gr_nodes g)"
  by (simp_all add: recompute_closure_alt)

lemma recompute_closure_durable:
  "map_option durable (find_node (recompute_closure_locked roots g) j) =
   map_option durable (find_node g j)"
  by (simp add: recompute_closure_alt recompute_nodes_durable)

lemma closure_put_durable:
  "map_option durable (find_node (recompute_closure_locked roots (put_node i n g)) j) =
     (if j = i then Some (durable n) else map_option durable (find_node g j))"
  by (simp add: recompute_closure_durable)

lemma recompute_closure_other:
  "j \<notin> (succ_rel g)\<^sup>* `` {r \<in> set roots. valid r} \<Longrightarrow>
   find_node (recompute_closure_locked roots g) j = find_node g j"
  by (simp add: recompute_closure_alt recompute_nodes_other topology_order_spec)

lemma recompute_nodes_keep_settled:
  assumes "settled g j" and "\<forall>i \<in> set is. i \<notin> reads g j \<and> i \<noteq> j"
  shows "settled (recompute_nodes is g) j"
  using assms
proof (induction "is" arbitrary: g)
  case (Cons i "is")
  have "reads (snd (recompute_node_locked g i)) j = reads g j"
    by (rule reads_frame[OF same_lookups_recompute])
  then show ?case
    using Cons.prems by (simp add: Cons.IH recompute_keeps_settled)
qed simp

text \<open>A node outside the closure that was settled stays settled.\<close>

lemma recompute_closure_keeps_settled:
  assumes ix: "index_sound g" and ml: "members_local g" and st: "settled g j"
    and out: "j \<notin> (dep_rel g)\<^sup>* `` {r \<in> set roots. valid r}"
  shows "settled (recompute_closure_locked roots g) j"
proof -
  have "i \<notin> reads g j \<and> i \<noteq> j" if "i \<in> set (topology_order_locked g roots)" for i
  proof -
    from that have i: "i \<in> (dep_rel g)\<^sup>* `` {r \<in> set roots. valid r}"
      by (simp add: topology_order_spec succ_rel_dep_rel[OF ix])
    then show ?thesis
      using out reads_dep_rel[OF ix ml, of i j] by (auto intro: rtrancl_into_rtrancl)
  qed
  then show ?thesis
    unfolding recompute_closure_alt by (intro recompute_nodes_keep_settled[OF st]) blast
qed

text \<open>When the breadth-first order happens to be topological, the closure is settled too.\<close>

lemma recompute_closure_settles:
  assumes ix: "index_sound g" and ml: "members_local g"
    and ord: "\<And>js i ks. topology_order_locked g roots = js @ i # ks \<Longrightarrow>
                dep_rel g `` set (i # ks) \<inter> {i} = {}"
    and i: "i \<in> (dep_rel g)\<^sup>* `` {r \<in> set roots. valid r}"
  shows "settled (recompute_closure_locked roots g) i"
proof -
  have "\<forall>i \<in> set (topology_order_locked g roots). settled (recompute_closure_locked roots g) i"
    unfolding recompute_closure_alt
  proof (rule recompute_ordered_settles[OF topology_order_spec(2)])
    fix js i ks
    assume "topology_order_locked g roots = js @ i # ks"
    from ord[OF this] show "reads g i \<inter> set (i # ks) = {}"
      using reads_dep_rel[OF ix ml] by blast
  qed
  with i show ?thesis by (simp add: topology_order_spec succ_rel_dep_rel[OF ix])
qed

end
