(* ===== verification/GraphCore.thy ===== *)
theory GraphCore
  imports Scheduling
begin

text \<open>
  \<open>src/graph/graph_core.cpp\<close>: authority, the mutations of nodes, edges and dependency sets, and the
  const queries. A mutation runs under the graph's exclusive lock, so it is one function from the
  graph to an outcome and the next graph; \<open>add_edge\<close> returns \<open>None\<close> when
  \<open>edges_.at\<close> throws, and \<open>set_adapter\<close> when the full recomputation does not end.
\<close>

section \<open>Authority\<close>

definition current_epoch :: "graph \<Rightarrow> coordinator_epoch" where
  "current_epoch g = gr_epoch g"

definition register_source :: "source_id \<Rightarrow> source_boot_id \<Rightarrow> coordinator_epoch \<Rightarrow> graph \<Rightarrow>
    outcome \<times> graph" where
  "register_source source boot epoch g =
     (if \<not> valid source then (OC_REJECT_STALE_BOOT, g)
      else if \<not> valid boot then (OC_REJECT_STALE_BOOT, g)
      else if \<not> valid epoch \<or> strong_value epoch \<noteq> strong_value (gr_epoch g)
      then (OC_REJECT_STALE_EPOCH, g)
      else case um_find source (gr_sources g) of
        Some r \<Rightarrow>
          (OC_ACCEPTED, g\<lparr>gr_sources := um_put source
             (r\<lparr>sr_boot := boot, sr_epoch := epoch, sr_active := True\<rparr>) (gr_sources g)\<rparr>)
      | None \<Rightarrow>
          (OC_ACCEPTED, g\<lparr>gr_sources := um_put source
             \<lparr>sr_source = source, sr_boot = boot, sr_epoch = epoch, sr_active = True\<rparr>
             (gr_sources g)\<rparr>))"

definition advance_epoch :: "coordinator_epoch \<Rightarrow> graph \<Rightarrow> outcome \<times> graph" where
  "advance_epoch new_epoch g =
     (if \<not> valid new_epoch \<or> strong_value new_epoch \<le> strong_value (gr_epoch g)
      then (OC_REJECT_STALE_EPOCH, g)
      else (OC_ACCEPTED, g\<lparr>gr_epoch := new_epoch\<rparr>))"

definition source_registration_of :: "graph \<Rightarrow> source_id \<Rightarrow> source_registration option" where
  "source_registration_of g source = um_find source (gr_sources g)"

text \<open>\<open>authority_ok\<close> gives the rejection, or \<open>None\<close> when the caller may act.\<close>

definition authority_ok :: "graph \<Rightarrow> source_id \<Rightarrow> source_boot_id \<Rightarrow> coordinator_epoch \<Rightarrow>
    outcome option" where
  "authority_ok g source boot epoch =
     (if \<not> valid epoch \<or> strong_value epoch \<noteq> strong_value (gr_epoch g)
      then Some OC_REJECT_STALE_EPOCH
      else case um_find source (gr_sources g) of
        None \<Rightarrow> Some OC_REJECT_STALE_BOOT
      | Some r \<Rightarrow>
          if \<not> sr_active r then Some OC_REJECT_STALE_BOOT
          else if strong_value boot \<noteq> strong_value (sr_boot r) then Some OC_REJECT_STALE_BOOT
          else if strong_value (sr_epoch r) \<noteq> strong_value (gr_epoch g)
          then Some OC_REJECT_STALE_EPOCH
          else None)"

section \<open>Indexes and the cycle test\<close>

definition index_edge :: "edge_id \<times> edge \<Rightarrow> graph \<Rightarrow> graph" where
  "index_edge kv g =
     (if \<not> ed_active (snd kv) then g
      else g\<lparr>gr_out_edges := ix_push (ed_producer_id (snd kv)) (fst kv) (gr_out_edges g),
             gr_in_edges := ix_push (ed_consumer_id (snd kv)) (fst kv) (gr_in_edges g)\<rparr>)"

definition index_set :: "set_id \<times> dependency_set \<Rightarrow> graph \<Rightarrow> graph" where
  "index_set kv g =
     (if \<not> ds_active (snd kv) then g
      else g\<lparr>gr_node_sets := ix_push (ds_owner (snd kv)) (fst kv) (gr_node_sets g)\<rparr>)"

definition rebuild_indexes_locked :: "iteration \<Rightarrow> graph \<Rightarrow> graph" where
  "rebuild_indexes_locked it g =
     fold index_set (um_iter (it_sets it) (gr_sets g))
       (fold index_edge (um_iter (it_edges it) (gr_edges g))
         (g\<lparr>gr_out_edges := [], gr_in_edges := [], gr_node_sets := []\<rparr>))"

text \<open>The accumulator of the cycle search says whether the producer has been met.\<close>

definition cycle_search :: "graph \<Rightarrow> node_id \<Rightarrow> (node_id, node_id, node_id, bool) search" where
  "cycle_search g producer =
     \<lparr>s_expand = succs g, s_key = (\<lambda>c. c), s_item = (\<lambda>c. [c]), s_pop = (\<lambda>i a. a),
      s_note = (\<lambda>fresh c a. a \<or> c = producer), s_stop = (\<lambda>a. a)\<rparr>"

definition would_create_cycle_locked :: "graph \<Rightarrow> node_id \<Rightarrow> node_id \<Rightarrow> bool" where
  "would_create_cycle_locked g producer consumer =
     (if strong_value producer = strong_value consumer then True
      else search_result (cycle_search g producer) ([consumer], {consumer}, False))"

section \<open>Node mutations\<close>

definition declare_node :: "node_id \<Rightarrow> node_kind \<Rightarrow> string \<Rightarrow> source_id \<Rightarrow> source_boot_id \<Rightarrow>
    coordinator_epoch \<Rightarrow> bool \<Rightarrow> graph \<Rightarrow> outcome \<times> graph" where
  "declare_node i kind descriptor source boot epoch static_durable_fact g =
     (case authority_ok g source boot epoch of
        Some rej \<Rightarrow> (rej, g)
      | None \<Rightarrow>
          if \<not> valid i then (OC_REJECT_INVALID_TRANSITION, g)
          else if find_node g i \<noteq> None then (OC_REJECT_DUPLICATE_ID, g)
          else if um_size (gr_nodes g) \<ge> kMaxGraphNodes then (OC_REJECT_MALFORMED, g)
          else (OC_ACCEPTED,
            put_node i ((make_node i kind descriptor)
              \<lparr>nd_static_durable_fact := static_durable_fact,
               nd_dynamic_evidence := \<not> static_durable_fact,
               nd_origin_source := source, nd_origin_boot := boot,
               nd_state := RS_DECLARED\<rparr>) g))"

text \<open>The last assignments shared by \<open>publish_generation\<close> and \<open>supersede_generation\<close>.\<close>

definition install_generation :: "node_generation \<Rightarrow> source_id \<Rightarrow> source_boot_id \<Rightarrow> node \<Rightarrow> node" where
  "install_generation gen source boot n =
     n\<lparr>nd_current_generation := gen,
       nd_generation_history := nd_generation_history n @ [gen],
       nd_origin_source := source, nd_origin_boot := boot,
       nd_ever_invalidated := False, nd_state := RS_PRESENT, nd_recovered_evidence := DE_FRESH\<rparr>"

definition publish_generation :: "node_id \<Rightarrow> node_generation \<Rightarrow> source_id \<Rightarrow> source_boot_id \<Rightarrow>
    coordinator_epoch \<Rightarrow> graph \<Rightarrow> outcome \<times> graph" where
  "publish_generation i gen source boot epoch g =
     (case authority_ok g source boot epoch of
        Some rej \<Rightarrow> (rej, g)
      | None \<Rightarrow>
        (case find_node g i of
           None \<Rightarrow> (OC_REJECT_UNKNOWN_DEPENDENCY, g)
         | Some n \<Rightarrow>
             if \<not> valid gen then (OC_REJECT_INVALID_TRANSITION, g)
             else if valid (nd_current_generation n) \<and>
                     strong_value gen \<le> strong_value (nd_current_generation n) then
               (if strong_value gen = strong_value (nd_current_generation n)
                then OC_REJECT_DUPLICATE_ID else OC_REJECT_STALE_NODE_GENERATION, g)
             else if length (nd_generation_history n) \<ge> kMaxGraphNodes then (OC_REJECT_MALFORMED, g)
             else
               let superseded = (if valid (nd_current_generation n)
                     then nd_superseded_generations n @ [nd_current_generation n]
                     else nd_superseded_generations n);
                   n' = install_generation gen source boot
                          (n\<lparr>nd_superseded_generations := superseded\<rparr>)
               in (OC_ACCEPTED, recompute_closure_locked [i] (put_node i n' g))))"

definition supersede_generation :: "node_id \<Rightarrow> node_generation \<Rightarrow> node_generation \<Rightarrow> source_id \<Rightarrow>
    source_boot_id \<Rightarrow> coordinator_epoch \<Rightarrow> graph \<Rightarrow> outcome \<times> graph" where
  "supersede_generation i old_gen new_gen source boot epoch g =
     (case authority_ok g source boot epoch of
        Some rej \<Rightarrow> (rej, g)
      | None \<Rightarrow>
        (case find_node g i of
           None \<Rightarrow> (OC_REJECT_UNKNOWN_DEPENDENCY, g)
         | Some n \<Rightarrow>
             if \<not> valid old_gen \<or> \<not> valid new_gen then (OC_REJECT_INVALID_TRANSITION, g)
             else if strong_value new_gen \<le> strong_value old_gen
             then (OC_REJECT_STALE_NODE_GENERATION, g)
             else if \<not> has_generation n old_gen then (OC_REJECT_STALE_NODE_GENERATION, g)
             else if strong_value (highest_generation n) = strong_value old_gen \<and>
                     strong_value (nd_current_generation n) = strong_value old_gen then
               (if strong_value new_gen \<le> strong_value (nd_current_generation n)
                then (OC_REJECT_STALE_NODE_GENERATION, g)
                else (OC_ACCEPTED, recompute_closure_locked [i]
                  (put_node i (install_generation new_gen source boot
                     (n\<lparr>nd_superseded_generations :=
                         nd_superseded_generations n @ [nd_current_generation n]\<rparr>)) g)))
             else
               (OC_ACCEPTED, recompute_closure_locked [i]
                 (put_node i (install_generation new_gen source boot
                    (n\<lparr>nd_superseded_generations := nd_superseded_generations n @ [old_gen]\<rparr>)) g))))"

definition apply_evidence :: "node_evidence_patch \<Rightarrow> node \<Rightarrow> node" where
  "apply_evidence p n =
     n\<lparr>nd_resource_available :=
         (if np_set_resource_available p then np_resource_available p else nd_resource_available n),
       nd_integrity_valid :=
         (if np_set_integrity p then np_integrity_valid p else nd_integrity_valid n),
       nd_freshness_valid :=
         (if np_set_freshness p then np_freshness_valid p else nd_freshness_valid n),
       nd_provenance_confidence :=
         (if np_set_provenance p then np_provenance_confidence p else nd_provenance_confidence n),
       nd_completion_state :=
         (if np_set_completion p then np_completion_state p else nd_completion_state n),
       nd_claimed_capabilities :=
         (if np_claimed_capabilities p \<noteq> [] then np_claimed_capabilities p
          else nd_claimed_capabilities n)\<rparr>"

definition set_node_evidence :: "node_id \<Rightarrow> node_evidence_patch \<Rightarrow> source_id \<Rightarrow> source_boot_id \<Rightarrow>
    coordinator_epoch \<Rightarrow> graph \<Rightarrow> outcome \<times> graph" where
  "set_node_evidence i patch source boot epoch g =
     (case authority_ok g source boot epoch of
        Some rej \<Rightarrow> (rej, g)
      | None \<Rightarrow>
        (case find_node g i of
           None \<Rightarrow> (OC_REJECT_UNKNOWN_DEPENDENCY, g)
         | Some n \<Rightarrow>
             (OC_ACCEPTED, recompute_closure_locked [i] (put_node i (apply_evidence patch n) g))))"

definition retire_node :: "node_id \<Rightarrow> source_id \<Rightarrow> source_boot_id \<Rightarrow> coordinator_epoch \<Rightarrow> graph \<Rightarrow>
    outcome \<times> graph" where
  "retire_node i source boot epoch g =
     (case authority_ok g source boot epoch of
        Some rej \<Rightarrow> (rej, g)
      | None \<Rightarrow>
        (case find_node g i of
           None \<Rightarrow> (OC_REJECT_UNKNOWN_DEPENDENCY, g)
         | Some n \<Rightarrow>
             (OC_ACCEPTED, recompute_closure_locked [i] (put_node i (n\<lparr>nd_state := RS_RETIRED\<rparr>) g))))"

section \<open>Edge mutations\<close>

text \<open>The duplicate test; \<open>None\<close> when \<open>edges_.at\<close> throws.\<close>

fun equivalent_edge :: "graph \<Rightarrow> edge \<Rightarrow> edge_id list \<Rightarrow> bool option" where
  "equivalent_edge g e [] = Some False"
| "equivalent_edge g e (eid # eids) =
     (case find_edge g eid of
        None \<Rightarrow> None
      | Some x \<Rightarrow>
          if strong_value (ed_consumer_id x) = strong_value (ed_consumer_id e) \<and>
             ed_kind x = ed_kind e \<and> ed_active x
          then Some True else equivalent_edge g e eids)"

definition insert_edge :: "edge \<Rightarrow> graph \<Rightarrow> graph" where
  "insert_edge e g =
     g\<lparr>gr_edges := um_put (ed_id e) e (gr_edges g),
       gr_out_edges := ix_push (ed_producer_id e) (ed_id e) (gr_out_edges g),
       gr_in_edges := ix_push (ed_consumer_id e) (ed_id e) (gr_in_edges g)\<rparr>"

definition add_edge :: "edge \<Rightarrow> source_id \<Rightarrow> source_boot_id \<Rightarrow> coordinator_epoch \<Rightarrow> graph \<Rightarrow>
    (outcome \<times> graph) option" where
  "add_edge e source boot epoch g =
     (case authority_ok g source boot epoch of
        Some rej \<Rightarrow> Some (rej, g)
      | None \<Rightarrow>
          if \<not> valid (ed_id e) then Some (OC_REJECT_INVALID_TRANSITION, g)
          else if \<not> valid (ed_producer_id e) \<or> \<not> valid (ed_consumer_id e)
          then Some (OC_REJECT_INVALID_TRANSITION, g)
          else if find_node g (ed_producer_id e) = None \<or> find_node g (ed_consumer_id e) = None
          then Some (OC_REJECT_UNKNOWN_DEPENDENCY, g)
          else if find_edge g (ed_id e) \<noteq> None then Some (OC_REJECT_DUPLICATE_ID, g)
          else if strong_value (ed_producer_id e) = strong_value (ed_consumer_id e)
          then Some (OC_REJECT_CYCLE, g)
          else
            (case equivalent_edge g e (ix_at (ed_producer_id e) (gr_out_edges g)) of
               None \<Rightarrow> None
             | Some True \<Rightarrow> Some (OC_REJECT_DUPLICATE_ID, g)
             | Some False \<Rightarrow>
                 if would_create_cycle_locked g (ed_producer_id e) (ed_consumer_id e)
                 then Some (OC_REJECT_CYCLE, g)
                 else if um_size (gr_edges g) \<ge> kMaxGraphEdges then Some (OC_REJECT_MALFORMED, g)
                 else Some (OC_ACCEPTED,
                   recompute_closure_locked [ed_consumer_id e] (insert_edge e g))))"

definition delete_edge :: "edge_id \<Rightarrow> edge \<Rightarrow> graph \<Rightarrow> graph" where
  "delete_edge i e g =
     g\<lparr>gr_edges := um_erase i (gr_edges g),
       gr_out_edges := ix_erase (ed_producer_id e) i (gr_out_edges g),
       gr_in_edges := ix_erase (ed_consumer_id e) i (gr_in_edges g)\<rparr>"

definition remove_edge :: "edge_id \<Rightarrow> source_id \<Rightarrow> source_boot_id \<Rightarrow> coordinator_epoch \<Rightarrow> graph \<Rightarrow>
    outcome \<times> graph" where
  "remove_edge i source boot epoch g =
     (case authority_ok g source boot epoch of
        Some rej \<Rightarrow> (rej, g)
      | None \<Rightarrow>
        (case find_edge g i of
           None \<Rightarrow> (OC_REJECT_UNKNOWN_DEPENDENCY, g)
         | Some e \<Rightarrow>
             (OC_ACCEPTED, recompute_closure_locked [ed_consumer_id e] (delete_edge i e g))))"

definition switch_edge :: "edge_id \<Rightarrow> edge \<Rightarrow> bool \<Rightarrow> graph \<Rightarrow> graph" where
  "switch_edge i e active g =
     (let g' = g\<lparr>gr_edges := um_put i (e\<lparr>ed_active := active\<rparr>) (gr_edges g)\<rparr> in
      if active then
        g'\<lparr>gr_out_edges := ix_push (ed_producer_id e) i (gr_out_edges g),
           gr_in_edges := ix_push (ed_consumer_id e) i (gr_in_edges g)\<rparr>
      else
        g'\<lparr>gr_out_edges := ix_erase (ed_producer_id e) i (gr_out_edges g),
           gr_in_edges := ix_erase (ed_consumer_id e) i (gr_in_edges g)\<rparr>)"

definition set_edge_active :: "edge_id \<Rightarrow> bool \<Rightarrow> source_id \<Rightarrow> source_boot_id \<Rightarrow> coordinator_epoch \<Rightarrow>
    graph \<Rightarrow> outcome \<times> graph" where
  "set_edge_active i active source boot epoch g =
     (case authority_ok g source boot epoch of
        Some rej \<Rightarrow> (rej, g)
      | None \<Rightarrow>
        (case find_edge g i of
           None \<Rightarrow> (OC_REJECT_UNKNOWN_DEPENDENCY, g)
         | Some e \<Rightarrow>
             if ed_active e = active
             then (OC_ACCEPTED, recompute_closure_locked [ed_consumer_id e] g)
             else (OC_ACCEPTED,
               recompute_closure_locked [ed_consumer_id e] (switch_edge i e active g))))"

section \<open>Dependency-set mutations\<close>

fun check_members :: "graph \<Rightarrow> node_id \<Rightarrow> edge_id list \<Rightarrow> outcome option" where
  "check_members g owner [] = None"
| "check_members g owner (eid # eids) =
     (case find_edge g eid of
        None \<Rightarrow> Some OC_REJECT_UNKNOWN_DEPENDENCY
      | Some e \<Rightarrow>
          if strong_value (ed_consumer_id e) \<noteq> strong_value owner
          then Some OC_REJECT_INVALID_TRANSITION
          else check_members g owner eids)"

definition add_dependency_set :: "dependency_set \<Rightarrow> source_id \<Rightarrow> source_boot_id \<Rightarrow>
    coordinator_epoch \<Rightarrow> graph \<Rightarrow> outcome \<times> graph" where
  "add_dependency_set s source boot epoch g =
     (case authority_ok g source boot epoch of
        Some rej \<Rightarrow> (rej, g)
      | None \<Rightarrow>
          if \<not> valid (ds_id s) then (OC_REJECT_INVALID_TRANSITION, g)
          else if find_node g (ds_owner s) = None then (OC_REJECT_UNKNOWN_DEPENDENCY, g)
          else if find_set g (ds_id s) \<noteq> None then (OC_REJECT_DUPLICATE_ID, g)
          else
            (case check_members g (ds_owner s) (ds_members s) of
               Some rej \<Rightarrow> (rej, g)
             | None \<Rightarrow>
                 (OC_ACCEPTED, recompute_closure_locked [ds_owner s]
                   (g\<lparr>gr_sets := um_put (ds_id s) s (gr_sets g),
                      gr_node_sets := ix_push (ds_owner s) (ds_id s) (gr_node_sets g)\<rparr>))))"

definition unlist_set :: "set_id \<Rightarrow> node_id \<Rightarrow> (node_id, set_id list) umap \<Rightarrow>
    (node_id, set_id list) umap" where
  "unlist_set i owner m =
     (case um_find owner m of
        None \<Rightarrow> m
      | Some v \<Rightarrow>
          let v' = removeAll i v in if v' = [] then um_erase owner m else um_put owner v' m)"

definition remove_dependency_set :: "set_id \<Rightarrow> source_id \<Rightarrow> source_boot_id \<Rightarrow> coordinator_epoch \<Rightarrow>
    graph \<Rightarrow> outcome \<times> graph" where
  "remove_dependency_set i source boot epoch g =
     (case authority_ok g source boot epoch of
        Some rej \<Rightarrow> (rej, g)
      | None \<Rightarrow>
        (case find_set g i of
           None \<Rightarrow> (OC_REJECT_UNKNOWN_DEPENDENCY, g)
         | Some s \<Rightarrow>
             (OC_ACCEPTED, recompute_closure_locked [ds_owner s]
               (g\<lparr>gr_sets := um_erase i (gr_sets g),
                  gr_node_sets := unlist_set i (ds_owner s) (gr_node_sets g)\<rparr>))))"

section \<open>Publishing readiness\<close>

definition publish_readiness :: "node_id \<Rightarrow> readiness_state \<Rightarrow> source_id \<Rightarrow> source_boot_id \<Rightarrow>
    coordinator_epoch \<Rightarrow> graph \<Rightarrow> outcome \<times> graph" where
  "publish_readiness i state source boot epoch g =
     (case authority_ok g source boot epoch of
        Some rej \<Rightarrow> (rej, g)
      | None \<Rightarrow>
        (case find_node g i of
           None \<Rightarrow> (OC_REJECT_UNKNOWN_DEPENDENCY, g)
         | Some n \<Rightarrow>
             let n' = (if state = RS_READY
                       then n\<lparr>nd_ever_invalidated := False, nd_recovered_evidence := DE_FRESH,
                              nd_dynamic_evidence := True\<rparr>
                       else n\<lparr>nd_state := state\<rparr>)
             in (OC_ACCEPTED, recompute_closure_locked [i] (put_node i n' g))))"

definition recompute_readiness :: "node_id \<Rightarrow> graph \<Rightarrow> outcome \<times> graph" where
  "recompute_readiness i g = recompute_node_locked g i"

definition recompute_all_readiness :: "iteration \<Rightarrow> graph \<Rightarrow> (outcome \<times> graph) option" where
  "recompute_all_readiness it g = map_option (Pair OC_ACCEPTED) (recompute_all_locked it g)"

definition set_adapter :: "iteration \<Rightarrow> dependency_adapter option \<Rightarrow> graph \<Rightarrow> graph option" where
  "set_adapter it adapter g = recompute_all_locked it (g\<lparr>gr_adapter := adapter\<rparr>)"

section \<open>Const queries\<close>

definition readiness :: "graph \<Rightarrow> node_id \<Rightarrow> readiness_state" where
  "readiness g i = (case find_node g i of None \<Rightarrow> RS_UNKNOWN | Some n \<Rightarrow> nd_state n)"

definition node_of :: "graph \<Rightarrow> node_id \<Rightarrow> node option" where
  "node_of g i = find_node g i"

definition edge_of :: "graph \<Rightarrow> edge_id \<Rightarrow> edge option" where
  "edge_of g i = find_edge g i"

definition dependency_set_of :: "graph \<Rightarrow> set_id \<Rightarrow> dependency_set option" where
  "dependency_set_of g i = find_set g i"

definition all_nodes :: "iteration \<Rightarrow> graph \<Rightarrow> node_id list" where
  "all_nodes it g = sort (map fst (um_iter (it_nodes it) (gr_nodes g)))"

definition all_edges :: "iteration \<Rightarrow> graph \<Rightarrow> edge_id list" where
  "all_edges it g = sort (map fst (um_iter (it_edges it) (gr_edges g)))"

definition node_count :: "graph \<Rightarrow> nat" where
  "node_count g = um_size (gr_nodes g)"

definition edge_count :: "graph \<Rightarrow> nat" where
  "edge_count g = um_size (gr_edges g)"

definition set_count :: "graph \<Rightarrow> nat" where
  "set_count g = um_size (gr_sets g)"

definition source_count :: "graph \<Rightarrow> nat" where
  "source_count g = um_size (gr_sources g)"

definition current_authority :: "graph \<Rightarrow> node_id \<Rightarrow> node_generation" where
  "current_authority g i =
     (case find_node g i of None \<Rightarrow> null_strong | Some n \<Rightarrow> nd_current_generation n)"

section \<open>Generation histories\<close>

text \<open>The history of a node: strictly increasing, and its last entry is the current generation.\<close>

definition history_ok :: "node \<Rightarrow> bool" where
  "history_ok n \<longleftrightarrow> sorted_wrt (<) (nd_generation_history n) \<and>
     (if nd_generation_history n = [] then \<not> valid (nd_current_generation n)
      else nd_current_generation n = last (nd_generation_history n) \<and> valid (nd_current_generation n))"

definition histories_ok :: "graph \<Rightarrow> bool" where
  "histories_ok g \<longleftrightarrow> (\<forall>i n. find_node g i = Some n \<longrightarrow> history_ok n)"

lemma history_ok_durable: "history_ok (durable n) = history_ok n"
  by (simp add: history_ok_def durable_def)

lemma histories_ok_durable:
  assumes "\<And>j. map_option durable (find_node g' j) = map_option durable (find_node g j)"
    and "histories_ok g"
  shows "histories_ok g'"
  unfolding histories_ok_def
proof (intro allI impI)
  fix i n'
  assume "find_node g' i = Some n'"
  with assms(1)[of i] obtain n where "find_node g i = Some n" "durable n' = durable n"
    by (cases "find_node g i") auto
  with assms(2) show "history_ok n'" by (metis histories_ok_def history_ok_durable)
qed

lemma sorted_wrt_le_last: "sorted_wrt (<) xs \<Longrightarrow> y \<in> set xs \<Longrightarrow> y \<le> last xs"
  for xs :: "'a::linorder list"
  by (induction xs) (auto intro: less_imp_le)

lemma sorted_wrt_snoc_last:
  "sorted_wrt (<) xs \<Longrightarrow> xs \<noteq> [] \<Longrightarrow> last xs < x \<Longrightarrow> sorted_wrt (<) (xs @ [x])"
  for xs :: "'a::linorder list"
  using sorted_wrt_le_last by (fastforce simp: sorted_wrt_append)

end
