(* ===== verification/Structure.thy ===== *)
theory Structure
  imports GraphCore
begin

text \<open>
  The structural facts every operation relies on: the index is sound, the cycle test decides
  reachability, and what a change of nodes, edges or sets does to the dependency relation.
\<close>

section \<open>Structure-preserving changes\<close>

text \<open>Two graphs with the same nodes, edges, sets and indexes; the contents of nodes may differ.\<close>

definition same_structure :: "graph \<Rightarrow> graph \<Rightarrow> bool" where
  "same_structure g g' \<longleftrightarrow> um_keys (gr_nodes g') = um_keys (gr_nodes g) \<and>
     gr_edges g' = gr_edges g \<and> gr_sets g' = gr_sets g \<and>
     gr_out_edges g' = gr_out_edges g \<and> gr_in_edges g' = gr_in_edges g \<and>
     gr_node_sets g' = gr_node_sets g"

lemma same_structure_refl [simp]: "same_structure g g"
  by (simp add: same_structure_def)

lemma same_structure_trans: "same_structure g h \<Longrightarrow> same_structure h k \<Longrightarrow> same_structure g k"
  by (simp add: same_structure_def)

lemma same_structure_put: "find_node g i \<noteq> None \<Longrightarrow> same_structure g (put_node i n g)"
  by (auto simp: same_structure_def)

lemma same_structure_closure [simp]: "same_structure g (recompute_closure_locked roots g)"
  by (simp add: same_structure_def)

lemma same_structure_nodes [simp]: "same_structure g (recompute_nodes is g)"
  by (simp add: same_structure_def)

lemma same_structure_node [simp]: "same_structure g (snd (recompute_node_locked g i))"
  by (simp add: same_structure_def)

lemma um_wf_keys: "um_wf m \<longleftrightarrow> distinct (um_keys m)"
  by (simp add: um_wf_def um_keys_def)

lemma same_structure_find:
  assumes "same_structure g g'"
  shows "find_node g' i = None \<longleftrightarrow> find_node g i = None"
proof -
  have "find_node g' i \<noteq> None \<longleftrightarrow> find_node g i \<noteq> None"
    unfolding um.keys_find[symmetric] using assms by (simp add: same_structure_def)
  then show ?thesis by blast
qed

lemma same_structure_wf:
  "same_structure g g' \<Longrightarrow> gr_sources g' = gr_sources g \<Longrightarrow> graph_wf g \<Longrightarrow> graph_wf g'"
  using same_structure_find[of g g']
  by (simp add: same_structure_def graph_wf_def um_wf_keys)

lemma same_structure_index: "same_structure g g' \<Longrightarrow> index_sound g' = index_sound g"
  by (simp add: same_structure_def index_sound_def)

lemma same_structure_exact: "same_structure g g' \<Longrightarrow> index_exact g' = index_exact g"
  by (simp add: same_structure_def index_exact_def)

lemma same_structure_dep_rel: "same_structure g g' \<Longrightarrow> dep_rel g' = dep_rel g"
  by (simp add: same_structure_def dep_rel_def)

lemma same_structure_active:
  "same_structure g g' \<Longrightarrow> out_active g' v = out_active g v"
  "same_structure g g' \<Longrightarrow> in_active g' v = in_active g v"
  "same_structure g g' \<Longrightarrow> active_sets g' v = active_sets g v"
  "same_structure g g' \<Longrightarrow> member_edges g' s = member_edges g s"
  by (simp_all add: same_structure_def out_active_def in_active_def active_sets_def
      member_edges_def active_edges_def)

lemma same_structure_members: "same_structure g g' \<Longrightarrow> members_local g' = members_local g"
  by (simp add: members_local_def same_structure_active)

lemmas same_structure_facts = same_structure_index same_structure_exact same_structure_dep_rel
  same_structure_active same_structure_members

section \<open>The cycle test\<close>

interpretation cycle_walk: reach_search "cycle_search g p" "consumers g" "\<lambda>v. v" "succ_rel g"
  for g p
  by unfold_locales (auto simp: cycle_search_def succ_rel_def dest: succs_bounded)

lemma rtrancl_last: "(x, y) \<in> r\<^sup>* \<Longrightarrow> x \<noteq> y \<Longrightarrow> \<exists>z. (x, z) \<in> r\<^sup>* \<and> (z, y) \<in> r"
  by (meson rtranclE)

text \<open>The accumulator is set exactly when a visited candidate is the producer.\<close>

lemma cycle_search_found:
  assumes "consumer \<noteq> producer"
  shows "search_result (cycle_search g producer) ([consumer], {consumer}, False) \<longleftrightarrow>
         (consumer, producer) \<in> (succ_rel g)\<^sup>*"
proof -
  let ?S = "cycle_search g producer"
  let ?P = "\<lambda>(q :: node_id list, vis, a). a = (producer \<in> vis)"
  obtain q vis a where s: "search ?S ([consumer], {consumer}, False) = (q, vis, a)"
    by (metis prod_cases3)
  have scan: "?P (search_scan ?S cs st)" if "?P st" for cs st
    using that by (rule search_scan_rule[where P = ?P]) (auto simp: cycle_search_def)
  have "?P (search_step ?S st)" if p: "?P st" and run: "search_running ?S st" for st
  proof -
    obtain i q vis a where st: "st = (i # q, vis, a)"
      using run by (cases st) (auto simp: search_running_def neq_Nil_conv)
    have "?P (q, vis, s_pop ?S i a)" using p by (simp add: st cycle_search_def)
    then show ?thesis unfolding st search_step.simps by (rule scan)
  qed
  then have "?P (search ?S ([consumer], {consumer}, False))"
    using cycle_walk.search_rule[where P = ?P and st = "([consumer], {consumer}, False)"] assms by auto
  then have a: "a = (producer \<in> vis)" by (simp add: s)
  have "s_stop ?S a \<or> q = [] \<and> vis = (succ_rel g)\<^sup>* `` {consumer}" "vis \<subseteq> (succ_rel g)\<^sup>* `` {consumer}"
    using cycle_walk.search_reaches[where q = "[consumer]" and A = "{consumer}", OF _ s] by auto
  moreover have "s_stop ?S a = a" by (simp add: cycle_search_def)
  ultimately have "a \<longleftrightarrow> (consumer, producer) \<in> (succ_rel g)\<^sup>*" using a by auto
  then show ?thesis by (simp add: search_result_def s)
qed

lemma would_create_cycle_iff:
  assumes "index_sound g"
  shows "would_create_cycle_locked g producer consumer \<longleftrightarrow> (consumer, producer) \<in> (dep_rel g)\<^sup>*"
  by (auto simp: would_create_cycle_locked_def cycle_search_found succ_rel_dep_rel[OF assms])

lemma acyclic_insert_edge:
  assumes "acyclic r" and "(c, p) \<notin> r\<^sup>*"
  shows "acyclic (insert (p, c) r)"
  using assms by (simp add: acyclic_insert)

section \<open>Dependency relations that skip optional edges\<close>

definition passes :: "bool \<Rightarrow> edge \<Rightarrow> bool" where
  "passes through_optional e \<longleftrightarrow> \<not> (ed_kind e = EK_OPTIONAL \<and> \<not> through_optional)"

definition dep_rel_via :: "bool \<Rightarrow> graph \<Rightarrow> (node_id \<times> node_id) set" where
  "dep_rel_via through g = {(ed_producer_id e, ed_consumer_id e) |i e.
     find_edge g i = Some e \<and> ed_active e \<and> passes through e}"

lemma dep_rel_via_True [simp]: "dep_rel_via True g = dep_rel g"
  by (simp add: dep_rel_via_def dep_rel_def passes_def)

lemma dep_rel_via_subset: "dep_rel_via t g \<subseteq> dep_rel g"
  by (auto simp: dep_rel_via_def dep_rel_def)

text \<open>What the walks along the index follow, and its meaning when the index is sound.\<close>

definition out_via :: "bool \<Rightarrow> graph \<Rightarrow> node_id \<Rightarrow> node_id list" where
  "out_via t g v = map (\<lambda>(i, e). ed_consumer_id e) (filter (\<lambda>(i, e). passes t e) (out_active g v))"

definition in_via :: "bool \<Rightarrow> graph \<Rightarrow> node_id \<Rightarrow> node_id list" where
  "in_via t g v = map (\<lambda>(i, e). ed_producer_id e) (filter (\<lambda>(i, e). passes t e) (in_active g v))"

definition out_rel :: "bool \<Rightarrow> graph \<Rightarrow> (node_id \<times> node_id) set" where
  "out_rel t g = {(v, w). w \<in> set (out_via t g v)}"

definition in_rel :: "bool \<Rightarrow> graph \<Rightarrow> (node_id \<times> node_id) set" where
  "in_rel t g = {(v, w). w \<in> set (in_via t g v)}"

lemma out_via_bounded: "w \<in> set (out_via t g v) \<Longrightarrow> w \<in> consumers g"
  by (auto simp: out_via_def dest: out_active_consumer)

lemma in_via_bounded: "w \<in> set (in_via t g v) \<Longrightarrow> w \<in> producers g"
  by (auto simp: in_via_def dest: in_active_producer)

lemma out_via_mem:
  assumes "index_sound g"
  shows "w \<in> set (out_via t g v) \<longleftrightarrow> (v, w) \<in> dep_rel_via t g"
proof -
  have "w \<in> set (out_via t g v) \<longleftrightarrow>
      (\<exists>i e. (i, e) \<in> set (out_active g v) \<and> passes t e \<and> w = ed_consumer_id e)"
    by (force simp: out_via_def)
  then show ?thesis unfolding out_active_sound[OF assms] dep_rel_via_def by blast
qed

lemma in_via_mem:
  assumes "index_sound g"
  shows "w \<in> set (in_via t g v) \<longleftrightarrow> (w, v) \<in> dep_rel_via t g"
proof -
  have "w \<in> set (in_via t g v) \<longleftrightarrow>
      (\<exists>i e. (i, e) \<in> set (in_active g v) \<and> passes t e \<and> w = ed_producer_id e)"
    by (force simp: in_via_def)
  then show ?thesis unfolding out_active_sound[OF assms] dep_rel_via_def by blast
qed

lemma out_rel_dep: "index_sound g \<Longrightarrow> out_rel t g = dep_rel_via t g"
  by (auto simp: out_rel_def out_via_mem)

lemma in_rel_dep: "index_sound g \<Longrightarrow> in_rel t g = (dep_rel_via t g)\<inverse>"
  by (auto simp: in_rel_def in_via_mem)

section \<open>What the edge operations do to the dependency relation\<close>

text \<open>The arc an edge id contributes; the dependency relation is the range of the arcs.\<close>

definition arc :: "graph \<Rightarrow> edge_id \<Rightarrow> (node_id \<times> node_id) option" where
  "arc g i = (case find_edge g i of None \<Rightarrow> None
     | Some e \<Rightarrow> if ed_active e then Some (ed_producer_id e, ed_consumer_id e) else None)"

lemma arc_Some: "arc g i = Some x \<longleftrightarrow> (\<exists>e. find_edge g i = Some e \<and> ed_active e \<and>
    x = (ed_producer_id e, ed_consumer_id e))"
  by (auto simp: arc_def split: option.split)

lemma dep_rel_ran: "dep_rel g = ran (arc g)"
  unfolding dep_rel_def ran_def arc_Some by blast

lemma ran_upd_None: "ran (m(k := None)) \<subseteq> ran m"
  by (auto simp: ran_def)

lemma arc_insert: "arc (insert_edge e g) =
    (arc g)(ed_id e := if ed_active e then Some (ed_producer_id e, ed_consumer_id e) else None)"
  by (auto simp: arc_def insert_edge_def fun_eq_iff)

lemma arc_delete: "arc (delete_edge i e g) = (arc g)(i := None)"
  by (auto simp: arc_def delete_edge_def fun_eq_iff)

lemma arc_switch: "arc (switch_edge i e b g) =
    (arc g)(i := if b then Some (ed_producer_id e, ed_consumer_id e) else None)"
  by (auto simp: arc_def switch_edge_def Let_def fun_eq_iff)

lemma dep_rel_insert:
  assumes "find_edge g (ed_id e) = None"
  shows "dep_rel (insert_edge e g) =
     (if ed_active e then insert (ed_producer_id e, ed_consumer_id e) (dep_rel g) else dep_rel g)"
proof -
  have "arc g (ed_id e) = None" using assms by (simp add: arc_def)
  then have "(arc g)(ed_id e := None) = arc g" by auto
  with \<open>arc g (ed_id e) = None\<close> show ?thesis by (simp add: dep_rel_ran arc_insert)
qed

lemma dep_rel_delete: "dep_rel (delete_edge i e g) \<subseteq> dep_rel g"
  by (simp add: dep_rel_ran arc_delete ran_upd_None)

lemma dep_rel_switch_off: "dep_rel (switch_edge i e False g) \<subseteq> dep_rel g"
  by (simp add: dep_rel_ran arc_switch ran_upd_None)

lemma dep_rel_switch_on:
  assumes "find_edge g i = Some e" and "\<not> ed_active e"
  shows "dep_rel (switch_edge i e True g) = insert (ed_producer_id e, ed_consumer_id e) (dep_rel g)"
proof -
  have "arc g i = None" using assms by (simp add: arc_def)
  then show ?thesis by (simp add: dep_rel_ran arc_switch)
qed

section \<open>What the edge operations do to the index\<close>

text \<open>The index invariants, one edge id at a time: an operation changes them at its id only.\<close>

abbreviation out_at :: "graph \<Rightarrow> node_id \<Rightarrow> edge_id list" where
  "out_at g v \<equiv> ix_at v (gr_out_edges g)"

abbreviation in_at :: "graph \<Rightarrow> node_id \<Rightarrow> edge_id list" where
  "in_at g v \<equiv> ix_at v (gr_in_edges g)"

definition sound_at :: "graph \<Rightarrow> edge_id \<Rightarrow> bool" where
  "sound_at g i \<longleftrightarrow> (case find_edge g i of
     None \<Rightarrow> \<forall>v. i \<notin> set (out_at g v) \<and> i \<notin> set (in_at g v)
   | Some e \<Rightarrow>
       (\<forall>v. v \<noteq> ed_producer_id e \<longrightarrow> i \<notin> set (out_at g v)) \<and>
       (\<forall>v. v \<noteq> ed_consumer_id e \<longrightarrow> i \<notin> set (in_at g v)) \<and>
       (ed_active e \<longrightarrow> i \<in> set (out_at g (ed_producer_id e)) \<and> i \<in> set (in_at g (ed_consumer_id e))))"

definition exact_at :: "graph \<Rightarrow> edge_id \<Rightarrow> bool" where
  "exact_at g i \<longleftrightarrow> (case find_edge g i of
     None \<Rightarrow> \<forall>v. i \<notin> set (out_at g v) \<and> i \<notin> set (in_at g v)
   | Some e \<Rightarrow>
       (\<forall>v. i \<in> set (out_at g v) \<longleftrightarrow> ed_active e \<and> v = ed_producer_id e) \<and>
       (\<forall>v. i \<in> set (in_at g v) \<longleftrightarrow> ed_active e \<and> v = ed_consumer_id e))"

definition distinct_index :: "graph \<Rightarrow> bool" where
  "distinct_index g \<longleftrightarrow> (\<forall>v. distinct (out_at g v) \<and> distinct (in_at g v))"

lemma index_sound_alt: "index_sound g \<longleftrightarrow> (\<forall>i. sound_at g i)"
proof
  assume s: "index_sound g"
  show "\<forall>i. sound_at g i"
  proof
    fix i
    show "sound_at g i"
      using s unfolding index_sound_def sound_at_def by (cases "find_edge g i") fastforce+
  qed
next
  assume s: "\<forall>i. sound_at g i"
  have "\<exists>e. find_edge g i = Some e \<and> ed_producer_id e = v" if "i \<in> set (out_at g v)" for i v
  proof (cases "find_edge g i")
    case None
    then show ?thesis using spec[OF s, of i] that by (simp add: sound_at_def)
  next
    case (Some e)
    then have "\<forall>v. v \<noteq> ed_producer_id e \<longrightarrow> i \<notin> set (out_at g v)"
      using spec[OF s, of i] by (simp add: sound_at_def)
    with that Some show ?thesis by metis
  qed
  moreover have "\<exists>e. find_edge g i = Some e \<and> ed_consumer_id e = v" if "i \<in> set (in_at g v)" for i v
  proof (cases "find_edge g i")
    case None
    then show ?thesis using spec[OF s, of i] that by (simp add: sound_at_def)
  next
    case (Some e)
    then have "\<forall>v. v \<noteq> ed_consumer_id e \<longrightarrow> i \<notin> set (in_at g v)"
      using spec[OF s, of i] by (simp add: sound_at_def)
    with that Some show ?thesis by metis
  qed
  moreover have "i \<in> set (out_at g (ed_producer_id e)) \<and> i \<in> set (in_at g (ed_consumer_id e))"
    if "find_edge g i = Some e" "ed_active e" for i e
    using spec[OF s, of i] that by (simp add: sound_at_def)
  ultimately show "index_sound g" unfolding index_sound_def by blast
qed

lemma index_exact_alt: "index_exact g \<longleftrightarrow> distinct_index g \<and> (\<forall>i. exact_at g i)"
proof
  assume s: "index_exact g"
  have "exact_at g i" for i
    using s unfolding index_exact_def exact_at_def by (cases "find_edge g i") fastforce+
  with s show "distinct_index g \<and> (\<forall>i. exact_at g i)"
    by (simp add: index_exact_def distinct_index_def)
next
  assume s: "distinct_index g \<and> (\<forall>i. exact_at g i)"
  have "i \<in> set (out_at g v) \<longleftrightarrow> (\<exists>e. find_edge g i = Some e \<and> ed_active e \<and> ed_producer_id e = v)"
    and "i \<in> set (in_at g v) \<longleftrightarrow> (\<exists>e. find_edge g i = Some e \<and> ed_active e \<and> ed_consumer_id e = v)"
    for i v
    using spec[OF conjunct2[OF s], of i] by (cases "find_edge g i"; auto simp: exact_at_def)+
  with s show "index_exact g" by (simp add: index_exact_def distinct_index_def)
qed

lemma index_sound_insert:
  assumes "index_sound g" and "find_edge g (ed_id e) = None"
  shows "index_sound (insert_edge e g)"
  unfolding index_sound_alt
proof
  fix i
  have "sound_at g i" using assms(1) by (simp add: index_sound_alt)
  then show "sound_at (insert_edge e g) i"
    using assms(2) by (cases "i = ed_id e"; cases "find_edge g i") (auto simp: sound_at_def insert_edge_def Let_def)
qed

lemma index_exact_insert:
  assumes ix: "index_exact g" and e: "find_edge g (ed_id e) = None" "ed_active e"
  shows "index_exact (insert_edge e g)"
proof -
  have new: "exact_at g (ed_id e)" using ix by (simp add: index_exact_alt)
  have "exact_at (insert_edge e g) i" for i
  proof -
    have "exact_at g i" using ix by (simp add: index_exact_alt)
    then show ?thesis
      using e by (cases "i = ed_id e"; cases "find_edge g i") (simp_all add: exact_at_def insert_edge_def Let_def)
  qed
  moreover have "distinct_index (insert_edge e g)"
    using ix new e by (auto simp: index_exact_alt distinct_index_def insert_edge_def exact_at_def)
  ultimately show ?thesis by (simp add: index_exact_alt)
qed

lemma index_sound_delete:
  assumes "index_sound g" and "find_edge g i = Some e"
  shows "index_sound (delete_edge i e g)"
  unfolding index_sound_alt
proof
  fix j
  have "sound_at g j" using assms(1) by (simp add: index_sound_alt)
  then show "sound_at (delete_edge i e g) j"
    using assms(2) by (cases "j = i"; cases "find_edge g j") (auto simp: sound_at_def delete_edge_def Let_def)
qed

lemma index_exact_delete:
  assumes ix: "index_exact g" and e: "find_edge g i = Some e"
  shows "index_exact (delete_edge i e g)"
proof -
  have "exact_at (delete_edge i e g) j" for j
  proof -
    have "exact_at g j" using ix by (simp add: index_exact_alt)
    then show ?thesis
      using e by (cases "j = i"; cases "find_edge g j") (simp_all add: exact_at_def delete_edge_def Let_def)
  qed
  moreover have "distinct_index (delete_edge i e g)"
    using ix by (simp add: index_exact_alt distinct_index_def delete_edge_def distinct_removeAll)
  ultimately show ?thesis by (simp add: index_exact_alt)
qed

lemma index_sound_switch:
  assumes "index_sound g" and "find_edge g i = Some e"
  shows "index_sound (switch_edge i e b g)"
  unfolding index_sound_alt
proof
  fix j
  have "sound_at g j" using assms(1) by (simp add: index_sound_alt)
  then show "sound_at (switch_edge i e b g) j"
    using assms(2)
    by (cases "j = i"; cases "find_edge g j") (auto simp: sound_at_def switch_edge_def Let_def)
qed

lemma index_exact_switch:
  assumes ix: "index_exact g" and e: "find_edge g i = Some e" "ed_active e \<noteq> b"
  shows "index_exact (switch_edge i e b g)"
proof -
  have at: "exact_at g i" using ix by (simp add: index_exact_alt)
  have "exact_at (switch_edge i e b g) j" for j
  proof -
    have "exact_at g j" using ix by (simp add: index_exact_alt)
    then show ?thesis
      using e by (cases "j = i"; cases "find_edge g j") (simp_all add: exact_at_def switch_edge_def Let_def)
  qed
  moreover have "distinct_index (switch_edge i e b g)"
    using ix at e
    by (cases b) (auto simp: index_exact_alt distinct_index_def switch_edge_def Let_def exact_at_def
        distinct_removeAll)
  ultimately show ?thesis by (simp add: index_exact_alt)
qed

lemma equivalent_edge_defined:
  "(\<forall>i \<in> set eids. find_edge g i \<noteq> None) \<Longrightarrow> equivalent_edge g e eids \<noteq> None"
  by (induction eids) (auto split: option.splits)

end
