(* ===== verification/Invalidation.thy ===== *)
theory Invalidation
  imports Structure
begin

text \<open>
  \<open>src/graph/invalidation.cpp\<close>: the invalidation event and its propagation downstream, and the
  stale, missing and recovered marks. The event writes the invalidation facts of the nodes it
  reaches; readiness states follow from the recomputation that ends each operation.
\<close>

section \<open>The operations\<close>

definition mark_invalidated :: "invalidation_reason \<Rightarrow> node \<Rightarrow> node" where
  "mark_invalidated reason n =
     n\<lparr>nd_ever_invalidated := True, nd_last_invalidation_reason := reason,
       nd_invalidation_generation := bump (nd_invalidation_generation n)\<rparr>"

definition mark_node_invalidated :: "invalidation_reason \<Rightarrow> node_id \<Rightarrow> graph \<Rightarrow> graph" where
  "mark_node_invalidated reason i g =
     (case find_node g i of None \<Rightarrow> g | Some n \<Rightarrow> put_node i (mark_invalidated reason n) g)"

definition policy_depth :: "invalidation_policy \<Rightarrow> u32" where
  "policy_depth p = (if ip_max_depth p \<noteq> 0 then ip_max_depth p else kDefaultMaxTraversalDepth)"

definition propagate_expand :: "graph \<Rightarrow> invalidation_policy \<Rightarrow> node_id \<times> u32 \<Rightarrow> (node_id \<times> u32) list" where
  "propagate_expand g policy item =
     (case item of (cur, dist) \<Rightarrow>
       if ip_mode policy = IM_BOUNDED \<and> policy_depth policy < dist + 1 then []
       else map (\<lambda>nxt. (nxt, dist + 1)) (out_via (ip_propagate_through_optional policy) g cur))"

definition propagate_search :: "graph \<Rightarrow> invalidation_policy \<Rightarrow> invalidation_reason \<Rightarrow>
    (node_id \<times> u32, node_id \<times> u32, node_id, graph) search" where
  "propagate_search g policy reason =
     \<lparr>s_expand = propagate_expand g policy, s_key = fst, s_item = (\<lambda>c. [c]),
      s_pop = (\<lambda>i a. a),
      s_note = (\<lambda>fresh c a. if fresh then mark_node_invalidated reason (fst c) a else a),
      s_stop = (\<lambda>a. False)\<rparr>"

text \<open>The argument \<open>depth_remaining\<close> is unused, as in the code.\<close>

definition propagate_invalidation_locked :: "node_id \<Rightarrow> invalidation_policy \<Rightarrow>
    invalidation_reason \<Rightarrow> u32 \<Rightarrow> graph \<Rightarrow> graph" where
  "propagate_invalidation_locked seed policy reason depth_remaining g =
     search_result (propagate_search g policy reason) ([(seed, 0)], {seed}, g)"

definition invalidate_seed :: "node_id \<Rightarrow> node \<Rightarrow> invalidation_reason \<Rightarrow> invalidation_policy \<Rightarrow>
    graph \<Rightarrow> graph" where
  "invalidate_seed i n reason policy g =
     (let g' = put_node i (mark_invalidated reason (n\<lparr>nd_state := RS_INVALIDATED\<rparr>)) g in
      if ip_mode policy \<noteq> IM_DIRECT then
        propagate_invalidation_locked i policy reason
          (if ip_mode policy = IM_BOUNDED then policy_depth policy else kDefaultMaxTraversalDepth) g'
      else g')"

definition invalidate_node :: "node_id \<Rightarrow> invalidation_reason \<Rightarrow> invalidation_policy \<Rightarrow> source_id \<Rightarrow>
    source_boot_id \<Rightarrow> coordinator_epoch \<Rightarrow> graph \<Rightarrow> outcome \<times> graph" where
  "invalidate_node i reason policy source boot epoch g =
     (case authority_ok g source boot epoch of
        Some rej \<Rightarrow> (rej, g)
      | None \<Rightarrow>
        (case find_node g i of
           None \<Rightarrow> (OC_REJECT_UNKNOWN_DEPENDENCY, g)
         | Some n \<Rightarrow>
             (OC_ACCEPTED, recompute_closure_locked [i] (invalidate_seed i n reason policy g))))"

definition invalidate_generation :: "node_id \<Rightarrow> node_generation \<Rightarrow> invalidation_reason \<Rightarrow>
    invalidation_policy \<Rightarrow> source_id \<Rightarrow> source_boot_id \<Rightarrow> coordinator_epoch \<Rightarrow> graph \<Rightarrow>
    outcome \<times> graph" where
  "invalidate_generation i gen reason policy source boot epoch g =
     (case authority_ok g source boot epoch of
        Some rej \<Rightarrow> (rej, g)
      | None \<Rightarrow>
        (case find_node g i of
           None \<Rightarrow> (OC_REJECT_UNKNOWN_DEPENDENCY, g)
         | Some n \<Rightarrow>
             if \<not> valid gen then (OC_REJECT_INVALID_TRANSITION, g)
             else if \<not> has_generation n gen then (OC_REJECT_STALE_NODE_GENERATION, g)
             else if strong_value gen = strong_value (nd_current_generation n) then
               (OC_ACCEPTED, recompute_closure_locked [i] (invalidate_seed i n reason policy g))
             else
               let superseded = (if gen \<in> set (nd_superseded_generations n)
                     then nd_superseded_generations n else nd_superseded_generations n @ [gen]);
                   n' = n\<lparr>nd_superseded_generations := superseded, nd_ever_invalidated := True,
                          nd_last_invalidation_reason := reason\<rparr>
               in (OC_ACCEPTED, recompute_closure_locked [i] (put_node i n' g))))"

definition mark_stale :: "node_id \<Rightarrow> source_id \<Rightarrow> source_boot_id \<Rightarrow> coordinator_epoch \<Rightarrow> graph \<Rightarrow>
    outcome \<times> graph" where
  "mark_stale i source boot epoch g =
     (case authority_ok g source boot epoch of
        Some rej \<Rightarrow> (rej, g)
      | None \<Rightarrow>
        (case find_node g i of
           None \<Rightarrow> (OC_REJECT_UNKNOWN_DEPENDENCY, g)
         | Some n \<Rightarrow>
             (OC_ACCEPTED, recompute_closure_locked [i]
               (put_node i (n\<lparr>nd_state := RS_STALE, nd_recovered_evidence := DE_STALE\<rparr>) g))))"

definition mark_missing :: "node_id \<Rightarrow> source_id \<Rightarrow> source_boot_id \<Rightarrow> coordinator_epoch \<Rightarrow> graph \<Rightarrow>
    outcome \<times> graph" where
  "mark_missing i source boot epoch g =
     (case authority_ok g source boot epoch of
        Some rej \<Rightarrow> (rej, g)
      | None \<Rightarrow>
        (case find_node g i of
           None \<Rightarrow> (OC_REJECT_UNKNOWN_DEPENDENCY, g)
         | Some n \<Rightarrow>
             (OC_ACCEPTED, recompute_closure_locked [i] (put_node i (n\<lparr>nd_state := RS_MISSING\<rparr>) g))))"

definition mark_recovered :: "node_id \<Rightarrow> source_id \<Rightarrow> source_boot_id \<Rightarrow> coordinator_epoch \<Rightarrow> graph \<Rightarrow>
    outcome \<times> graph" where
  "mark_recovered i source boot epoch g =
     (case authority_ok g source boot epoch of
        Some rej \<Rightarrow> (rej, g)
      | None \<Rightarrow>
        (case find_node g i of
           None \<Rightarrow> (OC_REJECT_UNKNOWN_DEPENDENCY, g)
         | Some n \<Rightarrow>
             let n' = (if nd_dynamic_evidence n
                       then n\<lparr>nd_ever_invalidated := False,
                              nd_recovered_evidence := DE_REVALIDATION_REQUIRED,
                              nd_state := RS_REVALIDATION_REQUIRED\<rparr>
                       else n\<lparr>nd_ever_invalidated := False, nd_recovered_evidence := DE_FRESH,
                              nd_state := RS_PRESENT\<rparr>)
             in (OC_ACCEPTED, recompute_closure_locked [i] (put_node i n' g))))"

text \<open>Two flags of the policy are never read.\<close>

lemma invalidate_unread_flags:
  "invalidate_node i reason (policy\<lparr>ip_degrade_optional_dependents := x, ip_cascade_blocked := y\<rparr>) s b e g =
     invalidate_node i reason policy s b e g"
proof -
  let ?p = "policy\<lparr>ip_degrade_optional_dependents := x, ip_cascade_blocked := y\<rparr>"
  have "propagate_search h ?p reason = propagate_search h policy reason" for h
    by (simp add: propagate_search_def propagate_expand_def policy_depth_def fun_eq_iff)
  then have "invalidate_seed i n reason ?p h = invalidate_seed i n reason policy h" for n h
    by (simp add: invalidate_seed_def propagate_invalidation_locked_def policy_depth_def Let_def)
  then show ?thesis by (simp add: invalidate_node_def split: option.split)
qed

section \<open>What propagation reaches\<close>

lemma mark_node_find:
  "find_node (mark_node_invalidated reason i g) j =
     (if j = i then map_option (mark_invalidated reason) (find_node g i) else find_node g j)"
  by (auto simp: mark_node_invalidated_def split: option.split)

lemma mark_node_frame [simp, frame]:
  "gr_edges (mark_node_invalidated reason i g) = gr_edges g"
  "gr_sets (mark_node_invalidated reason i g) = gr_sets g"
  "gr_sources (mark_node_invalidated reason i g) = gr_sources g"
  "gr_out_edges (mark_node_invalidated reason i g) = gr_out_edges g"
  "gr_in_edges (mark_node_invalidated reason i g) = gr_in_edges g"
  "gr_node_sets (mark_node_invalidated reason i g) = gr_node_sets g"
  "gr_epoch (mark_node_invalidated reason i g) = gr_epoch g"
  "gr_adapter (mark_node_invalidated reason i g) = gr_adapter g"
  "um_keys (gr_nodes (mark_node_invalidated reason i g)) = um_keys (gr_nodes g)"
  by (simp_all add: mark_node_invalidated_def split: option.split)

lemma fold_mark_find:
  "distinct ks \<Longrightarrow> find_node (fold (mark_node_invalidated reason) ks g) j =
     (if j \<in> set ks then map_option (mark_invalidated reason) (find_node g j) else find_node g j)"
  by (induction ks arbitrary: g) (auto simp: mark_node_find)

lemma fold_mark_frame [simp, frame]:
  "gr_edges (fold (mark_node_invalidated reason) ks g) = gr_edges g"
  "gr_sets (fold (mark_node_invalidated reason) ks g) = gr_sets g"
  "gr_sources (fold (mark_node_invalidated reason) ks g) = gr_sources g"
  "gr_out_edges (fold (mark_node_invalidated reason) ks g) = gr_out_edges g"
  "gr_in_edges (fold (mark_node_invalidated reason) ks g) = gr_in_edges g"
  "gr_node_sets (fold (mark_node_invalidated reason) ks g) = gr_node_sets g"
  "gr_epoch (fold (mark_node_invalidated reason) ks g) = gr_epoch g"
  "gr_adapter (fold (mark_node_invalidated reason) ks g) = gr_adapter g"
  "um_keys (gr_nodes (fold (mark_node_invalidated reason) ks g)) = um_keys (gr_nodes g)"
  by (induction ks arbitrary: g) simp_all

text \<open>
  Whatever the policy, the walk is bounded by the consumers of the graph and marks each newly
  found node once.
\<close>

interpretation propagate_walk: marking_search "propagate_search g policy reason" "consumers g" fst
    "mark_node_invalidated reason"
  for g policy reason
  by unfold_locales
    (auto simp: propagate_search_def propagate_expand_def dest: out_via_bounded split: if_splits)

definition event_rel :: "graph \<Rightarrow> invalidation_policy \<Rightarrow> (node_id \<times> node_id) set" where
  "event_rel g policy = dep_rel_via (ip_propagate_through_optional policy) g"

text \<open>The nodes an invalidation event at \<open>seed\<close> reaches, besides the seed itself.\<close>

definition event_scope :: "graph \<Rightarrow> invalidation_policy \<Rightarrow> node_id \<Rightarrow> node_id set" where
  "event_scope g policy seed =
     (if ip_mode policy = IM_DIRECT then {}
      else if ip_mode policy = IM_BOUNDED
      then ball (event_rel g policy) seed (unat (policy_depth policy)) - {seed}
      else (event_rel g policy)\<^sup>* `` {seed} - {seed})"

lemma propagate_unbounded:
  assumes "ip_mode policy \<noteq> IM_BOUNDED"
  shows "reach_search (propagate_search g policy reason) (consumers g) fst
           (out_rel (ip_propagate_through_optional policy) g)"
  by unfold_locales
    (use assms in \<open>auto simp: propagate_search_def propagate_expand_def out_rel_def image_image
       split: prod.split\<close>)

lemma propagate_layered:
  assumes "ip_mode policy = IM_BOUNDED" and "policy_depth policy < - 1"
  shows "layered_search (propagate_search g policy reason) (consumers g) fst (\<lambda>i. unat (snd i))
           (unat (policy_depth policy)) (out_rel (ip_propagate_through_optional policy) g)"
proof
  fix c :: "node_id \<times> u32" and i j :: "node_id \<times> u32"
  note defs = propagate_search_def propagate_expand_def
  let ?S = "propagate_search g policy reason" and ?L = "policy_depth policy"
  have below: "unat (snd i + 1) = Suc (unat (snd i))" if "unat (snd i) < unat ?L"
    using that unat_succ[of "snd i" ?L] by (simp add: word_less_nat_alt)
  show "unat (snd j) = Suc (unat (snd i))"
    if "c \<in> set (s_expand ?S i)" "j \<in> set (s_item ?S c)" "unat (snd i) < unat ?L"
    using that(1,2) below[OF that(3)] by (auto simp: defs split: if_splits prod.splits)
  show "s_key ?S ` set (s_expand ?S i) = out_rel (ip_propagate_through_optional policy) g `` {fst i}"
    if "unat (snd i) < unat ?L"
  proof -
    have "\<not> ?L < snd i + 1" using below[OF that] that by (simp add: word_less_nat_alt)
    then show ?thesis by (cases i) (auto simp: defs out_rel_def image_image)
  qed
  show "s_expand ?S i = []" if "unat (snd i) = unat ?L"
  proof -
    have "snd i = ?L" using that by (metis word_unat_eq_iff)
    moreover have "?L < ?L + 1" using unat_succ[OF assms(2)] by (simp add: word_less_nat_alt)
    ultimately show ?thesis using assms(1) by (auto simp: defs split: prod.split)
  qed
  show "\<not> s_stop ?S a" for a by (simp add: defs)
qed

text \<open>The limit 0xFFFFFFFF is excluded: there \<open>depth + 1 > max_depth\<close> is never true.\<close>

definition bounded_in_range :: "invalidation_policy \<Rightarrow> bool" where
  "bounded_in_range policy \<longleftrightarrow> (ip_mode policy = IM_BOUNDED \<longrightarrow> policy_depth policy < - 1)"

lemma propagate_visits:
  assumes ix: "index_sound g" and range: "bounded_in_range policy"
    and s: "search (propagate_search g policy reason) ([(seed, 0)], {seed}, g0) = (q, vis, a)"
  shows "vis = (if ip_mode policy = IM_BOUNDED
                then ball (event_rel g policy) seed (unat (policy_depth policy))
                else (event_rel g policy)\<^sup>* `` {seed})"
proof (cases "ip_mode policy = IM_BOUNDED")
  case True
  then have "policy_depth policy < - 1" using range by (simp add: bounded_in_range_def)
  from layered_search.search_ball[OF propagate_layered[OF True this] _ _ s] True show ?thesis
    by (simp add: event_rel_def out_rel_dep[OF ix])
next
  case False
  have "s_stop (propagate_search g policy reason) a \<or>
      q = [] \<and> vis = (out_rel (ip_propagate_through_optional policy) g)\<^sup>* `` {seed}"
    using reach_search.search_reaches(1)[OF propagate_unbounded[OF False], where A = "{seed}", OF _ s]
    by simp
  with False show ?thesis by (simp add: propagate_search_def event_rel_def out_rel_dep[OF ix])
qed

text \<open>
  Propagation from a node marks exactly the event scope: each node in it once, no other node,
  and nothing but the nodes.
\<close>

lemma propagate_marks:
  assumes ix: "index_sound g" and range: "bounded_in_range policy" and nd: "ip_mode policy \<noteq> IM_DIRECT"
  obtains ks where "distinct ks" "set ks = event_scope g policy seed"
    "propagate_invalidation_locked seed policy reason d g = fold (mark_node_invalidated reason) ks g"
proof -
  obtain q vis a where s: "search (propagate_search g policy reason) ([(seed, 0)], {seed}, g) = (q, vis, a)"
    by (metis prod_cases3)
  obtain ks where ks: "distinct ks" "set ks = vis - {seed}" "a = fold (mark_node_invalidated reason) ks g"
    by (rule propagate_walk.search_marks[OF s])
  have "set ks = event_scope g policy seed"
    using ks(2) propagate_visits[OF ix range s] nd by (simp add: event_scope_def)
  with ks that[of ks] s show thesis
    by (simp add: propagate_invalidation_locked_def search_result_def)
qed

lemma event_rel_put [simp]: "event_rel (put_node i n g) policy = event_rel g policy"
  by (simp add: event_rel_def dep_rel_via_def)

lemma event_scope_put [simp]: "event_scope (put_node i n g) policy seed = event_scope g policy seed"
  by (simp add: event_scope_def)

lemma invalidate_seed_find:
  assumes ix: "index_sound g" and range: "bounded_in_range policy" and n: "find_node g i = Some n"
  shows "find_node (invalidate_seed i n reason policy g) j =
     (if j = i then Some (mark_invalidated reason (n\<lparr>nd_state := RS_INVALIDATED\<rparr>))
      else if j \<in> event_scope g policy i then map_option (mark_invalidated reason) (find_node g j)
      else find_node g j)"
proof (cases "ip_mode policy = IM_DIRECT")
  case True
  then show ?thesis by (simp add: invalidate_seed_def Let_def event_scope_def)
next
  case False
  let ?g = "put_node i (mark_invalidated reason (n\<lparr>nd_state := RS_INVALIDATED\<rparr>)) g"
  have "same_structure g ?g" by (rule same_structure_put) (simp add: n)
  then have ix': "index_sound ?g" using ix by (simp add: same_structure_index)
  obtain ks where ks: "distinct ks" "set ks = event_scope ?g policy i"
    "propagate_invalidation_locked i policy reason
       (if ip_mode policy = IM_BOUNDED then policy_depth policy else kDefaultMaxTraversalDepth) ?g =
     fold (mark_node_invalidated reason) ks ?g"
    by (rule propagate_marks[OF ix' range False])
  have "i \<notin> event_scope g policy i" by (simp add: event_scope_def)
  with False ks show ?thesis by (simp add: invalidate_seed_def Let_def fold_mark_find)
qed

lemma propagate_frame:
  "\<exists>ks. propagate_invalidation_locked seed policy reason d g = fold (mark_node_invalidated reason) ks g"
proof -
  obtain q vis a where s: "search (propagate_search g policy reason) ([(seed, 0)], {seed}, g) = (q, vis, a)"
    by (metis prod_cases3)
  obtain ks where "a = fold (mark_node_invalidated reason) ks g"
    by (rule propagate_walk.search_marks[OF s])
  with s show ?thesis by (auto simp: propagate_invalidation_locked_def search_result_def)
qed

lemma propagate_frames [simp, frame]:
  "gr_edges (propagate_invalidation_locked i policy reason d g) = gr_edges g"
  "gr_sets (propagate_invalidation_locked i policy reason d g) = gr_sets g"
  "gr_sources (propagate_invalidation_locked i policy reason d g) = gr_sources g"
  "gr_out_edges (propagate_invalidation_locked i policy reason d g) = gr_out_edges g"
  "gr_in_edges (propagate_invalidation_locked i policy reason d g) = gr_in_edges g"
  "gr_node_sets (propagate_invalidation_locked i policy reason d g) = gr_node_sets g"
  "gr_epoch (propagate_invalidation_locked i policy reason d g) = gr_epoch g"
  "gr_adapter (propagate_invalidation_locked i policy reason d g) = gr_adapter g"
  "um_keys (gr_nodes (propagate_invalidation_locked i policy reason d g)) = um_keys (gr_nodes g)"
  using propagate_frame[of i policy reason d g] by auto

lemma invalidate_seed_frame [frame]:
  assumes "find_node g i = Some n"
  shows "same_structure g (invalidate_seed i n reason policy g)"
    "gr_sources (invalidate_seed i n reason policy g) = gr_sources g"
    "gr_epoch (invalidate_seed i n reason policy g) = gr_epoch g"
    "gr_adapter (invalidate_seed i n reason policy g) = gr_adapter g"
  using assms by (auto simp: invalidate_seed_def Let_def same_structure_def)

end
