(* ===== verification/Mutations.thy ===== *)
theory Mutations
  imports Invalidation
begin

text \<open>
  All mutations of the graph as one command language, the structural change each of them makes,
  and the invariant of every graph the runtime can reach: \<open>core_inv\<close> (maps keyed by the ids of
  their values, edges between existing nodes, sound indexes).
\<close>

section \<open>Commands\<close>

datatype command =
    DeclareNode node_id node_kind string bool
  | PublishGeneration node_id node_generation
  | SupersedeGeneration node_id node_generation node_generation
  | SetNodeEvidence node_id node_evidence_patch
  | RetireNode node_id
  | AddEdge edge
  | RemoveEdge edge_id
  | SetEdgeActive edge_id bool
  | AddDependencySet dependency_set
  | RemoveDependencySet set_id
  | PublishReadiness node_id readiness_state
  | InvalidateNode node_id invalidation_reason invalidation_policy
  | InvalidateGeneration node_id node_generation invalidation_reason invalidation_policy
  | MarkStale node_id
  | MarkMissing node_id
  | MarkRecovered node_id

fun perform :: "command \<Rightarrow> source_id \<Rightarrow> source_boot_id \<Rightarrow> coordinator_epoch \<Rightarrow> graph \<Rightarrow>
    (outcome \<times> graph) option" where
  "perform (DeclareNode i k d st) s b e g = Some (declare_node i k d s b e st g)"
| "perform (PublishGeneration i gen) s b e g = Some (publish_generation i gen s b e g)"
| "perform (SupersedeGeneration i old new) s b e g = Some (supersede_generation i old new s b e g)"
| "perform (SetNodeEvidence i p) s b e g = Some (set_node_evidence i p s b e g)"
| "perform (RetireNode i) s b e g = Some (retire_node i s b e g)"
| "perform (AddEdge x) s b e g = add_edge x s b e g"
| "perform (RemoveEdge i) s b e g = Some (remove_edge i s b e g)"
| "perform (SetEdgeActive i a) s b e g = Some (set_edge_active i a s b e g)"
| "perform (AddDependencySet x) s b e g = Some (add_dependency_set x s b e g)"
| "perform (RemoveDependencySet i) s b e g = Some (remove_dependency_set i s b e g)"
| "perform (PublishReadiness i st) s b e g = Some (publish_readiness i st s b e g)"
| "perform (InvalidateNode i r p) s b e g = Some (invalidate_node i r p s b e g)"
| "perform (InvalidateGeneration i gen r p) s b e g = Some (invalidate_generation i gen r p s b e g)"
| "perform (MarkStale i) s b e g = Some (mark_stale i s b e g)"
| "perform (MarkMissing i) s b e g = Some (mark_missing i s b e g)"
| "perform (MarkRecovered i) s b e g = Some (mark_recovered i s b e g)"

lemmas mutation_defs = declare_node_def publish_generation_def supersede_generation_def
  set_node_evidence_def retire_node_def add_edge_def remove_edge_def set_edge_active_def
  add_dependency_set_def remove_dependency_set_def publish_readiness_def invalidate_node_def
  invalidate_generation_def mark_stale_def mark_missing_def mark_recovered_def

lemma perform_rejected:
  "authority_ok g s b e = Some r \<Longrightarrow> perform c s b e g = Some (r, g)"
  by (cases c) (simp_all add: mutation_defs)

section \<open>Structural changes\<close>

text \<open>A change of node contents: structure, identities, sources, epoch and adapter are kept.\<close>

definition content_only :: "graph \<Rightarrow> graph \<Rightarrow> bool" where
  "content_only g g' \<longleftrightarrow> same_structure g g' \<and> gr_sources g' = gr_sources g \<and>
     gr_epoch g' = gr_epoch g \<and> gr_adapter g' = gr_adapter g \<and>
     (\<forall>j. map_option nd_id (find_node g' j) = map_option nd_id (find_node g j))"

lemma content_structure: "content_only g g' \<Longrightarrow> same_structure g g'"
  and content_sources: "content_only g g' \<Longrightarrow> gr_sources g' = gr_sources g"
  and content_epoch: "content_only g g' \<Longrightarrow> gr_epoch g' = gr_epoch g"
  and content_adapter: "content_only g g' \<Longrightarrow> gr_adapter g' = gr_adapter g"
  by (simp_all add: content_only_def)

lemma content_only_refl [simp]: "content_only g g"
  by (simp add: content_only_def)

lemma content_only_trans: "content_only g h \<Longrightarrow> content_only h k \<Longrightarrow> content_only g k"
  by (simp add: content_only_def same_structure_def)

lemma durable_id: "map_option durable x = map_option durable y \<Longrightarrow> map_option nd_id x = map_option nd_id y"
proof -
  have "nd_id (durable n) = nd_id n" for n by (simp add: durable_def)
  then show "map_option durable x = map_option durable y \<Longrightarrow> map_option nd_id x = map_option nd_id y"
    by (cases x; cases y) (auto, metis)
qed

lemma content_only_closure [simp]: "content_only g (recompute_closure_locked roots g)"
  by (simp add: content_only_def durable_id[OF recompute_closure_durable])

lemma content_only_put:
  "find_node g i = Some n \<Longrightarrow> nd_id n' = nd_id n \<Longrightarrow> content_only g (put_node i n' g)"
  by (auto simp: content_only_def intro: same_structure_put)

lemma content_only_fold_mark:
  "content_only g (fold (mark_node_invalidated r) ks g)"
proof (induction ks arbitrary: g)
  case (Cons k ks)
  have "content_only g (mark_node_invalidated r k g)"
    by (auto simp: mark_node_invalidated_def mark_invalidated_def content_only_put split: option.split)
  with Cons show ?case by (auto intro: content_only_trans)
qed simp

lemma content_only_seed:
  assumes "find_node g i = Some n"
  shows "content_only g (invalidate_seed i n r p g)"
proof -
  let ?g = "put_node i (mark_invalidated r (n\<lparr>nd_state := RS_INVALIDATED\<rparr>)) g"
  have "content_only g ?g" by (rule content_only_put[OF assms]) (simp add: mark_invalidated_def)
  moreover have "content_only ?g (propagate_invalidation_locked i p r d ?g)" for d
    using propagate_frame[of i p r d ?g] content_only_fold_mark by auto
  ultimately show ?thesis
    by (auto simp: invalidate_seed_def Let_def intro: content_only_trans)
qed

inductive structural :: "command \<Rightarrow> graph \<Rightarrow> graph \<Rightarrow> bool" where
  sc_contents: "content_only g g' \<Longrightarrow> structural c g g'"
| sc_declare: "find_node g i = None \<Longrightarrow> valid i \<Longrightarrow> nd_id n = i \<Longrightarrow> um_size (gr_nodes g) < kMaxGraphNodes \<Longrightarrow>
    structural (DeclareNode i k d st) g (put_node i n g)"
| sc_insert: "find_edge g (ed_id e) = None \<Longrightarrow> valid (ed_id e) \<Longrightarrow> ed_producer_id e \<noteq> ed_consumer_id e \<Longrightarrow>
    find_node g (ed_producer_id e) \<noteq> None \<Longrightarrow> find_node g (ed_consumer_id e) \<noteq> None \<Longrightarrow>
    \<not> would_create_cycle_locked g (ed_producer_id e) (ed_consumer_id e) \<Longrightarrow>
    um_size (gr_edges g) < kMaxGraphEdges \<Longrightarrow>
    structural (AddEdge e) g (insert_edge e g)"
| sc_delete: "find_edge g i = Some e \<Longrightarrow> structural (RemoveEdge i) g (delete_edge i e g)"
| sc_switch: "find_edge g i = Some e \<Longrightarrow> ed_active e \<noteq> a \<Longrightarrow>
    structural (SetEdgeActive i a) g (switch_edge i e a g)"
| sc_add_set: "find_set g (ds_id s) = None \<Longrightarrow> valid (ds_id s) \<Longrightarrow> find_node g (ds_owner s) \<noteq> None \<Longrightarrow>
    check_members g (ds_owner s) (ds_members s) = None \<Longrightarrow>
    structural (AddDependencySet s) g
      (g\<lparr>gr_sets := um_put (ds_id s) s (gr_sets g),
         gr_node_sets := ix_push (ds_owner s) (ds_id s) (gr_node_sets g)\<rparr>)"
| sc_drop_set: "find_set g i = Some s \<Longrightarrow>
    structural (RemoveDependencySet i) g
      (g\<lparr>gr_sets := um_erase i (gr_sets g),
         gr_node_sets := unlist_set i (ds_owner s) (gr_node_sets g)\<rparr>)"

text \<open>
  Every command either refuses and leaves the graph alone, or makes one structural change and
  then only changes contents of nodes.
\<close>

definition outcome_shape :: "command \<Rightarrow> graph \<Rightarrow> outcome \<times> graph \<Rightarrow> bool" where
  "outcome_shape c g rg \<longleftrightarrow>
     (fst rg \<noteq> OC_ACCEPTED \<and> snd rg = g) \<or>
     (fst rg = OC_ACCEPTED \<and> (\<exists>g1. structural c g g1 \<and> content_only g1 (snd rg)))"

lemma shape_refused [intro]: "r \<noteq> OC_ACCEPTED \<Longrightarrow> outcome_shape c g (r, g)"
  by (simp add: outcome_shape_def)

lemma shape_accepted: "structural c g g1 \<Longrightarrow> content_only g1 g' \<Longrightarrow> outcome_shape c g (OC_ACCEPTED, g')"
  by (auto simp: outcome_shape_def)

lemma shape_node:
  assumes "find_node g i = Some n" and "nd_id n' = nd_id n"
  shows "outcome_shape c g (OC_ACCEPTED, recompute_closure_locked roots (put_node i n' g))"
  by (rule shape_accepted[OF sc_contents[OF content_only_put[OF assms]]]) simp

lemma authority_ok_refuses: "authority_ok g s b e = Some r \<Longrightarrow> r \<noteq> OC_ACCEPTED"
  by (auto simp: authority_ok_def split: if_splits option.splits)

lemma check_members_refuses: "check_members g i ms = Some r \<Longrightarrow> r \<noteq> OC_ACCEPTED"
  by (induction ms) (auto split: option.splits if_splits)


lemma shape_trivial: "outcome_shape c g (OC_ACCEPTED, recompute_closure_locked roots g)"
  by (rule shape_accepted[OF sc_contents[OF content_only_refl]]) simp

lemma shape_structural:
  "structural c g g1 \<Longrightarrow> outcome_shape c g (OC_ACCEPTED, recompute_closure_locked roots g1)"
  by (rule shape_accepted[OF _ content_only_closure])

lemma install_id [simp]: "nd_id (install_generation gen s b n) = nd_id n"
  by (simp add: install_generation_def)

lemma apply_evidence_id [simp]: "nd_id (apply_evidence p n) = nd_id n"
  by (simp add: apply_evidence_def)

lemma make_node_id [simp]: "nd_id (make_node i k d) = i"
  by (simp add: make_node_def)

lemma shape_node_ops:
  "outcome_shape c g (publish_generation i gen s b e g)"
  "outcome_shape c g (supersede_generation i old new s b e g)"
  "outcome_shape c g (set_node_evidence i p s b e g)"
  "outcome_shape c g (retire_node i s b e g)"
  "outcome_shape c g (publish_readiness i st s b e g)"
  "outcome_shape c g (mark_stale i s b e g)"
  "outcome_shape c g (mark_missing i s b e g)"
  "outcome_shape c g (mark_recovered i s b e g)"
  by (auto simp: mutation_defs Let_def intro!: shape_node dest: authority_ok_refuses split: option.split)

lemma shape_seed:
  assumes "find_node g i = Some n"
  shows "outcome_shape c g (OC_ACCEPTED, recompute_closure_locked roots (invalidate_seed i n r p g))"
  by (rule shape_structural[OF sc_contents[OF content_only_seed[OF assms]]])

lemma shape_invalidate:
  "outcome_shape c g (invalidate_node i r p s b e g)"
  "outcome_shape c g (invalidate_generation i gen r p s b e g)"
  by (auto simp: mutation_defs Let_def intro!: shape_node shape_seed dest: authority_ok_refuses
      split: option.split)

lemma shape_declare: "outcome_shape (DeclareNode i k d st) g (declare_node i k d s b e st g)"
  by (auto simp: declare_node_def not_le intro!: shape_accepted[OF sc_declare content_only_refl]
      dest: authority_ok_refuses split: option.split)

lemma shape_add_edge:
  assumes "add_edge x s b e g = Some rg"
  shows "outcome_shape (AddEdge x) g rg"
  using assms
  by (auto simp: add_edge_def not_le intro!: shape_structural sc_insert
      dest: authority_ok_refuses split: option.splits if_splits bool.splits)

lemma shape_edges:
  "outcome_shape (RemoveEdge i) g (remove_edge i s b e g)"
  "outcome_shape (SetEdgeActive i a) g (set_edge_active i a s b e g)"
  by (auto simp: remove_edge_def set_edge_active_def intro!: shape_structural shape_trivial
      intro: sc_delete sc_switch dest: authority_ok_refuses split: option.split)

lemma shape_sets:
  "outcome_shape (AddDependencySet x) g (add_dependency_set x s b e g)"
  "outcome_shape (RemoveDependencySet i) g (remove_dependency_set i s b e g)"
  by (auto simp: add_dependency_set_def remove_dependency_set_def intro!: shape_structural
      intro: sc_add_set sc_drop_set dest: authority_ok_refuses check_members_refuses
      split: option.split)

lemma perform_shape:
  assumes "perform c s b e g = Some rg"
  shows "outcome_shape c g rg"
  using assms
  by (cases c) (auto intro: shape_node_ops shape_invalidate shape_declare shape_add_edge shape_edges
      shape_sets)

lemma perform_cases:
  assumes "perform c s b e g = Some (r, g')"
  obtains (refused) "r \<noteq> OC_ACCEPTED" "g' = g"
    | (accepted) g1 where "r = OC_ACCEPTED" "authority_ok g s b e = None" "structural c g g1"
        "content_only g1 g'"
proof (cases "authority_ok g s b e")
  case (Some r')
  with perform_rejected[OF Some] assms authority_ok_refuses[OF Some] refused show thesis by auto
next
  case None
  with perform_shape[OF assms] refused accepted show thesis by (auto simp: outcome_shape_def)
qed

section \<open>The invariant\<close>

definition keys_ok :: "graph \<Rightarrow> bool" where
  "keys_ok g \<longleftrightarrow> um_size (gr_nodes g) \<le> kMaxGraphNodes \<and>
     (\<forall>i n. find_node g i = Some n \<longrightarrow> valid i \<and> nd_id n = i) \<and>
     (\<forall>i e. find_edge g i = Some e \<longrightarrow> valid i \<and> ed_id e = i \<and> ed_producer_id e \<noteq> ed_consumer_id e) \<and>
     (\<forall>i s. find_set g i = Some s \<longrightarrow> valid i \<and> ds_id s = i \<and> find_node g (ds_owner s) \<noteq> None)"

definition set_index_ok :: "graph \<Rightarrow> bool" where
  "set_index_ok g \<longleftrightarrow> (\<forall>v. distinct (ix_at v (gr_node_sets g))) \<and>
     (\<forall>v i. i \<in> set (ix_at v (gr_node_sets g)) \<longrightarrow> (\<exists>s. find_set g i = Some s \<and> ds_owner s = v)) \<and>
     (\<forall>i s. find_set g i = Some s \<and> ds_active s \<longrightarrow> i \<in> set (ix_at (ds_owner s) (gr_node_sets g)))"

lemma set_index_owner:
  "set_index_ok g \<Longrightarrow> i \<in> set (ix_at v (gr_node_sets g)) \<Longrightarrow> \<exists>s. find_set g i = Some s \<and> ds_owner s = v"
  unfolding set_index_ok_def by blast

definition core_inv :: "graph \<Rightarrow> bool" where
  "core_inv g \<longleftrightarrow> graph_wf g \<and> index_sound g \<and> keys_ok g \<and> set_index_ok g"

lemma core_inv_empty: "core_inv empty_graph"
  by (auto simp: core_inv_def graph_wf_def index_sound_def keys_ok_def set_index_ok_def
      empty_graph_def um_size_def)

lemma same_structure_size: "same_structure g g' \<Longrightarrow> um_size (gr_nodes g') = um_size (gr_nodes g)"
  by (simp add: same_structure_def um_size_keys)

lemma content_only_keys_ok:
  assumes "content_only g g'" and "keys_ok g"
  shows "keys_ok g'"
proof -
  from assms(1) have ss: "same_structure g g'"
    and ids: "\<And>j. map_option nd_id (find_node g' j) = map_option nd_id (find_node g j)"
    by (auto simp: content_only_def)
  have "valid i \<and> nd_id n' = i" if "find_node g' i = Some n'" for i n'
    using ids[of i] that assms(2) by (cases "find_node g i") (auto simp: keys_ok_def)
  moreover have "gr_edges g' = gr_edges g" "gr_sets g' = gr_sets g"
    using ss by (auto simp: same_structure_def)
  ultimately show ?thesis
    using assms(2) unfolding keys_ok_def same_structure_size[OF ss] same_structure_find[OF ss] by simp
qed

lemma content_only_core_inv:
  assumes "content_only g g'" and "core_inv g"
  shows "core_inv g'"
proof -
  have ss: "same_structure g g'" "gr_sources g' = gr_sources g"
    using assms(1) by (auto simp: content_only_def)
  have "graph_wf g'" using assms(2) ss by (simp add: core_inv_def same_structure_wf)
  moreover have "set_index_ok g'" using assms(2) ss(1)
    by (simp add: core_inv_def set_index_ok_def same_structure_def)
  ultimately show ?thesis
    using assms(2) ss content_only_keys_ok[OF assms(1)] by (simp add: core_inv_def same_structure_index)
qed

subsection \<open>Preservation\<close>

lemma graph_wf_structural:
  assumes st: "structural c g g'" and wf: "graph_wf g"
  shows "graph_wf g'"
  using st
proof cases
  case sc_contents
  then show ?thesis using wf by (metis same_structure_wf content_structure content_sources)
next
  case (sc_declare i n k d st)
  with wf show ?thesis by (simp add: graph_wf_def)
next
  case (sc_insert e)
  with wf show ?thesis by (simp add: graph_wf_def insert_edge_def)
next
  case (sc_delete i e)
  with wf show ?thesis
    using um_size_erase_le[of i "gr_edges g"] by (simp add: graph_wf_def delete_edge_def)
next
  case (sc_switch i e a)
  with wf show ?thesis by (simp add: graph_wf_def switch_edge_def Let_def)
qed (use wf in \<open>simp_all add: graph_wf_def\<close>)

lemma index_sound_structural:
  assumes st: "structural c g g'" and ix: "index_sound g"
  shows "index_sound g'"
  using st
proof cases
  case sc_contents
  then show ?thesis using ix by (simp add: same_structure_index[OF content_structure])
next
  case (sc_insert e)
  then show ?thesis using ix by (simp add: index_sound_insert)
next
  case (sc_delete i e)
  then show ?thesis using ix by (simp add: index_sound_delete)
next
  case (sc_switch i e a)
  then show ?thesis using ix by (simp add: index_sound_switch)
qed (use ix in \<open>simp_all add: index_sound_def\<close>)

lemma index_exact_structural:
  assumes st: "structural c g g'" and ix: "index_exact g"
    and act: "\<And>e. c = AddEdge e \<Longrightarrow> ed_active e"
  shows "index_exact g'"
  using st
proof cases
  case sc_contents
  then show ?thesis using ix by (simp add: same_structure_exact[OF content_structure])
next
  case (sc_insert e)
  then show ?thesis using ix act by (simp add: index_exact_insert)
next
  case (sc_delete i e)
  then show ?thesis using ix by (simp add: index_exact_delete)
next
  case (sc_switch i e a)
  then show ?thesis using ix by (simp add: index_exact_switch)
qed (use ix in \<open>simp_all add: index_exact_def\<close>)

lemma acyclic_structural:
  assumes st: "structural c g g'" and ix: "index_sound g" and ac: "acyclic_graph g"
    and off: "\<And>i. c \<noteq> SetEdgeActive i True"
  shows "acyclic_graph g'"
  using st
proof cases
  case sc_contents
  then show ?thesis using ac by (simp add: same_structure_dep_rel[OF content_structure] acyclic_graph_def)
next
  case (sc_insert e)
  then have "(ed_consumer_id e, ed_producer_id e) \<notin> (dep_rel g)\<^sup>*"
    by (simp add: would_create_cycle_iff[OF ix])
  then show ?thesis
    using ac sc_insert by (simp add: acyclic_graph_def dep_rel_insert acyclic_insert_edge)
next
  case (sc_delete i e)
  then show ?thesis using ac dep_rel_delete acyclic_subset unfolding acyclic_graph_def by blast
next
  case (sc_switch i e a)
  then have "a = False" using off by auto
  then have "dep_rel g' \<subseteq> dep_rel g" using sc_switch dep_rel_switch_off by simp
  then show ?thesis using ac unfolding acyclic_graph_def by (blast intro: acyclic_subset)
qed (use ac in \<open>simp_all add: acyclic_graph_def dep_rel_def\<close>)

lemma keys_ok_structural:
  assumes st: "structural c g g'" and k: "keys_ok g"
  shows "keys_ok g'"
  using st
proof cases
  case sc_contents
  then show ?thesis using k by (simp add: content_only_keys_ok)
next
  case (sc_declare i n k' d st)
  with k show ?thesis by (auto simp: keys_ok_def)
next
  case (sc_insert e)
  with k show ?thesis by (auto simp: keys_ok_def insert_edge_def)
next
  case (sc_delete i e)
  with k show ?thesis by (auto simp: keys_ok_def delete_edge_def)
next
  case (sc_switch i e a)
  with k show ?thesis by (auto simp: keys_ok_def switch_edge_def Let_def)
qed (use k in \<open>auto simp: keys_ok_def\<close>)

lemma ix_at_unlist:
  "ix_at v (unlist_set i w m) = (if v = w then removeAll i (ix_at w m) else ix_at v m)"
  by (auto simp: unlist_set_def ix_at_def Let_def split: option.split)

lemma set_index_structural:
  assumes st: "structural c g g'" and s: "set_index_ok g"
  shows "set_index_ok g'"
  using st
proof cases
  case sc_contents
  then show ?thesis using s by (simp add: content_only_def same_structure_def set_index_ok_def)
next
  case (sc_add_set x)
  then have "ds_id x \<notin> set (ix_at v (gr_node_sets g))" for v
    using set_index_owner[OF s] by fastforce
  with s sc_add_set show ?thesis by (auto simp: set_index_ok_def) metis
next
  case (sc_drop_set i x)
  with s show ?thesis 
    by (auto simp: set_index_ok_def ix_at_unlist distinct_removeAll) (metis option.inject, metis)
qed (use s in \<open>auto simp: set_index_ok_def insert_edge_def delete_edge_def switch_edge_def Let_def\<close>)

lemma core_inv_structural: "structural c g g' \<Longrightarrow> core_inv g \<Longrightarrow> core_inv g'"
  by (auto simp: core_inv_def intro: graph_wf_structural index_sound_structural keys_ok_structural
      set_index_structural)

text \<open>Members of sets point at the owner; an edge id must not be reused while a set lists it.\<close>

definition sets_local :: "graph \<Rightarrow> bool" where
  "sets_local g \<longleftrightarrow> (\<forall>i s j e. find_set g i = Some s \<and> j \<in> set (ds_members s) \<and>
     find_edge g j = Some e \<longrightarrow> ed_consumer_id e = ds_owner s)"

definition unlisted :: "graph \<Rightarrow> edge_id \<Rightarrow> bool" where
  "unlisted g j \<longleftrightarrow> (\<forall>i s. find_set g i = Some s \<longrightarrow> j \<notin> set (ds_members s))"

lemma check_members_ok:
  "check_members g v ms = None \<Longrightarrow> j \<in> set ms \<Longrightarrow> \<exists>e. find_edge g j = Some e \<and> ed_consumer_id e = v"
  by (induction ms) (auto split: option.splits if_splits)

lemma sets_local_structural:
  assumes st: "structural c g g'" and s: "sets_local g"
    and un: "\<And>e. c = AddEdge e \<Longrightarrow> unlisted g (ed_id e)"
  shows "sets_local g'"
  using st
proof cases
  case sc_contents
  then show ?thesis using s by (simp add: content_only_def same_structure_def sets_local_def)
next
  case (sc_insert e)
  with s un show ?thesis by (auto simp: sets_local_def unlisted_def insert_edge_def)
next
  case (sc_delete i e)
  with s show ?thesis by (auto simp: sets_local_def delete_edge_def split: if_splits)
next
  case (sc_switch i e a)
  with s show ?thesis by (auto simp: sets_local_def switch_edge_def Let_def split: if_splits)
next
  case (sc_add_set x)
  with s show ?thesis by (auto simp: sets_local_def split: if_splits dest: check_members_ok)
qed (use s in \<open>auto simp: sets_local_def split: if_splits\<close>)

lemma sets_local_members:
  assumes "sets_local g" and "set_index_ok g"
  shows "members_local g"
proof -
  have "ed_consumer_id e = v" if s: "s \<in> set (active_sets g v)" and m: "e \<in> set (member_edges g s)" for v s e
  proof -
    from s obtain i where "i \<in> set (ix_at v (gr_node_sets g))" "find_set g i = Some s"
      by (auto simp: active_sets_def List.map_filter_def split: option.splits if_splits)
    moreover from this set_index_owner[OF assms(2)] have "ds_owner s = v" by fastforce
    moreover from m obtain j where "j \<in> set (ds_members s)" "find_edge g j = Some e"
      by (auto simp: member_edges_def active_edges_mem)
    ultimately show ?thesis using assms(1) unfolding sets_local_def by blast
  qed
  then show ?thesis unfolding members_local_def by blast
qed

end
