(* ===== verification/Recovery.thy ===== *)
theory Recovery
  imports Structure
begin

text \<open>
  \<open>src/graph/recovery.cpp\<close>: the walks over dependents and prerequisites, the affected closure, the
  recovery set, frontier and plan, and the structure diagnostics.
\<close>

section \<open>Policy tables\<close>

definition needs_recovery :: "readiness_state \<Rightarrow> bool" where
  "needs_recovery s \<longleftrightarrow>
     (case s of
        RS_INVALIDATED \<Rightarrow> True | RS_BLOCKED \<Rightarrow> True | RS_STALE \<Rightarrow> True
      | RS_REVALIDATION_REQUIRED \<Rightarrow> True | RS_MISSING \<Rightarrow> True | RS_FAILED \<Rightarrow> True
      | RS_DEGRADED \<Rightarrow> True | RS_SUPERSEDED \<Rightarrow> True | _ \<Rightarrow> False)"

definition action_for_state :: "readiness_state \<Rightarrow> node_kind \<Rightarrow> recovery_action" where
  "action_for_state s kind =
     (case s of
        RS_STALE \<Rightarrow> if kind = NK_SERVICE \<or> kind = NK_WORKLOAD_PHASE then RA_RESTART else RA_RECOMPUTATION
      | RS_SUPERSEDED \<Rightarrow>
          if kind = NK_SERVICE \<or> kind = NK_WORKLOAD_PHASE then RA_RESTART else RA_RECOMPUTATION
      | RS_INVALIDATED \<Rightarrow>
          if kind = NK_RESOURCE then RA_RESOURCE_REACQUISITION
          else if kind = NK_SERVICE \<or> kind = NK_WORKLOAD_PHASE then RA_RESTART
          else if kind = NK_CHECKPOINT \<or> kind = NK_KV_STATE then RA_CHECKPOINT_RESTORE
          else RA_RECOMPUTATION
      | RS_BLOCKED \<Rightarrow> RA_REVALIDATION
      | RS_REVALIDATION_REQUIRED \<Rightarrow> RA_REVALIDATION
      | RS_MISSING \<Rightarrow>
          if kind = NK_RESOURCE then RA_RESOURCE_REACQUISITION
          else if kind = NK_ARTIFACT \<or> kind = NK_CHECKPOINT \<or> kind = NK_DATA \<or> kind = NK_TENSOR
          then RA_RELOAD
          else RA_RECOMPUTATION
      | RS_FAILED \<Rightarrow> RA_RESTART
      | RS_DEGRADED \<Rightarrow> RA_REVALIDATION
      | _ \<Rightarrow> RA_REVALIDATION)"

definition owner_for_kind :: "node_kind \<Rightarrow> string" where
  "owner_for_kind kind =
     (case kind of
        NK_ARTIFACT \<Rightarrow> ''ArtifactFabric''
      | NK_MODEL \<Rightarrow> ''ModelRegistry''
      | NK_ADAPTER \<Rightarrow> ''AdapterFabric''
      | NK_KERNEL \<Rightarrow> ''KernelFabric''
      | NK_EXECUTION_GRAPH \<Rightarrow> ''ExecutionGraphStore''
      | NK_CHECKPOINT \<Rightarrow> ''CheckpointStore''
      | NK_KV_STATE \<Rightarrow> ''CheckpointStore''
      | NK_DATA \<Rightarrow> ''DataStore''
      | NK_TENSOR \<Rightarrow> ''DataStore''
      | NK_RESOURCE \<Rightarrow> ''ResourceBroker''
      | NK_SERVICE \<Rightarrow> ''WorkloadFabric''
      | NK_WORKLOAD_PHASE \<Rightarrow> ''WorkloadFabric''
      | NK_CAPABILITY \<Rightarrow> ''CompatibilityRegistry''
      | NK_EXECUTION_RESULT \<Rightarrow> ''ExecutionFabric''
      | NK_POLICY \<Rightarrow> ''PolicyStore''
      | NK_TOPOLOGY \<Rightarrow> ''TopologyRegistry''
      | NK_UNKNOWN \<Rightarrow> ''DependencyFabric''
      | NK_raw _ \<Rightarrow> ''DependencyFabric'')"

section \<open>Dependents and prerequisites\<close>

text \<open>
  A candidate is a pair (popped id, neighbour): a non-transitive query pushes nothing when the
  popped id is the start.
\<close>

definition walk_search :: "(node_id \<Rightarrow> node_id list) \<Rightarrow> node_id \<Rightarrow> bool \<Rightarrow>
    (node_id, node_id \<times> node_id, node_id, node_id list) search" where
  "walk_search next i transitive =
     \<lparr>s_expand = (\<lambda>cur. map (Pair cur) (next cur)), s_key = snd,
      s_item = (\<lambda>(cur, nxt). if \<not> transitive \<and> cur = i then [] else [nxt]),
      s_pop = (\<lambda>i a. a), s_note = (\<lambda>fresh c a. if fresh then a @ [snd c] else a),
      s_stop = (\<lambda>a. False)\<rparr>"

definition descendants_locked :: "graph \<Rightarrow> node_id \<Rightarrow> bool \<Rightarrow> bool \<Rightarrow> node_id list" where
  "descendants_locked g i transitive through_optional =
     search_result (walk_search (out_via through_optional g) i transitive) ([i], {i}, [])"

definition ancestors_locked :: "graph \<Rightarrow> node_id \<Rightarrow> bool \<Rightarrow> bool \<Rightarrow> node_id list" where
  "ancestors_locked g i transitive through_optional =
     search_result (walk_search (in_via through_optional g) i transitive) ([i], {i}, [])"

definition dependents :: "graph \<Rightarrow> node_id \<Rightarrow> bool \<Rightarrow> node_id list" where
  "dependents g i transitive = descendants_locked g i transitive True"

definition prerequisites :: "graph \<Rightarrow> node_id \<Rightarrow> bool \<Rightarrow> node_id list" where
  "prerequisites g i transitive = ancestors_locked g i transitive True"

section \<open>The affected closure\<close>

type_synonym affected_candidate = "edge_id \<times> node_id \<times> u32"

definition affected_expand :: "graph \<Rightarrow> u32 \<Rightarrow> node_id \<times> u32 \<Rightarrow> affected_candidate list" where
  "affected_expand g cap item =
     (case item of (cur, dist) \<Rightarrow>
       if cap \<le> dist then []
       else map (\<lambda>(eid, e). (eid, ed_consumer_id e, dist + 1)) (out_active g cur))"

text \<open>\<open>visited_edges\<close> is the set of the edges already in the closure.\<close>

definition affected_note :: "bool \<Rightarrow> affected_candidate \<Rightarrow> affected_closure \<Rightarrow> affected_closure" where
  "affected_note fresh c a =
     (case c of (eid, nxt, d) \<Rightarrow>
       let a1 = (if eid \<in> set (ac_edges a) then a else a\<lparr>ac_edges := ac_edges a @ [eid]\<rparr>)
       in if fresh then a1\<lparr>ac_nodes := ac_nodes a1 @ [nxt]\<rparr> else a1)"

definition affected_search :: "graph \<Rightarrow> u32 \<Rightarrow>
    (node_id \<times> u32, affected_candidate, node_id, affected_closure) search" where
  "affected_search g cap =
     \<lparr>s_expand = affected_expand g cap, s_key = (\<lambda>(eid, nxt, d). nxt),
      s_item = (\<lambda>(eid, nxt, d). [(nxt, d)]), s_pop = (\<lambda>i a. a), s_note = affected_note,
      s_stop = (\<lambda>a. False)\<rparr>"

definition closure_frontier :: "graph \<Rightarrow> node_id list \<Rightarrow> node_id list" where
  "closure_frontier g nodes =
     filter (\<lambda>n. \<not> list_ex (\<lambda>(eid, e). ed_consumer_id e \<in> set nodes) (out_active g n)) nodes"

definition empty_closure :: affected_closure where
  "empty_closure = \<lparr>ac_nodes = [], ac_edges = [], ac_frontier = []\<rparr>"

definition closure_cap :: "u32 \<Rightarrow> u32" where
  "closure_cap max_depth = (if max_depth \<noteq> 0 then max_depth else kDefaultMaxTraversalDepth)"

definition affected_closure_locked :: "graph \<Rightarrow> node_id \<Rightarrow> u32 \<Rightarrow> affected_closure" where
  "affected_closure_locked g seed max_depth =
     (if find_node g seed = None then empty_closure
      else
        let c = search_result (affected_search g (closure_cap max_depth))
                  ([(seed, 0)], {seed}, empty_closure\<lparr>ac_nodes := [seed]\<rparr>)
        in c\<lparr>ac_frontier := closure_frontier g (ac_nodes c)\<rparr>)"

definition affected_closure_query :: "graph \<Rightarrow> node_id \<Rightarrow> u32 \<Rightarrow> affected_closure" where
  "affected_closure_query g seed max_depth = affected_closure_locked g seed max_depth"

section \<open>Recovery\<close>

text \<open>The loops skip ids already seen; the order they walk is a list of distinct ids or not.\<close>

fun fresh_ids :: "node_id set \<Rightarrow> node_id list \<Rightarrow> node_id list" where
  "fresh_ids seen [] = []"
| "fresh_ids seen (n # ns) =
     (if n \<in> seen then fresh_ids seen ns else n # fresh_ids (insert n seen) ns)"

definition needs_recovery_node :: "graph \<Rightarrow> node_id \<Rightarrow> bool" where
  "needs_recovery_node g i \<longleftrightarrow>
     (case find_node g i of None \<Rightarrow> False | Some n \<Rightarrow> needs_recovery (nd_state n))"

definition recovery_set :: "graph \<Rightarrow> node_id \<Rightarrow> node_id list" where
  "recovery_set g seed =
     filter (needs_recovery_node g)
       (fresh_ids {} (topology_order_locked g (ac_nodes (affected_closure_locked g seed 0))))"

definition nonready :: "graph \<Rightarrow> node_id \<Rightarrow> bool" where
  "nonready g i \<longleftrightarrow> (case find_node g i of None \<Rightarrow> False | Some n \<Rightarrow> nd_state n \<noteq> RS_READY)"

definition recompute_frontier :: "graph \<Rightarrow> node_id \<Rightarrow> node_id list" where
  "recompute_frontier g seed =
     (let nodes = ac_nodes (affected_closure_locked g seed 0) in
      filter (\<lambda>n. nonready g n \<and>
        \<not> list_ex (\<lambda>(eid, e). ed_producer_id e \<noteq> n \<and> ed_producer_id e \<in> set nodes \<and>
                              nonready g (ed_producer_id e)) (in_active g n)) nodes)"

definition intent_for :: "graph \<Rightarrow> node_id \<Rightarrow> node \<Rightarrow> recovery_intent" where
  "intent_for g i n =
     \<lparr>ri_node = i, ri_kind = nd_kind n,
      ri_action = action_for_state (nd_state n) (nd_kind n),
      ri_reason = (if nd_ever_invalidated n then nd_last_invalidation_reason n else IR_EXPLICIT),
      ri_owner_runtime =
        (case gr_adapter g of Some a \<Rightarrow> ad_owning_runtime a (nd_kind n)
         | None \<Rightarrow> owner_for_kind (nd_kind n)),
      ri_detail = ''node '' @ to_string_nat (unat (strong_value i)) @ '' ('' @
        node_kind_name (nd_kind n) @ '') is '' @ readiness_state_name (nd_state n)\<rparr>"

definition recovery_plan :: "graph \<Rightarrow> node_id \<Rightarrow> recovery_intent list" where
  "recovery_plan g seed =
     List.map_filter (\<lambda>i. case find_node g i of
         None \<Rightarrow> None
       | Some n \<Rightarrow> if needs_recovery (nd_state n) then Some (intent_for g i n) else None)
       (fresh_ids {} (topology_order_locked g [seed]))"

section \<open>Structure diagnostics\<close>

definition self_loop_edges :: "iteration \<Rightarrow> graph \<Rightarrow> edge_id list" where
  "self_loop_edges it g =
     map fst (filter (\<lambda>kv. strong_value (ed_producer_id (snd kv)) = strong_value (ed_consumer_id (snd kv)))
       (um_iter (it_edges it) (gr_edges g)))"

fun duplicate_ids :: "node_id set \<Rightarrow> node_id list \<Rightarrow> node_id list" where
  "duplicate_ids seen [] = []"
| "duplicate_ids seen (i # is) =
     (if i \<in> seen then i # duplicate_ids seen is else duplicate_ids (insert i seen) is)"

definition duplicate_id_nodes :: "iteration \<Rightarrow> graph \<Rightarrow> node_id list" where
  "duplicate_id_nodes it g = duplicate_ids {} (map fst (um_iter (it_nodes it) (gr_nodes g)))"

section \<open>What the walks find\<close>

interpretation descendants_walk: finding_search "walk_search (out_via t g) i True" "consumers g"
    "\<lambda>v. v" "out_rel t g"
  for t g i
  by unfold_locales (auto simp: walk_search_def out_rel_def image_image dest: out_via_bounded)

interpretation ancestors_walk: finding_search "walk_search (in_via t g) i True" "producers g"
    "\<lambda>v. v" "in_rel t g"
  for t g i
  by unfold_locales (auto simp: walk_search_def in_rel_def image_image dest: in_via_bounded)

lemma descendants_transitive:
  assumes "index_sound g"
  shows "set (descendants_locked g i True t) = (dep_rel_via t g)\<^sup>* `` {i} - {i}"
    "distinct (descendants_locked g i True t)"
  using descendants_walk.found_reachable[of "[i]" "{i}" t g i]
  by (simp_all add: descendants_locked_def out_rel_dep[OF assms])

lemma ancestors_transitive:
  assumes "index_sound g"
  shows "set (ancestors_locked g i True t) = ((dep_rel_via t g)\<inverse>)\<^sup>* `` {i} - {i}"
    "distinct (ancestors_locked g i True t)"
  using ancestors_walk.found_reachable[of "[i]" "{i}" t g i]
  by (simp_all add: ancestors_locked_def in_rel_dep[OF assms])

text \<open>The non-transitive walk stops after one scan of the start's neighbours.\<close>

lemma walk_scan_direct:
  "search_scan (walk_search next i False) (map (Pair i) ws) (q, vis, a) =
     (q, vis \<union> set ws, a @ fresh_ids vis ws)"
  by (induction ws arbitrary: vis a) (auto simp: walk_search_def insert_absorb)

lemma set_fresh_ids: "set (fresh_ids seen ns) = set ns - seen"
  by (induction ns arbitrary: seen) auto

lemma distinct_fresh_ids: "distinct (fresh_ids seen ns)"
  by (induction ns arbitrary: seen) (auto simp: set_fresh_ids)

lemma fresh_ids_id: "distinct ns \<Longrightarrow> set ns \<inter> seen = {} \<Longrightarrow> fresh_ids seen ns = ns"
  by (induction ns arbitrary: seen) auto

lemma walk_direct:
  "search_result (walk_search next i False) ([i], {i}, []) = fresh_ids {i} (next i)"
proof -
  have s: "s_stop (walk_search next i False) = (\<lambda>a. False)"
    "s_expand (walk_search next i False) i = map (Pair i) (next i)"
    "s_pop (walk_search next i False) = (\<lambda>i a. a)"
    by (simp_all add: walk_search_def)
  show ?thesis
    by (subst search_result_def, subst search_unfold, subst search_unfold)
      (simp add: search_running_def s walk_scan_direct)
qed

lemma descendants_direct:
  assumes "index_sound g"
  shows "set (descendants_locked g i False t) = dep_rel_via t g `` {i} - {i}"
    "distinct (descendants_locked g i False t)"
proof -
  have "set (out_via t g i) = dep_rel_via t g `` {i}" by (auto simp: out_via_mem[OF assms])
  then show "set (descendants_locked g i False t) = dep_rel_via t g `` {i} - {i}"
    and "distinct (descendants_locked g i False t)"
    by (simp_all add: descendants_locked_def walk_direct set_fresh_ids distinct_fresh_ids)
qed

lemma ancestors_direct:
  assumes "index_sound g"
  shows "set (ancestors_locked g i False t) = (dep_rel_via t g)\<inverse> `` {i} - {i}"
    "distinct (ancestors_locked g i False t)"
proof -
  have "set (in_via t g i) = (dep_rel_via t g)\<inverse> `` {i}" by (auto simp: in_via_mem[OF assms])
  then show "set (ancestors_locked g i False t) = (dep_rel_via t g)\<inverse> `` {i} - {i}"
    and "distinct (ancestors_locked g i False t)"
    by (simp_all add: ancestors_locked_def walk_direct set_fresh_ids distinct_fresh_ids)
qed

section \<open>What the affected closure contains\<close>

lemma affected_key: "s_key (affected_search g cap) c = fst (snd c)"
  by (cases c) (simp add: affected_search_def)

lemma affected_item: "s_item (affected_search g cap) c = [(fst (snd c), snd (snd c))]"
  by (cases c) (simp add: affected_search_def)

lemma affected_expand_mem:
  "c \<in> set (s_expand (affected_search g cap) i) \<longleftrightarrow> snd i < cap \<and>
     (\<exists>eid e. (eid, e) \<in> set (out_active g (fst i)) \<and> c = (eid, ed_consumer_id e, snd i + 1))"
  by (cases i) (auto simp: affected_search_def affected_expand_def not_le)

interpretation affected_walk: layered_search "affected_search g cap" "consumers g" fst
    "\<lambda>i. unat (snd i)" "unat cap" "succ_rel g"
  for g cap
proof
  fix c j :: "affected_candidate" and i k :: "node_id \<times> u32" and a :: affected_closure
  show "finite (consumers g)" by simp
  show "s_key (affected_search g cap) c \<in> consumers g" if "c \<in> set (s_expand (affected_search g cap) i)"
    using that by (auto simp: affected_expand_mem affected_key dest: out_active_consumer)
  show "length (s_item (affected_search g cap) c) \<le> 1"
    and "map fst (s_item (affected_search g cap) c) = [s_key (affected_search g cap) c]"
    by (simp_all add: affected_item affected_key)
  show "unat (snd k) = Suc (unat (snd i))"
    if "c \<in> set (s_expand (affected_search g cap) i)" "k \<in> set (s_item (affected_search g cap) c)"
    using that unat_succ[of "snd i" cap] by (auto simp: affected_expand_mem affected_item)
  show "s_key (affected_search g cap) ` set (s_expand (affected_search g cap) i) = succ_rel g `` {fst i}"
    if "unat (snd i) < unat cap"
  proof -
    have lt: "snd i < cap" using that by (simp add: word_less_nat_alt)
    have "w \<in> s_key (affected_search g cap) ` set (s_expand (affected_search g cap) i) \<longleftrightarrow>
          (fst i, w) \<in> succ_rel g" for w
      unfolding succ_rel_iff image_iff affected_key Bex_def affected_expand_mem using lt by force
    then show ?thesis by auto
  qed
  show "s_expand (affected_search g cap) i = []" if "unat (snd i) = unat cap"
  proof -
    have "snd i = cap" using that by (metis word_unat_eq_iff)
    then show ?thesis by (cases i) (simp add: affected_search_def affected_expand_def)
  qed
  show "\<not> s_stop (affected_search g cap) a" by (simp add: affected_search_def)
qed

definition edge_within :: "graph \<Rightarrow> node_id set \<Rightarrow> edge_id \<Rightarrow> bool" where
  "edge_within g vis i \<longleftrightarrow>
     (\<exists>v e. v \<in> vis \<and> (i, e) \<in> set (out_active g v) \<and> ed_consumer_id e \<in> vis)"

lemma edge_within_mono: "edge_within g vis i \<Longrightarrow> edge_within g (insert w vis) i"
  unfolding edge_within_def by blast

lemma edge_withinI:
  "(i, e) \<in> set (out_active g v) \<Longrightarrow> v \<in> vis \<Longrightarrow> edge_within g (insert (ed_consumer_id e) vis) i"
  unfolding edge_within_def by blast

definition closure_inv :: "graph \<Rightarrow> (node_id \<times> u32) list \<times> node_id set \<times> affected_closure \<Rightarrow> bool" where
  "closure_inv g st \<longleftrightarrow> (case st of (q, vis, a) \<Rightarrow>
     fst ` set q \<subseteq> vis \<and> distinct (ac_nodes a) \<and> set (ac_nodes a) = vis \<and> distinct (ac_edges a) \<and>
     (\<forall>i \<in> set (ac_edges a). edge_within g vis i))"

lemma closure_inv_step:
  assumes inv: "closure_inv g st" and run: "search_running (affected_search g cap) st"
  shows "closure_inv g (search_step (affected_search g cap) st)"
proof -
  let ?S = "affected_search g cap"
  obtain i q vis a where st: "st = (i # q, vis, a)"
    using run by (cases st) (auto simp: search_running_def neq_Nil_conv)
  let ?P = "\<lambda>st. closure_inv g st \<and> fst i \<in> fst (snd st)"
  have "?P (search_scan ?S (s_expand ?S i) (q, vis, s_pop ?S i a))"
  proof (rule search_scan_rule[where P = ?P])
    show "?P (q, vis, s_pop ?S i a)"
      using inv by (auto simp: st closure_inv_def affected_search_def)
  next
    fix c q vis a
    assume c: "c \<in> set (s_expand ?S i)" and P: "?P (q, vis, a)" and seen: "s_key ?S c \<in> vis"
    obtain eid e where ce: "(eid, e) \<in> set (out_active g (fst i))" "c = (eid, ed_consumer_id e, snd i + 1)"
      using c by (auto simp: affected_expand_mem)
    have "edge_within g vis eid"
      using edge_withinI[OF ce(1), of vis] P seen ce(2) by (simp add: affected_key insert_absorb)
    then show "?P (q, vis, s_note ?S False c a)"
      using P ce(2) by (simp add: closure_inv_def affected_search_def affected_note_def)
  next
    fix c q vis a
    assume c: "c \<in> set (s_expand ?S i)" and P: "?P (q, vis, a)" and new: "s_key ?S c \<notin> vis"
    obtain eid e where ce: "(eid, e) \<in> set (out_active g (fst i))" "c = (eid, ed_consumer_id e, snd i + 1)"
      using c by (auto simp: affected_expand_mem)
    have "edge_within g (insert (ed_consumer_id e) vis) eid"
      using edge_withinI[OF ce(1)] P by simp
    then show "?P (q @ s_item ?S c, insert (s_key ?S c) vis, s_note ?S True c a)"
      using P new ce(2) edge_within_mono[of g vis _ "ed_consumer_id e"]
      by (auto simp: closure_inv_def affected_key affected_item)
        (auto simp: affected_search_def affected_note_def Let_def split: if_splits)
  qed
  then show ?thesis by (simp add: st)
qed

lemma affected_closure_spec:
  assumes ix: "index_sound g" and n: "find_node g seed \<noteq> None"
  shows "set (ac_nodes (affected_closure_locked g seed d)) = ball (dep_rel g) seed (unat (closure_cap d))"
    "distinct (ac_nodes (affected_closure_locked g seed d))"
    "distinct (ac_edges (affected_closure_locked g seed d))"
    "\<forall>i \<in> set (ac_edges (affected_closure_locked g seed d)).
       \<exists>e. find_edge g i = Some e \<and> ed_active e \<and>
         ed_producer_id e \<in> set (ac_nodes (affected_closure_locked g seed d)) \<and>
         ed_consumer_id e \<in> set (ac_nodes (affected_closure_locked g seed d))"
proof -
  let ?S = "affected_search g (closure_cap d)"
  let ?st = "([(seed, 0)], {seed}, empty_closure\<lparr>ac_nodes := [seed]\<rparr>)"
  obtain q vis a where s: "search ?S ?st = (q, vis, a)" by (metis prod_cases3)
  have "closure_inv g ?st" by (simp add: closure_inv_def empty_closure_def)
  then have inv: "closure_inv g (q, vis, a)"
    using affected_walk.search_rule[where P = "closure_inv g", OF _ closure_inv_step] s by metis
  have vis: "vis = ball (dep_rel g) seed (unat (closure_cap d))"
    using affected_walk.search_ball[OF _ _ s] by (simp add: succ_rel_dep_rel[OF ix])
  have nodes: "ac_nodes (affected_closure_locked g seed d) = ac_nodes a"
    and edges: "ac_edges (affected_closure_locked g seed d) = ac_edges a"
    using n s by (auto simp: affected_closure_locked_def Let_def search_result_def)
  from inv show "set (ac_nodes (affected_closure_locked g seed d)) =
      ball (dep_rel g) seed (unat (closure_cap d))"
    "distinct (ac_nodes (affected_closure_locked g seed d))"
    "distinct (ac_edges (affected_closure_locked g seed d))"
    by (simp_all add: nodes edges closure_inv_def vis)
  have "\<exists>e. find_edge g i = Some e \<and> ed_active e \<and> ed_producer_id e \<in> vis \<and> ed_consumer_id e \<in> vis"
    if "edge_within g vis i" for i
    using that unfolding edge_within_def out_active_sound[OF ix] by blast
  with inv show "\<forall>i \<in> set (ac_edges (affected_closure_locked g seed d)).
       \<exists>e. find_edge g i = Some e \<and> ed_active e \<and>
         ed_producer_id e \<in> set (ac_nodes (affected_closure_locked g seed d)) \<and>
         ed_consumer_id e \<in> set (ac_nodes (affected_closure_locked g seed d))"
    by (simp add: nodes edges closure_inv_def)
qed

lemma ball_start: "s \<in> ball R s n"
  by (auto simp: ball_def intro: exI[of _ 0])

lemma recovery_set_spec:
  assumes ix: "index_sound g" and n: "find_node g seed \<noteq> None" and v: "valid seed"
  shows "set (recovery_set g seed) = {i. (seed, i) \<in> (dep_rel g)\<^sup>* \<and> needs_recovery_node g i}"
    "distinct (recovery_set g seed)"
proof -
  let ?ns = "ac_nodes (affected_closure_locked g seed 0)"
  have ns: "set ?ns = ball (dep_rel g) seed (unat (closure_cap 0))"
    by (rule affected_closure_spec(1)[OF ix n])
  have "(dep_rel g)\<^sup>* `` {r \<in> set ?ns. valid r} = (dep_rel g)\<^sup>* `` {seed}"
  proof
    have "{r \<in> set ?ns. valid r} \<subseteq> (dep_rel g)\<^sup>* `` {seed}"
      using ns ball_subset_rtrancl[of "dep_rel g" seed] by blast
    then show "(dep_rel g)\<^sup>* `` {r \<in> set ?ns. valid r} \<subseteq> (dep_rel g)\<^sup>* `` {seed}"
      by (blast intro: rtrancl_trans)
    show "(dep_rel g)\<^sup>* `` {seed} \<subseteq> (dep_rel g)\<^sup>* `` {r \<in> set ?ns. valid r}"
      using ns v ball_start[of seed "dep_rel g"] by blast
  qed
  then show "set (recovery_set g seed) = {i. (seed, i) \<in> (dep_rel g)\<^sup>* \<and> needs_recovery_node g i}"
    and "distinct (recovery_set g seed)"
    by (auto simp: recovery_set_def set_fresh_ids distinct_fresh_ids topology_order_spec
        succ_rel_dep_rel[OF ix])
qed

lemma recovery_plan_alt:
  "recovery_plan g seed = map (\<lambda>i. intent_for g i (the (find_node g i)))
     (filter (needs_recovery_node g) (topology_order_locked g [seed]))"
proof -
  have "fresh_ids {} (topology_order_locked g [seed]) = topology_order_locked g [seed]"
    by (simp add: fresh_ids_id topology_order_spec)
  moreover have "List.map_filter (\<lambda>i. case find_node g i of None \<Rightarrow> None
       | Some n \<Rightarrow> if needs_recovery (nd_state n) then Some (intent_for g i n) else None) is =
     map (\<lambda>i. intent_for g i (the (find_node g i))) (filter (needs_recovery_node g) is)" for "is"
    by (induction "is") (auto simp: List.map_filter_simps needs_recovery_node_def split: option.split)
  ultimately show ?thesis by (simp add: recovery_plan_def)
qed

lemma recovery_plan_spec:
  assumes ix: "index_sound g" and v: "valid seed"
  shows "set (map ri_node (recovery_plan g seed)) =
      {i. (seed, i) \<in> (dep_rel g)\<^sup>* \<and> needs_recovery_node g i}"
    "distinct (map ri_node (recovery_plan g seed))"
    "\<forall>r \<in> set (recovery_plan g seed). \<exists>n. find_node g (ri_node r) = Some n \<and>
       r = intent_for g (ri_node r) n"
proof -
  have nodes: "map ri_node (recovery_plan g seed) =
      filter (needs_recovery_node g) (topology_order_locked g [seed])"
    by (simp add: recovery_plan_alt comp_def intent_for_def)
  show "set (map ri_node (recovery_plan g seed)) =
      {i. (seed, i) \<in> (dep_rel g)\<^sup>* \<and> needs_recovery_node g i}"
    using v by (auto simp: nodes topology_order_spec succ_rel_dep_rel[OF ix])
  show "distinct (map ri_node (recovery_plan g seed))"
    by (simp add: nodes topology_order_spec)
  show "\<forall>r \<in> set (recovery_plan g seed). \<exists>n. find_node g (ri_node r) = Some n \<and>
       r = intent_for g (ri_node r) n"
    by (auto simp: recovery_plan_alt needs_recovery_node_def intent_for_def split: option.splits)
qed

section \<open>The recomputation frontier\<close>

lemma frontier_covers:
  assumes ix: "index_sound g" and ac: "acyclic_graph g"
    and n: "i \<in> set (ac_nodes (affected_closure_locked g seed 0))" "nonready g i"
  shows "\<exists>f \<in> set (recompute_frontier g seed). (f, i) \<in> (dep_rel g)\<^sup>*"
  using n
proof (induction i rule: wf_induct_rule[OF wf_dep_rel[OF ac]])
  case (1 i)
  let ?ns = "ac_nodes (affected_closure_locked g seed 0)"
  show ?case
  proof (cases "i \<in> set (recompute_frontier g seed)")
    case False
    then obtain eid e where e: "(eid, e) \<in> set (in_active g i)" "ed_producer_id e \<in> set ?ns"
      "nonready g (ed_producer_id e)"
      using 1(2,3) by (auto simp: recompute_frontier_def Let_def list_ex_iff)
    then have d: "(ed_producer_id e, i) \<in> dep_rel g"
      by (auto simp: out_active_sound[OF ix] dep_rel_def)
    from 1(1)[OF d e(2,3)] d show ?thesis by (auto intro: rtrancl_into_rtrancl)
  qed blast
qed

lemma frontier_nonready: "i \<in> set (recompute_frontier g seed) \<Longrightarrow> nonready g i"
  by (simp add: recompute_frontier_def Let_def)

section \<open>Structure diagnostics\<close>

lemma self_loop_spec:
  "iteration_ok it \<Longrightarrow> i \<in> set (self_loop_edges it g) \<longleftrightarrow>
     (\<exists>e. find_edge g i = Some e \<and> ed_producer_id e = ed_consumer_id e)"
  unfolding self_loop_edges_def iteration_ok_def set_map image_iff
  by (auto simp: um_iter_mem)

lemma duplicate_ids_distinct: "distinct ns \<Longrightarrow> set ns \<inter> seen = {} \<Longrightarrow> duplicate_ids seen ns = []"
  by (induction ns arbitrary: seen) auto

lemma no_duplicate_ids:
  "iteration_ok it \<Longrightarrow> graph_wf g \<Longrightarrow> duplicate_id_nodes it g = []"
  by (simp add: duplicate_id_nodes_def duplicate_ids_distinct um_iter_distinct iteration_ok_def graph_wf_def)

end
