(* ===== verification/Explain.thy ===== *)
theory Explain
  imports Structure
begin

text \<open>
  \<open>Graph::blockers\<close> and \<open>Graph::explain\<close> (\<open>src/graph/readiness.cpp\<close>): which prerequisites hold a
  node back. Both evaluate the node's sets and remaining inbound edges with fresh flags and keep
  the blockers of required edges.
\<close>

section \<open>The queries\<close>

definition set_blockers :: "graph \<Rightarrow> set_id list \<Rightarrow> blocking_dependency list" where
  "set_blockers g sids =
     concat (map (\<lambda>sid. case find_set g sid of
         None \<Rightarrow> []
       | Some s \<Rightarrow>
           if \<not> ds_active s then []
           else let acc = fst (snd (eval_set_locked g s empty_acc)) in
             if ea_blocked acc then filter (\<lambda>b. \<not> bd_optional b) (ea_blockers acc) else []) sids)"

definition edge_blockers :: "graph \<Rightarrow> edge_id list \<Rightarrow> edge_id list \<Rightarrow> blocking_dependency list" where
  "edge_blockers g members eids =
     concat (map (\<lambda>eid.
       if eid \<in> set members then []
       else case find_edge g eid of
         None \<Rightarrow> []
       | Some e \<Rightarrow>
           if \<not> ed_active e then []
           else let acc = snd (eval_edge_locked g e empty_acc) in
             if ea_blocked acc \<or> ea_stale acc then filter (\<lambda>b. \<not> bd_optional b) (ea_blockers acc)
             else []) eids)"

text \<open>\<open>blockers\<close> collects the members of every set of the node, \<open>explain\<close> of the active ones.\<close>

definition listed_members :: "graph \<Rightarrow> set_id list \<Rightarrow> edge_id list" where
  "listed_members g sids =
     concat (map (\<lambda>sid. case find_set g sid of None \<Rightarrow> [] | Some s \<Rightarrow> ds_members s) sids)"

definition blockers :: "graph \<Rightarrow> node_id \<Rightarrow> blocking_dependency list" where
  "blockers g i =
     (case find_node g i of
        None \<Rightarrow> []
      | Some n \<Rightarrow>
          let sids = ix_at i (gr_node_sets g) in
          set_blockers g sids @
          edge_blockers g (listed_members g sids) (ix_at i (gr_in_edges g)))"

definition required_actions_for :: "readiness_state \<Rightarrow> string list" where
  "required_actions_for s =
     (case s of
        RS_READY \<Rightarrow> [''none'']
      | RS_BLOCKED \<Rightarrow> [''satisfy blocking dependencies'']
      | RS_STALE \<Rightarrow> [''recompute/rebind against current authoritative generation'']
      | RS_REVALIDATION_REQUIRED \<Rightarrow> [''republish fresh dynamic evidence'']
      | RS_INVALIDATED \<Rightarrow> [''recover/recompute the invalidated node'']
      | RS_DEGRADED \<Rightarrow> [''restore optional dependency or tolerate degraded operation'']
      | _ \<Rightarrow> [])"

definition explain :: "graph \<Rightarrow> node_id \<Rightarrow> explanation" where
  "explain g i =
     (case find_node g i of
        None \<Rightarrow>
          \<lparr>ex_node = i, ex_kind = NK_UNKNOWN, ex_outcome = OC_UNKNOWN, ex_state = RS_UNKNOWN,
           ex_current_generation = null_strong, ex_origin_source = null_strong,
           ex_origin_boot = null_strong, ex_summary = ''node does not exist (UNKNOWN)'',
           ex_blockers = [], ex_upstream_invalidation_notes = [], ex_changes_since_ready = [],
           ex_required_actions = []\<rparr>
      | Some n \<Rightarrow>
          \<lparr>ex_node = i, ex_kind = nd_kind n, ex_outcome = outcome_for_state (nd_state n),
           ex_state = nd_state n, ex_current_generation = nd_current_generation n,
           ex_origin_source = nd_origin_source n, ex_origin_boot = nd_origin_boot n,
           ex_summary = ''node '' @ to_string_nat (unat (strong_value i)) @ '' ('' @
             node_kind_name (nd_kind n) @ '') is '' @ readiness_state_name (nd_state n),
           ex_blockers =
             set_blockers g (ix_at i (gr_node_sets g)) @
             edge_blockers g (set_members g i) (ix_at i (gr_in_edges g)),
           ex_upstream_invalidation_notes =
             (if nd_ever_invalidated n
              then [''affected by invalidation reason: '' @
                    invalidation_reason_name (nd_last_invalidation_reason n)] else []),
           ex_changes_since_ready =
             (if nd_was_ready_before_restart n \<and> nd_state n \<noteq> RS_READY
              then [''node was READY before coordinator restart; dynamic evidence now requires revalidation'']
              else []) @
             map (\<lambda>h. ''superseded generation '' @ strong_to_string h @
                     '' is no longer authoritative'') (nd_superseded_generations n),
           ex_required_actions = required_actions_for (nd_state n)\<rparr>)"

section \<open>The blockers of an edge\<close>

text \<open>A check adds blockers of its edge exactly when its condition fails.\<close>

definition about_edge :: "edge \<Rightarrow> blocking_dependency \<Rightarrow> bool" where
  "about_edge e b \<longleftrightarrow> bd_edge_id b = ed_id e \<and> bd_producer b = ed_producer_id e \<and>
     bd_optional b = (\<not> edge_required e)"

definition adds :: "edge \<Rightarrow> (eval_acc \<Rightarrow> eval_acc) \<Rightarrow> bool \<Rightarrow> bool" where
  "adds e c ok \<longleftrightarrow> (\<forall>acc. \<exists>bs. ea_blockers (c acc) = ea_blockers acc @ bs \<and>
     (bs = [] \<longleftrightarrow> ok) \<and> list_all (about_edge e) bs)"

lemma adds_comp:
  assumes "adds e c P" and "adds e d Q"
  shows "adds e (\<lambda>acc. d (c acc)) (P \<and> Q)"
  unfolding adds_def
proof
  fix acc
  obtain bs where bs: "ea_blockers (c acc) = ea_blockers acc @ bs" "bs = [] \<longleftrightarrow> P"
    "list_all (about_edge e) bs"
    using assms(1) unfolding adds_def by blast
  obtain ds where ds: "ea_blockers (d (c acc)) = ea_blockers (c acc) @ ds" "ds = [] \<longleftrightarrow> Q"
    "list_all (about_edge e) ds"
    using assms(2) unfolding adds_def by blast
  show "\<exists>bs. ea_blockers (d (c acc)) = ea_blockers acc @ bs \<and> (bs = [] \<longleftrightarrow> P \<and> Q) \<and>
      list_all (about_edge e) bs"
    by (rule exI[of _ "bs @ ds"]) (use bs ds in auto)
qed

lemma adds_if:
  assumes "\<And>acc. \<not> ok \<Longrightarrow> \<exists>b. ea_blockers (c acc) = ea_blockers acc @ [b] \<and> about_edge e b"
    and "\<And>acc. ok \<Longrightarrow> c acc = acc"
  shows "adds e c ok"
  unfolding adds_def using assms by (cases ok) force+

lemma add_blocker_adds:
  "\<exists>b. ea_blockers (add_blocker e p r k rg ag acc) = ea_blockers acc @ [b] \<and> about_edge e b"
  by (simp add: add_blocker_def about_edge_def)

lemma unmet_adds: "\<exists>b. ea_blockers (unmet e p r r' acc) = ea_blockers acc @ [b] \<and> about_edge e b"
  by (simp add: unmet_def add_blocker_def about_edge_def)

lemma check_generation_adds: "adds e (check_generation e p) (generation_ok e p)"
proof (rule adds_if)
  fix acc
  obtain ok rg k where m: "meets_generation_constraint p (ed_predicate e) null_strong GP_NONE = (ok, rg, k)"
    by (metis prod_cases3)
  have ok: "ok = generation_ok e p" using generation_constraint_ok[of p e null_strong GP_NONE] m by simp
  show "\<exists>b. ea_blockers (check_generation e p acc) = ea_blockers acc @ [b] \<and> about_edge e b"
    if "\<not> generation_ok e p"
    using that ok by (simp add: check_generation_def m add_blocker_def about_edge_def)
  show "check_generation e p acc = acc" if "generation_ok e p"
    using that ok by (simp add: check_generation_def m)
qed

lemma check_readiness_adds: "adds e (check_readiness e p) (level_ok e p)"
  by (rule adds_if) (auto simp: check_readiness_def level_ok_def Let_def add_blocker_def about_edge_def)

lemma check_evidence_adds: "adds e (check_evidence g e p) (evidence_ok g e p)"
proof -
  let ?pr = "ed_predicate e" and ?i = "ed_producer_id e"
  have c: "adds e (check_resource g e p) (pr_requires_resource_available ?pr \<longrightarrow> resource_fact g ?i p)"
    "adds e (check_capability g e p)
       (pr_required_capability ?pr \<noteq> [] \<longrightarrow> capability_fact g ?i p (pr_required_capability ?pr))"
    "adds e (check_freshness g e p) (pr_requires_fresh ?pr \<longrightarrow> freshness_fact g ?i p)"
    "adds e (check_integrity g e p) (pr_requires_integrity ?pr \<longrightarrow> integrity_fact g ?i p)"
    "adds e (check_provenance g e p)
       (0 < pr_minimal_provenance_confidence ?pr \<longrightarrow>
        \<not> provenance_fact g ?i p < pr_minimal_provenance_confidence ?pr)"
    "adds e (check_completion g e p) (pr_required_completion_state ?pr \<noteq> [] \<longrightarrow>
       completion_fact g ?i p = pr_required_completion_state ?pr)"
    by (rule adds_if; auto simp: evidence_checks Let_def unmet_adds)+
  from adds_comp[OF adds_comp[OF adds_comp[OF adds_comp[OF adds_comp[OF c(1,2)] c(3)] c(4)] c(5)] c(6)]
  show ?thesis
    unfolding check_evidence_def evidence_ok_def Let_def provenance_le_iff conj_assoc .
qed

lemma eval_edge_adds: "adds e (\<lambda>acc. snd (eval_edge_locked g e acc)) (edge_satisfied g e)"
proof (cases "find_node g (ed_producer_id e)")
  case None
  then show ?thesis
    by (intro adds_if) (simp_all add: eval_edge_locked_alt edge_satisfied_def unmet_adds)
next
  case (Some p)
  from adds_comp[OF adds_comp[OF check_generation_adds check_readiness_adds] check_evidence_adds]
  show ?thesis using Some by (simp add: eval_edge_locked_alt edge_satisfied_def)
qed

lemma eval_edge_blockers:
  obtains bs where "ea_blockers (snd (eval_edge_locked g e empty_acc)) = bs"
    "bs = [] \<longleftrightarrow> edge_satisfied g e" "list_all (about_edge e) bs"
proof -
  from eval_edge_adds[of e g] obtain bs where
    "ea_blockers (snd (eval_edge_locked g e empty_acc)) = ea_blockers empty_acc @ bs"
    "bs = [] \<longleftrightarrow> edge_satisfied g e" "list_all (about_edge e) bs"
    unfolding adds_def by blast
  with that show thesis by (simp add: empty_acc_def)
qed

section \<open>What an explanation says\<close>

text \<open>A required edge that holds the node back: it blocks it, or its lineage is stale.\<close>

definition holds_back :: "graph \<Rightarrow> edge \<Rightarrow> bool" where
  "holds_back g e \<longleftrightarrow> edge_required e \<and> (edge_hard g e \<or> edge_stale g e)"

lemma eval_edge_empty_flags:
  "ea_blocked (snd (eval_edge_locked g e empty_acc)) = edge_hard g e"
  "ea_stale (snd (eval_edge_locked g e empty_acc)) = edge_stale g e"
  by (simp_all add: eval_edge_flags empty_acc_def)

lemma edge_blockers_mem:
  "b \<in> set (edge_blockers g ms eids) \<longleftrightarrow>
     (\<exists>i e. (i, e) \<in> set (active_edges g eids) \<and> i \<notin> set ms \<and> (edge_hard g e \<or> edge_stale g e) \<and>
        b \<in> set (ea_blockers (snd (eval_edge_locked g e empty_acc))) \<and> \<not> bd_optional b)"
  by (induction eids)
    (auto simp: edge_blockers_def Let_def eval_edge_empty_flags split: option.split)

lemma edge_blockers_sound:
  assumes "b \<in> set (edge_blockers g ms eids)"
  shows "\<exists>i e. (i, e) \<in> set (active_edges g eids) \<and> i \<notin> set ms \<and> holds_back g e \<and> about_edge e b"
proof -
  obtain i e where e: "(i, e) \<in> set (active_edges g eids)" "i \<notin> set ms" "edge_hard g e \<or> edge_stale g e"
    "b \<in> set (ea_blockers (snd (eval_edge_locked g e empty_acc)))" "\<not> bd_optional b"
    using assms unfolding edge_blockers_mem by blast
  obtain bs where "ea_blockers (snd (eval_edge_locked g e empty_acc)) = bs" "list_all (about_edge e) bs"
    by (rule eval_edge_blockers)
  with e(4) have "about_edge e b" by (simp add: list_all_iff)
  moreover from this e(3,5) have "holds_back g e" by (auto simp: holds_back_def about_edge_def)
  ultimately show ?thesis using e by blast
qed

lemma edge_blockers_complete:
  assumes "(i, e) \<in> set (active_edges g eids)" "i \<notin> set ms" "holds_back g e"
  shows "\<exists>b \<in> set (edge_blockers g ms eids). about_edge e b"
proof -
  obtain bs where bs: "ea_blockers (snd (eval_edge_locked g e empty_acc)) = bs"
    "bs = [] \<longleftrightarrow> edge_satisfied g e" "list_all (about_edge e) bs"
    by (rule eval_edge_blockers)
  have "\<not> edge_satisfied g e" using assms(3) by (auto simp: holds_back_def edge_satisfied_iff)
  with bs(2) obtain b where b: "b \<in> set bs" by (cases bs) auto
  with bs(3) have a: "about_edge e b" by (simp add: list_all_iff)
  moreover have "b \<in> set (edge_blockers g ms eids)"
    unfolding edge_blockers_mem
    using assms a b bs(1) by (auto simp: holds_back_def about_edge_def)
  ultimately show ?thesis by blast
qed

lemma set_blockers_ok:
  "list_all set_in_range ss \<Longrightarrow> list_all (set_ok g) ss \<Longrightarrow>
   ss = List.map_filter (\<lambda>sid. case find_set g sid of None \<Rightarrow> None
        | Some s \<Rightarrow> if ds_active s then Some s else None) sids \<Longrightarrow>
   set_blockers g sids = []"
proof (induction sids arbitrary: ss)
  case (Cons sid sids)
  show ?case
  proof (cases "find_set g sid")
    case None
    with Cons show ?thesis by (simp add: set_blockers_def List.map_filter_simps)
  next
    case (Some s)
    with Cons show ?thesis
      by (cases "ds_active s")
        (auto simp: set_blockers_def List.map_filter_simps Let_def eval_set_flags(1) empty_acc_def)
  qed
qed (simp add: set_blockers_def)

text \<open>A settled READY node has nothing that holds it back, and the explanation lists nothing.\<close>

lemma ready_unblocked:
  assumes st: "settled g i" and n: "find_node g i = Some n" and r: "nd_state n = RS_READY"
    and range: "sets_in_range g i"
  shows "set_blockers g (ix_at i (gr_node_sets g)) = []"
    "set (set_members g i) \<subseteq> set ms \<Longrightarrow> edge_blockers g ms (ix_at i (gr_in_edges g)) = []"
proof -
  note ready = settled_ready[OF st n r range]
  show "set_blockers g (ix_at i (gr_node_sets g)) = []"
    by (rule set_blockers_ok[OF _ ready(3) active_sets_def]) (use range in \<open>simp add: sets_in_range_def\<close>)
  assume ms: "set (set_members g i) \<subseteq> set ms"
  show "edge_blockers g ms (ix_at i (gr_in_edges g)) = []"
  proof (rule ccontr)
    assume "edge_blockers g ms (ix_at i (gr_in_edges g)) \<noteq> []"
    then obtain b where "b \<in> set (edge_blockers g ms (ix_at i (gr_in_edges g)))"
      by (metis list.set_sel(1))
    from edge_blockers_sound[OF this] ms obtain j e where
      "(j, e) \<in> set (in_active g i)" "j \<notin> set (set_members g i)" and h: "holds_back g e"
      by (auto simp: in_active_def)
    then have "e \<in> set (implicit_edges g i)" by (force simp: implicit_edges_def)
    with ready(2) have "edge_satisfied g e" by (simp add: list_all_iff)
    with h show False by (auto simp: holds_back_def edge_satisfied_iff)
  qed
qed

lemma ready_explained:
  assumes "settled g i" and "find_node g i = Some n" and "nd_state n = RS_READY" and "sets_in_range g i"
  shows "ex_blockers (explain g i) = []"
  using ready_unblocked[OF assms] assms(2) by (simp add: explain_def)

lemma ready_no_blockers:
  assumes "settled g i" and "find_node g i = Some n" and "nd_state n = RS_READY" and "sets_in_range g i"
  shows "blockers g i = []"
proof -
  have "set (set_members g i) \<subseteq> set (listed_members g (ix_at i (gr_node_sets g)))"
    by (auto simp: set_members_def active_sets_def listed_members_def List.map_filter_def
        split: option.splits if_splits)
  then show ?thesis using ready_unblocked[OF assms] assms(2) by (simp add: blockers_def)
qed

text \<open>Every required in-edge outside the sets that holds the node back is named.\<close>

lemma explain_complete:
  assumes n: "find_node g i = Some n" and e: "e \<in> set (implicit_edges g i)" "holds_back g e"
  shows "\<exists>b \<in> set (ex_blockers (explain g i)). about_edge e b"
proof -
  obtain j where "(j, e) \<in> set (active_edges g (ix_at i (gr_in_edges g)))" "j \<notin> set (set_members g i)"
    using e(1) by (auto simp: implicit_edges_def in_active_def)
  from edge_blockers_complete[OF this e(2)] show ?thesis using n by (auto simp: explain_def)
qed

end
