(* ===== verification/Runs.thy ===== *)
theory Runs
  imports Mutations Recovery Explain
begin

text \<open>
  Executions of the runtime. Every public mutation holds the exclusive lock for its whole body,
  so concurrent callers are an interleaving of whole operations: the step relation
  \<open>fabric_step\<close>. Requests of stale callers are refused and leave no trace; \<open>core_inv\<close> and the
  authority facts hold in every reachable graph; the graphs reached without re-activating edges
  and without inactive new edges are acyclic and exactly indexed.
\<close>

section \<open>Requests\<close>

record credentials =
  cr_source :: source_id
  cr_boot :: source_boot_id
  cr_epoch :: coordinator_epoch

type_synonym request = "credentials \<times> command"

definition submit :: "request \<Rightarrow> graph \<Rightarrow> (outcome \<times> graph) option" where
  "submit rq g = perform (snd rq) (cr_source (fst rq)) (cr_boot (fst rq)) (cr_epoch (fst rq)) g"

definition authorised :: "request \<Rightarrow> graph \<Rightarrow> bool" where
  "authorised rq g \<longleftrightarrow>
     authority_ok g (cr_source (fst rq)) (cr_boot (fst rq)) (cr_epoch (fst rq)) = None"

lemma structural_authority:
  "structural c g g' \<Longrightarrow> gr_sources g' = gr_sources g \<and> gr_epoch g' = gr_epoch g"
  by (induction rule: structural.induct)
    (simp_all add: content_sources content_epoch insert_edge_def delete_edge_def switch_edge_def Let_def)

lemma structural_content_authority:
  "structural c g g1 \<Longrightarrow> content_only g1 g' \<Longrightarrow> gr_sources g' = gr_sources g \<and> gr_epoch g' = gr_epoch g"
  using structural_authority content_sources content_epoch by metis

lemma perform_authority:
  assumes "perform c s b e g = Some (r, g')"
  shows "gr_sources g' = gr_sources g" "gr_epoch g' = gr_epoch g"
  using assms by (cases rule: perform_cases; simp add: structural_content_authority)+

lemma authority_ok_cong:
  "gr_sources g' = gr_sources g \<Longrightarrow> gr_epoch g' = gr_epoch g \<Longrightarrow>
   authority_ok g' s b e = authority_ok g s b e"
  by (simp only: authority_ok_def)

lemma perform_core_inv:
  assumes "perform c s b e g = Some (r, g')" and "core_inv g"
  shows "core_inv g'"
  using assms(1)
proof (cases rule: perform_cases)
  case (accepted g1)
  then show ?thesis using assms(2) by (meson core_inv_structural content_only_core_inv)
qed (use assms(2) in simp)

lemma perform_returns:
  assumes "core_inv g"
  shows "perform c s b e g \<noteq> None"
proof (cases c)
  case (AddEdge x)
  have "find_edge g i \<noteq> None" if "i \<in> set (out_at g v)" for i v
    using assms that unfolding core_inv_def index_sound_def by blast
  then have "equivalent_edge g x (out_at g (ed_producer_id x)) \<noteq> None"
    by (intro equivalent_edge_defined) blast
  then show ?thesis
    by (auto simp: AddEdge add_edge_def split: option.split bool.split)
qed simp_all

interpretation requests: guarded_operations submit authorised OC_ACCEPTED core_inv
proof
  fix rq rq' :: request and g g' :: graph and r :: outcome
  show "\<exists>r. r \<noteq> OC_ACCEPTED \<and> submit rq g = Some (r, g)" if "\<not> authorised rq g"
    using that perform_rejected authority_ok_refuses by (fastforce simp: authorised_def submit_def)
  assume s: "submit rq g = Some (r, g')"
  show "g' = g" if "r \<noteq> OC_ACCEPTED"
    using s that unfolding submit_def by (cases rule: perform_cases) auto
  show "core_inv g'" if "core_inv g" using s that perform_core_inv by (auto simp: submit_def)
  show "authorised rq' g' = authorised rq' g"
    using s unfolding submit_def authorised_def by (metis perform_authority authority_ok_cong)
next
  show "core_inv g \<Longrightarrow> submit rq g \<noteq> None" for rq g by (simp add: submit_def perform_returns)
qed

section \<open>Steps\<close>

inductive fabric_step :: "(graph \<Rightarrow> command \<Rightarrow> bool) \<Rightarrow> iteration \<Rightarrow> graph \<Rightarrow> graph \<Rightarrow> bool"
  for P it where
  fs_request: "P g (snd rq) \<Longrightarrow> submit rq g = Some (r, g') \<Longrightarrow> fabric_step P it g g'"
| fs_register: "register_source s b e g = (r, g') \<Longrightarrow> fabric_step P it g g'"
| fs_advance: "advance_epoch e g = (r, g') \<Longrightarrow> fabric_step P it g g'"
| fs_recompute: "recompute_readiness i g = (r, g') \<Longrightarrow> fabric_step P it g g'"
| fs_recompute_all: "recompute_all_readiness it g = Some (r, g') \<Longrightarrow> fabric_step P it g g'"
| fs_adapter: "set_adapter it a g = Some g' \<Longrightarrow> fabric_step P it g g'"

inductive reachable :: "(graph \<Rightarrow> command \<Rightarrow> bool) \<Rightarrow> iteration \<Rightarrow> graph \<Rightarrow> bool"
  for P it where
  re_start: "reachable P it empty_graph"
| re_step: "reachable P it g \<Longrightarrow> fabric_step P it g g' \<Longrightarrow> reachable P it g'"

text \<open>A step is a structural change, a change of authority, or a change of contents.\<close>

lemma recompute_all_form: "recompute_all_locked it g = Some g' \<Longrightarrow> \<exists>is. g' = recompute_nodes is g"
  by (auto simp: recompute_all_locked_def Let_def split: option.splits)

lemma content_only_node [simp]: "content_only g (snd (recompute_node_locked g i))"
  by (simp add: content_only_def durable_id[OF recompute_durable])

lemma content_only_nodes [simp]: "content_only g (recompute_nodes is g)"
  by (simp add: content_only_def durable_id[OF recompute_nodes_durable])

definition authority_change :: "graph \<Rightarrow> graph \<Rightarrow> bool" where
  "authority_change g g' \<longleftrightarrow> (\<exists>s b e. g' = snd (register_source s b e g)) \<or> (\<exists>e. g' = snd (advance_epoch e g))"

lemma fabric_step_cases:
  assumes "fabric_step P it g g'"
  obtains (struct) c g1 where "P g c" "structural c g g1" "content_only g1 g'"
    | (auth) "authority_change g g'"
    | (content) a where "content_only (g\<lparr>gr_adapter := a\<rparr>) g'"
  using assms
proof cases
  case (fs_request rq r)
  from fs_request(2)[unfolded submit_def] show thesis
  proof (cases rule: perform_cases)
    case refused
    then show thesis using content[of "gr_adapter g"] by simp
  next
    case (accepted g1)
    then show thesis using struct fs_request(1) by blast
  qed
next
  case (fs_register s b e r)
  then have "g' = snd (register_source s b e g)" by simp
  then show thesis using auth unfolding authority_change_def by blast
next
  case (fs_advance e r)
  then have "g' = snd (advance_epoch e g)" by simp
  then show thesis using auth unfolding authority_change_def by blast
next
  case (fs_recompute i r)
  then have "g' = snd (recompute_node_locked g i)" by (simp add: recompute_readiness_def)
  then show thesis using content[of "gr_adapter g"] by simp
next
  case (fs_recompute_all r)
  then have "recompute_all_locked it g = Some g'" by (auto simp: recompute_all_readiness_def)
  then obtain "is" where "g' = recompute_nodes is g" using recompute_all_form by blast
  then show thesis using content[of "gr_adapter g"] by simp
next
  case (fs_adapter a)
  then have "recompute_all_locked it (g\<lparr>gr_adapter := a\<rparr>) = Some g'" by (simp add: set_adapter_def)
  then obtain "is" where "g' = recompute_nodes is (g\<lparr>gr_adapter := a\<rparr>)"
    using recompute_all_form by blast
  then show thesis using content[of a] by simp
qed

text \<open>An authority change touches the sources and the epoch only.\<close>

lemma authority_change_frame:
  assumes "authority_change g g'"
  shows "gr_nodes g' = gr_nodes g" "gr_edges g' = gr_edges g" "gr_sets g' = gr_sets g"
    "gr_out_edges g' = gr_out_edges g" "gr_in_edges g' = gr_in_edges g"
    "gr_node_sets g' = gr_node_sets g" "um_wf (gr_sources g) \<Longrightarrow> um_wf (gr_sources g')"
  using assms
  by (auto simp: authority_change_def register_source_def advance_epoch_def split: option.splits)

lemma same_structure_adapter [simp]: "same_structure g (g\<lparr>gr_adapter := a\<rparr>)"
  by (simp add: same_structure_def)

lemma authority_change_structure: "authority_change g g' \<Longrightarrow> same_structure g g'"
  by (simp add: same_structure_def authority_change_frame)

section \<open>Invariants of every reachable graph\<close>

lemma core_inv_step:
  assumes "fabric_step P it g g'" and "core_inv g"
  shows "core_inv g'"
  using assms(1)
proof (cases rule: fabric_step_cases)
  case (struct c g1)
  then show ?thesis using assms(2) by (meson core_inv_structural content_only_core_inv)
next
  case auth
  then show ?thesis
    using assms(2) authority_change_frame[OF auth]
    by (simp add: core_inv_def graph_wf_def index_sound_def keys_ok_def set_index_ok_def)
next
  case (content a)
  have "core_inv (g\<lparr>gr_adapter := a\<rparr>)"
    using assms(2) by (simp add: core_inv_def graph_wf_def index_sound_def keys_ok_def set_index_ok_def)
  then show ?thesis by (rule content_only_core_inv[OF content])
qed

lemma reachable_core_inv: "reachable P it g \<Longrightarrow> core_inv g"
  by (induction rule: reachable.induct) (auto intro: core_inv_empty core_inv_step)

text \<open>The authority state: valid epoch, registrations keyed by source and not from the future.\<close>

definition authority_inv :: "graph \<Rightarrow> bool" where
  "authority_inv g \<longleftrightarrow> valid (gr_epoch g) \<and>
     (\<forall>s r. um_find s (gr_sources g) = Some r \<longrightarrow> sr_source r = s \<and> sr_epoch r \<le> gr_epoch g)"

lemma register_inv: "authority_inv g \<Longrightarrow> authority_inv (snd (register_source s b e g))"
  by (auto simp: authority_inv_def register_source_def split: option.split)

lemma advance_inv: "authority_inv g \<Longrightarrow> authority_inv (snd (advance_epoch e g))"
  by (fastforce simp: authority_inv_def advance_epoch_def less_eq_strong_def)

lemma authority_inv_cong:
  "gr_sources g' = gr_sources g \<Longrightarrow> gr_epoch g' = gr_epoch g \<Longrightarrow> authority_inv g' = authority_inv g"
  by (simp add: authority_inv_def)

lemma step_authority_inv:
  assumes "fabric_step P it g g'" and "authority_inv g"
  shows "authority_inv g'"
  using assms(1)
proof (cases rule: fabric_step_cases)
  case (struct c g1)
  then have "gr_sources g' = gr_sources g \<and> gr_epoch g' = gr_epoch g"
    by (simp add: structural_content_authority)
  then show ?thesis using assms(2) authority_inv_cong[of g' g] by simp
next
  case auth
  then show ?thesis using assms(2) by (auto simp: authority_change_def intro: register_inv advance_inv)
next
  case (content a)
  then show ?thesis
    using assms(2) content_sources[OF content] content_epoch[OF content] by (simp add: authority_inv_def)
qed

lemma authority_inv_empty: "authority_inv empty_graph"
  by (simp add: authority_inv_def empty_graph_def)

lemma reachable_authority_inv: "reachable P it g \<Longrightarrow> authority_inv g"
  by (induction rule: reachable.induct) (auto intro: authority_inv_empty step_authority_inv)

lemma step_epoch_mono:
  assumes "fabric_step P it g g'"
  shows "gr_epoch g \<le> gr_epoch g'"
  using assms
proof (cases rule: fabric_step_cases)
  case (struct c g1)
  then have "gr_epoch g' = gr_epoch g" using structural_content_authority by blast
  then show ?thesis by simp
next
  case auth
  then show ?thesis
    by (auto simp: authority_change_def register_source_def advance_epoch_def less_eq_strong_def
        split: option.split)
next
  case (content a)
  then show ?thesis using content_epoch[OF content] by simp
qed

section \<open>Clean executions\<close>

text \<open>
  A clean command does not re-activate an edge, adds edges in the active state, and does not give
  a new edge an id that a dependency set still lists.
\<close>

definition clean :: "graph \<Rightarrow> command \<Rightarrow> bool" where
  "clean g c \<longleftrightarrow>
     (case c of
        SetEdgeActive i a \<Rightarrow> \<not> a
      | AddEdge e \<Rightarrow> ed_active e \<and> unlisted g (ed_id e)
      | _ \<Rightarrow> True)"

definition clean_inv :: "graph \<Rightarrow> bool" where
  "clean_inv g \<longleftrightarrow> core_inv g \<and> index_exact g \<and> acyclic_graph g \<and> sets_local g"

lemma clean_inv_empty: "clean_inv empty_graph"
  by (simp add: clean_inv_def core_inv_empty)
    (simp add: index_exact_def acyclic_graph_def dep_rel_def sets_local_def empty_graph_def acyclic_def)

lemma clean_inv_same:
  assumes "same_structure g g'" and "clean_inv g" and "core_inv g'"
  shows "clean_inv g'"
  using assms by (simp add: clean_inv_def same_structure_exact same_structure_dep_rel acyclic_graph_def)
    (simp add: sets_local_def same_structure_def)

lemma clean_inv_step:
  assumes step: "fabric_step clean it g g'" and inv: "clean_inv g"
  shows "clean_inv g'"
proof -
  have core: "core_inv g'" using core_inv_step[OF step] inv by (simp add: clean_inv_def)
  from step show ?thesis
  proof (cases rule: fabric_step_cases)
    case (struct c g1)
    have "clean_inv g1"
      unfolding clean_inv_def
    proof (intro conjI)
      show "core_inv g1" using core_inv_structural[OF struct(2)] inv by (simp add: clean_inv_def)
      show "index_exact g1"
        by (rule index_exact_structural[OF struct(2)]) (use inv struct(1) in \<open>auto simp: clean_inv_def clean_def\<close>)
      show "acyclic_graph g1"
        by (rule acyclic_structural[OF struct(2)])
          (use inv struct(1) in \<open>auto simp: clean_inv_def core_inv_def clean_def\<close>)
      show "sets_local g1"
        by (rule sets_local_structural[OF struct(2)]) (use inv struct(1) in \<open>auto simp: clean_inv_def clean_def\<close>)
    qed
    then show ?thesis by (rule clean_inv_same[OF content_structure[OF struct(3)] _ core])
  next
    case auth
    show ?thesis by (rule clean_inv_same[OF authority_change_structure[OF auth] inv core])
  next
    case (content a)
    have "same_structure g g'"
      by (rule same_structure_trans[OF same_structure_adapter content_structure[OF content]])
    then show ?thesis by (rule clean_inv_same[OF _ inv core])
  qed
qed

lemma reachable_clean: "reachable clean it g \<Longrightarrow> clean_inv g"
  by (induction rule: reachable.induct) (auto intro: clean_inv_empty clean_inv_step)

text \<open>Only re-activation can introduce a cycle.\<close>

definition no_reactivation :: "graph \<Rightarrow> command \<Rightarrow> bool" where
  "no_reactivation g c \<longleftrightarrow> (\<forall>i. c \<noteq> SetEdgeActive i True)"

lemma acyclic_step:
  assumes step: "fabric_step no_reactivation it g g'" and core: "core_inv g" and ac: "acyclic_graph g"
  shows "acyclic_graph g'"
  using step
proof (cases rule: fabric_step_cases)
  case (struct c g1)
  have "acyclic_graph g1"
    by (rule acyclic_structural[OF struct(2)])
      (use core ac struct(1) in \<open>auto simp: core_inv_def no_reactivation_def\<close>)
  then show ?thesis by (simp add: acyclic_graph_def same_structure_dep_rel[OF content_structure[OF struct(3)]])
next
  case auth
  show ?thesis using ac by (simp add: acyclic_graph_def same_structure_dep_rel[OF authority_change_structure[OF auth]])
next
  case (content a)
  have "same_structure g g'"
    by (rule same_structure_trans[OF same_structure_adapter content_structure[OF content]])
  then show ?thesis using ac by (simp add: acyclic_graph_def same_structure_dep_rel)
qed

lemma reachable_acyclic: "reachable no_reactivation it g \<Longrightarrow> acyclic_graph g"
proof (induction rule: reachable.induct)
  case re_start
  show ?case using clean_inv_empty by (simp add: clean_inv_def)
next
  case (re_step g g')
  then show ?case by (auto intro: acyclic_step reachable_core_inv)
qed

lemma clean_recomputes:
  assumes "clean_inv g" and "iteration_ok it"
  obtains g' where "recompute_all_locked it g = Some g'" "\<forall>i. settled g' i" "same_frame g g'"
    "\<And>j. map_option durable (find_node g' j) = map_option durable (find_node g j)"
proof -
  have ml: "members_local g" using assms(1) by (simp add: clean_inv_def core_inv_def sets_local_members)
  show thesis
    by (rule recompute_all_settles[of g it]) (use assms ml that in \<open>auto simp: clean_inv_def core_inv_def\<close>)
qed

end
