(* ===== verification/Transparency.thy ===== *)
theory Transparency
  imports Runs
begin

text \<open>
  What the readiness states are worth. Except for the states a caller puts a node into and that no
  recomputation leaves (escape states and INVALIDATED), the state and the readiness counter of a node
  are derived data: \<open>alike\<close> relates two graphs that agree on everything else. Every operation keeps
  \<open>alike\<close> and answers alike graphs the same way, and two alike acyclic graphs that are settled have the
  same states. The first makes recomputations transparent, the second makes their result unique.
\<close>

section \<open>Alike graphs\<close>

definition essence :: "node \<Rightarrow> node" where
  "essence n = (durable n)\<lparr>nd_state :=
     (if escape_state (nd_state n) \<or> nd_state n = RS_INVALIDATED then nd_state n else RS_UNKNOWN)\<rparr>"

definition alike :: "graph \<Rightarrow> graph \<Rightarrow> bool" where
  "alike g h \<longleftrightarrow> same_lookups g h \<and> (\<forall>i. ix_at i (gr_out_edges h) = ix_at i (gr_out_edges g)) \<and>
     (\<forall>i. um_find i (gr_sources h) = um_find i (gr_sources g)) \<and> gr_epoch h = gr_epoch g \<and>
     um_size (gr_nodes h) = um_size (gr_nodes g) \<and> mset (gr_edges h) = mset (gr_edges g) \<and>
     (\<forall>i. map_option essence (find_node h i) = map_option essence (find_node g i))"

lemma alike_refl [simp]: "alike g g"
  by (simp add: alike_def same_lookups_def)

lemma alike_sym: "alike g h \<Longrightarrow> alike h g"
  by (simp add: alike_def same_lookups_def)

lemma alike_trans: "alike g h \<Longrightarrow> alike h k \<Longrightarrow> alike g k"
  by (simp add: alike_def same_lookups_def)

lemma alike_lookups:
  assumes "alike g h"
  shows "find_edge h j = find_edge g j" "find_set h k = find_set g k"
    "um_find s (gr_sources h) = um_find s (gr_sources g)" "gr_epoch h = gr_epoch g"
    "gr_adapter h = gr_adapter g"
    "out_at h i = out_at g i" "in_at h i = in_at g i"
    "ix_at i (gr_node_sets h) = ix_at i (gr_node_sets g)"
  using assms by (simp_all add: alike_def same_lookups_def)

lemma alike_same_lookups: "alike g h \<Longrightarrow> same_lookups g h"
  by (simp add: alike_def)

lemma alike_none: "alike g h \<Longrightarrow> find_node h i = None \<longleftrightarrow> find_node g i = None"
  unfolding alike_def by (metis option.map_disc_iff)

lemma alike_some:
  assumes "alike g h" and "find_node g i = Some n"
  obtains m where "find_node h i = Some m" "essence m = essence n"
proof -
  have "map_option essence (find_node h i) = Some (essence n)" using assms by (simp add: alike_def)
  then show thesis using that by auto
qed

text \<open>All fields but the state and the readiness counter.\<close>

lemma durable_eq_iff:
  "durable m = durable n \<longleftrightarrow>
     m = n\<lparr>nd_state := nd_state m, nd_readiness_generation := nd_readiness_generation m\<rparr>"
  by (cases m; cases n) (auto simp: durable_def)

lemma essence_iff:
  "essence m = essence n \<longleftrightarrow> durable m = durable n \<and>
     (nd_state m = nd_state n \<or>
      \<not> (escape_state (nd_state m) \<or> nd_state m = RS_INVALIDATED) \<and>
      \<not> (escape_state (nd_state n) \<or> nd_state n = RS_INVALIDATED))"
  by (cases m; cases n; auto simp: essence_def durable_def escape_state_def)

lemma essence_update:
  assumes "essence m = essence n"
    and "\<And>s w. durable (f (n\<lparr>nd_state := s, nd_readiness_generation := w\<rparr>)) = durable (f n)"
    and "nd_state (f m) = nd_state (f n) \<or> nd_state (f m) = nd_state m \<and> nd_state (f n) = nd_state n"
  shows "essence (f m) = essence (f n)"
proof -
  have "durable (f m) = durable (f n)"
    using assms(1,2) by (metis essence_iff durable_eq_iff)
  then show ?thesis using assms(1,3) by (auto simp: essence_iff)
qed

lemma facts_agree:
  assumes "durable m = durable n"
  shows "nd_id m = nd_id n" "nd_kind m = nd_kind n"
    "nd_generation_history m = nd_generation_history n"
    "nd_superseded_generations m = nd_superseded_generations n"
    "nd_current_generation m = nd_current_generation n"
    "nd_dynamic_evidence m = nd_dynamic_evidence n"
    "nd_recovered_evidence m = nd_recovered_evidence n"
  using assms by (cases m; cases n; simp add: durable_def)+

lemma alike_put:
  assumes "alike g h" and "essence m = essence n"
  shows "alike (put_node i n g) (put_node i m h)"
proof -
  have "um_size (um_put i m (gr_nodes h)) = um_size (um_put i n (gr_nodes g))"
    using assms(1) alike_none[OF assms(1), of i]
    by (cases "find_node g i"; cases "find_node h i") (simp_all add: alike_def)
  with assms show ?thesis by (auto simp: alike_def same_lookups_def)
qed

section \<open>Recomputations change nothing else\<close>

lemma essence_recomputed: "essence (recomputed_node g i n) = essence n"
  using derived_not_escape[of n "eval_node g i"]
  by (auto simp: essence_iff recomputed_node_def recomputed_state_def touch_def escape_state_def
      durable_def)

lemma recompute_size: "um_size (gr_nodes (snd (recompute_node_locked g i))) = um_size (gr_nodes g)"
  by (simp add: um_size_keys)

lemma alike_node: "alike g (snd (recompute_node_locked g i))"
  by (auto simp: alike_def same_lookups_def recompute_find recompute_size essence_recomputed option.map_comp
      intro!: option.map_cong)

lemma alike_nodes: "alike g (recompute_nodes is g)"
proof (induction "is" arbitrary: g)
  case (Cons i "is")
  from alike_trans[OF alike_node Cons.IH] show ?case by simp
qed simp

lemma alike_closure: "alike g (recompute_closure_locked roots g)"
  by (simp add: recompute_closure_alt alike_nodes)

lemma alike_all: "recompute_all_locked it g = Some g' \<Longrightarrow> alike g g'"
  using recompute_all_form alike_nodes by blast

lemma alike_closures:
  "alike g h \<Longrightarrow> alike (recompute_closure_locked rs g) (recompute_closure_locked rs' h)"
  using alike_closure alike_sym alike_trans by meson


section \<open>What mutations look at\<close>

lemma alike_active:
  assumes "alike g h"
  shows "active_edges h is = active_edges g is" "out_active h i = out_active g i"
    "succs h = succs g" "out_via t h = out_via t g"
  using same_lookups_active(1)[OF alike_same_lookups[OF assms]]
  by (simp_all add: fun_eq_iff out_active_def succs_def out_via_def alike_lookups[OF assms])

lemma alike_authority: "alike g h \<Longrightarrow> authority_ok h s b e = authority_ok g s b e"
  by (simp only: authority_ok_def alike_lookups)

lemma alike_cycle: "alike g h \<Longrightarrow> would_create_cycle_locked h p c = would_create_cycle_locked g p c"
  by (simp add: would_create_cycle_locked_def cycle_search_def alike_active)

lemma alike_equivalent: "alike g h \<Longrightarrow> equivalent_edge h x eids = equivalent_edge g x eids"
  by (induction eids) (simp_all add: alike_lookups split: option.split)

lemma alike_members: "alike g h \<Longrightarrow> check_members h i ms = check_members g i ms"
  by (induction ms) (simp_all add: alike_lookups split: option.split)

lemma alike_sizes:
  assumes "alike g h"
  shows "um_size (gr_nodes h) = um_size (gr_nodes g)" "um_size (gr_edges h) = um_size (gr_edges g)"
  using assms mset_eq_length unfolding alike_def um_size_def by blast+

text \<open>The entries of a map after an update and an erasure.\<close>

lemma mset_um_put:
  "mset (um_put k v m) =
     (case um_find k m of None \<Rightarrow> add_mset (k, v) (mset m)
      | Some w \<Rightarrow> add_mset (k, v) (mset m - {#(k, w)#}))"
  by (induction m) (auto split: option.split)

lemma mset_um_erase: "mset (um_erase k m) = filter_mset (\<lambda>p. fst p \<noteq> k) (mset m)"
  by (auto simp: um_erase_def AList.delete_eq split_beta intro: filter_mset_cong)

text \<open>What a marking search marks does not depend on what it marks: the ids are found by the queue.\<close>

context marking_search
begin

lemma scan_uniform:
  assumes "\<And>a. \<not> s_stop S a"
  shows "\<exists>q' vis' ks. \<forall>a. search_scan S cs (q, vis, a) = (q', vis', fold mark ks a)"
proof (induction cs arbitrary: q vis)
  case Nil
  have "\<forall>a. search_scan S [] (q, vis, a) = (q, vis, fold mark [] a)" by simp
  then show ?case by blast
next
  case (Cons c cs)
  show ?case
  proof (cases "s_key S c \<in> vis")
    case True
    then show ?thesis using Cons.IH[of q vis] by (simp add: assms note_marks)
  next
    case False
    obtain q' vis' ks where ks:
      "\<forall>a. search_scan S cs (q @ s_item S c, insert (s_key S c) vis, a) = (q', vis', fold mark ks a)"
      using Cons.IH by blast
    have "search_scan S (c # cs) (q, vis, a) = (q', vis', fold mark (s_key S c # ks) a)" for a
      using False ks by (simp add: assms note_marks)
    then show ?thesis by blast
  qed
qed

lemma search_uniform:
  assumes "\<And>a. \<not> s_stop S a"
  shows "\<exists>ks. \<forall>a. search_result S (q, vis, a) = fold mark ks a"
proof (induction "card (U - vis) + length q" arbitrary: q vis rule: less_induct)
  case less
  show ?case
  proof (cases q)
    case Nil
    have "search_result S (q, vis, a) = fold mark [] a" for a
      by (simp add: Nil search_result_def search_unfold[of S] search_running_def)
    then show ?thesis by blast
  next
    case (Cons i r)
    have run: "search_running S (i # r, vis, a)" for a by (simp add: search_running_def assms)
    obtain q' vis' ks where scan:
      "\<forall>a. search_scan S (s_expand S i) (r, vis, a) = (q', vis', fold mark ks a)"
      using scan_uniform[OF assms] by blast
    then have step: "search_step S (i # r, vis, a) = (q', vis', fold mark ks a)" for a
      by (simp add: pop_ignores)
    have "card (U - vis') + length q' < card (U - vis) + length q"
      using work_step[OF run[of undefined]] unfolding step by (simp add: Cons)
    then obtain ks' where "\<forall>a. search_result S (q', vis', a) = fold mark ks' a"
      using less.hyps by blast
    then have "search_result S (q, vis, a) = fold mark (ks @ ks') a" for a
      unfolding Cons search_result_def
      by (subst search_unfold) (simp add: run step[unfolded search_step.simps] search_result_def)
    then show ?thesis by blast
  qed
qed

end

lemma alike_propagate_search:
  "alike g h \<Longrightarrow> propagate_search h policy reason = propagate_search g policy reason"
  by (simp add: propagate_search_def propagate_expand_def fun_eq_iff alike_active)

lemma essence_marked: "essence m = essence n \<Longrightarrow> essence (mark_invalidated r m) = essence (mark_invalidated r n)"
  by (rule essence_update) (simp_all add: durable_def mark_invalidated_def)

lemma alike_mark:
  assumes "alike g h"
  shows "alike (mark_node_invalidated r i g) (mark_node_invalidated r i h)"
proof (cases "find_node g i")
  case None
  then have "find_node h i = None" by (simp add: alike_none[OF assms])
  with None show ?thesis using assms by (simp add: mark_node_invalidated_def)
next
  case (Some n)
  obtain m where "find_node h i = Some m" "essence m = essence n" by (rule alike_some[OF assms Some])
  with Some show ?thesis
    by (simp add: mark_node_invalidated_def alike_put[OF assms essence_marked])
qed

lemma alike_marks:
  "alike g h \<Longrightarrow> alike (fold (mark_node_invalidated r) ks g) (fold (mark_node_invalidated r) ks h)"
  by (induction ks arbitrary: g h) (simp_all add: alike_mark)

lemma alike_propagate:
  assumes "alike g h"
  shows "alike (propagate_invalidation_locked i p r d g) (propagate_invalidation_locked i p r d' h)"
proof -
  have "\<not> s_stop (propagate_search g p r) a" for a by (simp add: propagate_search_def)
  then obtain ks where "\<forall>a. search_result (propagate_search g p r) ([(i, 0)], {i}, a) =
      fold (mark_node_invalidated r) ks a"
    using propagate_walk.search_uniform by metis
  then show ?thesis
    by (simp add: propagate_invalidation_locked_def alike_propagate_search[OF assms] alike_marks[OF assms])
qed

lemma alike_seed:
  assumes "alike g h" and "essence m = essence n"
  shows "alike (invalidate_seed i n r p g) (invalidate_seed i m r p h)"
proof -
  have "essence (mark_invalidated r (m\<lparr>nd_state := RS_INVALIDATED\<rparr>)) =
      essence (mark_invalidated r (n\<lparr>nd_state := RS_INVALIDATED\<rparr>))"
    by (rule essence_update[OF assms(2)]) (simp_all add: durable_def mark_invalidated_def)
  from alike_put[OF assms(1) this] show ?thesis
    by (simp add: invalidate_seed_def Let_def alike_propagate)
qed

section \<open>Every mutation keeps graphs alike\<close>


definition agree :: "outcome \<times> graph \<Rightarrow> outcome \<times> graph \<Rightarrow> bool" where
  "agree x y \<longleftrightarrow> fst y = fst x \<and> alike (snd x) (snd y)"

lemma agree_pair [simp]: "agree (r, g) (r', h) \<longleftrightarrow> r' = r \<and> alike g h"
  by (auto simp: agree_def)

lemma agree_closure: "alike g h \<Longrightarrow>
    agree (r, recompute_closure_locked rs g) (r, recompute_closure_locked rs h)"
  by (simp add: alike_closures)

lemma agree_authority:
  assumes "alike g h" and "agree x y"
  shows "agree (case authority_ok g s b e of None \<Rightarrow> x | Some rej \<Rightarrow> (rej, g))
               (case authority_ok h s b e of None \<Rightarrow> y | Some rej \<Rightarrow> (rej, h))"
  using assms by (simp add: alike_authority split: option.split)

text \<open>The node of the other graph is the same up to its state and counter.\<close>

lemma agree_lookup:
  assumes "alike g h"
    and "\<And>n s w. essence (n\<lparr>nd_state := s, nd_readiness_generation := w\<rparr>) = essence n \<Longrightarrow>
           agree (f n) (f' (n\<lparr>nd_state := s, nd_readiness_generation := w\<rparr>))"
  shows "agree (case find_node g i of None \<Rightarrow> (r, g) | Some n \<Rightarrow> f n)
               (case find_node h i of None \<Rightarrow> (r, h) | Some m \<Rightarrow> f' m)"
proof (cases "find_node g i")
  case None
  then have "find_node h i = None" by (simp add: alike_none[OF assms(1)])
  with None show ?thesis using assms(1) by simp
next
  case (Some n)
  obtain m where m: "find_node h i = Some m" "essence m = essence n"
    by (rule alike_some[OF assms(1) Some])
  have "m = n\<lparr>nd_state := nd_state m, nd_readiness_generation := nd_readiness_generation m\<rparr>"
    using m(2) by (simp add: essence_iff durable_eq_iff)
  with assms(2) m(2) have "agree (f n) (f' m)" by metis
  with Some m(1) show ?thesis by simp
qed

lemmas node_ops = publish_generation_def supersede_generation_def set_node_evidence_def
  retire_node_def publish_readiness_def mark_stale_def mark_missing_def mark_recovered_def

lemma essence_of:
  "durable m = durable n \<Longrightarrow> nd_state m = nd_state n \<Longrightarrow> essence m = essence n"
  by (simp add: essence_iff)

lemma agree_generations:
  assumes "alike g h"
  shows "agree (publish_generation i gen s b e g) (publish_generation i gen s b e h)"
    and "agree (supersede_generation i old gen s b e g) (supersede_generation i old gen s b e h)"
  unfolding node_ops
  by (intro agree_authority agree_lookup assms;
      auto simp: has_generation_def highest_generation_def Let_def assms durable_def install_generation_def
      intro!: alike_closures alike_put essence_of)+

lemma agree_marks:
  assumes "alike g h"
  shows "agree (set_node_evidence i p s b e g) (set_node_evidence i p s b e h)"
    and "agree (retire_node i s b e g) (retire_node i s b e h)"
    and "agree (publish_readiness i st s b e g) (publish_readiness i st s b e h)"
    and "agree (mark_stale i s b e g) (mark_stale i s b e h)"
    and "agree (mark_missing i s b e g) (mark_missing i s b e h)"
    and "agree (mark_recovered i s b e g) (mark_recovered i s b e h)"
  unfolding node_ops
  by (intro agree_authority agree_lookup assms;
      auto simp: Let_def assms durable_def essence_iff apply_evidence_def
      intro!: alike_closures alike_put)+

lemma agree_invalidations:
  assumes "alike g h"
  shows "agree (invalidate_node i r p s b e g) (invalidate_node i r p s b e h)"
    and "agree (invalidate_generation i gen r p s b e g) (invalidate_generation i gen r p s b e h)"
  unfolding invalidate_node_def invalidate_generation_def
  by (intro agree_authority agree_lookup assms;
      auto simp: Let_def has_generation_def assms durable_def essence_iff
      intro!: alike_closures alike_seed alike_put)+

lemma alike_insert_edge: "alike g h \<Longrightarrow> alike (insert_edge x g) (insert_edge x h)"
  by (simp add: alike_def same_lookups_def insert_edge_def mset_um_put split: option.split)

lemma alike_delete_edge: "alike g h \<Longrightarrow> alike (delete_edge i x g) (delete_edge i x h)"
  by (simp add: alike_def same_lookups_def delete_edge_def mset_um_erase)

lemma alike_switch_edge: "alike g h \<Longrightarrow> alike (switch_edge i x a g) (switch_edge i x a h)"
  by (simp add: alike_def same_lookups_def switch_edge_def Let_def mset_um_put split: option.split)

lemma agree_structure:
  assumes "alike g h"
  shows "agree (declare_node i k d s b e st g) (declare_node i k d s b e st h)"
    and "rel_option agree (add_edge x s b e g) (add_edge x s b e h)"
    and "agree (remove_edge j s b e g) (remove_edge j s b e h)"
    and "agree (set_edge_active j a s b e g) (set_edge_active j a s b e h)"
    and "agree (add_dependency_set y s b e g) (add_dependency_set y s b e h)"
    and "agree (remove_dependency_set l s b e g) (remove_dependency_set l s b e h)"
proof -
  note [simp] = alike_lookups[OF assms] alike_none[OF assms] alike_sizes[OF assms] assms
    alike_authority[OF assms] alike_cycle[OF assms] alike_equivalent[OF assms] alike_members[OF assms]
  show "agree (declare_node i k d s b e st g) (declare_node i k d s b e st h)"
    by (auto simp: declare_node_def intro!: alike_put split: option.split)
  show "rel_option agree (add_edge x s b e g) (add_edge x s b e h)"
    by (auto simp: add_edge_def intro!: alike_closures alike_insert_edge split: option.split bool.split)
  show "agree (remove_edge j s b e g) (remove_edge j s b e h)"
    by (auto simp: remove_edge_def intro!: alike_closures alike_delete_edge split: option.split)
  show "agree (set_edge_active j a s b e g) (set_edge_active j a s b e h)"
    by (auto simp: set_edge_active_def intro!: alike_closures alike_switch_edge split: option.split)
  show "agree (add_dependency_set y s b e g) (add_dependency_set y s b e h)"
    by (auto simp: add_dependency_set_def intro!: alike_closures split: option.split)
      (use assms in \<open>simp add: alike_def same_lookups_def\<close>)
  show "agree (remove_dependency_set l s b e g) (remove_dependency_set l s b e h)"
    by (auto simp: remove_dependency_set_def intro!: alike_closures split: option.split)
      (use assms in \<open>simp add: alike_def same_lookups_def ix_at_unlist\<close>)
qed

theorem perform_agree:
  assumes "alike g h"
  shows "rel_option agree (perform c s b e g) (perform c s b e h)"
  by (cases c) (simp_all add: agree_generations agree_marks agree_invalidations agree_structure assms)


lemma submit_alike:
  assumes "alike g h" and "submit rq g = Some (r, g')"
  obtains h' where "submit rq h = Some (r, h')" "alike g' h'"
proof -
  have "rel_option agree (submit rq g) (submit rq h)"
    unfolding submit_def by (rule perform_agree[OF assms(1)])
  with assms(2) that show thesis by (auto simp: option_rel_Some1)
qed

section \<open>Settled states are unique\<close>

lemma alike_dep_rel: "alike g h \<Longrightarrow> dep_rel h = dep_rel g"
  by (simp add: dep_rel_def alike_lookups)

lemma alike_members_local: "alike g h \<Longrightarrow> members_local h = members_local g"
  by (simp add: members_local_def same_lookups_active[OF alike_same_lookups])

lemma recomputed_state_essence:
  assumes "essence m = essence n" and "eval_node h i = eval_node g i"
  shows "recomputed_state h i m = recomputed_state g i n"
proof -
  have "nd_kind m = nd_kind n" "nd_current_generation m = nd_current_generation n" "gated m = gated n"
    using assms(1) facts_agree[of m n] by (auto simp: essence_iff gated_def)
  then show ?thesis
    using assms by (auto simp: essence_iff recomputed_state_def derived_state_def)
qed

lemma view_of: "durable m = durable n \<Longrightarrow> nd_state m = nd_state n \<Longrightarrow> view m = view n"
  by (cases m; cases n) (simp add: durable_def view_def)

lemma settled_unique:
  assumes "alike g h" and "index_sound g" and "acyclic_graph g" and "members_local g"
    and "\<forall>i. settled g i" and "\<forall>i. settled h i"
  shows "map_option view (find_node h i) = map_option view (find_node g i)"
proof (induction i rule: wf_induct_rule[OF wf_dep_rel[OF assms(3)]])
  case (1 i)
  show ?case
  proof (cases "find_node g i")
    case None
    then have "find_node h i = None" by (simp add: alike_none[OF assms(1)])
    with None show ?thesis by simp
  next
    case (Some n)
    obtain m where m: "find_node h i = Some m" "essence m = essence n"
      by (rule alike_some[OF assms(1) Some])
    have "same_view g h p" if "p \<in> reads g i" for p
      unfolding same_view_def by (rule 1[OF reads_dep_rel[OF assms(2,4) that]])
    then have "eval_node h i = eval_node g i"
      by (rule eval_node_cong[OF alike_same_lookups[OF assms(1)]])
    then have "recomputed_state h i m = recomputed_state g i n"
      by (rule recomputed_state_essence[OF m(2)])
    moreover have "recomputed_state h i m = nd_state m" "recomputed_state g i n = nd_state n"
      using assms(5,6)[rule_format, of i] m(1) Some by (simp_all add: settled_def)
    moreover have "durable m = durable n" using m(2) unfolding essence_iff by (rule conjunct1)
    ultimately have "view m = view n" by (intro view_of) metis+
    with m(1) Some show ?thesis by simp
  qed
qed

lemma readiness_view:
  "map_option view (find_node h i) = map_option view (find_node g i) \<Longrightarrow> readiness h i = readiness g i"
  by (auto simp: readiness_def dest: view_fields split: option.splits)

text \<open>Whatever the recomputations before, the iteration order and the states they start from.\<close>

lemma recompute_all_confluent:
  assumes "alike g h" and "clean_inv g" and "clean_inv h" and "iteration_ok it" and "iteration_ok it'"
  obtains g' h' where "recompute_all_locked it g = Some g'" "recompute_all_locked it' h = Some h'"
    "alike g' h'" "\<And>i. map_option view (find_node h' i) = map_option view (find_node g' i)"
proof -
  obtain g' where g': "recompute_all_locked it g = Some g'" "\<forall>i. settled g' i"
    by (rule clean_recomputes[OF assms(2,4)])
  obtain h' where h': "recompute_all_locked it' h = Some h'" "\<forall>i. settled h' i"
    by (rule clean_recomputes[OF assms(3,5)])
  have gg': "alike g g'" by (rule alike_all[OF g'(1)])
  have al: "alike g' h'" by (meson alike_all[OF h'(1)] alike_sym alike_trans assms(1) gg')
  have "clean_inv g'"
    by (rule clean_inv_step[OF fs_recompute_all[where it = it and r = OC_ACCEPTED] assms(2)])
      (simp add: recompute_all_readiness_def g'(1))
  then have core: "index_sound g'" "acyclic_graph g'" "members_local g'"
    by (simp_all add: clean_inv_def core_inv_def sets_local_members)
  show thesis by (rule that[OF g'(1) h'(1) al settled_unique[OF al core g'(2) h'(2)]])
qed


section \<open>Histories\<close>

text \<open>What a client asks of the runtime: a mutation, or a recomputation of one node or of all.\<close>

datatype call = Mutate request | RecomputeOne node_id | RecomputeAll iteration

fun make_call :: "call \<Rightarrow> graph \<Rightarrow> (outcome \<times> graph) option" where
  "make_call (Mutate rq) g = submit rq g"
| "make_call (RecomputeOne i) g = Some (recompute_readiness i g)"
| "make_call (RecomputeAll it) g = recompute_all_readiness it g"

fun is_mutation :: "call \<Rightarrow> bool" where
  "is_mutation (Mutate rq) = True"
| "is_mutation _ = False"

text \<open>The outcomes of the mutations of a history, and the graph it leaves.\<close>

fun history :: "call list \<Rightarrow> graph \<Rightarrow> (outcome list \<times> graph) option" where
  "history [] g = Some ([], g)"
| "history (c # cs) g =
     (case make_call c g of
        None \<Rightarrow> None
      | Some (r, h) \<Rightarrow> map_option (map_prod (if is_mutation c then Cons r else id) id) (history cs h))"

text \<open>A history of clean requests and legal iteration orders.\<close>

fun clean_call :: "graph \<Rightarrow> call \<Rightarrow> bool" where
  "clean_call g (Mutate rq) = clean g (snd rq)"
| "clean_call g (RecomputeOne i) = True"
| "clean_call g (RecomputeAll it) = iteration_ok it"

fun clean_calls :: "call list \<Rightarrow> graph \<Rightarrow> bool" where
  "clean_calls [] g = True"
| "clean_calls (c # cs) g =
     (clean_call g c \<and> (case make_call c g of None \<Rightarrow> True | Some (r, h) \<Rightarrow> clean_calls cs h))"

lemma alike_clean: "alike g h \<Longrightarrow> clean h c = clean g c"
  by (auto simp: clean_def unlisted_def alike_lookups split: command.split)

lemma call_returns:
  assumes "clean_call g c" and "clean_inv g"
  obtains r g' where "make_call c g = Some (r, g')" "clean_inv g'" "\<not> is_mutation c \<longrightarrow> alike g g'"
proof -
  have core: "core_inv g" using assms(2) by (simp add: clean_inv_def)
  show thesis
  proof (cases c)
    case (Mutate rq)
    obtain r g' where g': "submit rq g = Some (r, g')" using requests.returns[OF core, of rq] by auto
    have "clean_inv g'"
      by (rule clean_inv_step[OF fs_request[OF _ g'] assms(2)]) (use assms(1) Mutate in simp)
    with g' Mutate that show thesis by simp
  next
    case (RecomputeOne i)
    have "clean_inv (snd (recompute_readiness i g))"
      by (rule clean_inv_step[OF fs_recompute[OF prod.collapse[symmetric]] assms(2)])
    then show thesis
      using that[of "fst (recompute_readiness i g)" "snd (recompute_readiness i g)"]
      by (simp add: RecomputeOne recompute_readiness_def alike_node)
  next
    case (RecomputeAll it)
    then have "iteration_ok it" using assms(1) by simp
    then obtain g' where g': "recompute_all_locked it g = Some g'"
      by (rule clean_recomputes[OF assms(2)])
    have "clean_inv g'"
      by (rule clean_inv_step[OF fs_recompute_all[where it = it and r = OC_ACCEPTED] assms(2)])
        (simp add: recompute_all_readiness_def g')
    then show thesis
      using that[of OC_ACCEPTED g'] alike_all[OF g'] by (simp add: RecomputeAll recompute_all_readiness_def g')
  qed
qed

text \<open>The recomputations of a history can be left out: the mutations answer the same.\<close>

lemma history_transparent:
  assumes "alike g h" and "clean_inv g" and "clean_inv h" and "clean_calls cs g"
  shows "\<exists>rs g' h'. history cs g = Some (rs, g') \<and> history (filter is_mutation cs) h = Some (rs, h') \<and>
    alike g' h' \<and> clean_inv g' \<and> clean_inv h'"
  using assms
proof (induction cs arbitrary: g h)
  case (Cons c cs)
  from Cons.prems(4) have c: "clean_call g c" by simp
  obtain r g1 where g1: "make_call c g = Some (r, g1)" "clean_inv g1" "\<not> is_mutation c \<longrightarrow> alike g g1"
    by (rule call_returns[OF c Cons.prems(2)])
  have rest: "clean_calls cs g1" using Cons.prems(4) g1(1) by simp
  show ?case
  proof (cases "is_mutation c")
    case False
    have "alike g1 h" by (meson Cons.prems(1) alike_sym alike_trans g1(3)[rule_format, OF False])
    from Cons.IH[OF this g1(2) Cons.prems(3) rest] False g1(1) show ?thesis by auto
  next
    case True
    then obtain rq where rq: "c = Mutate rq" by (cases c) auto
    then have "submit rq g = Some (r, g1)" using g1(1) by simp
    then obtain h1 where h1: "submit rq h = Some (r, h1)" "alike g1 h1"
      by (rule submit_alike[OF Cons.prems(1)])
    have "clean_inv h1"
      by (rule clean_inv_step[OF fs_request[OF _ h1(1)] Cons.prems(3)])
        (use c in \<open>simp add: rq alike_clean[OF Cons.prems(1)]\<close>)
    from Cons.IH[OF h1(2) g1(2) this rest] g1(1) h1(1) show ?thesis by (auto simp: rq)
  qed
qed simp


section \<open>Following a run up to derived states\<close>

text \<open>
  \<open>leads g rqs k\<close>: the requests turn \<open>g\<close> into a graph like \<open>k\<close>. The recomputations that the mutations
  end with can be erased, so that a concrete run is followed on the facts alone.
\<close>

definition leads :: "graph \<Rightarrow> request list \<Rightarrow> graph \<Rightarrow> bool" where
  "leads g rqs k \<longleftrightarrow> (\<exists>h. run_acts submit rqs g = Some h \<and> alike k h)"

lemma run_alike:
  "alike g h \<Longrightarrow> run_acts submit rqs g = Some g' \<Longrightarrow> \<exists>h'. run_acts submit rqs h = Some h' \<and> alike g' h'"
proof (induction rqs arbitrary: g h)
  case (Cons rq rqs)
  obtain r g1 where g1: "submit rq g = Some (r, g1)" "run_acts submit rqs g1 = Some g'"
    using Cons.prems(2) by (auto split: option.splits)
  obtain h1 where h1: "submit rq h = Some (r, h1)" "alike g1 h1"
    by (rule submit_alike[OF Cons.prems(1) g1(1)])
  show ?case using Cons.IH[OF h1(2) g1(2)] by (simp add: h1(1))
qed simp

lemma leads_alike: "alike g h \<Longrightarrow> leads g rqs k = leads h rqs k"
  unfolding leads_def by (meson alike_sym alike_trans run_alike)

lemma leads_Nil [simp]: "leads g [] k = alike k g"
  by (simp add: leads_def)

lemma leads_Cons: "leads g (rq # rqs) k = (case submit rq g of None \<Rightarrow> False | Some (r, h) \<Rightarrow> leads h rqs k)"
  by (simp add: leads_def split: option.split)

lemma leads_closure [simp]: "leads (recompute_closure_locked roots g) rqs k = leads g rqs k"
  by (rule leads_alike[OF alike_sym[OF alike_closure]])

lemma leads_trans: "leads g rqs h \<Longrightarrow> leads h rqs' k \<Longrightarrow> leads g (rqs @ rqs') k"
proof (induction rqs arbitrary: g)
  case Nil
  then show ?case using leads_alike by simp
next
  case (Cons rq rqs)
  then show ?case by (auto simp: leads_Cons split: option.splits)
qed

text \<open>
  The result of a full recomputation is found by writing down a settled graph with the same facts.
\<close>

lemma recomputed_readiness:
  assumes "alike k g" and "\<forall>i. settled k i" and "clean_inv g" and "iteration_ok it"
  obtains g' where "recompute_all_readiness it g = Some (OC_ACCEPTED, g')" "alike k g'" "clean_inv g'"
    "\<And>i. readiness g' i = readiness k i"
proof -
  obtain g' where g': "recompute_all_locked it g = Some g'" "\<forall>i. settled g' i"
    by (rule clean_recomputes[OF assms(3,4)])
  have r: "recompute_all_readiness it g = Some (OC_ACCEPTED, g')"
    by (simp add: recompute_all_readiness_def g'(1))
  have al: "alike g' k" by (meson alike_all[OF g'(1)] alike_sym alike_trans assms(1))
  have clean: "clean_inv g'" by (rule clean_inv_step[OF fs_recompute_all[OF r] assms(3)])
  have "readiness k i = readiness g' i" for i
    by (rule readiness_view[OF settled_unique[OF al _ _ _ g'(2) assms(2)]])
      (use clean in \<open>simp_all add: clean_inv_def core_inv_def sets_local_members\<close>)
  then show thesis using that[OF r alike_sym[OF al] clean] by simp
qed

text \<open>
  Evaluation of runs on a graph that is written out: one request at a time, erasing the recomputation
  at its end, and the searches of the cycle test and of invalidation.
\<close>

lemma leads_step:
  "leads \<lparr>gr_nodes = n, gr_edges = e, gr_sets = s, gr_sources = src, gr_out_edges = oe,
      gr_in_edges = ie, gr_node_sets = ns, gr_epoch = ep, gr_adapter = ad\<rparr> (rq # rqs) k =
   (case submit rq \<lparr>gr_nodes = n, gr_edges = e, gr_sets = s, gr_sources = src, gr_out_edges = oe,
      gr_in_edges = ie, gr_node_sets = ns, gr_epoch = ep, gr_adapter = ad\<rparr> of
      None \<Rightarrow> False | Some (r, h) \<Rightarrow> leads h rqs k)"
  by (rule leads_Cons)

lemma search_eval:
  "search S ([], vis, a) = ([], vis, a)"
  "search S (i # q, vis, a) =
     (if s_stop S a then (i # q, vis, a) else search S (search_step S (i # q, vis, a)))"
  by (subst search_unfold, simp add: search_running_def)+

lemma um_erase_eval:
  "um_erase k [] = []" "um_erase k (p # m) = (if fst p = k then um_erase k m else p # um_erase k m)"
  by (simp_all add: um_erase_def AList.delete_eq split_beta)

lemmas run_simps = leads_step um_erase_eval submit_def mutation_defs authority_ok_def kMaxGraphNodes_def
  kMaxGraphEdges_def um_size_def make_node_def install_generation_def insert_edge_def delete_edge_def
  ix_push_def ix_erase_def ix_at_def succs_def out_active_def active_edges_def List.map_filter_simps
  would_create_cycle_locked_def cycle_search_def search_result_def search_eval Let_def null_strong_def
  strong_le_iff word_le_nat_alt has_generation_def highest_generation_def apply_evidence_def
  invalidate_seed_def propagate_invalidation_locked_def propagate_search_def propagate_expand_def
  out_via_def passes_def mark_node_invalidated_def mark_invalidated_def bump_def next_counter_def

lemmas settled_simps = settled_def recomputed_state_def derived_state_verdict gated_def escape_state_def
  node_verdict_def node_hard_def node_stale_def node_soft_def implicit_edges_def set_members_def
  active_sets_def sets_in_range_def in_active_def active_edges_def List.map_filter_simps ix_at_def
  edge_hard_def edge_stale_def edge_soft_def generation_ok_def generation_advanced_def level_ok_def
  lineage_stale_def evidence_ok_def meets_readiness_constraint_def edge_required_def Let_def requires_own_generation_def is_gate_kind_def

lemmas alike_simps = alike_def same_lookups_def essence_iff durable_def ix_at_def um_size_def escape_state_def

end
