(* ===== verification/Bytes.thy ===== *)
theory Bytes
  imports FabricPrelude "HOL-Library.State_Monad" "HOL-Library.Char_ord"
begin

text \<open>
  Little-endian encoders and bounded decoders: the classes \<open>Encoder\<close> and \<open>Decoder\<close> of
  \<open>src/protocol/framing.cpp\<close>, which \<open>ByteWriter\<close> and \<open>ByteReader\<close> of \<open>src/persistence/format.cpp\<close>
  repeat, and the FNV-1a hash both use. An encoder is the byte list it appends. A decoder reads from
  the unread suffix of its buffer and carries the sticky flag \<open>ok_\<close>; a read past the end clears the
  flag, returns zero and does not advance. Readers are run in the state monad.

  The locale \<open>codec\<close> is the contract between an encoder and a reader: what was written is read back
  and the rest is left, and a strict prefix of it is never read successfully. Every message and every
  persisted record is built from its instances.
\<close>

unbundle bit_operations_syntax

section \<open>Encoding\<close>

definition enc_u8 :: "u8 \<Rightarrow> u8 list" where
  "enc_u8 v = [v]"

definition enc_u16 :: "u16 \<Rightarrow> u8 list" where
  "enc_u16 v = map (\<lambda>i. ucast (drop_bit (8 * i) v AND 0xFF)) [0..<2]"

definition enc_u32 :: "u32 \<Rightarrow> u8 list" where
  "enc_u32 v = map (\<lambda>i. ucast (drop_bit (8 * i) v AND 0xFF)) [0..<4]"

definition enc_u64 :: "u64 \<Rightarrow> u8 list" where
  "enc_u64 v = map (\<lambda>i. ucast (drop_bit (8 * i) v AND 0xFF)) [0..<8]"

definition enc_bool :: "bool \<Rightarrow> u8 list" where
  "enc_bool b = enc_u8 (if b then 1 else 0)"

text \<open>The bytes of a \<open>std::string\<close>.\<close>

definition byte_of_char :: "char \<Rightarrow> u8" where
  "byte_of_char c = of_nat (of_char c)"

definition char_of_byte :: "u8 \<Rightarrow> char" where
  "char_of_byte b = char_of (unat b)"

definition string_bytes :: "string \<Rightarrow> u8 list" where
  "string_bytes s = map byte_of_char s"

definition enc_str :: "string \<Rightarrow> u8 list" where
  "enc_str s = enc_u32 (of_nat (length s)) @ string_bytes s"

section \<open>Decoding\<close>

record decoder =
  de_left :: "u8 list"
  de_ok :: bool

definition new_decoder :: "u8 list \<Rightarrow> decoder" where
  "new_decoder bs = \<lparr>de_left = bs, de_ok = True\<rparr>"

type_synonym 'a reader = "(decoder, 'a) state"

text \<open>\<open>v |= p[i] << (8 * i)\<close> for \<open>i = 0, 1, ...\<close>\<close>

definition from_le :: "u8 list \<Rightarrow> 'a::len word" where
  "from_le bs = fold (\<lambda>(i, b) v. v OR push_bit (8 * i) (ucast b)) (enumerate 0 bs) 0"

definition dec_word :: "nat \<Rightarrow> ('a::len word) reader" where
  "dec_word k = State (\<lambda>d.
     if length (de_left d) < k then (0, d\<lparr>de_ok := False\<rparr>)
     else (from_le (take k (de_left d)), d\<lparr>de_left := drop k (de_left d)\<rparr>))"

definition dec_u8 :: "u8 reader" where
  "dec_u8 = State (\<lambda>d. case de_left d of [] \<Rightarrow> (0, d\<lparr>de_ok := False\<rparr>)
     | b # bs \<Rightarrow> (b, d\<lparr>de_left := bs\<rparr>))"

definition dec_u16 :: "u16 reader" where
  "dec_u16 = dec_word 2"

definition dec_u32 :: "u32 reader" where
  "dec_u32 = dec_word 4"

definition dec_u64 :: "u64 reader" where
  "dec_u64 = dec_word 8"

definition dec_bool :: "bool reader" where
  "dec_bool = do { b \<leftarrow> dec_u8; State_Monad.return (b \<noteq> 0) }"

text \<open>The argument is the cap on the length: \<open>kMaxBodyBytes\<close> in messages, \<open>kMaxStringBytes\<close> in files.\<close>

definition dec_str :: "u32 \<Rightarrow> string reader" where
  "dec_str cap = do {
     len \<leftarrow> dec_u32;
     State (\<lambda>d.
       if \<not> de_ok d then ([], d)
       else if cap < len \<or> length (de_left d) < unat len then ([], d\<lparr>de_ok := False\<rparr>)
       else (map char_of_byte (take (unat len) (de_left d)),
             d\<lparr>de_left := drop (unat len) (de_left d)\<rparr>)) }"

definition dec_remaining :: "nat reader" where
  "dec_remaining = State (\<lambda>d. (length (de_left d), d))"

definition dec_skip :: "nat \<Rightarrow> unit reader" where
  "dec_skip k = State (\<lambda>d.
     if length (de_left d) < k then ((), d\<lparr>de_ok := False\<rparr>)
     else ((), d\<lparr>de_left := drop k (de_left d)\<rparr>))"

text \<open>\<open>raw\<close> gives a pointer to the next \<open>k\<close> bytes, or null.\<close>

definition dec_raw :: "nat \<Rightarrow> u8 list option reader" where
  "dec_raw k = State (\<lambda>d.
     if length (de_left d) < k then (None, d\<lparr>de_ok := False\<rparr>)
     else (Some (take k (de_left d)), d\<lparr>de_left := drop k (de_left d)\<rparr>))"

text \<open>\<open>for (i = 0; i < n; ++i) v.push_back(read())\<close>\<close>

fun dec_list :: "nat \<Rightarrow> 'a reader \<Rightarrow> 'a list reader" where
  "dec_list 0 p = State_Monad.return []"
| "dec_list (Suc n) p = do { x \<leftarrow> p; xs \<leftarrow> dec_list n p; State_Monad.return (x # xs) }"

section \<open>Hashing\<close>

definition fnv_prime :: u64 where
  "fnv_prime = 0x100000001b3"

definition fnv1a :: "u8 list \<Rightarrow> u64" where
  "fnv1a bs = fold (\<lambda>b h. (h XOR ucast b) * fnv_prime) bs 0xcbf29ce484222325"

definition checksum32 :: "u8 list \<Rightarrow> u32" where
  "checksum32 bs =
     (let h = fold (\<lambda>b h. (h XOR ucast b) * 0x100000001b3) bs (0xcbf29ce484222325 :: u64)
      in ucast (h XOR drop_bit 32 h))"

section \<open>Words and bytes\<close>

lemma bit_from_le_fold:
  fixes bs :: "u8 list"
  shows "bit (fold (\<lambda>(i, b) v. v OR push_bit (8 * i) (ucast b)) (enumerate m bs) (w :: 'a::len word)) n \<longleftrightarrow>
     bit w n \<or> (n < LENGTH('a) \<and> 8 * m \<le> n \<and> n div 8 - m < length bs \<and> bit (bs ! (n div 8 - m)) (n mod 8))"
proof (induction bs arbitrary: m w)
  case (Cons b bs)
  have b: "bit (push_bit (8 * m) (ucast b :: 'a word)) n \<longleftrightarrow>
      n < LENGTH('a) \<and> n div 8 = m \<and> bit b (n mod 8)"
  proof (cases "8 * m \<le> n")
    case True
    show ?thesis
    proof (cases "n div 8 = m")
      case div: True
      then have "n - 8 * m = n mod 8" by (metis minus_mult_div_eq_mod)
      with True div show ?thesis by (auto simp: bit_push_bit_iff bit_ucast_iff)
    next
      case False
      with True have "8 \<le> n - 8 * m" by (metis div_nat_eqI le_add_diff_inverse mult_Suc_right not_le_imp_less add.commute less_diff_conv2 mult.commute)
      then have "\<not> bit b (n - 8 * m)" using bit_imp_le_length[of b "n - 8 * m"] by auto
      with False show ?thesis by (simp add: bit_push_bit_iff bit_ucast_iff)
    qed
  qed (auto simp: bit_push_bit_iff)
  show ?case
    unfolding enumerate_simps fold_simps prod.case Cons.IH bit_or_iff b
  proof -
    show "(bit w n \<or> n < LENGTH('a) \<and> n div 8 = m \<and> bit b (n mod 8)) \<or>
        n < LENGTH('a) \<and> 8 * Suc m \<le> n \<and> n div 8 - Suc m < length bs \<and> bit (bs ! (n div 8 - Suc m)) (n mod 8) \<longleftrightarrow>
      bit w n \<or> n < LENGTH('a) \<and> 8 * m \<le> n \<and> n div 8 - m < length (b # bs) \<and>
        bit ((b # bs) ! (n div 8 - m)) (n mod 8)"
    proof (cases "n div 8 - m")
      case 0
      then have "n div 8 \<le> m" by simp
      then have "\<not> 8 * Suc m \<le> n" by (metis Suc_n_not_le_n div_le_mono le_trans nonzero_mult_div_cancel_left zero_neq_numeral)
      moreover have "8 * m \<le> n \<longleftrightarrow> n div 8 = m"
        using \<open>n div 8 \<le> m\<close> by (metis div_le_mono dual_order.antisym nonzero_mult_div_cancel_left times_div_less_eq_dividend zero_neq_numeral)
      ultimately show ?thesis using 0 by auto
    next
      case (Suc k)
      then have "n div 8 - Suc m = k" "n div 8 \<noteq> m" "Suc m \<le> n div 8" by linarith+
      moreover from this(3) have "8 * Suc m \<le> n" "8 * m \<le> n"
        using times_div_less_eq_dividend[of 8 n] by (simp_all add: algebra_simps)
      ultimately show ?thesis using Suc by auto
    qed
  qed
qed simp

lemma bit_from_le:
  "bit (from_le bs :: 'a::len word) n \<longleftrightarrow>
     n < LENGTH('a) \<and> n div 8 < length bs \<and> bit (bs ! (n div 8)) (n mod 8)"
  by (simp add: from_le_def bit_from_le_fold)

definition to_le :: "nat \<Rightarrow> 'a::len word \<Rightarrow> u8 list" where
  "to_le k v = map (\<lambda>i. ucast (drop_bit (8 * i) v AND 0xFF)) [0..<k]"

lemma length_to_le [simp]: "length (to_le k v) = k"
  by (simp add: to_le_def)

lemma bit_to_le:
  assumes "i < k"
  shows "bit (to_le k v ! i) j \<longleftrightarrow> j < 8 \<and> bit v (8 * i + j)"
proof -
  have "bit (0xFF :: 'a word) j \<longleftrightarrow> j < LENGTH('a) \<and> j < 8"
  proof -
    have "(0xFF :: 'a word) = mask 8" by (simp add: mask_eq_exp_minus_1)
    then show ?thesis by (metis bit_mask_iff possible_bit_word)
  qed
  moreover have "bit v (8 * i + j) \<Longrightarrow> j < LENGTH('a)" using bit_imp_le_length by fastforce
  ultimately show ?thesis
    using assms by (auto simp: to_le_def bit_ucast_iff bit_and_iff bit_drop_bit_eq)
qed

lemma from_to_le:
  fixes v :: "'a::len word"
  assumes "LENGTH('a) \<le> 8 * k"
  shows "from_le (to_le k v) = v"
proof (rule bit_word_eqI)
  fix n assume n: "n < LENGTH('a)"
  then have "n div 8 < k" using assms by linarith
  then show "bit (from_le (to_le k v) :: 'a word) n = bit v n"
    using n by (simp add: bit_from_le bit_to_le)
qed

lemma to_from_le:
  assumes "length bs = k" and "8 * k \<le> LENGTH('a)"
  shows "to_le k (from_le bs :: 'a::len word) = bs"
proof (rule nth_equalityI)
  fix i assume i: "i < length (to_le k (from_le bs :: 'a word))"
  then have "i < k" by simp
  show "to_le k (from_le bs :: 'a word) ! i = bs ! i"
  proof (rule bit_word_eqI)
    fix j assume j: "j < LENGTH(8)"
    then have "8 * i + j < LENGTH('a)" using assms \<open>i < k\<close> by simp
    then show "bit (to_le k (from_le bs :: 'a word) ! i) j = bit (bs ! i) j"
      using j \<open>i < k\<close> assms(1) by (simp add: bit_to_le bit_from_le)
  qed
qed (simp add: assms)

lemma enc_word_le: "enc_u16 v = to_le 2 v" "enc_u32 w = to_le 4 w" "enc_u64 x = to_le 8 x"
  by (simp_all add: enc_u16_def enc_u32_def enc_u64_def to_le_def)

lemma length_enc [simp]:
  "length (enc_u8 a) = 1" "length (enc_u16 b) = 2" "length (enc_u32 c) = 4" "length (enc_u64 d) = 8"
  "length (enc_bool e) = 1" "length (enc_str s) = 4 + length s"
  by (simp_all add: enc_word_le enc_u8_def enc_bool_def enc_str_def string_bytes_def)

lemma char_of_byte_of_char [simp]: "char_of_byte (byte_of_char c) = c"
proof -
  have "of_char c < (256::nat)" by simp
  then have "unat (of_nat (of_char c) :: u8) = of_char c"
    by (simp add: unsigned_of_nat take_bit_nat_eq_self)
  then show ?thesis by (simp add: char_of_byte_def byte_of_char_def)
qed

lemma byte_of_char_of_byte [simp]: "byte_of_char (char_of_byte b) = b"
proof -
  have "unat b < 2 ^ LENGTH(8)" by (rule unsigned_less)
  then have "of_char (char_of (unat b)) = unat b" by simp
  then show ?thesis by (simp add: char_of_byte_def byte_of_char_def)
qed

section \<open>What readers do\<close>

text \<open>A reader never turns the flag back on, and never reads successfully after it is off.\<close>

definition sound_reader :: "'a reader \<Rightarrow> bool" where
  "sound_reader p \<longleftrightarrow> (\<forall>d. de_ok (snd (run_state p d)) \<longrightarrow> de_ok d)"

lemma sound_readerD: "sound_reader p \<Longrightarrow> run_state p d = (x, d') \<Longrightarrow> de_ok d' \<Longrightarrow> de_ok d"
  unfolding sound_reader_def by (metis snd_conv)

named_theorems sound \<open>readers that keep the failure flag\<close>

lemma sound_return [sound]: "sound_reader (State_Monad.return x)"
  by (simp add: sound_reader_def)

lemma sound_bind [sound]:
  "sound_reader p \<Longrightarrow> (\<And>x. sound_reader (f x)) \<Longrightarrow> sound_reader (State_Monad.bind p f)"
proof (unfold sound_reader_def, intro allI impI)
  fix d
  assume p: "\<forall>d. de_ok (snd (run_state p d)) \<longrightarrow> de_ok d"
    and f: "\<And>x. \<forall>d. de_ok (snd (run_state (f x) d)) \<longrightarrow> de_ok d"
    and ok: "de_ok (snd (run_state (State_Monad.bind p f) d))"
  obtain x d' where "run_state p d = (x, d')" by fastforce
  with ok have "de_ok (snd (run_state p d))" using f[of x] by simp
  with p show "de_ok d" by blast
qed

lemma sound_word [sound]: "sound_reader (dec_word k)" "sound_reader dec_u8"
  by (auto simp: sound_reader_def dec_word_def dec_u8_def split: list.splits)

lemma sound_raw [sound]: "sound_reader (dec_skip k)" "sound_reader (dec_raw k)" "sound_reader dec_remaining"
  by (auto simp: sound_reader_def dec_skip_def dec_raw_def dec_remaining_def)

lemma sound_prims [sound]:
  "sound_reader dec_u16" "sound_reader dec_u32" "sound_reader dec_u64" "sound_reader dec_bool"
  by (simp_all add: dec_u16_def dec_u32_def dec_u64_def dec_bool_def sound)

lemma sound_str [sound]: "sound_reader (dec_str cap)"
  unfolding dec_str_def by (rule sound_bind[OF sound_prims(2)]) (auto simp: sound_reader_def)

lemma sound_list [sound]: "sound_reader p \<Longrightarrow> sound_reader (dec_list n p)"
  by (induction n) (simp_all add: sound)

text \<open>A reader that fails on every strict prefix of some bytes.\<close>

definition fails_short :: "u8 list \<Rightarrow> 'a reader \<Rightarrow> bool" where
  "fails_short bs p \<longleftrightarrow> (\<forall>p' q. bs = p' @ q \<and> q \<noteq> [] \<longrightarrow>
     \<not> de_ok (snd (run_state p \<lparr>de_left = p', de_ok = True\<rparr>)))"

lemma fails_short_Nil: "fails_short [] p"
  by (simp add: fails_short_def)

section \<open>The contract of an encoder and a reader\<close>

locale codec =
  fixes enc :: "'a \<Rightarrow> u8 list" and dec :: "'a reader" and dom :: "'a \<Rightarrow> bool"
  assumes reads_back: "dom x \<Longrightarrow>
      run_state dec \<lparr>de_left = enc x @ r, de_ok = True\<rparr> = (x, \<lparr>de_left = r, de_ok = True\<rparr>)"
    and truncated: "dom x \<Longrightarrow> enc x = p @ q \<Longrightarrow> q \<noteq> [] \<Longrightarrow>
      \<not> de_ok (snd (run_state dec \<lparr>de_left = p, de_ok = True\<rparr>))"
    and sound_dec: "sound_reader dec"
begin

text \<open>A reader that reads \<open>x\<close> first and then continues.\<close>

lemma bind_reads_back:
  "dom x \<Longrightarrow> run_state (State_Monad.bind dec f) \<lparr>de_left = enc x @ r, de_ok = True\<rparr> =
     run_state (f x) \<lparr>de_left = r, de_ok = True\<rparr>"
  by (simp add: reads_back)

lemma bind_truncated:
  assumes "dom x" and "enc x @ ys = p @ q" and "q \<noteq> []" and "\<And>x. sound_reader (f x)"
    and "\<And>p'. ys = p' @ q \<Longrightarrow> \<not> de_ok (snd (run_state (f x) \<lparr>de_left = p', de_ok = True\<rparr>))"
  shows "\<not> de_ok (snd (run_state (State_Monad.bind dec f) \<lparr>de_left = p, de_ok = True\<rparr>))"
proof (cases "length (enc x) \<le> length p")
  case True
  then obtain p' where "p = enc x @ p'" "ys = p' @ q"
    using assms(2) by (auto simp: append_eq_append_conv2)
  then show ?thesis using assms(1,5) by (simp add: reads_back)
next
  case False
  then obtain q' where "enc x = p @ q'" "q' \<noteq> []"
    using assms(2) by (auto simp: append_eq_append_conv2)
  then have bad: "\<not> de_ok (snd (run_state dec \<lparr>de_left = p, de_ok = True\<rparr>))"
    using truncated[OF assms(1)] by blast
  obtain y d where y: "run_state dec \<lparr>de_left = p, de_ok = True\<rparr> = (y, d)" by fastforce
  then show ?thesis using bad assms(4)[of y] by (auto simp: sound_reader_def)
qed

lemma bind_short:
  assumes "dom x" and "\<And>x. sound_reader (f x)" and "fails_short ys (f x)"
  shows "fails_short (enc x @ ys) (State_Monad.bind dec f)"
  unfolding fails_short_def
proof (intro allI impI, elim conjE)
  fix p' q
  assume eq: "enc x @ ys = p' @ q" and q: "q \<noteq> []"
  show "\<not> de_ok (snd (run_state (State_Monad.bind dec f) \<lparr>de_left = p', de_ok = True\<rparr>))"
    by (rule bind_truncated[OF assms(1) eq q assms(2)]) (use assms(3) q in \<open>simp add: fails_short_def\<close>)
qed

lemma bind_short_last:
  assumes "dom x" and "\<And>x. sound_reader (f x)"
  shows "fails_short (enc x) (State_Monad.bind dec f)"
  using bind_short[OF assms fails_short_Nil] by simp

lemma short: "dom x \<Longrightarrow> fails_short (enc x) dec"
  unfolding fails_short_def using truncated by blast

lemma list_reads_back:
  "list_all dom xs \<Longrightarrow> run_state (dec_list (length xs) dec)
     \<lparr>de_left = concat (map enc xs) @ r, de_ok = True\<rparr> = (xs, \<lparr>de_left = r, de_ok = True\<rparr>)"
  by (induction xs) (simp_all add: reads_back)

lemma list_truncated:
  "list_all dom xs \<Longrightarrow> concat (map enc xs) = p @ q \<Longrightarrow> q \<noteq> [] \<Longrightarrow>
     \<not> de_ok (snd (run_state (dec_list (length xs) dec) \<lparr>de_left = p, de_ok = True\<rparr>))"
proof (induction xs arbitrary: p)
  case (Cons x xs)
  show ?case
    unfolding list.size dec_list.simps add_Suc_right add_0_right
    by (rule bind_truncated[of x "concat (map enc xs)" p q])
      (use Cons sound_dec in \<open>auto simp: sound split: prod.split
        intro!: Cons.IH[unfolded sound_reader_def]\<close>)
qed simp

lemma list_short: "list_all dom xs \<Longrightarrow> fails_short (concat (map enc xs)) (dec_list (length xs) dec)"
  unfolding fails_short_def using list_truncated by blast

lemma list_codec: "codec (\<lambda>xs. concat (map enc xs)) (dec_list n dec) (\<lambda>xs. length xs = n \<and> list_all dom xs)"
  by unfold_locales (auto simp: list_reads_back list_truncated intro: sound sound_dec)

end

text \<open>A reader that also accepts nothing but what the encoder writes.\<close>

locale exact_codec = codec +
  assumes written: "run_state dec d = (x, d') \<Longrightarrow> de_ok d' \<Longrightarrow> de_left d = enc x @ de_left d'"
begin

lemma bind_written:
  assumes "run_state (State_Monad.bind dec f) d = (y, d')" and "de_ok d'" and "\<And>x. sound_reader (f x)"
  obtains x d1 where "run_state dec d = (x, d1)" "de_left d = enc x @ de_left d1" "run_state (f x) d1 = (y, d')"
proof -
  obtain x d1 where x: "run_state dec d = (x, d1)" by fastforce
  with assms(1) have f: "run_state (f x) d1 = (y, d')" by simp
  then have "de_ok d1" using assms(2) sound_readerD[OF assms(3)] by blast
  then show thesis using that x f written by blast
qed

end

section \<open>The codecs of the wire\<close>

lemma word_reads_back:
  assumes "LENGTH('a) = 8 * k"
  shows "run_state (dec_word k) \<lparr>de_left = to_le k (x :: 'a::len word) @ r, de_ok = b\<rparr> =
    (x, \<lparr>de_left = r, de_ok = b\<rparr>)"
  using assms by (simp add: dec_word_def from_to_le)

lemma word_truncated:
  assumes "to_le k (x :: 'a::len word) = p @ q" and "q \<noteq> []"
  shows "\<not> de_ok (snd (run_state (dec_word k) \<lparr>de_left = p, de_ok = b\<rparr>))"
proof -
  have "length (p @ q) = k" using assms(1) by (metis length_to_le)
  then show ?thesis using assms(2) by (cases q) (auto simp: dec_word_def)
qed

lemma word_written:
  assumes "run_state (dec_word k) d = (x :: 'a::len word, d')" and "de_ok d'" and "LENGTH('a) = 8 * k"
  shows "de_left d = to_le k x @ de_left d'"
proof -
  have l: "k \<le> length (de_left d)" and x: "x = from_le (take k (de_left d))"
    and d': "de_left d' = drop k (de_left d)"
    using assms(1,2) by (auto simp: dec_word_def split: if_splits)
  have "to_le k x = take k (de_left d)"
    unfolding x by (rule to_from_le) (use l assms(3) in simp_all)
  then show ?thesis by (simp add: d')
qed

interpretation c_u8: exact_codec enc_u8 dec_u8 "\<lambda>_. True"
  by unfold_locales
    (auto simp: enc_u8_def dec_u8_def Cons_eq_append_conv sound[unfolded dec_u8_def] split: list.splits)

interpretation c_u16: exact_codec enc_u16 dec_u16 "\<lambda>_. True"
  unfolding dec_u16_def
  by unfold_locales (simp_all add: enc_word_le word_reads_back word_truncated sound word_written)

interpretation c_u32: exact_codec enc_u32 dec_u32 "\<lambda>_. True"
  unfolding dec_u32_def
  by unfold_locales (simp_all add: enc_word_le word_reads_back word_truncated sound word_written)

interpretation c_u64: exact_codec enc_u64 dec_u64 "\<lambda>_. True"
  unfolding dec_u64_def
  by unfold_locales (simp_all add: enc_word_le word_reads_back word_truncated sound word_written)

interpretation c_bool: codec enc_bool dec_bool "\<lambda>_. True"
proof
  fix x p q and r :: "u8 list"
  show "run_state dec_bool \<lparr>de_left = enc_bool x @ r, de_ok = True\<rparr> = (x, \<lparr>de_left = r, de_ok = True\<rparr>)"
    by (cases x) (simp_all add: dec_bool_def enc_bool_def c_u8.reads_back)
  assume "enc_bool x = p @ q" "q \<noteq> []"
  then have "p = []" by (auto simp: enc_bool_def enc_u8_def Cons_eq_append_conv)
  then show "\<not> de_ok (snd (run_state dec_bool \<lparr>de_left = p, de_ok = True\<rparr>))"
    by (simp add: dec_bool_def dec_u8_def)
qed (rule sound)

interpretation c_str: codec enc_str "dec_str cap" "\<lambda>s. length s \<le> unat cap"
  for cap
proof
  fix x :: string and p q r :: "u8 list"
  assume len: "length x \<le> unat cap"
  moreover have "unat cap < 2 ^ LENGTH(32)" by (rule unsigned_less)
  ultimately have u: "unat (of_nat (length x) :: u32) = length x"
    by (simp add: unsigned_of_nat take_bit_nat_eq_self)
  have nc: "\<not> cap < of_nat (length x)" using len u by (simp add: word_less_nat_alt)
  have s: "map char_of_byte (string_bytes x) = x" "length (string_bytes x) = length x"
    by (simp_all add: string_bytes_def map_idI)
  show "run_state (dec_str cap) \<lparr>de_left = enc_str x @ r, de_ok = True\<rparr> = (x, \<lparr>de_left = r, de_ok = True\<rparr>)"
    unfolding dec_str_def enc_str_def append_assoc
    by (subst c_u32.bind_reads_back) (simp_all add: u nc s)
  assume e: "enc_str x = p @ q" "q \<noteq> []"
  show "\<not> de_ok (snd (run_state (dec_str cap) \<lparr>de_left = p, de_ok = True\<rparr>))"
    unfolding dec_str_def
  proof (rule c_u32.bind_truncated[OF _ e[unfolded enc_str_def]])
    fix p' assume "string_bytes x = p' @ q"
    then have "length p' < length x" using s(2) e(2) by (cases q) (auto simp flip: s(2))
    then show "\<not> de_ok (snd (run_state (State (\<lambda>d. if \<not> de_ok d then ([], d)
        else if cap < of_nat (length x) \<or> length (de_left d) < unat (of_nat (length x) :: u32)
        then ([], d\<lparr>de_ok := False\<rparr>)
        else (map char_of_byte (take (unat (of_nat (length x) :: u32)) (de_left d)),
              d\<lparr>de_left := drop (unat (of_nat (length x) :: u32)) (de_left d)\<rparr>)))
        \<lparr>de_left = p', de_ok = True\<rparr>))"
      by (simp add: u)
  qed (auto simp: sound_reader_def)
qed (rule sound)

text \<open>Reading back what was written, field by field.\<close>

lemmas reads_back = c_u8.reads_back[OF TrueI] c_u16.reads_back[OF TrueI] c_u32.reads_back[OF TrueI]
  c_u64.reads_back[OF TrueI] c_bool.reads_back[OF TrueI] c_str.reads_back

lemma u64_list_reads_back:
  "run_state (dec_list (length xs) dec_u64) \<lparr>de_left = concat (map enc_u64 xs) @ r, de_ok = True\<rparr> =
     (xs, \<lparr>de_left = r, de_ok = True\<rparr>)"
  by (rule c_u64.list_reads_back) (simp add: list_all_iff)

section \<open>The hash\<close>

lemma fnv1a_append: "fnv1a (xs @ ys) = fold (\<lambda>b h. (h XOR ucast b) * fnv_prime) ys (fnv1a xs)"
  by (simp add: fnv1a_def)

lemma checksum32_fnv: "checksum32 bs = ucast (fnv1a bs XOR drop_bit 32 (fnv1a bs))"
  by (simp add: checksum32_def fnv1a_def fnv_prime_def Let_def)

text \<open>A step of the hash is injective in the state and in the byte: the prime is odd.\<close>

lemma fnv_prime_cancel: "x * fnv_prime = y * fnv_prime \<longleftrightarrow> x = y"
proof
  have "fnv_prime * 0xce965057aff6957b = 1" by (simp add: fnv_prime_def)
  then have inv: "x * fnv_prime * 0xce965057aff6957b = x" for x
    by (simp only: mult.assoc mult_1_right)
  assume "x * fnv_prime = y * fnv_prime"
  then show "x = y" by (metis inv)
qed simp

lemma xor_cancel: "(h XOR a :: 'a::len word) = h' XOR a \<longleftrightarrow> h = h'" "(h XOR a :: 'a word) = h XOR b \<longleftrightarrow> a = b"
  by (metis xor.assoc xor.right_neutral xor_self_eq)+

lemma fnv_fold_inj:
  "fold (\<lambda>b h. (h XOR ucast b) * fnv_prime) ys h = fold (\<lambda>b h. (h XOR ucast b) * fnv_prime) ys h' \<longleftrightarrow> h = h'"
  for ys :: "u8 list"
  by (induction ys arbitrary: h h') (simp_all add: fnv_prime_cancel xor_cancel)

lemma ucast_u8_inj: "(ucast (a::u8) :: u64) = ucast b \<longleftrightarrow> a = b"
proof
  assume eq: "(ucast a :: u64) = ucast b"
  show "a = b"
  proof (rule bit_word_eqI)
    fix n assume n: "n < LENGTH(8)"
    have "bit (ucast a :: u64) n = bit (ucast b :: u64) n" using eq by simp
    then show "bit a n = bit b n" using n by (simp add: bit_ucast_iff)
  qed
qed simp

theorem fnv1a_detects_byte:
  assumes "i < length bs" and "b \<noteq> bs ! i"
  shows "fnv1a (bs[i := b]) \<noteq> fnv1a bs"
proof -
  have bs: "bs = take i bs @ bs ! i # drop (Suc i) bs"
    using assms(1) by (rule id_take_nth_drop)
  have upd: "bs[i := b] = take i bs @ b # drop (Suc i) bs"
    using assms(1) by (rule upd_conv_take_nth_drop)
  have "fnv1a (take i bs @ b # drop (Suc i) bs) = fnv1a (take i bs @ bs ! i # drop (Suc i) bs) \<longleftrightarrow>
      b = bs ! i"
    by (simp add: fnv1a_append fnv_fold_inj fnv_prime_cancel xor_cancel ucast_u8_inj)
  with assms(2) bs show ?thesis unfolding upd by metis
qed

end
