(* ===== verification/Snapshot.thy ===== *)
theory Snapshot
  imports Bytes Runs
begin

text \<open>
  \<open>src/persistence/format.cpp\<close>: the binary snapshot of a graph. \<open>save\<close> writes a header (magic, version,
  flags, body length, FNV-1a hash) and a body (epoch, sources, nodes, edges, sets); \<open>load\<close> parses it
  with early returns, validates it, and commits it with the conservative restart of dynamic evidence.
  A reader that may return early yields an error message (\<open>Inl\<close>) or a value (\<open>Inr\<close>).
  \<open>ByteWriter\<close> and \<open>ByteReader\<close> are the encoders and readers of \<open>Bytes\<close>, with the string cap
  \<open>kMaxStringBytes\<close>.
\<close>

section \<open>Writing\<close>

definition kMaxStringBytes :: u32 where
  "kMaxStringBytes = 2 ^ 20"

definition kMaxCollectionItems :: u32 where
  "kMaxCollectionItems = 2 ^ 24"

definition snapshot_magic :: u32 where
  "snapshot_magic = 0x44504641"

definition snapshot_version :: u16 where
  "snapshot_version = 1"

definition enc_count :: "nat \<Rightarrow> u8 list" where
  "enc_count n = enc_u32 (of_nat n)"

definition enc_id :: "'tag strong \<Rightarrow> u8 list" where
  "enc_id s = enc_u64 (strong_value s)"

definition enc_ids :: "'tag strong list \<Rightarrow> u8 list" where
  "enc_ids ss = enc_count (length ss) @ concat (map enc_id ss)"

definition write_node :: "node \<Rightarrow> u8 list" where
  "write_node n =
     enc_id (nd_id n) @ enc_u8 (node_kind_code (nd_kind n)) @
     enc_u8 (readiness_state_code (nd_state n)) @
     enc_ids (nd_generation_history n) @ enc_id (nd_current_generation n) @
     enc_id (nd_artifact_generation n) @ enc_id (nd_state_generation n) @
     enc_id (nd_resource_generation n) @ enc_id (nd_readiness_generation n) @
     enc_id (nd_invalidation_generation n) @ enc_id (nd_recovery_generation n) @
     enc_id (nd_policy_generation n) @ enc_bool (nd_static_durable_fact n) @
     enc_bool (nd_dynamic_evidence n) @
     enc_u8 (dynamic_evidence_code (nd_recovered_evidence n)) @
     enc_bool (nd_was_ready_before_restart n) @ enc_id (nd_origin_source n) @
     enc_id (nd_origin_boot n) @ enc_ids (nd_superseded_generations n) @
     enc_count (length (nd_claimed_capabilities n)) @
     concat (map enc_str (nd_claimed_capabilities n)) @
     enc_bool (nd_resource_available n) @ enc_bool (nd_integrity_valid n) @
     enc_bool (nd_freshness_valid n) @ enc_u64 (nd_provenance_confidence n) @
     enc_str (nd_completion_state n) @
     enc_u8 (invalidation_reason_code (nd_last_invalidation_reason n)) @
     enc_bool (nd_ever_invalidated n) @ enc_str (nd_descriptor n)"

definition write_edge :: "edge \<Rightarrow> u8 list" where
  "write_edge e =
     enc_id (ed_id e) @ enc_id (ed_generation e) @ enc_u8 (edge_kind_code (ed_kind e)) @
     enc_id (ed_producer_id e) @ enc_id (ed_consumer_id e) @
     enc_id (ed_bound_producer_generation e) @ enc_id (ed_bound_consumer_generation e) @
     enc_bool (ed_active e) @
     (let p = ed_predicate e in
      enc_u8 (generation_predicate_kind_code (pr_generation_kind p)) @
      enc_id (pr_exact_generation p) @ enc_id (pr_minimum_generation p) @
      enc_ids (pr_compatible_generations p) @
      enc_u8 (readiness_state_code (pr_required_readiness p)) @
      enc_str (pr_required_capability p) @ enc_bool (pr_requires_resource_available p) @
      enc_bool (pr_requires_fresh p) @ enc_bool (pr_requires_integrity p) @
      enc_u64 (pr_minimal_provenance_confidence p) @
      enc_str (pr_required_completion_state p) @ enc_bool (pr_is_required p) @
      enc_str (pr_note p))"

definition write_set :: "dependency_set \<Rightarrow> u8 list" where
  "write_set s =
     enc_id (ds_id s) @ enc_id (ds_generation s) @ enc_id (ds_owner s) @
     enc_u8 (set_operator_code (ds_op s)) @ enc_u32 (ds_at_least_n s) @
     enc_ids (ds_members s) @ enc_bool (ds_active s)"

definition write_source :: "source_registration \<Rightarrow> u8 list" where
  "write_source s =
     enc_id (sr_source s) @ enc_id (sr_boot s) @ enc_id (sr_epoch s) @ enc_bool (sr_active s)"

definition save_body :: "iteration \<Rightarrow> graph \<Rightarrow> u8 list" where
  "save_body it g =
     enc_id (gr_epoch g) @
     enc_count (um_size (gr_sources g)) @
     concat (map (write_source \<circ> snd) (um_iter (it_sources it) (gr_sources g))) @
     enc_count (um_size (gr_nodes g)) @
     concat (map (write_node \<circ> snd) (um_iter (it_nodes it) (gr_nodes g))) @
     enc_count (um_size (gr_edges g)) @
     concat (map (write_edge \<circ> snd) (um_iter (it_edges it) (gr_edges g))) @
     enc_count (um_size (gr_sets g)) @
     concat (map (write_set \<circ> snd) (um_iter (it_sets it) (gr_sets g)))"

definition save :: "iteration \<Rightarrow> graph \<Rightarrow> u8 list option" where
  "save it g =
     (let b = save_body it g in
      Some (enc_u32 snapshot_magic @ enc_u16 snapshot_version @ enc_u16 0 @
            enc_u64 (of_nat (length b)) @ enc_u64 (fnv1a b) @ b))"

section \<open>Reading\<close>

definition valid_node_kind :: "u8 \<Rightarrow> bool" where
  "valid_node_kind v \<longleftrightarrow> v \<le> node_kind_code NK_UNKNOWN"

definition valid_edge_kind :: "u8 \<Rightarrow> bool" where
  "valid_edge_kind v \<longleftrightarrow> v \<le> edge_kind_code EK_REQUIRES_GENERATION"

definition valid_state :: "u8 \<Rightarrow> bool" where
  "valid_state v \<longleftrightarrow> v \<le> readiness_state_code RS_RETIRED"

definition valid_gen_kind :: "u8 \<Rightarrow> bool" where
  "valid_gen_kind v \<longleftrightarrow> v \<le> generation_predicate_kind_code GP_NONE"

definition valid_set_op :: "u8 \<Rightarrow> bool" where
  "valid_set_op v \<longleftrightarrow> v \<le> set_operator_code SO_OPTIONAL_GROUP"

definition valid_dyn_evidence :: "u8 \<Rightarrow> bool" where
  "valid_dyn_evidence v \<longleftrightarrow> v \<le> dynamic_evidence_code DE_FRESH"

definition valid_inv_reason :: "u8 \<Rightarrow> bool" where
  "valid_inv_reason v \<longleftrightarrow> v \<le> invalidation_reason_code IR_SUPERSEDED"

type_synonym 'a checked = "(string + 'a) reader"

definition fail :: "string \<Rightarrow> 'a checked" where
  "fail msg = State_Monad.return (Inl msg)"

definition done_with :: "'a \<Rightarrow> 'a checked" where
  "done_with x = State_Monad.return (Inr x)"

text \<open>\<open>if (!b.ok()) return fail(..)\<close> looks at the flag of the reader.\<close>

definition reader_ok :: "bool reader" where
  "reader_ok = State (\<lambda>d. (de_ok d, d))"

definition dec_id :: "('tag strong) reader" where
  "dec_id = do { v \<leftarrow> dec_u64; State_Monad.return (Strong v) }"

fun read_sources :: "nat \<Rightarrow> (source_id, source_registration) umap \<Rightarrow>
    ((source_id, source_registration) umap) checked" where
  "read_sources 0 sources = done_with sources"
| "read_sources (Suc i) sources = do {
     sid \<leftarrow> dec_id; boot \<leftarrow> dec_id; ep \<leftarrow> dec_id; active \<leftarrow> dec_bool; ok \<leftarrow> reader_ok;
     if \<not> ok then fail ''truncated source''
     else if \<not> valid sid then fail ''invalid source id''
     else if um_find sid sources \<noteq> None then fail ''duplicate source id''
     else read_sources i
       (um_put sid \<lparr>sr_source = sid, sr_boot = boot, sr_epoch = ep, sr_active = active\<rparr> sources) }"

text \<open>The generation history; \<open>prev\<close> is the last value read, if any.\<close>

fun read_history :: "nat \<Rightarrow> u64 option \<Rightarrow> node_generation list \<Rightarrow> (node_generation list) checked" where
  "read_history 0 prev h = done_with h"
| "read_history (Suc i) prev h = do {
     genv \<leftarrow> dec_u64;
     if (case prev of None \<Rightarrow> False | Some p \<Rightarrow> genv \<le> p)
     then fail ''generation regression in node history''
     else read_history i (Some genv) (h @ [Strong genv]) }"

definition read_node :: "u32 \<Rightarrow> node checked" where
  "read_node how_many = do {
     i \<leftarrow> dec_id; k \<leftarrow> dec_u8; st \<leftarrow> dec_u8;
     if \<not> valid_node_kind k then fail ''invalid node kind enum''
     else if \<not> valid_state st then fail ''invalid node state enum''
     else do {
       ghist \<leftarrow> dec_u32;
       if ghist > how_many * 2 + 16 then fail ''node generation history too large''
       else do {
         rh \<leftarrow> read_history (unat ghist) None [];
         case rh of Inl msg \<Rightarrow> fail msg | Inr history \<Rightarrow> do {
         cur \<leftarrow> dec_id; art \<leftarrow> dec_id; sta \<leftarrow> dec_id; res \<leftarrow> dec_id;
         rea \<leftarrow> dec_id; inv \<leftarrow> dec_id; recov \<leftarrow> dec_id; pol \<leftarrow> dec_id;
         static \<leftarrow> dec_bool; dynamic \<leftarrow> dec_bool; de \<leftarrow> dec_u8;
         if \<not> valid_dyn_evidence de then fail ''invalid dynamic evidence enum''
         else do {
           was \<leftarrow> dec_bool; src \<leftarrow> dec_id; boot \<leftarrow> dec_id; sup \<leftarrow> dec_u32;
           if sup > how_many * 2 + 16 then fail ''superseded generation count too large''
           else do {
             superseded \<leftarrow> dec_list (unat sup) dec_id;
             capn \<leftarrow> dec_u32;
             if capn > 1024 then fail ''capability count too large''
             else do {
               caps \<leftarrow> dec_list (unat capn) (dec_str kMaxStringBytes);
               resource \<leftarrow> dec_bool; integrity \<leftarrow> dec_bool; fresh \<leftarrow> dec_bool;
               prov \<leftarrow> dec_u64; completion \<leftarrow> dec_str kMaxStringBytes; lr \<leftarrow> dec_u8;
               if \<not> valid_inv_reason lr then fail ''invalid invalidation reason enum''
               else do {
                 ever \<leftarrow> dec_bool; descr \<leftarrow> dec_str kMaxStringBytes; ok \<leftarrow> reader_ok;
                 if \<not> ok then fail ''truncated node''
                 else if \<not> valid i then fail ''invalid node id''
                 else if history \<noteq> [] \<and> cur \<noteq> last history
                 then fail ''current generation does not match history''
                 else if history = [] \<and> valid cur then fail ''current generation set without history''
                 else done_with
                   ((make_node i (node_kind_of_code k) descr)
                    \<lparr>nd_generation_history := history, nd_current_generation := cur,
                     nd_artifact_generation := art, nd_state_generation := sta,
                     nd_resource_generation := res, nd_readiness_generation := rea,
                     nd_invalidation_generation := inv, nd_recovery_generation := recov,
                     nd_policy_generation := pol, nd_state := readiness_state_of_code st,
                     nd_static_durable_fact := static, nd_dynamic_evidence := dynamic,
                     nd_recovered_evidence := the (dynamic_evidence_of_code de),
                     nd_was_ready_before_restart := was, nd_origin_source := src,
                     nd_origin_boot := boot, nd_superseded_generations := superseded,
                     nd_claimed_capabilities := caps, nd_resource_available := resource,
                     nd_integrity_valid := integrity, nd_freshness_valid := fresh,
                     nd_provenance_confidence := prov, nd_completion_state := completion,
                     nd_last_invalidation_reason := invalidation_reason_of_code lr,
                     nd_ever_invalidated := ever\<rparr>)
               }}}}}}}}"

text \<open>\<open>for (i = 0; i < count; ++i) { parse or return; v.push_back(..) }\<close>\<close>

fun read_items :: "nat \<Rightarrow> 'a checked \<Rightarrow> 'a list \<Rightarrow> ('a list) checked" where
  "read_items 0 p xs = done_with xs"
| "read_items (Suc i) p xs = do {
     r \<leftarrow> p;
     case r of Inl msg \<Rightarrow> fail msg | Inr x \<Rightarrow> read_items i p (xs @ [x]) }"

definition read_edge :: "edge checked" where
  "read_edge = do {
     i \<leftarrow> dec_id; gen \<leftarrow> dec_id; k \<leftarrow> dec_u8;
     if \<not> valid_edge_kind k then fail ''invalid edge kind enum''
     else do {
       prod \<leftarrow> dec_id; cons \<leftarrow> dec_id; bprod \<leftarrow> dec_id; bcons \<leftarrow> dec_id; active \<leftarrow> dec_bool;
       gk \<leftarrow> dec_u8;
       if \<not> valid_gen_kind gk then fail ''invalid generation predicate enum''
       else do {
         exact \<leftarrow> dec_id; minimum \<leftarrow> dec_id; cg \<leftarrow> dec_u32;
         if cg > 1024 then fail ''compatible generation count too large''
         else do {
           compat \<leftarrow> dec_list (unat cg) dec_id; rr \<leftarrow> dec_u8;
           if \<not> valid_state rr then fail ''invalid required readiness enum''
           else do {
             cap \<leftarrow> dec_str kMaxStringBytes; resource \<leftarrow> dec_bool; fresh \<leftarrow> dec_bool;
             integrity \<leftarrow> dec_bool; prov \<leftarrow> dec_u64; completion \<leftarrow> dec_str kMaxStringBytes;
             req \<leftarrow> dec_bool; note \<leftarrow> dec_str kMaxStringBytes; ok \<leftarrow> reader_ok;
             if \<not> ok then fail ''truncated edge''
             else if \<not> valid i then fail ''invalid edge id''
             else if strong_value prod = strong_value cons then fail ''illegal self-cycle''
             else done_with
               \<lparr>ed_id = i, ed_generation = gen, ed_kind = edge_kind_of_code k,
                ed_producer_id = prod, ed_consumer_id = cons,
                ed_bound_producer_generation = bprod, ed_bound_consumer_generation = bcons,
                ed_predicate =
                  \<lparr>pr_generation_kind = generation_predicate_kind_of_code gk,
                   pr_exact_generation = exact, pr_minimum_generation = minimum,
                   pr_compatible_generations = compat,
                   pr_required_readiness = readiness_state_of_code rr,
                   pr_required_capability = cap, pr_requires_resource_available = resource,
                   pr_requires_fresh = fresh, pr_requires_integrity = integrity,
                   pr_minimal_provenance_confidence = prov,
                   pr_required_completion_state = completion, pr_is_required = req,
                   pr_note = note\<rparr>,
                ed_active = active\<rparr>
           }}}}}"

definition read_set :: "dependency_set checked" where
  "read_set = do {
     i \<leftarrow> dec_id; gen \<leftarrow> dec_id; owner \<leftarrow> dec_id; op \<leftarrow> dec_u8;
     if \<not> valid_set_op op then fail ''invalid set operator enum''
     else do {
       n \<leftarrow> dec_u32; mn \<leftarrow> dec_u32;
       if mn > 1048576 then fail ''set member count too large''
       else do {
         members \<leftarrow> dec_list (unat mn) dec_id; active \<leftarrow> dec_bool; ok \<leftarrow> reader_ok;
         if \<not> ok then fail ''truncated set''
         else if \<not> valid i then fail ''invalid set id''
         else done_with \<lparr>ds_id = i, ds_generation = gen, ds_owner = owner,
           ds_op = the (set_operator_of_code op), ds_at_least_n = n, ds_members = members,
           ds_active = active\<rparr>
       }}}"

section \<open>Records are read back\<close>

text \<open>
  The contract of a record writer and its checked reader: a record within the limits of the format is
  read back whole and the rest is left; whatever is read satisfies the format's local rules.
\<close>

locale record_format =
  fixes enc :: "'a \<Rightarrow> u8 list" and dec :: "'a checked"
    and storable :: "'a \<Rightarrow> bool" and admitted :: "'a \<Rightarrow> bool"
  assumes reads_back: "storable x \<Longrightarrow>
      run_state dec \<lparr>de_left = enc x @ r, de_ok = True\<rparr> = (Inr x, \<lparr>de_left = r, de_ok = True\<rparr>)"
    and admits: "run_state dec d = (Inr x, d') \<Longrightarrow> admitted x"
begin

lemma items_back:
  "list_all storable xs \<Longrightarrow> run_state (read_items (length xs) dec ys)
     \<lparr>de_left = concat (map enc xs) @ r, de_ok = True\<rparr> = (Inr (ys @ xs), \<lparr>de_left = r, de_ok = True\<rparr>)"
  by (induction xs arbitrary: ys) (simp_all add: reads_back done_with_def)

lemma items_admitted:
  "run_state (read_items n dec ys) d = (Inr zs, d') \<Longrightarrow>
   \<exists>xs. zs = ys @ xs \<and> length xs = n \<and> list_all admitted xs"
proof (induction n arbitrary: ys d)
  case (Suc n)
  obtain v d1 where v: "run_state dec d = (v, d1)" by fastforce
  then obtain x where x: "v = Inr x" "run_state (read_items n dec (ys @ [x])) d1 = (Inr zs, d')"
    using Suc.prems by (auto simp: fail_def split: sum.splits)
  obtain xs where "zs = (ys @ [x]) @ xs" "length xs = n" "list_all admitted xs"
    using Suc.IH[OF x(2)] by blast
  then show ?case using admits[OF v[unfolded x(1)]] by (intro exI[of _ "x # xs"]) simp
qed (auto simp: done_with_def)

end

interpretation c_id: exact_codec enc_id dec_id "\<lambda>_. True"
proof
  show "sound_reader (dec_id :: 'a strong reader)" unfolding dec_id_def by (intro sound)
  fix x :: "'a strong" and p q r :: "u8 list" and d d'
  show "run_state dec_id \<lparr>de_left = enc_id x @ r, de_ok = True\<rparr> = (x, \<lparr>de_left = r, de_ok = True\<rparr>)"
    by (cases x) (simp add: dec_id_def enc_id_def reads_back)
  show "\<not> de_ok (snd (run_state (dec_id :: 'a strong reader) \<lparr>de_left = p, de_ok = True\<rparr>))"
    if "enc_id x = p @ q" "q \<noteq> []"
    using c_u64.truncated[OF TrueI that[unfolded enc_id_def]] by (simp add: dec_id_def split_def)
  show "de_left d = enc_id x @ de_left d'" if "run_state dec_id d = (x, d')" "de_ok d'"
    using that c_u64.written[of d _ d'] unfolding dec_id_def enc_id_def by (auto split: prod.splits)
qed

lemma count_back:
  assumes "n < 2 ^ 32"
  shows "run_state dec_u32 \<lparr>de_left = enc_count n @ r, de_ok = True\<rparr> = (of_nat n, \<lparr>de_left = r, de_ok = True\<rparr>)"
    "unat (of_nat n :: u32) = n"
  using assms by (simp_all add: enc_count_def reads_back unsigned_of_nat take_bit_nat_eq_self)

lemma ids_back:
  "run_state (dec_list (length ss) dec_id) \<lparr>de_left = concat (map enc_id ss) @ r, de_ok = True\<rparr> =
     (ss, \<lparr>de_left = r, de_ok = True\<rparr>)"
  by (rule c_id.list_reads_back) (simp add: list_all_iff)

lemma codes_in_range:
  "node_kind_enumerator k \<Longrightarrow> valid_node_kind (node_kind_code k)"
  "edge_kind_enumerator e \<Longrightarrow> valid_edge_kind (edge_kind_code e)"
  "readiness_state_enumerator s \<Longrightarrow> valid_state (readiness_state_code s)"
  "generation_predicate_kind_enumerator p \<Longrightarrow> valid_gen_kind (generation_predicate_kind_code p)"
  "invalidation_reason_enumerator r \<Longrightarrow> valid_inv_reason (invalidation_reason_code r)"
  "valid_set_op (set_operator_code sop)" "valid_dyn_evidence (dynamic_evidence_code de)"
  subgoal by (cases k; simp add: valid_node_kind_def node_kind_enumerator_def)
  subgoal by (cases e; simp add: valid_edge_kind_def edge_kind_enumerator_def)
  subgoal by (cases s; simp add: valid_state_def readiness_state_enumerator_def)
  subgoal by (cases p; simp add: valid_gen_kind_def generation_predicate_kind_enumerator_def)
  subgoal by (cases r; simp add: valid_inv_reason_def invalidation_reason_enumerator_def)
  subgoal by (cases sop; simp add: valid_set_op_def)
  subgoal by (cases de; simp add: valid_dyn_evidence_def)
  done

lemmas codes_back = node_kind_of_code_code edge_kind_of_code_code readiness_state_of_code_code
  generation_predicate_kind_of_code_code invalidation_reason_of_code_code

lemma plain_codes_back [simp]:
  "set_operator_of_code (set_operator_code sop) = Some sop"
  "dynamic_evidence_of_code (dynamic_evidence_code de) = Some de"
  by (cases sop; simp add: set_operator_of_code_def) (cases de; simp add: dynamic_evidence_of_code_def)

text \<open>The limits of the format on a node of a graph of \<open>k\<close> nodes, an edge and a set.\<close>

definition lineage_ok :: "node \<Rightarrow> bool" where
  "lineage_ok n \<longleftrightarrow> sorted_wrt (<) (nd_generation_history n) \<and>
     (if nd_generation_history n = [] then \<not> valid (nd_current_generation n)
      else nd_current_generation n = last (nd_generation_history n))"

definition short_string :: "string \<Rightarrow> bool" where
  "short_string s \<longleftrightarrow> length s \<le> unat kMaxStringBytes"

definition admitted_node :: "node \<Rightarrow> bool" where
  "admitted_node n \<longleftrightarrow> valid (nd_id n) \<and> node_kind_enumerator (nd_kind n) \<and>
     readiness_state_enumerator (nd_state n) \<and>
     invalidation_reason_enumerator (nd_last_invalidation_reason n) \<and> lineage_ok n"

definition storable_node :: "nat \<Rightarrow> node \<Rightarrow> bool" where
  "storable_node k n \<longleftrightarrow> admitted_node n \<and> length (nd_generation_history n) \<le> 2 * k + 16 \<and>
     length (nd_superseded_generations n) \<le> 2 * k + 16 \<and>
     length (nd_claimed_capabilities n) \<le> 1024 \<and> list_all short_string (nd_claimed_capabilities n) \<and>
     short_string (nd_completion_state n) \<and> short_string (nd_descriptor n)"

definition admitted_edge :: "edge \<Rightarrow> bool" where
  "admitted_edge e \<longleftrightarrow> valid (ed_id e) \<and> edge_kind_enumerator (ed_kind e) \<and>
     ed_producer_id e \<noteq> ed_consumer_id e \<and>
     generation_predicate_kind_enumerator (pr_generation_kind (ed_predicate e)) \<and>
     readiness_state_enumerator (pr_required_readiness (ed_predicate e))"

definition storable_edge :: "edge \<Rightarrow> bool" where
  "storable_edge e \<longleftrightarrow> admitted_edge e \<and>
     length (pr_compatible_generations (ed_predicate e)) \<le> 1024 \<and>
     short_string (pr_required_capability (ed_predicate e)) \<and>
     short_string (pr_required_completion_state (ed_predicate e)) \<and>
     short_string (pr_note (ed_predicate e))"

definition admitted_set :: "dependency_set \<Rightarrow> bool" where
  "admitted_set s \<longleftrightarrow> valid (ds_id s)"

definition storable_set :: "dependency_set \<Rightarrow> bool" where
  "storable_set s \<longleftrightarrow> admitted_set s \<and> length (ds_members s) \<le> 1048576"

lemma enc_id_Strong: "enc_id (Strong v) = enc_u64 v"
  by (simp add: enc_id_def)

lemma read_history_back:
  assumes "sorted_wrt (<) (case prev of None \<Rightarrow> h | Some p \<Rightarrow> Strong p # h)"
  shows "run_state (read_history (length h) prev acc) \<lparr>de_left = concat (map enc_id h) @ r, de_ok = True\<rparr> =
    (Inr (acc @ h), \<lparr>de_left = r, de_ok = True\<rparr>)"
  using assms
proof (induction h arbitrary: prev acc)
  case (Cons x h)
  obtain v where x: "x = Strong v" by (cases x)
  have "sorted_wrt (<) (Strong v # h)" using Cons.prems by (auto simp: x split: option.splits)
  then have "run_state (read_history (length h) (Some v) (acc @ [x]))
      \<lparr>de_left = concat (map enc_id h) @ r, de_ok = True\<rparr> = (Inr ((acc @ [x]) @ h), \<lparr>de_left = r, de_ok = True\<rparr>)"
    by (intro Cons.IH) simp
  moreover have "(case prev of None \<Rightarrow> False | Some p \<Rightarrow> v \<le> p) = False"
    using Cons.prems by (cases prev) (auto simp: x less_strong_def)
  ultimately show ?case by (simp add: x enc_id_Strong reads_back)
qed (simp add: done_with_def)

lemma count_limit:
  assumes "a \<le> 2 * k + 16" and "k \<le> 2 ^ 24"
  shows "\<not> (of_nat k * 2 + 16 :: u32) < of_nat a"
proof -
  have "(of_nat k * 2 + 16 :: u32) = of_nat (2 * k + 16)" by simp
  moreover have "unat (of_nat (2 * k + 16) :: u32) = 2 * k + 16" "unat (of_nat a :: u32) = a"
    using assms by (simp_all only: unsigned_of_nat) (simp_all add: take_bit_nat_eq_self)
  ultimately show ?thesis using assms(1) by (simp only: word_less_nat_alt not_less)
qed

lemma small_limit:
  assumes "a \<le> l" and "l < 2 ^ 32"
  shows "\<not> (of_nat l :: u32) < of_nat a"
  using assms by (simp add: word_less_nat_alt unsigned_of_nat take_bit_nat_eq_self)

lemma strings_back:
  "list_all short_string ss \<Longrightarrow> run_state (dec_list (length ss) (dec_str kMaxStringBytes))
     \<lparr>de_left = concat (map enc_str ss) @ r, de_ok = True\<rparr> = (ss, \<lparr>de_left = r, de_ok = True\<rparr>)"
  by (rule c_str.list_reads_back) (auto simp: short_string_def list_all_iff)

lemma string_back:
  "short_string s \<Longrightarrow> run_state (dec_str kMaxStringBytes) \<lparr>de_left = enc_str s @ r, de_ok = True\<rparr> =
     (s, \<lparr>de_left = r, de_ok = True\<rparr>)"
  by (rule c_str.reads_back) (simp add: short_string_def)

lemmas fields_back = c_id.reads_back[OF TrueI] c_u8.reads_back[OF TrueI] c_u32.reads_back[OF TrueI]
  c_u64.reads_back[OF TrueI] c_bool.reads_back[OF TrueI] string_back

lemma reader_ok_run [simp]: "run_state reader_ok d = (de_ok d, d)"
  by (simp add: reader_ok_def)

lemma read_set_back:
  assumes "storable_set s"
  shows "run_state read_set \<lparr>de_left = write_set s @ r, de_ok = True\<rparr> = (Inr s, \<lparr>de_left = r, de_ok = True\<rparr>)"
proof -
  have len: "length (ds_members s) < 2 ^ 32" "\<not> (1048576 :: u32) < of_nat (length (ds_members s))"
    and ok: "valid (ds_id s)"
    using assms small_limit[of "length (ds_members s)" 1048576] by (simp_all add: storable_set_def admitted_set_def)
  then show ?thesis
    by (simp add: read_set_def write_set_def enc_ids_def fields_back count_back[OF len(1)] ids_back
        codes_in_range done_with_def)
qed

lemma read_edge_back:
  assumes "storable_edge e"
  shows "run_state read_edge \<lparr>de_left = write_edge e @ r, de_ok = True\<rparr> = (Inr e, \<lparr>de_left = r, de_ok = True\<rparr>)"
proof -
  let ?gs = "pr_compatible_generations (ed_predicate e)"
  have len: "length ?gs < 2 ^ 32" "\<not> (1024 :: u32) < of_nat (length ?gs)"
    using assms small_limit[of "length ?gs" 1024] by (simp_all add: storable_edge_def)
  have "strong_value (ed_producer_id e) \<noteq> strong_value (ed_consumer_id e)"
    using assms by (auto simp: storable_edge_def admitted_edge_def strong.expand)
  then show ?thesis
    using assms
    by (simp add: read_edge_def write_edge_def enc_ids_def Let_def fields_back count_back[OF len(1)] len(2)
        ids_back codes_in_range codes_back done_with_def storable_edge_def admitted_edge_def)
qed

lemma read_node_back:
  assumes n: "storable_node k n" and k: "k \<le> 2 ^ 24"
  shows "run_state (read_node (of_nat k)) \<lparr>de_left = write_node n @ r, de_ok = True\<rparr> =
    (Inr n, \<lparr>de_left = r, de_ok = True\<rparr>)"
proof -
  let ?h = "nd_generation_history n" and ?s = "nd_superseded_generations n" and ?c = "nd_claimed_capabilities n"
  have len: "length ?h \<le> 2 * k + 16" "length ?s \<le> 2 * k + 16" "length ?c \<le> 1024"
    using n by (simp_all add: storable_node_def)
  note limits = count_limit[OF len(1) k] count_limit[OF len(2) k]
  have bound: "length ?h < 2 ^ 32" "length ?s < 2 ^ 32" "length ?c < 2 ^ 32"
    and caps: "\<not> (1024 :: u32) < of_nat (length ?c)"
    using len k small_limit[OF len(3)] by simp_all
  have hist: "run_state (read_history (length ?h) None []) \<lparr>de_left = concat (map enc_id ?h) @ r, de_ok = True\<rparr> =
      (Inr ?h, \<lparr>de_left = r, de_ok = True\<rparr>)" for r
    using n by (subst read_history_back) (simp_all add: storable_node_def admitted_node_def lineage_ok_def)
  show ?thesis
    using n
    by (simp add: read_node_def write_node_def enc_ids_def fields_back count_back[OF bound(1)]
        count_back[OF bound(2)] count_back[OF bound(3)] limits caps hist ids_back strings_back
        codes_in_range codes_back done_with_def make_node_def storable_node_def admitted_node_def lineage_ok_def)
      (auto split: if_splits)
qed

section \<open>What a reader admits\<close>

definition yields :: "('a \<Rightarrow> bool) \<Rightarrow> 'a checked \<Rightarrow> bool" where
  "yields P p \<longleftrightarrow> (\<forall>d x d'. run_state p d = (Inr x, d') \<longrightarrow> P x)"

named_theorems yields_rules \<open>what a checked reader yields\<close>

lemma yieldsD: "yields P p \<Longrightarrow> run_state p d = (Inr x, d') \<Longrightarrow> P x"
  by (auto simp: yields_def)

lemma yields_fail [yields_rules]: "yields P (fail msg)"
  by (simp add: yields_def fail_def)

lemma yields_done [yields_rules]: "P x \<Longrightarrow> yields P (done_with x)"
  by (simp add: yields_def done_with_def)

lemma yields_bind [yields_rules]: "(\<And>x. yields P (f x)) \<Longrightarrow> yields P (State_Monad.bind p f)"
  by (auto simp: yields_def split: prod.splits)

lemma yields_if [yields_rules]:
  "(c \<Longrightarrow> yields P p) \<Longrightarrow> (\<not> c \<Longrightarrow> yields P q) \<Longrightarrow> yields P (if c then p else q)"
  by simp

lemma yields_checked:
  assumes "yields Q p" and "\<And>x. Q x \<Longrightarrow> yields P (f x)"
  shows "yields P (State_Monad.bind p (\<lambda>r. case r of Inl msg \<Rightarrow> fail msg | Inr x \<Rightarrow> f x))"
  using assms unfolding yields_def by (force simp: fail_def split: prod.splits sum.splits)

text \<open>What a plain reader gives, also at the end of the input.\<close>

definition gives :: "('a \<Rightarrow> bool) \<Rightarrow> 'a reader \<Rightarrow> bool" where
  "gives P p \<longleftrightarrow> (\<forall>d. P (fst (run_state p d)))"

lemma gives_str: "gives (\<lambda>s. length s \<le> unat cap) (dec_str cap)"
  by (auto simp: gives_def dec_str_def not_less word_le_nat_alt split: prod.splits)

lemma gives_list: "gives P p \<Longrightarrow> gives (\<lambda>xs. length xs = n \<and> list_all P xs) (dec_list n p)"
  unfolding gives_def
proof (induction n)
  case (Suc n)
  have "length (fst (run_state (dec_list n p) d)) = n \<and> list_all P (fst (run_state (dec_list n p) d))" for d
    using Suc.IH[OF Suc.prems] by blast
  then show ?case using Suc.prems by (auto split: prod.splits) (metis fst_conv)+
qed simp

lemma yields_gives:
  assumes "gives Q p" and "\<And>x. Q x \<Longrightarrow> yields P (f x)"
  shows "yields P (State_Monad.bind p f)"
  using assms unfolding yields_def gives_def by (auto split: prod.splits) (metis fst_conv)

lemma gives_any: "gives (\<lambda>_. True) p"
  by (simp add: gives_def)

lemmas yields_string = yields_gives[OF gives_str]
lemmas yields_strings = yields_gives[OF gives_list[OF gives_str]]
lemmas yields_ids = yields_gives[OF gives_list[OF gives_any[of dec_id]]]

lemma yields_history:
  assumes "sorted_wrt (<) acc" and "case prev of None \<Rightarrow> acc = [] | Some p \<Rightarrow> acc \<noteq> [] \<and> last acc = Strong p"
  shows "yields (\<lambda>h. sorted_wrt (<) h \<and> length h = length acc + n) (read_history n prev acc)"
  using assms
proof (induction n arbitrary: prev acc)
  case (Suc n)
  have "sorted_wrt (<) (acc @ [Strong v])" if "\<not> (case prev of None \<Rightarrow> False | Some p \<Rightarrow> v \<le> p)" for v
    using that Suc.prems
    by (cases prev) (auto simp: not_le intro!: sorted_wrt_snoc_last, simp add: less_strong_def)
  then have "yields (\<lambda>h. sorted_wrt (<) h \<and> length h = length (acc @ [Strong v]) + n)
      (read_history n (Some v) (acc @ [Strong v]))"
    if "\<not> (case prev of None \<Rightarrow> False | Some p \<Rightarrow> v \<le> p)" for v
    using that by (intro Suc.IH) auto
  then show ?case by (auto intro!: yields_rules)
qed (auto intro: yields_rules)

lemma code_ranges:
  "valid_node_kind k \<Longrightarrow> node_kind_enumerator (node_kind_of_code k)"
  "valid_edge_kind k \<Longrightarrow> edge_kind_enumerator (edge_kind_of_code k)"
  "valid_state k \<Longrightarrow> readiness_state_enumerator (readiness_state_of_code k)"
  "valid_gen_kind k \<Longrightarrow> generation_predicate_kind_enumerator (generation_predicate_kind_of_code k)"
  "valid_inv_reason k \<Longrightarrow> invalidation_reason_enumerator (invalidation_reason_of_code k)"
  apply (auto simp: valid_node_kind_def valid_edge_kind_def valid_state_def valid_gen_kind_def
      valid_inv_reason_def node_kind_of_code_def edge_kind_of_code_def readiness_state_of_code_def
      generation_predicate_kind_of_code_def invalidation_reason_of_code_def node_kind_enumerator_def
      edge_kind_enumerator_def readiness_state_enumerator_def generation_predicate_kind_enumerator_def
      invalidation_reason_enumerator_def word_unat_eq_iff word_le_nat_alt)
  apply presburger+
  done

text \<open>The limits are tested in 32 bits; they are exact up to 2^24 nodes.\<close>

lemma limit_unat: "k \<le> 2 ^ 24 \<Longrightarrow> unat (of_nat k * 2 + 16 :: u32) = 2 * k + 16"
  by (simp add: unat_word_ariths unat_of_nat)

lemma yields_node: "k \<le> 2 ^ 24 \<Longrightarrow> yields (storable_node k) (read_node (of_nat k))"
  unfolding read_node_def
  by (intro yields_string yields_strings yields_ids yields_rules
      yields_checked[OF yields_history[where acc = "[]" and prev = None]])
    (auto simp: storable_node_def admitted_node_def lineage_ok_def code_ranges make_node_def short_string_def
      limit_unat word_le_nat_alt not_less list_all_iff)

lemma yields_edge: "yields storable_edge read_edge"
  unfolding read_edge_def
  by (intro yields_string yields_ids yields_rules)
    (auto simp: storable_edge_def admitted_edge_def code_ranges short_string_def word_le_nat_alt not_less)

lemma yields_set: "yields storable_set read_set"
  unfolding read_set_def
  by (intro yields_ids yields_rules) (auto simp: storable_set_def admitted_set_def word_le_nat_alt not_less)

interpretation node_format: record_format write_node "read_node (of_nat k)"
    "\<lambda>n. storable_node k n \<and> k \<le> 2 ^ 24" "\<lambda>n. k \<le> 2 ^ 24 \<longrightarrow> storable_node k n" for k
  by unfold_locales (auto intro: read_node_back yieldsD[OF yields_node])

interpretation edge_format: record_format write_edge read_edge storable_edge storable_edge
  by unfold_locales (auto intro: read_edge_back yieldsD[OF yields_edge])

interpretation set_format: record_format write_set read_set storable_set storable_set
  by unfold_locales (auto intro: read_set_back yieldsD[OF yields_set])

lemma um_put_new: "um_find k m = None \<Longrightarrow> um_put k v m = m @ [(k, v)]"
  by (induction m) (auto simp: um_put_def um_find_def split: if_splits)

definition source_map_ok :: "(source_id, source_registration) umap \<Rightarrow> bool" where
  "source_map_ok m \<longleftrightarrow> um_wf m \<and> list_all (\<lambda>(k, s). valid k \<and> sr_source s = k) m"

lemma yields_sources:
  assumes "source_map_ok m"
  shows "yields (\<lambda>m'. source_map_ok m' \<and> length m' = length m + n) (read_sources n m)"
  using assms
proof (induction n arbitrary: m)
  case (Suc n)
  have step: "source_map_ok (um_put k s m) \<and> length (um_put k s m) = Suc (length m)"
    if "um_find k m = None" "valid k" "sr_source s = k" for k s
    using that Suc.prems um.wf_put[of m k s] by (simp add: source_map_ok_def um_put_new)
  have "yields (\<lambda>m'. source_map_ok m' \<and> length m' = length m + Suc n) (read_sources n (um_put k s m))"
    if "um_find k m = None" "valid k" "sr_source s = k" for k s
    using Suc.IH[of "um_put k s m"] step[OF that] by simp
  then show ?case unfolding read_sources.simps by (intro yields_rules) simp_all
qed (auto intro: yields_rules)

lemma read_sources_back:
  assumes "distinct (map fst (m @ kvs))" and "list_all (\<lambda>(k, s). valid k \<and> sr_source s = k) kvs"
  shows "run_state (read_sources (length kvs) m)
     \<lparr>de_left = concat (map (write_source \<circ> snd) kvs) @ r, de_ok = True\<rparr> =
     (Inr (m @ kvs), \<lparr>de_left = r, de_ok = True\<rparr>)"
  using assms
proof (induction kvs arbitrary: m)
  case (Cons kv kvs)
  obtain k s where kv: "kv = (k, s)" by fastforce
  have k: "valid k" "sr_source s = k" "k \<notin> fst ` set m" using Cons.prems by (auto simp: kv)
  then have new: "um_find k m = None" by (simp add: um_find_def map_of_eq_None_iff)
  have put: "um_put k v m = m @ [(k, v)]" for v by (rule um_put_new[OF new])
  have "run_state (read_sources (length kvs) (m @ [kv]))
      \<lparr>de_left = concat (map (write_source \<circ> snd) kvs) @ r, de_ok = True\<rparr> =
      (Inr ((m @ [kv]) @ kvs), \<lparr>de_left = r, de_ok = True\<rparr>)"
    by (rule Cons.IH) (use Cons.prems in auto)
  moreover have s: "\<lparr>sr_source = k, sr_boot = sr_boot s, sr_epoch = sr_epoch s, sr_active = sr_active s\<rparr> = s"
    using k(2) by (cases s) simp
  ultimately show ?case
    using k(1,2) new by (simp add: kv write_source_def fields_back put comp_def s)
qed (simp add: done_with_def)

end
