(* ===== verification/Loading.thy ===== *)
theory Loading
  imports Snapshot
begin

text \<open>
  \<open>Persistence::load\<close>, the file operations and the digest of \<open>src/persistence/format.cpp\<close>. Loading
  parses the header and the body with early returns, validates identities, endpoints and sets, builds
  a temporary graph to test it for cycles, and only then commits it into the target graph, where
  dynamic evidence is demoted and every node recomputed. The result is the outcome, the text left in
  \<open>*error\<close> and the target graph; \<open>None\<close> stands for a loop that does not end, which is proved
  never to happen.
\<close>

section \<open>Parsing\<close>

record payload =
  pl_epoch :: u64
  pl_sources :: "(source_id, source_registration) umap"
  pl_nodes :: "node list"
  pl_edges :: "edge list"
  pl_sets :: "dependency_set list"

definition read_body :: "payload checked" where
  "read_body = do {
     epoch \<leftarrow> dec_u64; source_total \<leftarrow> dec_u32;
     if source_total > kMaxCollectionItems then fail ''source count too large''
     else do {
       rs \<leftarrow> read_sources (unat source_total) [];
       case rs of Inl msg \<Rightarrow> fail msg | Inr sources \<Rightarrow> do {
       node_total \<leftarrow> dec_u32;
       if node_total > kMaxCollectionItems then fail ''node count too large''
       else do {
         rn \<leftarrow> read_items (unat node_total) (read_node node_total) [];
         case rn of Inl msg \<Rightarrow> fail msg | Inr nodes \<Rightarrow> do {
         edge_total \<leftarrow> dec_u32;
         if edge_total > kMaxCollectionItems then fail ''edge count too large''
         else do {
           re \<leftarrow> read_items (unat edge_total) read_edge [];
           case re of Inl msg \<Rightarrow> fail msg | Inr edges \<Rightarrow> do {
           set_total \<leftarrow> dec_u32;
           if set_total > kMaxCollectionItems then fail ''set count too large''
           else do {
             rt \<leftarrow> read_items (unat set_total) read_set [];
             case rt of Inl msg \<Rightarrow> fail msg | Inr sets \<Rightarrow> do {
             ok \<leftarrow> reader_ok;
             if \<not> ok then fail ''truncated body''
             else done_with \<lparr>pl_epoch = epoch, pl_sources = sources, pl_nodes = nodes,
                             pl_edges = edges, pl_sets = sets\<rparr> }}}}}}}}}"

section \<open>Validation\<close>

fun check_endpoints :: "node_id set \<Rightarrow> edge list \<Rightarrow> string option" where
  "check_endpoints ns [] = None"
| "check_endpoints ns (e # es) =
     (if ed_producer_id e \<notin> ns then Some ''broken edge endpoint (producer)''
      else if ed_consumer_id e \<notin> ns then Some ''broken edge endpoint (consumer)''
      else check_endpoints ns es)"

fun check_sets :: "node_id set \<Rightarrow> edge_id set \<Rightarrow> dependency_set list \<Rightarrow> string option" where
  "check_sets ns es [] = None"
| "check_sets ns es (s # ss) =
     (if ds_owner s \<notin> ns then Some ''set owner missing''
      else if ds_members s = [] \<and> ds_op s \<noteq> SO_OPTIONAL_GROUP then Some ''empty non-optional set''
      else if \<not> list_all (\<lambda>m. m \<in> es) (ds_members s) then Some ''set member edge missing''
      else check_sets ns es ss)"

definition check_payload :: "payload \<Rightarrow> string option" where
  "check_payload p =
     (let ns = map nd_id (pl_nodes p); es = map ed_id (pl_edges p) in
      if \<not> distinct ns then Some ''duplicate node id''
      else if \<not> distinct es then Some ''duplicate edge id''
      else case check_endpoints (set ns) (pl_edges p) of
        Some msg \<Rightarrow> Some msg
      | None \<Rightarrow> check_sets (set ns) (set es) (pl_sets p))"

text \<open>The temporary graph, with its indexes.\<close>

definition staged :: "iteration \<Rightarrow> payload \<Rightarrow> graph" where
  "staged it p =
     rebuild_indexes_locked it (empty_graph
       \<lparr>gr_epoch := Strong (pl_epoch p),
        gr_sources := fold (\<lambda>kv. um_put (fst kv) (snd kv)) (um_iter (it_sources it) (pl_sources p)) [],
        gr_nodes := fold (\<lambda>n. um_put (nd_id n) n) (pl_nodes p) [],
        gr_edges := fold (\<lambda>e. um_put (ed_id e) e) (pl_edges p) [],
        gr_sets := fold (\<lambda>s. um_put (ds_id s) s) (pl_sets p) []\<rparr>)"

section \<open>Committing\<close>

definition demote_node :: "node \<Rightarrow> node" where
  "demote_node n =
     (if nd_dynamic_evidence n
      then n\<lparr>nd_recovered_evidence := DE_REVALIDATION_REQUIRED,
             nd_state := RS_REVALIDATION_REQUIRED, nd_was_ready_before_restart := True\<rparr>
      else n\<lparr>nd_recovered_evidence := DE_FRESH\<rparr>)"

definition restart_nodes :: "graph \<Rightarrow> graph" where
  "restart_nodes g = g\<lparr>gr_nodes := map (\<lambda>(i, n). (i, demote_node n)) (gr_nodes g)\<rparr>"

definition commit_load :: "iteration \<Rightarrow> payload \<Rightarrow> graph \<Rightarrow> graph \<Rightarrow> graph option" where
  "commit_load it p tmp g =
     recompute_all_locked it (restart_nodes (rebuild_indexes_locked it
       (g\<lparr>gr_epoch := Strong (pl_epoch p), gr_sources := gr_sources tmp, gr_nodes := gr_nodes tmp,
          gr_edges := gr_edges tmp, gr_sets := gr_sets tmp\<rparr>)))"

record snapshot_header =
  sh_magic :: u32
  sh_version :: u16
  sh_flags :: u16
  sh_body_len :: u64
  sh_body_hash :: u64

definition read_snapshot_header :: "snapshot_header reader" where
  "read_snapshot_header = do {
     magic \<leftarrow> dec_u32; version \<leftarrow> dec_u16; flags \<leftarrow> dec_u16; len \<leftarrow> dec_u64; hash \<leftarrow> dec_u64;
     State_Monad.return \<lparr>sh_magic = magic, sh_version = version, sh_flags = flags,
       sh_body_len = len, sh_body_hash = hash\<rparr> }"

text \<open>The checks of the header and the digest; they give the body.\<close>

definition open_snapshot :: "u8 list \<Rightarrow> string + u8 list" where
  "open_snapshot bytes =
     (if length bytes < 8 + 8 + 8 + 8 then Inl ''payload too small''
      else case run_state read_snapshot_header (new_decoder bytes) of (h, d) \<Rightarrow>
        if \<not> de_ok d then Inl ''truncated header''
        else if sh_magic h \<noteq> snapshot_magic then Inl ''bad magic''
        else if sh_version h \<noteq> snapshot_version then Inl ''unsupported version''
        else
          let pos = length bytes - length (de_left d) in
          if unat (sh_body_len h) > length bytes \<or> pos + unat (sh_body_len h) \<noteq> length bytes
          then Inl ''body length mismatch / trailing garbage''
          else if fnv1a (drop pos bytes) \<noteq> sh_body_hash h
          then Inl ''content digest mismatch (corruption)''
          else Inr (drop pos bytes))"

definition load :: "iteration \<Rightarrow> u8 list \<Rightarrow> graph option \<Rightarrow>
    (outcome \<times> string \<times> graph option) option" where
  "load it bytes target =
     (let refuse = (\<lambda>msg. Some (OC_REJECT_MALFORMED, msg, target)) in
      case target of
        None \<Rightarrow> refuse ''null graph''
      | Some g \<Rightarrow>
          (case open_snapshot bytes of
             Inl msg \<Rightarrow> refuse msg
           | Inr body \<Rightarrow>
               (case fst (run_state read_body (new_decoder body)) of
                  Inl msg \<Rightarrow> refuse msg
                | Inr p \<Rightarrow>
                    (case check_payload p of
                       Some msg \<Rightarrow> refuse msg
                     | None \<Rightarrow>
                         let tmp = staged it p in
                         (case acyclic_query it tmp of
                            None \<Rightarrow> None
                          | Some False \<Rightarrow> refuse ''cyclic DAG reconstruction''
                          | Some True \<Rightarrow>
                              map_option (\<lambda>g'. (OC_ACCEPTED, [], Some g')) (commit_load it p tmp g))))))"

section \<open>Files and digests\<close>

text \<open>
  The file system as \<open>std::ofstream\<close> and \<open>std::ifstream\<close> show it: whether a path can be opened for
  writing, whether a write to it succeeds, and the bytes a path reads back (\<open>None\<close> when it cannot be
  opened, a failing read when the file yields fewer bytes than its end position says).
\<close>

record file_system =
  fs_can_open :: "string \<Rightarrow> bool"
  fs_can_write :: "string \<Rightarrow> bool"
  fs_end :: "string \<Rightarrow> int option"
  fs_bytes :: "string \<Rightarrow> u8 list"

definition save_file :: "file_system \<Rightarrow> iteration \<Rightarrow> graph \<Rightarrow> string \<Rightarrow>
    outcome \<times> string \<times> u8 list option" where
  "save_file fs it g path =
     (case save it g of
        None \<Rightarrow> (OC_REJECT_MALFORMED, [], None)
      | Some bytes \<Rightarrow>
          if \<not> fs_can_open fs path then (OC_REJECT_MALFORMED, ''cannot open '' @ path, None)
          else if \<not> fs_can_write fs path then (OC_REJECT_MALFORMED, ''write failed for '' @ path, None)
          else (OC_ACCEPTED, [], Some bytes))"

definition load_file :: "file_system \<Rightarrow> iteration \<Rightarrow> string \<Rightarrow> graph option \<Rightarrow>
    (outcome \<times> string \<times> graph option) option" where
  "load_file fs it path target =
     (case fs_end fs path of
        None \<Rightarrow> Some (OC_REJECT_MALFORMED, ''cannot open '' @ path, target)
      | Some stop \<Rightarrow>
          if stop \<le> 0 then Some (OC_REJECT_MALFORMED, ''empty file '' @ path, target)
          else if length (fs_bytes fs path) < nat stop
          then Some (OC_REJECT_MALFORMED, ''read failed for '' @ path, target)
          else load it (take (nat stop) (fs_bytes fs path)) target)"

definition serialize :: "iteration \<Rightarrow> graph \<Rightarrow> u8 list option" where
  "serialize it g = save it g"

definition digest :: "iteration \<Rightarrow> graph \<Rightarrow> u64" where
  "digest it g = (case serialize it g of None \<Rightarrow> 0 | Some bytes \<Rightarrow> fnv1a bytes)"

section \<open>Rebuilt indexes\<close>

lemma index_edge_fold:
  "ix_at v (gr_out_edges (fold index_edge kvs g)) =
     ix_at v (gr_out_edges g) @ map fst (filter (\<lambda>kv. ed_active (snd kv) \<and> ed_producer_id (snd kv) = v) kvs)"
  "ix_at v (gr_in_edges (fold index_edge kvs g)) =
     ix_at v (gr_in_edges g) @ map fst (filter (\<lambda>kv. ed_active (snd kv) \<and> ed_consumer_id (snd kv) = v) kvs)"
  by (induction kvs arbitrary: g) (auto simp: index_edge_def)

lemma index_set_fold:
  "ix_at v (gr_node_sets (fold index_set kvs g)) =
     ix_at v (gr_node_sets g) @ map fst (filter (\<lambda>kv. ds_active (snd kv) \<and> ds_owner (snd kv) = v) kvs)"
  by (induction kvs arbitrary: g) (auto simp: index_set_def)

definition with_indexes :: "graph \<Rightarrow> graph \<Rightarrow> graph" where
  "with_indexes h g = g\<lparr>gr_out_edges := gr_out_edges h, gr_in_edges := gr_in_edges h,
     gr_node_sets := gr_node_sets h\<rparr>"

lemma index_with:
  "index_edge kv (with_indexes h g) = with_indexes (index_edge kv h) g"
  "index_set kv' (with_indexes h g) = with_indexes (index_set kv' h) g"
  by (simp_all add: index_edge_def index_set_def with_indexes_def)

lemma fold_index_with:
  "fold index_edge kvs (with_indexes h g) = with_indexes (fold index_edge kvs h) g"
  "fold index_set kvs' (with_indexes h g) = with_indexes (fold index_set kvs' h) g"
  by (induction kvs arbitrary: h) (simp_all add: index_with,
     induction kvs' arbitrary: h, simp_all add: index_with)

lemma with_indexes_frame [simp]:
  "gr_nodes (with_indexes h g) = gr_nodes g" "gr_edges (with_indexes h g) = gr_edges g"
  "gr_sets (with_indexes h g) = gr_sets g" "gr_sources (with_indexes h g) = gr_sources g"
  "gr_epoch (with_indexes h g) = gr_epoch g" "gr_adapter (with_indexes h g) = gr_adapter g"
  by (simp_all add: with_indexes_def)

text \<open>The new indexes are a function of the edges, the sets and the iteration order.\<close>

lemma rebuild_with:
  "rebuild_indexes_locked it g = with_indexes (rebuild_indexes_locked it
     (empty_graph\<lparr>gr_edges := gr_edges g, gr_sets := gr_sets g\<rparr>)) g"
proof -
  have "g\<lparr>gr_out_edges := [], gr_in_edges := [], gr_node_sets := []\<rparr> =
      with_indexes (empty_graph\<lparr>gr_edges := gr_edges g, gr_sets := gr_sets g, gr_out_edges := [],
        gr_in_edges := [], gr_node_sets := []\<rparr>) g"
    by (simp add: with_indexes_def)
  then show ?thesis unfolding rebuild_indexes_locked_def by (simp only: fold_index_with) simp
qed

lemma rebuild_frame [simp]:
  "gr_nodes (rebuild_indexes_locked it g) = gr_nodes g"
  "gr_edges (rebuild_indexes_locked it g) = gr_edges g"
  "gr_sets (rebuild_indexes_locked it g) = gr_sets g"
  "gr_sources (rebuild_indexes_locked it g) = gr_sources g"
  "gr_epoch (rebuild_indexes_locked it g) = gr_epoch g"
  "gr_adapter (rebuild_indexes_locked it g) = gr_adapter g"
  by (subst rebuild_with, simp)+

lemma fold_set_edges [simp]:
  "gr_out_edges (fold index_set kvs g) = gr_out_edges g" "gr_in_edges (fold index_set kvs g) = gr_in_edges g"
  "gr_node_sets (fold index_edge kvs' g) = gr_node_sets g"
  by (induction kvs arbitrary: g) (auto simp: index_set_def,
     induction kvs' arbitrary: g, auto simp: index_edge_def)

lemma rebuild_at:
  "out_at (rebuild_indexes_locked it g) v =
     map fst (filter (\<lambda>kv. ed_active (snd kv) \<and> ed_producer_id (snd kv) = v) (um_iter (it_edges it) (gr_edges g)))"
  "in_at (rebuild_indexes_locked it g) v =
     map fst (filter (\<lambda>kv. ed_active (snd kv) \<and> ed_consumer_id (snd kv) = v) (um_iter (it_edges it) (gr_edges g)))"
  "ix_at v (gr_node_sets (rebuild_indexes_locked it g)) =
     map fst (filter (\<lambda>kv. ds_active (snd kv) \<and> ds_owner (snd kv) = v) (um_iter (it_sets it) (gr_sets g)))"
  by (simp_all add: rebuild_indexes_locked_def index_edge_fold index_set_fold)

lemma iter_filter_mem:
  assumes "is_order \<pi>"
  shows "i \<in> set (map fst (filter (\<lambda>kv. P (snd kv)) (um_iter \<pi> m))) \<longleftrightarrow>
     (\<exists>x. um_find i m = Some x \<and> P x)"
proof -
  have "i \<in> set (map fst (filter (\<lambda>kv. P (snd kv)) (um_iter \<pi> m))) \<longleftrightarrow>
      (\<exists>x. (i, x) \<in> set (um_iter \<pi> m) \<and> P x)"
    by force
  then show ?thesis by (simp only: um_iter_mem[OF assms])
qed

lemma rebuild_indexed:
  assumes it: "iteration_ok it" and wf: "um_wf (gr_edges g)" "um_wf (gr_sets g)"
  shows "index_exact (rebuild_indexes_locked it g)" "set_index_ok (rebuild_indexes_locked it g)"
proof -
  have o: "is_order (it_edges it)" "is_order (it_sets it)" using it by (auto simp: iteration_ok_def)
  note d = distinct_map_filter[OF um_iter_distinct[OF o(1) wf(1)]]
    distinct_map_filter[OF um_iter_distinct[OF o(2) wf(2)]]
  show "index_exact (rebuild_indexes_locked it g)"
    unfolding index_exact_def rebuild_at rebuild_frame
      iter_filter_mem[OF o(1), of _ "\<lambda>x. ed_active x \<and> ed_producer_id x = v" for v]
      iter_filter_mem[OF o(1), of _ "\<lambda>x. ed_active x \<and> ed_consumer_id x = v" for v]
    using d(1) by blast
  show "set_index_ok (rebuild_indexes_locked it g)"
    unfolding set_index_ok_def rebuild_at rebuild_frame
      iter_filter_mem[OF o(2), of _ "\<lambda>x. ds_active x \<and> ds_owner x = v" for v]
    using d(2) by blast
qed

section \<open>The staged graph\<close>

lemma fold_put_new:
  assumes "distinct (map fst m @ map key xs)"
  shows "fold (\<lambda>x. um_put (key x) (val x)) xs m = m @ map (\<lambda>x. (key x, val x)) xs"
  using assms
proof (induction xs arbitrary: m)
  case (Cons x xs)
  then have "um_find (key x) m = None" by (auto simp: um_find_def map_of_eq_None_iff)
  with Cons show ?case by (simp add: um_put_new)
qed simp

lemma fold_put_size: "um_size (fold (\<lambda>x. um_put (key x) (val x)) xs m) \<le> um_size m + length xs"
proof (induction xs arbitrary: m)
  case (Cons x xs)
  have "um_size (um_put (key x) (val x) m) \<le> Suc (um_size m)"
    by (induction m) (simp_all add: um_size_def)
  with Cons[of "um_put (key x) (val x) m"] show ?case by simp
qed simp

lemma fold_put_wf: "um_wf m \<Longrightarrow> um_wf (fold (\<lambda>x. um_put (key x) (val x)) xs m)"
  by (induction xs arbitrary: m) simp_all

lemma fold_put_find:
  "um_find k (fold (\<lambda>x. um_put (key x) (val x)) xs m) = Some v \<Longrightarrow>
     um_find k m = Some v \<or> (\<exists>x \<in> set xs. key x = k \<and> val x = v)"
  by (induction xs arbitrary: m) (fastforce split: if_splits)+

lemma um_find_map:
  "um_find k (map (\<lambda>x. (key x, val x)) xs) = Some v \<Longrightarrow> \<exists>x \<in> set xs. key x = k \<and> val x = v"
  by (induction xs) (auto split: if_splits)

text \<open>What the parser guarantees of a payload, and what the checks add.\<close>

definition payload_ok :: "payload \<Rightarrow> bool" where
  "payload_ok p \<longleftrightarrow> source_map_ok (pl_sources p) \<and>
     list_all (storable_node (length (pl_nodes p))) (pl_nodes p) \<and>
     list_all storable_edge (pl_edges p) \<and> list_all storable_set (pl_sets p) \<and>
     length (pl_sources p) \<le> 2 ^ 24 \<and> length (pl_nodes p) \<le> 2 ^ 24 \<and>
     length (pl_edges p) \<le> 2 ^ 24 \<and> length (pl_sets p) \<le> 2 ^ 24"

lemma yields_items:
  assumes "record_format enc dec storable admitted"
  shows "yields (\<lambda>xs. length xs = n \<and> list_all admitted xs) (read_items n dec [])"
  unfolding yields_def using record_format.items_admitted[OF assms, of n "[]"] by fastforce

lemma yields_body: "yields payload_ok read_body"
proof -
  note nodes = yields_items[OF node_format.record_format_axioms] and
    edges = yields_items[OF edge_format.record_format_axioms] and
    sets = yields_items[OF set_format.record_format_axioms] and
    sources = yields_sources[of "[]"]
  have cap: "\<not> kMaxCollectionItems < c \<Longrightarrow> unat c \<le> 2 ^ 24" for c
    by (simp add: kMaxCollectionItems_def word_le_nat_alt not_less)
  have node_items: "yields (\<lambda>ns. length ns = unat c \<and> (unat c \<le> 2 ^ 24 \<longrightarrow> list_all (storable_node (unat c)) ns))
      (read_items (unat c) (read_node c) [])" for c
    using nodes[of "unat c" "unat c"] by (auto simp: yields_def list_all_iff)
  show ?thesis
    unfolding read_body_def
    by (intro yields_rules yields_checked[OF sources] yields_checked[OF node_items] yields_checked[OF edges]
        yields_checked[OF sets]) (auto simp: payload_ok_def source_map_ok_def dest!: cap)
qed

lemma check_endpoints_ok:
  "check_endpoints ns es = None \<longleftrightarrow> (\<forall>e \<in> set es. ed_producer_id e \<in> ns \<and> ed_consumer_id e \<in> ns)"
  by (induction es) auto

lemma check_sets_ok:
  "check_sets ns is ss = None \<longleftrightarrow> (\<forall>s \<in> set ss. ds_owner s \<in> ns \<and>
     (ds_members s = [] \<longrightarrow> ds_op s = SO_OPTIONAL_GROUP) \<and> set (ds_members s) \<subseteq> is)"
  by (induction ss) (auto simp: list_all_iff)

lemma check_payload_ok:
  "check_payload p = None \<longleftrightarrow> distinct (map nd_id (pl_nodes p)) \<and> distinct (map ed_id (pl_edges p)) \<and>
     (\<forall>e \<in> set (pl_edges p). ed_producer_id e \<in> nd_id ` set (pl_nodes p) \<and>
        ed_consumer_id e \<in> nd_id ` set (pl_nodes p)) \<and>
     (\<forall>s \<in> set (pl_sets p). ds_owner s \<in> nd_id ` set (pl_nodes p) \<and>
        (ds_members s = [] \<longrightarrow> ds_op s = SO_OPTIONAL_GROUP) \<and>
        set (ds_members s) \<subseteq> ed_id ` set (pl_edges p))"
proof (cases "check_endpoints (nd_id ` set (pl_nodes p)) (pl_edges p)")
  case None
  with check_endpoints_ok[of "nd_id ` set (pl_nodes p)" "pl_edges p"] show ?thesis
    by (simp add: check_payload_def Let_def check_sets_ok)
next
  case (Some msg)
  with check_endpoints_ok[of "nd_id ` set (pl_nodes p)" "pl_edges p"] show ?thesis
    by (auto simp: check_payload_def Let_def)
qed

lemma staged_maps:
  assumes "check_payload p = None"
  shows "gr_nodes (staged it p) = map (\<lambda>n. (nd_id n, n)) (pl_nodes p)"
    "gr_edges (staged it p) = map (\<lambda>e. (ed_id e, e)) (pl_edges p)"
  using assms fold_put_new[of "[]" nd_id "pl_nodes p" "\<lambda>n. n"] fold_put_new[of "[]" ed_id "pl_edges p" "\<lambda>e. e"]
  by (simp_all add: staged_def check_payload_ok)

lemma staged_core:
  assumes p: "payload_ok p" and c: "check_payload p = None" and it: "iteration_ok it"
  shows "core_inv (staged it p)" "index_exact (staged it p)"
proof -
  let ?g = "staged it p"
  note maps = staged_maps[OF c]
  have node: "\<exists>n. find_node ?g i = Some n" if "i \<in> nd_id ` set (pl_nodes p)" for i
    using that um.keys_find[of i "gr_nodes ?g"] by (auto simp: maps um_keys_def)
  have wf: "um_wf (gr_nodes ?g)" "um_wf (gr_edges ?g)" "um_wf (gr_sets ?g)" "um_wf (gr_sources ?g)"
    using c by (simp_all add: maps check_payload_ok um_wf_def comp_def)
      (simp_all add: staged_def fold_put_wf flip: um_wf_def)
  have edges: "e \<in> set (pl_edges p)" "ed_id e = i" if "find_edge ?g i = Some e" for i e
    using um_find_map[of i ed_id "\<lambda>e. e" "pl_edges p" e] that by (auto simp: maps)
  have nodes: "n \<in> set (pl_nodes p)" "nd_id n = i" if "find_node ?g i = Some n" for i n
    using um_find_map[of i nd_id "\<lambda>n. n" "pl_nodes p" n] that by (auto simp: maps)
  have sets: "s \<in> set (pl_sets p)" "ds_id s = i" if "find_set ?g i = Some s" for i s
    using fold_put_find[of i ds_id "\<lambda>s. s" "pl_sets p" "[]" s] that by (auto simp: staged_def)
  show ix: "index_exact ?g"
    unfolding staged_def by (rule rebuild_indexed(1)[OF it]) (simp_all add: fold_put_wf)
  have "set_index_ok ?g"
    unfolding staged_def by (rule rebuild_indexed(2)[OF it]) (simp_all add: fold_put_wf)
  moreover have "graph_wf ?g"
    unfolding graph_wf_def
  proof (intro conjI allI impI)
    show "um_size (gr_edges ?g) \<le> kMaxGraphEdges"
      using p by (simp add: maps um_size_def payload_ok_def kMaxGraphEdges_def)
    fix i e assume "find_edge ?g i = Some e"
    with edges(1) c have "ed_producer_id e \<in> nd_id ` set (pl_nodes p)"
      "ed_consumer_id e \<in> nd_id ` set (pl_nodes p)"
      unfolding check_payload_ok by blast+
    then show "find_node ?g (ed_producer_id e) \<noteq> None" "find_node ?g (ed_consumer_id e) \<noteq> None"
      using node by fastforce+
  qed (rule wf)+
  moreover have "keys_ok ?g"
    unfolding keys_ok_def
  proof (intro conjI allI impI)
    show "um_size (gr_nodes ?g) \<le> kMaxGraphNodes"
      using p by (simp add: maps um_size_def payload_ok_def kMaxGraphNodes_def)
    show "valid i" "nd_id n = i" if "find_node ?g i = Some n" for i n
      using nodes[OF that] p by (auto simp: payload_ok_def list_all_iff storable_node_def admitted_node_def)
    show "valid i" "ed_id e = i" "ed_producer_id e \<noteq> ed_consumer_id e" if "find_edge ?g i = Some e" for i e
      using edges[OF that] p by (auto simp: payload_ok_def list_all_iff storable_edge_def admitted_edge_def)
    show "valid i" "ds_id s = i" if "find_set ?g i = Some s" for i s
      using sets[OF that] p by (auto simp: payload_ok_def list_all_iff storable_set_def admitted_set_def)
    show "find_node ?g (ds_owner s) \<noteq> None" if "find_set ?g i = Some s" for i s
    proof -
      have "ds_owner s \<in> nd_id ` set (pl_nodes p)"
        using sets(1)[OF that] c unfolding check_payload_ok by blast
      then show ?thesis using node by fastforce
    qed
  qed
  ultimately show "core_inv ?g" using index_exact_sound[OF ix] by (simp add: core_inv_def)
qed

section \<open>The committed graph\<close>

lemma restart_find [simp]: "find_node (restart_nodes g) i = map_option demote_node (find_node g i)"
proof -
  have "um_find i (map (\<lambda>(i, n). (i, demote_node n)) m) = map_option demote_node (um_find i m)" for m
    by (induction m) auto
  then show ?thesis by (simp add: restart_nodes_def)
qed

lemma demote_id [simp]: "nd_id (demote_node n) = nd_id n"
  by (simp add: demote_node_def)

lemma content_only_restart: "content_only g (restart_nodes g)"
proof -
  have "map_option nd_id (find_node (restart_nodes g) j) = map_option nd_id (find_node g j)" for j
    by (cases "find_node g j") simp_all
  moreover have "um_keys (gr_nodes (restart_nodes g)) = um_keys (gr_nodes g)"
    by (simp add: restart_nodes_def um_keys_def split_def comp_def)
  ultimately show ?thesis
    unfolding content_only_def same_structure_def by (simp add: restart_nodes_def)
qed

text \<open>The graph that \<open>load\<close> recomputes: the staged graph with the adapter of the target.\<close>

definition adopted :: "iteration \<Rightarrow> payload \<Rightarrow> graph \<Rightarrow> graph" where
  "adopted it p g = (staged it p)\<lparr>gr_adapter := gr_adapter g\<rparr>"

lemma commit_load_alt:
  "commit_load it p (staged it p) g = recompute_all_locked it (restart_nodes (adopted it p g))"
proof -
  let ?t = "staged it p"
  have "rebuild_indexes_locked it (g\<lparr>gr_epoch := Strong (pl_epoch p), gr_sources := gr_sources ?t,
      gr_nodes := gr_nodes ?t, gr_edges := gr_edges ?t, gr_sets := gr_sets ?t\<rparr>) = adopted it p g"
    unfolding adopted_def staged_def by (subst (1 5) rebuild_with) (simp add: with_indexes_def)
  then show ?thesis by (simp add: commit_load_def)
qed

lemma adopted_core:
  assumes "payload_ok p" and "check_payload p = None" and "iteration_ok it"
  shows "core_inv (adopted it p g)" "index_exact (adopted it p g)"
  using staged_core[OF assms]
  by (simp_all add: adopted_def core_inv_def graph_wf_def index_sound_def keys_ok_def set_index_ok_def index_exact_def)

lemma adopted_dep_rel: "dep_rel (adopted it p g) = dep_rel (staged it p)"
  by (simp add: adopted_def dep_rel_def)

text \<open>Loading always returns: it refuses, or commits the staged graph with its contents recomputed.\<close>

lemma load_cases:
  assumes it: "iteration_ok it"
  obtains (refused) msg where "load it bs (Some g) = Some (OC_REJECT_MALFORMED, msg, Some g)"
  | (accepted) body p g' where "open_snapshot bs = Inr body"
      "fst (run_state read_body (new_decoder body)) = Inr p" "payload_ok p" "check_payload p = None"
      "acyclic_graph (staged it p)"
      "recompute_all_locked it (restart_nodes (adopted it p g)) = Some g'"
      "load it bs (Some g) = Some (OC_ACCEPTED, [], Some g')"
proof (cases "open_snapshot bs")
  case (Inl msg)
  then show thesis using refused by (simp add: load_def)
next
  case (Inr body)
  show thesis
  proof (cases "fst (run_state read_body (new_decoder body))")
    case (Inl msg)
    with Inr show thesis using refused by (simp add: load_def)
  next
    case p: (Inr p)
    then have ok: "payload_ok p" by (metis prod.collapse yieldsD[OF yields_body])
    show thesis
    proof (cases "check_payload p")
      case (Some msg)
      with Inr p show thesis using refused by (simp add: load_def)
    next
      case None
      note core = staged_core[OF ok None it] and ad = adopted_core[OF ok None it]
      have q: "acyclic_query it (staged it p) = Some (acyclic_graph (staged it p))"
        using acyclic_query_decides[OF _ core(2) it] core(1) by (simp add: core_inv_def)
      have ss: "same_structure (adopted it p g) (restart_nodes (adopted it p g))"
        by (rule content_structure[OF content_only_restart])
      have "graph_wf (restart_nodes (adopted it p g))" "index_exact (restart_nodes (adopted it p g))"
        using content_only_core_inv[OF content_only_restart ad(1)[of g]] ad(2)[of g] same_structure_exact[OF ss]
        by (simp_all add: core_inv_def)
      then obtain order where
        "recompute_all_locked it (restart_nodes (adopted it p g)) =
           Some (recompute_nodes order (restart_nodes (adopted it p g)))"
        using recompute_all_order[OF _ _ it] by metis
      then show thesis
        using Inr p None ok q refused accepted by (cases "acyclic_graph (staged it p)")
          (simp_all add: load_def commit_load_alt)
    qed
  qed
qed

lemma load_content:
  assumes "recompute_all_locked it (restart_nodes (adopted it p g)) = Some g'"
  shows "content_only (adopted it p g) g'"
proof -
  obtain "is" where "g' = recompute_nodes is (restart_nodes (adopted it p g))"
    using recompute_all_form[OF assms] by blast
  then show ?thesis using content_only_trans[OF content_only_restart content_only_nodes] by metis
qed

text \<open>What the runtime can rely on in a loaded graph.\<close>

lemma load_accepted:
  assumes it: "iteration_ok it" and l: "load it bs (Some g) = Some (OC_ACCEPTED, msg, Some g')"
  obtains p "is" where "payload_ok p" "check_payload p = None" "acyclic_graph (staged it p)"
    "recompute_all_locked it (restart_nodes (adopted it p g)) = Some g'"
    "g' = recompute_nodes is (restart_nodes (adopted it p g))"
proof (rule load_cases[OF it, of bs g])
  fix msg' assume "load it bs (Some g) = Some (OC_REJECT_MALFORMED, msg', Some g)"
  with l show thesis by simp
next
  fix body p g''
  assume "payload_ok p" "check_payload p = None" "acyclic_graph (staged it p)"
    "recompute_all_locked it (restart_nodes (adopted it p g)) = Some g''"
    "load it bs (Some g) = Some (OC_ACCEPTED, [], Some g'')"
  then show thesis using that l recompute_all_form by fastforce
qed

lemma loaded_structure:
  assumes it: "iteration_ok it" and l: "load it bs (Some g) = Some (OC_ACCEPTED, msg, Some g')"
  shows "core_inv g'" "index_exact g'" "acyclic_graph g'" "gr_adapter g' = gr_adapter g"
proof -
  obtain p "is" where p: "payload_ok p" "check_payload p = None" "acyclic_graph (staged it p)"
    "recompute_all_locked it (restart_nodes (adopted it p g)) = Some g'"
    by (rule load_accepted[OF it l])
  note content = load_content[OF p(4)] and ad = adopted_core[OF p(1,2) it, of g]
  show "core_inv g'" by (rule content_only_core_inv[OF content ad(1)])
  show "index_exact g'" using ad(2) same_structure_exact[OF content_structure[OF content]] by simp
  show "acyclic_graph g'"
    using p(3) same_structure_dep_rel[OF content_structure[OF content]]
    by (simp add: acyclic_graph_def adopted_dep_rel)
  show "gr_adapter g' = gr_adapter g" using content_adapter[OF content] by (simp add: adopted_def)
qed

lemma adopted_node:
  assumes "check_payload p = None" and "find_node (adopted it p g) i = Some n"
  shows "n \<in> set (pl_nodes p)"
  using assms um_find_map[of i nd_id "\<lambda>n. n" "pl_nodes p" n] by (auto simp: adopted_def staged_maps)

lemma durable_fields:
  "nd_generation_history (durable n) = nd_generation_history n"
  "nd_current_generation (durable n) = nd_current_generation n"
  "nd_dynamic_evidence (durable n) = nd_dynamic_evidence n"
  "nd_recovered_evidence (durable n) = nd_recovered_evidence n"
  by (simp_all add: durable_def)

lemma lineage_durable: "durable n = durable m \<Longrightarrow> lineage_ok n = lineage_ok m"
  by (metis durable_fields lineage_ok_def)

lemma loaded_node:
  assumes it: "iteration_ok it" and l: "load it bs (Some g) = Some (OC_ACCEPTED, msg, Some g')"
    and n: "find_node g' i = Some n"
  shows "lineage_ok n" "nd_dynamic_evidence n \<Longrightarrow> sticky n \<and> nd_state n = RS_REVALIDATION_REQUIRED \<and>
     nd_recovered_evidence n = DE_REVALIDATION_REQUIRED"
proof -
  obtain p "is" where p: "payload_ok p" "check_payload p = None"
    "g' = recompute_nodes is (restart_nodes (adopted it p g))"
    by (rule load_accepted[OF it l])
  have dur: "map_option durable (find_node g' i) =
      map_option durable (find_node (restart_nodes (adopted it p g)) i)"
    unfolding p(3) by (rule recompute_nodes_durable)
  then obtain m where m: "find_node (adopted it p g) i = Some m" "durable n = durable (demote_node m)"
    using n by (cases "find_node (adopted it p g) i") auto
  have "lineage_ok m"
    using adopted_node[OF p(2) m(1)] p(1) by (auto simp: payload_ok_def list_all_iff storable_node_def admitted_node_def)
  then have "lineage_ok (demote_node m)" by (simp add: lineage_ok_def demote_node_def)
  then show "lineage_ok n" using lineage_durable[OF m(2)] by simp
  have same: "nd_dynamic_evidence n = nd_dynamic_evidence (demote_node m)"
    "nd_recovered_evidence n = nd_recovered_evidence (demote_node m)"
    using m(2) durable_fields(3,4) by metis+
  assume d: "nd_dynamic_evidence n"
  then have dm: "nd_dynamic_evidence m" using same(1) by (simp add: demote_node_def split: if_splits)
  then have "sticky (demote_node m)" by (simp add: sticky_def gated_def demote_node_def)
  moreover have "find_node (restart_nodes (adopted it p g)) i = Some (demote_node m)" using m(1) by simp
  ultimately obtain m' where "find_node g' i = Some m'" "nd_state m' = nd_state (demote_node m)" "sticky m'"
    unfolding p(3) using recompute_nodes_sticky by blast
  with n same(2) dm show "sticky n \<and> nd_state n = RS_REVALIDATION_REQUIRED \<and>
     nd_recovered_evidence n = DE_REVALIDATION_REQUIRED"
    by (simp add: demote_node_def)
qed

lemma loaded_settled:
  assumes it: "iteration_ok it" and l: "load it bs (Some g) = Some (OC_ACCEPTED, msg, Some g')"
    and loc: "sets_local g'"
  shows "settled g' i"
proof -
  obtain p "is" where p: "payload_ok p" "check_payload p = None" "acyclic_graph (staged it p)"
    "recompute_all_locked it (restart_nodes (adopted it p g)) = Some g'"
    by (rule load_accepted[OF it l])
  let ?r = "restart_nodes (adopted it p g)"
  have ss: "same_structure (adopted it p g) ?r" and ss': "same_structure (adopted it p g) g'"
    using content_structure[OF content_only_restart] content_structure[OF load_content[OF p(4)]] by auto
  have core: "core_inv ?r"
    by (rule content_only_core_inv[OF content_only_restart adopted_core(1)[OF p(1,2) it]])
  have "sets_local ?r" using loc ss ss' by (simp add: sets_local_def same_structure_def)
  then have "members_local ?r" using core by (intro sets_local_members) (simp_all add: core_inv_def)
  moreover have "index_exact ?r" "acyclic_graph ?r" "graph_wf ?r"
    using adopted_core(2)[OF p(1,2) it, of g] same_structure_exact[OF ss] same_structure_dep_rel[OF ss] p(3) core
    by (simp_all add: acyclic_graph_def adopted_dep_rel core_inv_def)
  ultimately obtain g'' where "recompute_all_locked it ?r = Some g''" "\<forall>i. settled g'' i"
    using recompute_all_settles[OF _ _ it] by metis
  then show ?thesis using p(4) by simp
qed

section \<open>The header\<close>

definition enc_snapshot_header :: "snapshot_header \<Rightarrow> u8 list" where
  "enc_snapshot_header h = enc_u32 (sh_magic h) @ enc_u16 (sh_version h) @ enc_u16 (sh_flags h) @
     enc_u64 (sh_body_len h) @ enc_u64 (sh_body_hash h)"

lemma length_snapshot_header [simp]: "length (enc_snapshot_header h) = 24"
  by (simp add: enc_snapshot_header_def)

lemma snapshot_header_back:
  "run_state read_snapshot_header (new_decoder (enc_snapshot_header h @ r)) =
     (h, \<lparr>de_left = r, de_ok = True\<rparr>)"
  by (simp add: new_decoder_def read_snapshot_header_def enc_snapshot_header_def reads_back)

lemma snapshot_header_of:
  assumes "run_state read_snapshot_header (new_decoder bs) = (h, d)" and "de_ok d"
  shows "bs = enc_snapshot_header h @ de_left d"
proof -
  have "de_left (new_decoder bs) = enc_snapshot_header h @ de_left d"
    using assms unfolding read_snapshot_header_def
    apply -
    apply (erule c_u32.bind_written, assumption, intro sound)
    apply (erule c_u16.bind_written, assumption, intro sound)
    apply (erule c_u16.bind_written, assumption, intro sound)
    apply (erule c_u64.bind_written, assumption, intro sound)
    apply (erule c_u64.bind_written, assumption, intro sound)
    apply (auto simp: enc_snapshot_header_def)
    done
  then show ?thesis by (simp add: new_decoder_def)
qed

text \<open>A file is opened exactly when it is a header that fits the body that follows.\<close>

definition header_for :: "u16 \<Rightarrow> u8 list \<Rightarrow> snapshot_header" where
  "header_for flags body = \<lparr>sh_magic = snapshot_magic, sh_version = snapshot_version,
     sh_flags = flags, sh_body_len = of_nat (length body), sh_body_hash = fnv1a body\<rparr>"

lemma open_snapshot_iff:
  "open_snapshot bs = Inr body \<longleftrightarrow>
     8 \<le> length body \<and> length body < 2 ^ 64 \<and> (\<exists>flags. bs = enc_snapshot_header (header_for flags body) @ body)"
proof
  assume o: "open_snapshot bs = Inr body"
  obtain h d where h: "run_state read_snapshot_header (new_decoder bs) = (h, d)" by fastforce
  have ok: "de_ok d" and len: "32 \<le> length bs"
    using o h by (auto simp: open_snapshot_def Let_def split: if_splits)
  have bs: "bs = enc_snapshot_header h @ de_left d" by (rule snapshot_header_of[OF h ok])
  have body: "body = de_left d" and hd: "sh_magic h = snapshot_magic" "sh_version h = snapshot_version"
    "unat (sh_body_len h) = length body" "fnv1a body = sh_body_hash h"
    using o h ok len by (auto simp: open_snapshot_def Let_def bs split: if_splits)
  have "unat (sh_body_len h) < 2 ^ LENGTH(64)" by (rule unsigned_less)
  then have "length body < 2 ^ 64" using hd(3) by simp
  moreover have "sh_body_len h = of_nat (length body)" by (simp flip: hd(3))
  then have hh: "header_for (sh_flags h) body = h" using hd by (cases h) (simp add: header_for_def)
  have "8 \<le> length body" using len by (simp add: bs body)
  moreover have "bs = enc_snapshot_header (header_for (sh_flags h) body) @ body" using bs body hh by simp
  ultimately show "8 \<le> length body \<and> length body < 2 ^ 64 \<and>
      (\<exists>flags. bs = enc_snapshot_header (header_for flags body) @ body)"
    by blast
next
  assume "8 \<le> length body \<and> length body < 2 ^ 64 \<and>
    (\<exists>flags. bs = enc_snapshot_header (header_for flags body) @ body)"
  then obtain flags where len: "8 \<le> length body" "length body < 2 ^ 64"
    and bs: "bs = enc_snapshot_header (header_for flags body) @ body" by blast
  have u: "unat (of_nat (length body) :: u64) = length body"
    using len(2) by (simp add: unsigned_of_nat take_bit_nat_eq_self)
  show "open_snapshot bs = Inr body"
    using len u by (simp add: open_snapshot_def bs snapshot_header_back header_for_def)
qed

lemma snapshot_header_inj:
  "enc_snapshot_header h @ xs = enc_snapshot_header h' @ ys \<longleftrightarrow> h = h' \<and> xs = ys"
proof
  assume eq: "enc_snapshot_header h @ xs = enc_snapshot_header h' @ ys"
  then have "(h, \<lparr>de_left = xs, de_ok = True\<rparr>) = (h', \<lparr>de_left = ys, de_ok = True\<rparr>)"
    by (metis snapshot_header_back)
  then show "h = h' \<and> xs = ys" by simp
qed simp

text \<open>No opened file is a strict prefix of another one.\<close>

lemma open_snapshot_prefix_free:
  assumes "open_snapshot bs = Inr body" and "open_snapshot (bs @ xs) = Inr body'"
  shows "xs = []"
proof -
  obtain flags flags' where bs: "bs = enc_snapshot_header (header_for flags body) @ body"
    and bs': "bs @ xs = enc_snapshot_header (header_for flags' body') @ body'"
    and len: "length body < 2 ^ 64" "length body' < 2 ^ 64"
    using assms unfolding open_snapshot_iff by blast
  from bs bs' have "header_for flags body = header_for flags' body'" and body': "body @ xs = body'"
    by (simp_all add: snapshot_header_inj)
  then have "(of_nat (length body) :: u64) = of_nat (length body')" by (simp add: header_for_def)
  from arg_cong[OF this, of unat] len have "length body = length body'"
    by (simp add: unsigned_of_nat take_bit_nat_eq_self)
  then show ?thesis using body' by auto
qed

lemma nth_around:
  "length A = 6 \<Longrightarrow> length F = 2 \<Longrightarrow> length F' = 2 \<Longrightarrow> i \<noteq> 6 \<Longrightarrow> i \<noteq> 7 \<Longrightarrow> (A @ F @ B) ! i = (A @ F' @ B) ! i"
  by (auto simp: nth_append)

lemma flags_bytes:
  assumes "i \<noteq> 6" "i \<noteq> 7"
  shows "enc_snapshot_header (header_for f body) ! i = enc_snapshot_header (header_for f' body) ! i"
  using nth_around[of "enc_u32 snapshot_magic @ enc_u16 snapshot_version" "enc_u16 f" "enc_u16 f'", OF _ _ _ assms]
  by (simp add: enc_snapshot_header_def header_for_def)

text \<open>Changing one byte outside the flags of an opened file makes it unreadable.\<close>

lemma open_snapshot_detects:
  assumes o: "open_snapshot bs = Inr body" and i: "i < length bs" "i \<noteq> 6" "i \<noteq> 7" and b: "b \<noteq> bs ! i"
  shows "\<exists>msg. open_snapshot (bs[i := b]) = Inl msg"
proof (rule ccontr)
  assume "\<nexists>msg. open_snapshot (bs[i := b]) = Inl msg"
  then obtain body' where o': "open_snapshot (bs[i := b]) = Inr body'"
    by (cases "open_snapshot (bs[i := b])") auto
  obtain flags flags' where bs: "bs = enc_snapshot_header (header_for flags body) @ body"
    and bs': "bs[i := b] = enc_snapshot_header (header_for flags' body') @ body'"
    using o o' unfolding open_snapshot_iff by blast
  show False
  proof (cases "i < 24")
    case True
    then have "body' = body"
      using bs bs' by (metis append_eq_conv_conj drop_update_cancel length_snapshot_header)
    then have "bs[i := b] ! i = bs ! i"
      using True flags_bytes[OF i(2,3), of flags' body flags] unfolding bs' unfolding bs
      by (simp add: nth_append)
    then show False using b i(1) by simp
  next
    case False
    then have "bs[i := b] = enc_snapshot_header (header_for flags body) @ body[i - 24 := b]"
      by (simp add: bs list_update_append)
    with bs' have "header_for flags' body' = header_for flags body" "body' = body[i - 24 := b]"
      by (simp_all add: snapshot_header_inj)
    then have "fnv1a (body[i - 24 := b]) = fnv1a body" by (simp add: header_for_def)
    moreover have "i - 24 < length body" "b \<noteq> body ! (i - 24)"
      using i(1) b False by (simp_all add: bs nth_append)
    ultimately show False using fnv1a_detects_byte by blast
  qed
qed

lemma load_opened:
  "load it bs (Some g) = Some (OC_ACCEPTED, msg, r) \<Longrightarrow> \<exists>body. open_snapshot bs = Inr body"
  by (cases "open_snapshot bs") (simp_all add: load_def)

lemma load_unopened:
  "open_snapshot bs = Inl msg \<Longrightarrow> load it bs (Some g) = Some (OC_REJECT_MALFORMED, msg, Some g)"
  by (simp add: load_def)

lemma open_snapshot_prefix:
  assumes "open_snapshot (bs @ xs) = Inr body" and "xs \<noteq> []"
  shows "\<exists>msg. open_snapshot bs = Inl msg"
  using open_snapshot_prefix_free[OF _ assms(1)] assms(2) by (cases "open_snapshot bs") auto

lemma open_snapshot_extended:
  assumes "open_snapshot bs = Inr body" and "xs \<noteq> []"
  shows "\<exists>msg. open_snapshot (bs @ xs) = Inl msg"
  using open_snapshot_prefix_free[OF assms(1)] assms(2) by (cases "open_snapshot (bs @ xs)") auto

lemma load_file_cases:
  assumes "iteration_ok it"
  obtains (refused) msg where "load_file fs it path (Some g) = Some (OC_REJECT_MALFORMED, msg, Some g)"
  | (accepted) bs g' where "load_file fs it path (Some g) = Some (OC_ACCEPTED, [], Some g')"
      "load it bs (Some g) = Some (OC_ACCEPTED, [], Some g')"
proof (cases "fs_end fs path")
  case None
  then show thesis using refused by (simp add: load_file_def)
next
  case (Some stop)
  show thesis
  proof (cases "stop \<le> 0 \<or> length (fs_bytes fs path) < nat stop")
    case True
    with Some show thesis
      using refused[of "''empty file '' @ path"] refused[of "''read failed for '' @ path"]
      by (cases "stop \<le> 0") (simp_all add: load_file_def)
  next
    case False
    with Some have l: "load_file fs it path (Some g) = load it (take (nat stop) (fs_bytes fs path)) (Some g)"
      by (simp add: load_file_def)
    show thesis
      by (rule load_cases[OF assms, of "take (nat stop) (fs_bytes fs path)" g]) (use l refused accepted in metis)+
  qed
qed

end
