(* ===== verification/Reloading.thy ===== *)
theory Reloading
  imports Loading
begin

text \<open>
  The round trip of \<open>src/persistence/format.cpp\<close>: which graphs the format can hold (\<open>storable\<close>), the
  sizes that make every length field exact, and the proof that loading what was saved restores the
  graph, with the restart of dynamic evidence applied.
\<close>

section \<open>What was saved is loaded\<close>

text \<open>The graphs the format can hold: those that \<open>load\<close> does not refuse for a limit or a dangling id.\<close>

definition storable :: "graph \<Rightarrow> bool" where
  "storable g \<longleftrightarrow> core_inv g \<and> acyclic_graph g \<and>
     um_size (gr_sources g) \<le> 2 ^ 24 \<and> um_size (gr_edges g) \<le> 2 ^ 24 \<and> um_size (gr_sets g) \<le> 2 ^ 24 \<and>
     (\<forall>s r. um_find s (gr_sources g) = Some r \<longrightarrow> valid s \<and> sr_source r = s) \<and>
     (\<forall>i n. find_node g i = Some n \<longrightarrow> storable_node (um_size (gr_nodes g)) n) \<and>
     (\<forall>i e. find_edge g i = Some e \<longrightarrow> storable_edge e) \<and>
     (\<forall>i s. find_set g i = Some s \<longrightarrow> storable_set s \<and>
        (ds_members s = [] \<longrightarrow> ds_op s = SO_OPTIONAL_GROUP) \<and>
        (\<forall>m \<in> set (ds_members s). find_edge g m \<noteq> None))"

lemma length_concat_le:
  "(\<And>x. x \<in> set xs \<Longrightarrow> length (f x) \<le> b) \<Longrightarrow> length (concat (map f xs)) \<le> length xs * b"
  by (induction xs) fastforce+

lemma length_enc_id [simp]: "length (enc_id i) = 8" "length (enc_count n) = 4"
  by (simp_all add: enc_id_def enc_count_def)

lemma length_enc_ids [simp]: "length (enc_ids is) = 4 + 8 * length is"
proof -
  have "length (concat (map enc_id is)) = 8 * length is" by (induction "is") simp_all
  then show ?thesis by (simp add: enc_ids_def)
qed

lemma length_records:
  "length (write_source s) = 25"
  "storable_set d \<Longrightarrow> length (write_set d) \<le> 2 ^ 24"
  "storable_edge e \<Longrightarrow> length (write_edge e) \<le> 2 ^ 22"
  "storable_node k n \<Longrightarrow> k \<le> 2 ^ 24 \<Longrightarrow> length (write_node n) \<le> 2 ^ 31"
proof -
  show "length (write_source s) = 25" by (simp add: write_source_def)
  show "storable_set d \<Longrightarrow> length (write_set d) \<le> 2 ^ 24" by (simp add: write_set_def storable_set_def)
  show "storable_edge e \<Longrightarrow> length (write_edge e) \<le> 2 ^ 22"
    by (simp add: write_edge_def storable_edge_def short_string_def kMaxStringBytes_def Let_def)
  assume n: "storable_node k n" "k \<le> 2 ^ 24"
  have "length (concat (map enc_str (nd_claimed_capabilities n))) \<le>
      length (nd_claimed_capabilities n) * (4 + 2 ^ 20)"
    by (rule length_concat_le)
      (use n(1) in \<open>auto simp: storable_node_def list_all_iff short_string_def kMaxStringBytes_def\<close>)
  also have "\<dots> \<le> 1024 * (4 + 2 ^ 20)"
    by (rule mult_le_mono1) (use n(1) in \<open>simp add: storable_node_def\<close>)
  finally show "length (write_node n) \<le> 2 ^ 31"
    using n by (simp add: write_node_def storable_node_def short_string_def kMaxStringBytes_def)
qed

definition payload_of :: "iteration \<Rightarrow> graph \<Rightarrow> payload" where
  "payload_of it g =
     \<lparr>pl_epoch = strong_value (gr_epoch g), pl_sources = um_iter (it_sources it) (gr_sources g),
      pl_nodes = map snd (um_iter (it_nodes it) (gr_nodes g)),
      pl_edges = map snd (um_iter (it_edges it) (gr_edges g)),
      pl_sets = map snd (um_iter (it_sets it) (gr_sets g))\<rparr>"

lemma save_body_alt:
  "save_body it g = enc_u64 (pl_epoch (payload_of it g)) @
     enc_count (um_size (gr_sources g)) @ concat (map (write_source \<circ> snd) (pl_sources (payload_of it g))) @
     enc_count (um_size (gr_nodes g)) @ concat (map write_node (pl_nodes (payload_of it g))) @
     enc_count (um_size (gr_edges g)) @ concat (map write_edge (pl_edges (payload_of it g))) @
     enc_count (um_size (gr_sets g)) @ concat (map write_set (pl_sets (payload_of it g)))"
  by (simp add: save_body_def payload_of_def enc_id_def)

lemma payload_of_parts:
  assumes "iteration_ok it"
  shows "length (pl_sources (payload_of it g)) = um_size (gr_sources g)"
    "length (pl_nodes (payload_of it g)) = um_size (gr_nodes g)"
    "length (pl_edges (payload_of it g)) = um_size (gr_edges g)"
    "length (pl_sets (payload_of it g)) = um_size (gr_sets g)"
    "(s, r) \<in> set (pl_sources (payload_of it g)) \<longleftrightarrow> um_find s (gr_sources g) = Some r"
    "n \<in> set (pl_nodes (payload_of it g)) \<longleftrightarrow> (\<exists>i. find_node g i = Some n)"
    "e \<in> set (pl_edges (payload_of it g)) \<longleftrightarrow> (\<exists>i. find_edge g i = Some e)"
    "d \<in> set (pl_sets (payload_of it g)) \<longleftrightarrow> (\<exists>i. find_set g i = Some d)"
proof -
  have o: "is_order (it_nodes it)" "is_order (it_edges it)" "is_order (it_sets it)" "is_order (it_sources it)"
    using assms by (auto simp: iteration_ok_def)
  have mem: "x \<in> set (map snd (um_iter \<pi> m)) \<longleftrightarrow> (\<exists>k. um_find k m = Some x)"
    if "is_order \<pi>" for x \<pi> and m :: "('k, 'v) umap"
    by (simp only: um_iter_mem[OF that, symmetric]) force
  show "length (pl_sources (payload_of it g)) = um_size (gr_sources g)"
    "length (pl_nodes (payload_of it g)) = um_size (gr_nodes g)"
    "length (pl_edges (payload_of it g)) = um_size (gr_edges g)"
    "length (pl_sets (payload_of it g)) = um_size (gr_sets g)"
    "(s, r) \<in> set (pl_sources (payload_of it g)) \<longleftrightarrow> um_find s (gr_sources g) = Some r"
    using o by (simp_all add: payload_of_def um_iter_length um_iter_mem)
  show "n \<in> set (pl_nodes (payload_of it g)) \<longleftrightarrow> (\<exists>i. find_node g i = Some n)"
    "e \<in> set (pl_edges (payload_of it g)) \<longleftrightarrow> (\<exists>i. find_edge g i = Some e)"
    "d \<in> set (pl_sets (payload_of it g)) \<longleftrightarrow> (\<exists>i. find_set g i = Some d)"
    unfolding payload_of_def payload.select_convs by (rule mem, rule o)+
qed

lemma storable_records:
  assumes s: "storable g" and it: "iteration_ok it"
  shows "list_all (\<lambda>n. storable_node (um_size (gr_nodes g)) n \<and> um_size (gr_nodes g) \<le> 2 ^ 24)
      (pl_nodes (payload_of it g))"
    "list_all storable_edge (pl_edges (payload_of it g))" "list_all storable_set (pl_sets (payload_of it g))"
    "list_all (\<lambda>(k, s). valid k \<and> sr_source s = k) (pl_sources (payload_of it g))"
    "um_size (gr_nodes g) \<le> 2 ^ 24" "distinct (map fst (pl_sources (payload_of it g)))"
proof -
  note parts = payload_of_parts[OF it]
  show k: "um_size (gr_nodes g) \<le> 2 ^ 24"
    using s by (simp add: storable_def core_inv_def keys_ok_def kMaxGraphNodes_def)
  show "list_all (\<lambda>n. storable_node (um_size (gr_nodes g)) n \<and> um_size (gr_nodes g) \<le> 2 ^ 24)
      (pl_nodes (payload_of it g))"
    using s k by (auto simp: list_all_iff parts storable_def)
  show "list_all storable_edge (pl_edges (payload_of it g))" "list_all storable_set (pl_sets (payload_of it g))"
    "list_all (\<lambda>(k, s). valid k \<and> sr_source s = k) (pl_sources (payload_of it g))"
    using s by (auto simp: list_all_iff parts storable_def)
  show "distinct (map fst (pl_sources (payload_of it g)))"
    unfolding payload_of_def payload.select_convs
    by (rule um_iter_distinct)
      (use it s in \<open>auto simp: iteration_ok_def storable_def core_inv_def graph_wf_def\<close>)
qed

lemma length_save_body:
  assumes "storable g" and "iteration_ok it"
  shows "8 \<le> length (save_body it g)" "length (save_body it g) < 2 ^ 64"
proof -
  note rec = storable_records[OF assms] and parts = payload_of_parts(1-4)[OF assms(2), of g]
  let ?p = "payload_of it g"
  show "8 \<le> length (save_body it g)" by (simp add: save_body_alt)
  have "length (concat (map (write_source \<circ> snd) (pl_sources ?p))) \<le> length (pl_sources ?p) * 25"
    by (rule length_concat_le) (simp add: length_records)
  moreover have "length (concat (map write_node (pl_nodes ?p))) \<le> length (pl_nodes ?p) * 2 ^ 31"
    by (rule length_concat_le) (use rec(1) length_records(4) in \<open>auto simp: list_all_iff\<close>)
  moreover have "length (concat (map write_edge (pl_edges ?p))) \<le> length (pl_edges ?p) * 2 ^ 22"
    by (rule length_concat_le) (use rec(2) length_records(3) in \<open>auto simp: list_all_iff\<close>)
  moreover have "length (concat (map write_set (pl_sets ?p))) \<le> length (pl_sets ?p) * 2 ^ 24"
    by (rule length_concat_le) (use rec(3) length_records(2) in \<open>auto simp: list_all_iff\<close>)
  moreover have "length (pl_sources ?p) \<le> 2 ^ 24" "length (pl_nodes ?p) \<le> 2 ^ 24"
    "length (pl_edges ?p) \<le> 2 ^ 24" "length (pl_sets ?p) \<le> 2 ^ 24"
    using assms(1) rec(5) by (simp_all add: parts storable_def)
  ultimately show "length (save_body it g) < 2 ^ 64"
    by (simp add: save_body_alt)
qed

lemma read_body_back:
  assumes "storable g" and "iteration_ok it"
  shows "run_state read_body (new_decoder (save_body it g)) =
    (Inr (payload_of it g), \<lparr>de_left = [], de_ok = True\<rparr>)"
proof -
  note rec = storable_records[OF assms] and parts = payload_of_parts(1-4)[OF assms(2), of g]
  let ?p = "payload_of it g"
  have sizes: "um_size (gr_sources g) \<le> 2 ^ 24" "um_size (gr_nodes g) \<le> 2 ^ 24"
    "um_size (gr_edges g) \<le> 2 ^ 24" "um_size (gr_sets g) \<le> 2 ^ 24"
    using assms(1) rec(5) by (simp_all add: storable_def)
  have cap: "\<not> kMaxCollectionItems < of_nat n" "n < 2 ^ 32" if "n \<le> 2 ^ 24" for n :: nat
    using that small_limit[of n "2 ^ 24"] by (simp_all add: kMaxCollectionItems_def)
  note caps = cap(1)[OF sizes(1)] cap(1)[OF sizes(2)] cap(1)[OF sizes(3)] cap(1)[OF sizes(4)]
  note counts = count_back[OF cap(2)[OF sizes(1)]] count_back[OF cap(2)[OF sizes(2)]]
    count_back[OF cap(2)[OF sizes(3)]] count_back[OF cap(2)[OF sizes(4)]]
  have sources: "run_state (read_sources (um_size (gr_sources g)) [])
      \<lparr>de_left = concat (map (write_source \<circ> snd) (pl_sources ?p)) @ r, de_ok = True\<rparr> =
      (Inr (pl_sources ?p), \<lparr>de_left = r, de_ok = True\<rparr>)" for r
    using read_sources_back[of "[]" "pl_sources ?p" r] rec(4,6) by (simp add: parts)
  note items = node_format.items_back[OF rec(1), of "[]", unfolded parts append_Nil]
    edge_format.items_back[OF rec(2), of "[]", unfolded parts append_Nil]
    set_format.items_back[OF rec(3), of "[]", unfolded parts append_Nil]
  show ?thesis
    unfolding save_body_alt new_decoder_def read_body_def
    by (simp add: fields_back counts caps sources items items(3)[of "[]", simplified] done_with_def)
qed

lemma um_find_iter:
  assumes "is_order \<pi>" and "um_wf m"
  shows "um_find k (um_iter \<pi> m) = um_find k m"
proof -
  have "um_wf (um_iter \<pi> m)" using um_iter_distinct[OF assms] by (simp add: um_wf_def)
  then have "um_find k (um_iter \<pi> m) = Some v \<longleftrightarrow> um_find k m = Some v" for v
    by (simp add: um_find_mem um_iter_mem[OF assms(1)])
  then show ?thesis by (metis not_Some_eq)
qed

lemma iter_keyed:
  assumes o: "is_order \<pi>" and wf: "um_wf m" and key: "\<And>k v. um_find k m = Some v \<Longrightarrow> key v = k"
  shows "map (\<lambda>v. (key v, v)) (map snd (um_iter \<pi> m)) = um_iter \<pi> m"
    "distinct (map key (map snd (um_iter \<pi> m)))"
    "k \<in> key ` set (map snd (um_iter \<pi> m)) \<longleftrightarrow> um_find k m \<noteq> None"
    "fold (\<lambda>v. um_put (key v) v) (map snd (um_iter \<pi> m)) [] = um_iter \<pi> m"
proof -
  have keys: "map key (map snd (um_iter \<pi> m)) = map fst (um_iter \<pi> m)"
    using key by (auto simp: um_iter_mem[OF o])
  show pairs: "map (\<lambda>v. (key v, v)) (map snd (um_iter \<pi> m)) = um_iter \<pi> m"
    using key by (auto intro!: map_idI simp: um_iter_mem[OF o])
  show d: "distinct (map key (map snd (um_iter \<pi> m)))"
    unfolding keys by (rule um_iter_distinct[OF o wf])
  have "key ` set (map snd (um_iter \<pi> m)) = set (\<pi> (um_keys m))"
    by (metis keys um_iter_keys[OF o] set_map)
  then show "k \<in> key ` set (map snd (um_iter \<pi> m)) \<longleftrightarrow> um_find k m \<noteq> None"
    by (simp add: is_order_set[OF o] um.keys_find)
  show "fold (\<lambda>v. um_put (key v) v) (map snd (um_iter \<pi> m)) [] = um_iter \<pi> m"
    using fold_put_new[of "[]" key "map snd (um_iter \<pi> m)" "\<lambda>v. v"] d pairs by simp
qed

lemma storable_keys:
  assumes s: "storable g" and it: "iteration_ok it"
  shows "um_wf (gr_sources g)" "is_order (it_sources it)"
    and "k \<in> nd_id ` set (pl_nodes (payload_of it g)) \<longleftrightarrow> find_node g k \<noteq> None"
    and "j \<in> ed_id ` set (pl_edges (payload_of it g)) \<longleftrightarrow> find_edge g j \<noteq> None"
    and "distinct (map nd_id (pl_nodes (payload_of it g)))" "distinct (map ed_id (pl_edges (payload_of it g)))"
    and "um_find k (map (\<lambda>n. (nd_id n, n)) (pl_nodes (payload_of it g))) = find_node g k"
    and "um_find j (map (\<lambda>e. (ed_id e, e)) (pl_edges (payload_of it g))) = find_edge g j"
    and "um_find d (fold (\<lambda>s. um_put (ds_id s) s) (pl_sets (payload_of it g)) []) = find_set g d"
proof -
  have wf: "um_wf (gr_nodes g)" "um_wf (gr_edges g)" "um_wf (gr_sets g)"
    and keys: "\<And>i n. find_node g i = Some n \<Longrightarrow> nd_id n = i" "\<And>i e. find_edge g i = Some e \<Longrightarrow> ed_id e = i"
      "\<And>i s. find_set g i = Some s \<Longrightarrow> ds_id s = i"
    using s by (auto simp: storable_def core_inv_def graph_wf_def keys_ok_def)
  have o: "is_order (it_nodes it)" "is_order (it_edges it)" "is_order (it_sets it)"
    using it by (auto simp: iteration_ok_def)
  show "um_wf (gr_sources g)" "is_order (it_sources it)"
    using s it by (auto simp: storable_def core_inv_def graph_wf_def iteration_ok_def)
  note n = iter_keyed[OF o(1) wf(1) keys(1)] and e = iter_keyed[OF o(2) wf(2) keys(2)]
    and d = iter_keyed[OF o(3) wf(3) keys(3)]
  show "k \<in> nd_id ` set (pl_nodes (payload_of it g)) \<longleftrightarrow> find_node g k \<noteq> None"
    "j \<in> ed_id ` set (pl_edges (payload_of it g)) \<longleftrightarrow> find_edge g j \<noteq> None"
    "distinct (map nd_id (pl_nodes (payload_of it g)))" "distinct (map ed_id (pl_edges (payload_of it g)))"
    unfolding payload_of_def payload.select_convs by (rule n(3) e(3) n(2) e(2); simp)+
  show "um_find k (map (\<lambda>n. (nd_id n, n)) (pl_nodes (payload_of it g))) = find_node g k"
    "um_find j (map (\<lambda>e. (ed_id e, e)) (pl_edges (payload_of it g))) = find_edge g j"
    "um_find d (fold (\<lambda>s. um_put (ds_id s) s) (pl_sets (payload_of it g)) []) = find_set g d"
    unfolding payload_of_def payload.select_convs
    by (subst n(1), simp, rule um_find_iter[OF o(1) wf(1)], subst e(1), simp, rule um_find_iter[OF o(2) wf(2)],
        subst d(4), simp, rule um_find_iter[OF o(3) wf(3)])
qed

lemma saved_payload:
  assumes s: "storable g" and it: "iteration_ok it"
  shows "payload_ok (payload_of it g)" "check_payload (payload_of it g) = None"
proof -
  note rec = storable_records[OF assms] and parts = payload_of_parts[OF it, where g = g]
    and keys = storable_keys[OF assms]
  show "payload_ok (payload_of it g)"
    unfolding payload_ok_def
  proof (intro conjI)
    show "source_map_ok (pl_sources (payload_of it g))" using rec(4,6) by (simp add: source_map_ok_def um_wf_def)
    show "list_all (storable_node (length (pl_nodes (payload_of it g)))) (pl_nodes (payload_of it g))"
      "list_all storable_edge (pl_edges (payload_of it g))" "list_all storable_set (pl_sets (payload_of it g))"
      using rec(1-3) by (auto simp: list_all_iff parts)
    show "length (pl_sources (payload_of it g)) \<le> 2 ^ 24" "length (pl_nodes (payload_of it g)) \<le> 2 ^ 24"
      "length (pl_edges (payload_of it g)) \<le> 2 ^ 24" "length (pl_sets (payload_of it g)) \<le> 2 ^ 24"
      using s rec(5) by (simp_all add: parts storable_def)
  qed
  have "find_node g (ed_producer_id e) \<noteq> None \<and> find_node g (ed_consumer_id e) \<noteq> None"
    if "e \<in> set (pl_edges (payload_of it g))" for e
    using that s by (auto simp: parts storable_def core_inv_def graph_wf_def)
  moreover have "find_node g (ds_owner d) \<noteq> None \<and> (ds_members d = [] \<longrightarrow> ds_op d = SO_OPTIONAL_GROUP) \<and>
      (\<forall>m \<in> set (ds_members d). find_edge g m \<noteq> None)" if d: "d \<in> set (pl_sets (payload_of it g))" for d
  proof -
    obtain i where i: "find_set g i = Some d" using d parts(8) by blast
    then have "find_node g (ds_owner d) \<noteq> None" using s unfolding storable_def core_inv_def keys_ok_def by blast
    with i show ?thesis using s unfolding storable_def by blast
  qed
  ultimately show "check_payload (payload_of it g) = None"
    unfolding check_payload_ok keys(3) subset_iff keys(4) using keys(5,6) by blast
qed

lemma staged_saved:
  assumes s: "storable g" and it: "iteration_ok it" "iteration_ok it'"
  shows "find_node (staged it' (payload_of it g)) i = find_node g i"
    "find_edge (staged it' (payload_of it g)) j = find_edge g j"
    "find_set (staged it' (payload_of it g)) k = find_set g k"
    "um_find src (gr_sources (staged it' (payload_of it g))) = um_find src (gr_sources g)"
    "gr_epoch (staged it' (payload_of it g)) = gr_epoch g"
proof -
  note keys = storable_keys[OF s it(1)] and maps = staged_maps[OF saved_payload(2)[OF s it(1)], of it']
  show "find_node (staged it' (payload_of it g)) i = find_node g i"
    "find_edge (staged it' (payload_of it g)) j = find_edge g j"
    unfolding maps by (rule keys)+
  show "find_set (staged it' (payload_of it g)) k = find_set g k" using keys(9) by (simp add: staged_def)
  have o: "is_order (it_sources it')" using it(2) by (simp add: iteration_ok_def)
  let ?s = "um_iter (it_sources it) (gr_sources g)"
  have wf: "um_wf ?s" using um_iter_distinct[OF keys(2,1)] by (simp add: um_wf_def)
  have "fold (\<lambda>kv. um_put (fst kv) (snd kv)) (um_iter (it_sources it') ?s) [] = um_iter (it_sources it') ?s"
    using fold_put_new[of "[]" fst "um_iter (it_sources it') ?s" snd] um_iter_distinct[OF o wf] by simp
  then show "um_find src (gr_sources (staged it' (payload_of it g))) = um_find src (gr_sources g)"
    by (simp add: staged_def payload_of_def um_find_iter[OF o wf] um_find_iter[OF keys(2,1)])
  show "gr_epoch (staged it' (payload_of it g)) = gr_epoch g" by (simp add: staged_def payload_of_def)
qed

lemma open_saved:
  assumes "storable g" and "iteration_ok it" and "save it g = Some bs"
  shows "open_snapshot bs = Inr (save_body it g)"
  using length_save_body[OF assms(1,2)] assms(3)
  by (auto simp: open_snapshot_iff save_def Let_def enc_snapshot_header_def header_for_def)

text \<open>A loaded graph and the graph it was saved from.\<close>

definition reloaded :: "graph \<Rightarrow> graph \<Rightarrow> bool" where
  "reloaded g g' \<longleftrightarrow> gr_epoch g' = gr_epoch g \<and>
     (\<forall>s. um_find s (gr_sources g') = um_find s (gr_sources g)) \<and>
     (\<forall>i. find_edge g' i = find_edge g i) \<and> (\<forall>i. find_set g' i = find_set g i) \<and>
     (\<forall>i. map_option durable (find_node g' i) = map_option (durable \<circ> demote_node) (find_node g i))"

lemma load_saved:
  assumes s: "storable g" and it: "iteration_ok it" "iteration_ok it'" and bs: "save it g = Some bs"
  shows "\<exists>g'. load it' bs (Some g0) = Some (OC_ACCEPTED, [], Some g') \<and> reloaded g g' \<and>
     gr_adapter g' = gr_adapter g0"
proof -
  let ?p = "payload_of it g"
  note pay = saved_payload[OF s it(1)] and find = staged_saved[OF s it]
  have op: "open_snapshot bs = Inr (save_body it g)"
    and body: "fst (run_state read_body (new_decoder (save_body it g))) = Inr ?p"
    using open_saved[OF s it(1) bs] by (simp_all add: read_body_back[OF s it(1)])
  have ac: "acyclic_graph (staged it' ?p)"
    using s find(2) by (simp add: acyclic_graph_def dep_rel_def storable_def)
  show ?thesis
  proof (rule load_cases[OF it(2), of bs g0])
    fix msg assume "load it' bs (Some g0) = Some (OC_REJECT_MALFORMED, msg, Some g0)"
    moreover have "load it' bs (Some g0) = (case acyclic_query it' (staged it' ?p) of None \<Rightarrow> None
      | Some False \<Rightarrow> Some (OC_REJECT_MALFORMED, ''cyclic DAG reconstruction'', Some g0)
      | Some True \<Rightarrow> map_option (\<lambda>g'. (OC_ACCEPTED, [], Some g')) (commit_load it' ?p (staged it' ?p) g0))"
      by (simp add: load_def op body pay(2) Let_def)
    moreover have "acyclic_query it' (staged it' ?p) = Some True"
      using acyclic_query_decides[OF _ staged_core(2)[OF pay it(2)] it(2)] staged_core(1)[OF pay it(2)] ac
      by (simp add: core_inv_def)
    ultimately show ?thesis by (auto simp: map_option_case split: option.splits)
  next
    fix body' p' g'
    assume acc: "open_snapshot bs = Inr body'" "fst (run_state read_body (new_decoder body')) = Inr p'"
      "recompute_all_locked it' (restart_nodes (adopted it' p' g0)) = Some g'"
      "load it' bs (Some g0) = Some (OC_ACCEPTED, [], Some g')"
    then have p': "p' = ?p" using op body by simp
    note content = load_content[OF acc(3)[unfolded p']]
    obtain "is" where "g' = recompute_nodes is (restart_nodes (adopted it' ?p g0))"
      using recompute_all_form[OF acc(3)] p' by blast
    then have "map_option durable (find_node g' i) = map_option (durable \<circ> demote_node) (find_node g i)" for i
      by (simp add: recompute_nodes_durable adopted_def find(1) option.map_comp)
    then have "reloaded g g'"
      using content_structure[OF content] content_sources[OF content] content_epoch[OF content] find
      by (simp add: reloaded_def same_structure_def adopted_def)
    then show ?thesis using acc(4) content_adapter[OF content] by (auto simp: adopted_def)
  qed
qed

section \<open>What was loaded can be saved\<close>

text \<open>The parser enforces every limit of the format, and recomputing leaves nodes within them.\<close>

lemma durable_eq:
  "durable n = durable m \<Longrightarrow>
   n = m\<lparr>nd_state := nd_state n, nd_readiness_generation := nd_readiness_generation n\<rparr>"
  by (cases n, cases m) (simp add: durable_def)

lemma storable_durable:
  assumes "durable n = durable m" and "storable_node k m" and "readiness_state_enumerator (nd_state n)"
  shows "storable_node k n"
  by (subst durable_eq[OF assms(1)])
    (use assms(2,3) in \<open>simp add: storable_node_def admitted_node_def lineage_ok_def\<close>)

lemma recomputed_enumerator:
  "readiness_state_enumerator (nd_state n) \<Longrightarrow> readiness_state_enumerator (nd_state (recomputed_node g i n))"
  by (auto simp: recomputed_node_def recomputed_state_def touch_def derived_state_def readiness_state_enumerator_def)

lemma recompute_enumerators:
  assumes "\<And>i n. find_node g i = Some n \<Longrightarrow> readiness_state_enumerator (nd_state n)"
    and "find_node (recompute_nodes is g) i = Some n"
  shows "readiness_state_enumerator (nd_state n)"
  using assms
proof (induction "is" arbitrary: g)
  case (Cons j js)
  show ?case
  proof (rule Cons.IH)
    show "find_node (recompute_nodes js (snd (recompute_node_locked g j))) i = Some n"
      using Cons.prems(2) by simp
  qed (use Cons.prems(1) in \<open>auto simp: recompute_find recomputed_enumerator split: if_splits option.splits\<close>)
qed auto

lemma demoted_storable: "storable_node k n \<Longrightarrow> storable_node k (demote_node n)"
  by (auto simp: demote_node_def storable_node_def admitted_node_def lineage_ok_def readiness_state_enumerator_def)

lemma loaded_storable:
  assumes it: "iteration_ok it" and l: "load it bs (Some g) = Some (OC_ACCEPTED, msg, Some g')"
  shows "storable g'"
proof -
  obtain p "is" where p: "payload_ok p" "check_payload p = None"
    "recompute_all_locked it (restart_nodes (adopted it p g)) = Some g'"
    "g' = recompute_nodes is (restart_nodes (adopted it p g))"
    by (rule load_accepted[OF it l])
  note content = load_content[OF p(3)]
  have ss: "same_structure (adopted it p g) g'" by (rule content_structure[OF content])
  have order: "is_order (it_sources it)" using it by (simp add: iteration_ok_def)
  have maps: "gr_edges g' = map (\<lambda>e. (ed_id e, e)) (pl_edges p)"
    "um_keys (gr_nodes g') = map nd_id (pl_nodes p)"
    "gr_sets g' = fold (\<lambda>s. um_put (ds_id s) s) (pl_sets p) []"
    "gr_sources g' = fold (\<lambda>kv. um_put (fst kv) (snd kv)) (um_iter (it_sources it) (pl_sources p)) []"
    using ss content_sources[OF content] staged_maps[OF p(2), of it]
    by (simp_all add: same_structure_def adopted_def um_keys_def comp_def) (simp_all add: staged_def)
  have node: "storable_node (um_size (gr_nodes g')) n" if n: "find_node g' i = Some n" for i n
  proof -
    have "map_option durable (Some n) = map_option durable (find_node (restart_nodes (adopted it p g)) i)"
      using n unfolding p(4) by (metis recompute_nodes_durable)
    then obtain m where m: "find_node (adopted it p g) i = Some m" "durable n = durable (demote_node m)"
      by (cases "find_node (adopted it p g) i") auto
    have stor: "storable_node (length (pl_nodes p)) (demote_node x)" if "find_node (adopted it p g) j = Some x" for j x
      using adopted_node[OF p(2) that] p(1) by (simp add: payload_ok_def list_all_iff demoted_storable)
    have "readiness_state_enumerator (nd_state n)"
      by (rule recompute_enumerators[OF _ n[unfolded p(4)]])
        (use stor in \<open>auto simp: storable_node_def admitted_node_def\<close>)
    with stor[OF m(1)] m(2) have "storable_node (length (pl_nodes p)) n" by (rule_tac storable_durable)
    then show ?thesis using arg_cong[OF maps(2), of length] by (simp add: um_size_keys)
  qed
  have edge: "storable_edge e" if "find_edge g' i = Some e" for i e
    using that um_find_map[of i ed_id "\<lambda>e. e" "pl_edges p" e] p(1) by (auto simp: maps payload_ok_def list_all_iff)
  have set_in: "s \<in> set (pl_sets p)" if "find_set g' i = Some s" for i s
    using that fold_put_find[of i ds_id "\<lambda>s. s" "pl_sets p" "[]" s] by (auto simp: maps)
  have edges: "find_edge g' m \<noteq> None" if "m \<in> ed_id ` set (pl_edges p)" for m
    using that um.keys_find[of m "gr_edges g'"] by (auto simp: maps um_keys_def)
  have sources: "valid k \<and> sr_source s = k" if "um_find k (gr_sources g') = Some s" for k s
  proof -
    have "(k, s) \<in> set (um_iter (it_sources it) (pl_sources p))"
      using that fold_put_find[of k fst snd "um_iter (it_sources it) (pl_sources p)" "[]" s] by (auto simp: maps)
    then have "(k, s) \<in> set (pl_sources p)"
      using p(1) by (simp add: um_iter_mem[OF order] um_find_mem payload_ok_def source_map_ok_def)
    then show ?thesis using p(1) by (auto simp: payload_ok_def source_map_ok_def list_all_iff)
  qed
  have "um_size (gr_sources g') \<le> 2 ^ 24" "um_size (gr_edges g') \<le> 2 ^ 24" "um_size (gr_sets g') \<le> 2 ^ 24"
    using p(1) fold_put_size[of fst snd "um_iter (it_sources it) (pl_sources p)" "[]"]
      fold_put_size[of ds_id "\<lambda>s. s" "pl_sets p" "[]"] um_iter_length[OF order, of "pl_sources p"]
    by (auto simp: maps payload_ok_def um_size_def)
  moreover have "storable_set s \<and> (ds_members s = [] \<longrightarrow> ds_op s = SO_OPTIONAL_GROUP) \<and>
      (\<forall>m \<in> set (ds_members s). find_edge g' m \<noteq> None)" if "find_set g' i = Some s" for i s
    using set_in[OF that] p(1,2) edges unfolding payload_ok_def list_all_iff check_payload_ok subset_iff by blast
  ultimately show ?thesis
    unfolding storable_def using loaded_structure(1,3)[OF it l] node edge sources by blast
qed

end
