(* ===== verification/Cli.thy ===== *)
theory Cli
  imports Reloading Explain
begin

text \<open>
  \<open>src/tools/df_cli.cpp\<close>: the command that loads a snapshot and prints it. \<open>main\<close> is a function from
  the file system and the arguments to the exit code and the lines it prints on the two streams;
  \<open>None\<close> would be a computation that does not end, which is proved not to happen.
\<close>

section \<open>Formatting\<close>

text \<open>\<open>%s\<close> prints a string up to its first null character.\<close>

definition c_str :: "string \<Rightarrow> string" where
  "c_str s = takeWhile (\<lambda>c. c \<noteq> CHR 0x00) s"

text \<open>\<open>%zu\<close>, \<open>%llu\<close> and \<open>%llX\<close>.\<close>

definition show_u64 :: "u64 \<Rightarrow> string" where
  "show_u64 w = to_string_nat (unat w)"

definition hex_digit :: "nat \<Rightarrow> char" where
  "hex_digit d = ''0123456789ABCDEF'' ! d"

fun to_hex_nat :: "nat \<Rightarrow> string" where
  "to_hex_nat n =
     (if n < 16 then [hex_digit n] else to_hex_nat (n div 16) @ [hex_digit (n mod 16)])"

declare to_hex_nat.simps [simp del]

section \<open>Arguments\<close>

datatype cli_request = Usage | Inspect string string

text \<open>The loop over \<open>argv[1..]\<close>, with the path and the mode collected so far.\<close>

fun parse_args :: "string \<Rightarrow> string \<Rightarrow> string list \<Rightarrow> cli_request" where
  "parse_args path mode [] = Inspect path mode"
| "parse_args path mode (a # as) =
     (if a = ''--load'' \<and> as \<noteq> [] then parse_args (hd as) mode (tl as)
      else if a = ''--mode'' \<and> as \<noteq> [] then parse_args path (hd as) (tl as)
      else if a = ''--help'' \<or> a = ''-h'' then Usage
      else parse_args path mode as)"

section \<open>The report\<close>

definition usage_line :: string where
  "usage_line = ''usage: df_cli --load <graph.bin> [--mode summary|full]''"

definition summary_lines :: "iteration \<Rightarrow> string \<Rightarrow> graph \<Rightarrow> bool \<Rightarrow> string list" where
  "summary_lines it path g is_dag =
     [''Dependency Fabric graph '' @ path,
      ''  nodes='' @ to_string_nat (node_count g) @ '' edges='' @ to_string_nat (edge_count g) @
      '' sets='' @ to_string_nat (set_count g) @ '' sources='' @ to_string_nat (source_count g) @
      '' digest='' @ show_u64 (digest it g) @ '' (0x'' @ to_hex_nat (unat (digest it g)) @ '')'',
      ''  acyclic='' @ (if is_dag then ''yes'' else ''NO'')]"

definition blocker_line :: "blocking_dependency \<Rightarrow> string" where
  "blocker_line b = ''    blocked by edge '' @ strong_to_string (bd_edge_id b) @ '' -> node '' @
     strong_to_string (bd_producer b) @ '': '' @ c_str (bd_reason b)"

definition node_line :: "graph \<Rightarrow> node_id \<Rightarrow> node \<Rightarrow> string" where
  "node_line g i n = ''node '' @ strong_to_string i @ '' kind='' @ node_kind_name (nd_kind n) @
     '' state='' @ readiness_state_name (readiness g i) @ '' gen='' @ strong_to_string (current_authority g i) @
     '' desc='' @ c_str (nd_descriptor n)"

definition node_report :: "graph \<Rightarrow> node_id \<Rightarrow> string list" where
  "node_report g i =
     (case node_of g i of None \<Rightarrow> []
      | Some n \<Rightarrow> node_line g i n # map blocker_line (blockers g i))"

definition edge_report :: "graph \<Rightarrow> edge_id \<Rightarrow> string list" where
  "edge_report g i =
     (case edge_of g i of None \<Rightarrow> []
      | Some e \<Rightarrow> [''edge '' @ strong_to_string i @ '' kind='' @ edge_kind_name (ed_kind e) @
          '' producer='' @ strong_to_string (ed_producer_id e) @ '' consumer='' @
          strong_to_string (ed_consumer_id e) @ '' active='' @ (if ed_active e then ''yes'' else ''no'')])"

definition full_report :: "iteration \<Rightarrow> graph \<Rightarrow> string list" where
  "full_report it g =
     concat (map (node_report g) (all_nodes it g)) @ concat (map (edge_report g) (all_edges it g))"

record cli_result =
  cl_exit :: int
  cl_out :: "string list"
  cl_err :: "string list"

definition inspect_graph :: "iteration \<Rightarrow> string \<Rightarrow> string \<Rightarrow> graph \<Rightarrow> cli_result option" where
  "inspect_graph it path mode g =
     map_option (\<lambda>is_dag. \<lparr>cl_exit = 0,
        cl_out = summary_lines it path g is_dag @ (if mode \<noteq> ''full'' then [] else full_report it g),
        cl_err = []\<rparr>)
       (acyclic_query it g)"

definition df_cli :: "file_system \<Rightarrow> iteration \<Rightarrow> string list \<Rightarrow> cli_result option" where
  "df_cli fs it args =
     (case parse_args [] ''summary'' args of
        Usage \<Rightarrow> Some \<lparr>cl_exit = 0, cl_out = [usage_line], cl_err = []\<rparr>
      | Inspect path mode \<Rightarrow>
          if path = [] then Some \<lparr>cl_exit = 1, cl_out = [], cl_err = [''error: --load <path> is required'']\<rparr>
          else (case load_file fs it path (Some empty_graph) of
             None \<Rightarrow> None
           | Some (oc, err, target) \<Rightarrow>
               if oc \<noteq> OC_ACCEPTED
               then Some \<lparr>cl_exit = 1, cl_out = [], cl_err = [''error: '' @ c_str err]\<rparr>
               else (case target of None \<Rightarrow> None | Some g \<Rightarrow> inspect_graph it path mode g)))"

section \<open>What the report says\<close>

lemma listings:
  assumes "iteration_ok it" and "core_inv g"
  shows "set (all_nodes it g) = {i. find_node g i \<noteq> None}" "distinct (all_nodes it g)"
    "set (all_edges it g) = {i. find_edge g i \<noteq> None}" "distinct (all_edges it g)"
  using assms
  by (simp_all add: all_nodes_def all_edges_def iteration_ok_def core_inv_def graph_wf_def um_iter_keys
      is_order_set is_order_distinct um.keys_distinct) (auto simp: um.keys_find)

lemma loaded_ready_report:
  assumes it: "iteration_ok it" and l: "load it bs (Some g) = Some (OC_ACCEPTED, msg, Some g')"
    and loc: "sets_local g'" and n: "find_node g' i = Some n" "nd_state n = RS_READY"
  shows "node_report g' i = [node_line g' i n]"
proof -
  have "sets_in_range g' i"
    using loaded_storable[OF it l]
    by (force simp: sets_in_range_def active_sets_def List.map_filter_def list_all_iff set_in_range_def
        storable_def storable_set_def split: option.splits if_splits)
  then have "blockers g' i = []" by (rule ready_no_blockers[OF loaded_settled[OF it l loc] n])
  then show ?thesis using n by (simp add: node_report_def node_of_def)
qed

lemma inspect_loaded:
  assumes "iteration_ok it" and "load it bs (Some g) = Some (OC_ACCEPTED, msg, Some g')"
  shows "inspect_graph it path mode g' = Some \<lparr>cl_exit = 0,
     cl_out = summary_lines it path g' True @ (if mode \<noteq> ''full'' then [] else full_report it g'), cl_err = []\<rparr>"
  using acyclic_query_decides[OF _ loaded_structure(2)[OF assms] assms(1)] loaded_structure(1,3)[OF assms]
  by (simp add: inspect_graph_def core_inv_def)

end
