(* ===== verification/Wire.thy ===== *)
theory Wire
  imports Bytes
begin

text \<open>
  \<open>include/dependency_fabric/protocol.hpp\<close> and \<open>src/protocol/framing.cpp\<close>: frames and the byte
  stream that carries them. The operating system's \<open>send\<close> and \<open>recv\<close> are the environment: a script
  of what each call delivers or accepts. The loops \<open>write_all\<close>, \<open>read_exact\<close>, \<open>read_frame\<close> and
  \<open>write_frame\<close> run against such scripts; opening, binding and closing sockets is left out.
\<close>

section \<open>Frames\<close>

definition kMagic :: u32 where
  "kMagic = 0x44463132"

definition kVersion :: u16 where
  "kVersion = 1"

definition kMaxBodyBytes :: u32 where
  "kMaxBodyBytes = 2 ^ 24"

definition kHeaderBytes :: nat where
  "kHeaderBytes = 4 + 2 + 2 + 4 + 4"

text \<open>\<open>FrameType\<close> is filled by \<open>static_cast\<close> from the header: \<open>FT_raw\<close> is a code that names no type.\<close>

datatype frame_type =
    FT_HELLO_REQ | FT_HELLO_RESP | FT_REGISTER_REQ | FT_ACK | FT_NACK | FT_PUBLISH_NODE_REQ
  | FT_PUBLISH_GEN_REQ | FT_ADD_EDGE_REQ | FT_QUERY_REQ | FT_QUERY_RESP | FT_INVALIDATE_REQ
  | FT_MARK_RECOVERED_REQ | FT_PERSIST_REQ | FT_PERSIST_RESP | FT_REMOVE_EDGE_REQ
  | FT_PUBLISH_READINESS_REQ | FT_BYE | FT_ERROR | FT_raw u16

fun frame_type_code :: "frame_type \<Rightarrow> u16" where
  "frame_type_code FT_HELLO_REQ = 1"
| "frame_type_code FT_HELLO_RESP = 2"
| "frame_type_code FT_REGISTER_REQ = 3"
| "frame_type_code FT_ACK = 4"
| "frame_type_code FT_NACK = 5"
| "frame_type_code FT_PUBLISH_NODE_REQ = 6"
| "frame_type_code FT_PUBLISH_GEN_REQ = 7"
| "frame_type_code FT_ADD_EDGE_REQ = 8"
| "frame_type_code FT_QUERY_REQ = 9"
| "frame_type_code FT_QUERY_RESP = 10"
| "frame_type_code FT_INVALIDATE_REQ = 11"
| "frame_type_code FT_MARK_RECOVERED_REQ = 12"
| "frame_type_code FT_PERSIST_REQ = 13"
| "frame_type_code FT_PERSIST_RESP = 14"
| "frame_type_code FT_REMOVE_EDGE_REQ = 15"
| "frame_type_code FT_PUBLISH_READINESS_REQ = 16"
| "frame_type_code FT_BYE = 17"
| "frame_type_code FT_ERROR = 18"
| "frame_type_code (FT_raw w) = w"

definition frame_type_of_code :: "u16 \<Rightarrow> frame_type" where
  "frame_type_of_code w =
     (if w = 1 then FT_HELLO_REQ else if w = 2 then FT_HELLO_RESP else if w = 3 then FT_REGISTER_REQ
      else if w = 4 then FT_ACK else if w = 5 then FT_NACK else if w = 6 then FT_PUBLISH_NODE_REQ
      else if w = 7 then FT_PUBLISH_GEN_REQ else if w = 8 then FT_ADD_EDGE_REQ
      else if w = 9 then FT_QUERY_REQ else if w = 10 then FT_QUERY_RESP
      else if w = 11 then FT_INVALIDATE_REQ else if w = 12 then FT_MARK_RECOVERED_REQ
      else if w = 13 then FT_PERSIST_REQ else if w = 14 then FT_PERSIST_RESP
      else if w = 15 then FT_REMOVE_EDGE_REQ else if w = 16 then FT_PUBLISH_READINESS_REQ
      else if w = 17 then FT_BYE else if w = 18 then FT_ERROR else FT_raw w)"

record frame =
  fr_type :: frame_type
  fr_body :: "u8 list"

definition encode_frame :: "frame \<Rightarrow> u8 list option" where
  "encode_frame f =
     (if length (fr_body f) > unat kMaxBodyBytes then None
      else Some (enc_u32 kMagic @ enc_u16 kVersion @ enc_u16 (frame_type_code (fr_type f)) @
        enc_u32 (of_nat (length (fr_body f))) @ enc_u32 (checksum32 (fr_body f)) @ fr_body f))"

record header =
  hd_magic :: u32
  hd_version :: u16
  hd_type :: u16
  hd_len :: u32
  hd_checksum :: u32

definition read_header :: "header reader" where
  "read_header = do {
     magic \<leftarrow> dec_u32; version \<leftarrow> dec_u16; typev \<leftarrow> dec_u16; len \<leftarrow> dec_u32; cs \<leftarrow> dec_u32;
     State_Monad.return \<lparr>hd_magic = magic, hd_version = version, hd_type = typev, hd_len = len,
                         hd_checksum = cs\<rparr> }"

definition decode_frame :: "u8 list \<Rightarrow> frame option" where
  "decode_frame p =
     (if length p < kHeaderBytes then None
      else case run_state read_header (new_decoder p) of (h, d) \<Rightarrow>
        if \<not> de_ok d then None
        else if hd_magic h \<noteq> kMagic then None
        else if hd_version h \<noteq> kVersion then None
        else if hd_len h > kMaxBodyBytes then None
        else if length p \<noteq> kHeaderBytes + unat (hd_len h) then None
        else let body = take (unat (hd_len h)) (drop kHeaderBytes p) in
          if checksum32 body \<noteq> hd_checksum h then None
          else Some \<lparr>fr_type = frame_type_of_code (hd_type h), fr_body = body\<rparr>)"

section \<open>The transport\<close>

text \<open>
  What the socket will deliver: chunks of bytes as they arrive, or a failure of \<open>recv\<close>; an exhausted
  script is a connection that the peer has closed. One \<open>recv\<close> delivers a prefix of the next chunk.
\<close>

datatype arrival = Bytes "u8 list" | Broken

datatype 'a received = Received 'a | Refused string

fun read_exact :: "nat \<Rightarrow> arrival list \<Rightarrow> u8 list received \<times> arrival list" where
  "read_exact n [] = (if n = 0 then Received [] else Refused ''connection closed'', [])"
| "read_exact n (Broken # as) = (if n = 0 then (Received [], Broken # as) else (Refused ''recv failed'', as))"
| "read_exact n (Bytes c # as) =
     (if n = 0 then (Received [], Bytes c # as)
      else if c = [] then (Refused ''connection closed'', as)
      else if length c \<le> n then
        (case read_exact (n - length c) as of
           (Received bs, r) \<Rightarrow> (Received (c @ bs), r)
         | (Refused e, r) \<Rightarrow> (Refused e, r))
      else (Received (take n c), Bytes (drop n c) # as))"

text \<open>What each \<open>send\<close> accepts; 0 is a failed call. The bytes sent are returned.\<close>

fun write_all :: "u8 list \<Rightarrow> nat list \<Rightarrow> bool \<times> u8 list \<times> nat list" where
  "write_all [] ks = (True, [], ks)"
| "write_all bs [] = (False, [], [])"
| "write_all bs (k # ks) =
     (if k = 0 then (False, [], ks)
      else case write_all (drop k bs) ks of (ok, sent, ks') \<Rightarrow> (ok, take k bs @ sent, ks'))"

definition read_frame :: "arrival list \<Rightarrow> frame received \<times> arrival list" where
  "read_frame as =
     (case read_exact kHeaderBytes as of
        (Refused e, as1) \<Rightarrow> (Refused e, as1)
      | (Received hb, as1) \<Rightarrow>
          (case run_state read_header (new_decoder hb) of (h, d) \<Rightarrow>
             if \<not> de_ok d \<or> hd_magic h \<noteq> kMagic \<or> hd_version h \<noteq> kVersion
             then (Refused ''bad frame header'', as1)
             else if hd_len h > kMaxBodyBytes then (Refused ''frame too large'', as1)
             else (case (if 0 < hd_len h then read_exact (unat (hd_len h)) as1 else (Received [], as1)) of
                (Refused e, as2) \<Rightarrow> (Refused e, as2)
              | (Received body, as2) \<Rightarrow>
                  if checksum32 body \<noteq> hd_checksum h then (Refused ''frame checksum mismatch'', as2)
                  else (Received \<lparr>fr_type = frame_type_of_code (hd_type h), fr_body = body\<rparr>, as2))))"

definition write_frame :: "frame \<Rightarrow> nat list \<Rightarrow> bool \<times> u8 list \<times> nat list" where
  "write_frame f ks =
     (case encode_frame f of None \<Rightarrow> (False, [], ks) | Some bs \<Rightarrow> write_all bs ks)"

section \<open>Framing is exact\<close>

lemma frame_type_code_of_code [simp]: "frame_type_code (frame_type_of_code w) = w"
  by (simp add: frame_type_of_code_def)

definition frame_ok :: "frame \<Rightarrow> bool" where
  "frame_ok f \<longleftrightarrow> frame_type_of_code (frame_type_code (fr_type f)) = fr_type f \<and>
     length (fr_body f) \<le> unat kMaxBodyBytes"

definition frame_header :: "frame \<Rightarrow> header" where
  "frame_header f = \<lparr>hd_magic = kMagic, hd_version = kVersion, hd_type = frame_type_code (fr_type f),
     hd_len = of_nat (length (fr_body f)), hd_checksum = checksum32 (fr_body f)\<rparr>"

definition enc_header :: "header \<Rightarrow> u8 list" where
  "enc_header h = enc_u32 (hd_magic h) @ enc_u16 (hd_version h) @ enc_u16 (hd_type h) @
     enc_u32 (hd_len h) @ enc_u32 (hd_checksum h)"

lemma encode_frame_alt:
  "encode_frame f = (if length (fr_body f) > unat kMaxBodyBytes then None
     else Some (enc_header (frame_header f) @ fr_body f))"
  by (simp add: encode_frame_def enc_header_def frame_header_def)

lemma length_header [simp]: "length (enc_header h) = kHeaderBytes"
  by (simp add: enc_header_def kHeaderBytes_def)

lemma unat_body_length:
  "n \<le> unat kMaxBodyBytes \<Longrightarrow> unat (of_nat n :: u32) = n"
  by (simp add: unsigned_of_nat take_bit_nat_eq_self kMaxBodyBytes_def)

interpretation c_header: exact_codec enc_header read_header "\<lambda>_. True"
proof
  show s: "sound_reader read_header" unfolding read_header_def by (intro sound)
  fix h :: header and p q r :: "u8 list"
  show "run_state read_header \<lparr>de_left = enc_header h @ r, de_ok = True\<rparr> = (h, \<lparr>de_left = r, de_ok = True\<rparr>)"
    by (simp add: read_header_def enc_header_def reads_back)
  show "\<not> de_ok (snd (run_state read_header \<lparr>de_left = p, de_ok = True\<rparr>))"
    if "enc_header h = p @ q" "q \<noteq> []"
    unfolding read_header_def
    apply (rule c_u32.bind_truncated[OF _ that(1)[unfolded enc_header_def] that(2)], simp)
     apply (intro sound)
    apply (rule c_u16.bind_truncated[OF _ _ that(2)], simp, assumption, intro sound)
    apply (rule c_u16.bind_truncated[OF _ _ that(2)], simp, assumption, intro sound)
    apply (rule c_u32.bind_truncated[OF _ _ that(2)], simp, assumption, intro sound)
    apply (drule c_u32.truncated[OF TrueI _ that(2)])
    apply (auto split: prod.split)
    done
  fix d d'
  show "de_left d = enc_header h @ de_left d'" if "run_state read_header d = (h, d')" "de_ok d'"
    using that unfolding read_header_def
    apply -
    apply (erule c_u32.bind_written, assumption, intro sound)
    apply (erule c_u16.bind_written, assumption, intro sound)
    apply (erule c_u16.bind_written, assumption, intro sound)
    apply (erule c_u32.bind_written, assumption, intro sound)
    apply (erule c_u32.bind_written, assumption, intro sound)
    apply (auto simp: enc_header_def)
    done
qed

lemma frame_type_of_code_of [simp]:
  "frame_type_of_code (frame_type_code (frame_type_of_code w)) = frame_type_of_code w"
  by simp

text \<open>A header read from a buffer is the encoding of that header.\<close>

lemma header_of:
  assumes "run_state read_header (new_decoder p) = (h, d)" and "de_ok d"
  shows "p = enc_header h @ de_left d"
  using c_header.written[OF assms] by (simp add: new_decoder_def)

lemma header_back: "run_state read_header (new_decoder (enc_header h @ r)) = (h, \<lparr>de_left = r, de_ok = True\<rparr>)"
  by (simp add: new_decoder_def c_header.reads_back)

lemma decode_frame_encoded:
  assumes "frame_ok f" and "encode_frame f = Some bs"
  shows "decode_frame bs = Some f"
proof -
  have len: "length (fr_body f) \<le> unat kMaxBodyBytes" and bs: "bs = enc_header (frame_header f) @ fr_body f"
    using assms by (auto simp: encode_frame_alt split: if_splits)
  note u = unat_body_length[OF len]
  have "\<not> kMaxBodyBytes < of_nat (length (fr_body f))" using len by (simp add: word_less_nat_alt u)
  moreover have "run_state read_header (new_decoder bs) = (frame_header f, \<lparr>de_left = fr_body f, de_ok = True\<rparr>)"
    unfolding bs by (rule header_back)
  ultimately show ?thesis
    using assms(1) by (simp add: decode_frame_def bs frame_header_def u Let_def frame_ok_def)
qed

lemma frame_of_header:
  assumes "hd_magic h = kMagic" "hd_version h = kVersion" "\<not> hd_len h > kMaxBodyBytes"
    and "length body = unat (hd_len h)" "checksum32 body = hd_checksum h"
  shows "frame_ok \<lparr>fr_type = frame_type_of_code (hd_type h), fr_body = body\<rparr>"
    "encode_frame \<lparr>fr_type = frame_type_of_code (hd_type h), fr_body = body\<rparr> = Some (enc_header h @ body)"
proof -
  have len: "length body \<le> unat kMaxBodyBytes" using assms(3,4) by (simp add: word_le_nat_alt not_less)
  then show "frame_ok \<lparr>fr_type = frame_type_of_code (hd_type h), fr_body = body\<rparr>"
    by (simp add: frame_ok_def)
  have "h = frame_header \<lparr>fr_type = frame_type_of_code (hd_type h), fr_body = body\<rparr>"
    using assms by (cases h) (simp add: frame_header_def)
  then show "encode_frame \<lparr>fr_type = frame_type_of_code (hd_type h), fr_body = body\<rparr> = Some (enc_header h @ body)"
    using len by (simp add: encode_frame_alt)
qed

lemma decode_frame_iff:
  "decode_frame bs = Some f \<longleftrightarrow> frame_ok f \<and> encode_frame f = Some bs"
proof
  assume dec: "decode_frame bs = Some f"
  obtain h d where h: "run_state read_header (new_decoder bs) = (h, d)" by fastforce
  with dec have ok: "de_ok d" and hd: "hd_magic h = kMagic" "hd_version h = kVersion"
    "\<not> hd_len h > kMaxBodyBytes" and len: "length bs = kHeaderBytes + unat (hd_len h)"
    by (auto simp: decode_frame_def Let_def split: if_splits)
  have bs: "bs = enc_header h @ de_left d" by (rule header_of[OF h ok])
  with len have body: "length (de_left d) = unat (hd_len h)" by (metis add_left_cancel length_append length_header)
  have "checksum32 (de_left d) = hd_checksum h"
    and f: "f = \<lparr>fr_type = frame_type_of_code (hd_type h), fr_body = de_left d\<rparr>"
    using dec h ok hd len body by (auto simp: decode_frame_def Let_def bs split: if_splits)
  then show "frame_ok f \<and> encode_frame f = Some bs" using frame_of_header[OF hd body] bs by simp
qed (simp add: decode_frame_encoded)

section \<open>Partial reads and writes\<close>

definition arrivals_ok :: "arrival list \<Rightarrow> bool" where
  "arrivals_ok as \<longleftrightarrow> list_all (\<lambda>a. case a of Bytes c \<Rightarrow> c \<noteq> [] | Broken \<Rightarrow> False) as"

fun arrived :: "arrival list \<Rightarrow> u8 list" where
  "arrived [] = []"
| "arrived (Bytes c # as) = c @ arrived as"
| "arrived (Broken # as) = arrived as"

lemma read_exact_enough:
  assumes "arrivals_ok as" and "n \<le> length (arrived as)"
  shows "\<exists>r. read_exact n as = (Received (take n (arrived as)), r) \<and> arrivals_ok r \<and>
    arrived r = drop n (arrived as)"
  using assms
proof (induction n as rule: read_exact.induct)
  case (3 n c as)
  then show ?case by (fastforce simp: arrivals_ok_def)
qed (auto simp: arrivals_ok_def)

lemma read_exact_short:
  assumes "arrivals_ok as" and "length (arrived as) < n"
  shows "read_exact n as = (Refused ''connection closed'', [])"
  using assms by (induction n as rule: read_exact.induct) (auto simp: arrivals_ok_def)

lemma read_frame_arrived:
  assumes "arrivals_ok as" and "arrived as = bs @ rest" and "frame_ok f" and "encode_frame f = Some bs"
  shows "\<exists>r. read_frame as = (Received f, r) \<and> arrivals_ok r \<and> arrived r = rest"
proof -
  have len: "length (fr_body f) \<le> unat kMaxBodyBytes" and bs: "bs = enc_header (frame_header f) @ fr_body f"
    using assms by (auto simp: encode_frame_alt split: if_splits)
  note u = unat_body_length[OF len]
  have small: "\<not> kMaxBodyBytes < of_nat (length (fr_body f))" using len by (simp add: word_less_nat_alt u)
  obtain r1 where r1: "read_exact kHeaderBytes as = (Received (enc_header (frame_header f)), r1)"
    "arrivals_ok r1" "arrived r1 = fr_body f @ rest"
    using read_exact_enough[OF assms(1), of kHeaderBytes] assms(2) by (auto simp: bs)
  have h: "run_state read_header (new_decoder (enc_header (frame_header f))) =
      (frame_header f, \<lparr>de_left = [], de_ok = True\<rparr>)"
    using header_back[of "frame_header f" "[]"] by simp
  have ty: "frame_type_of_code (frame_type_code (fr_type f)) = fr_type f"
    using assms(3) by (simp add: frame_ok_def)
  show ?thesis
  proof (cases "fr_body f = []")
    case True
    then show ?thesis
      using r1 h small ty by (simp add: read_frame_def frame_header_def)
  next
    case False
    obtain r2 where "read_exact (length (fr_body f)) r1 = (Received (fr_body f), r2)"
      "arrivals_ok r2" "arrived r2 = rest"
      using read_exact_enough[OF r1(2), of "length (fr_body f)"] r1(3) by auto
    moreover have "0 < (of_nat (length (fr_body f)) :: u32)" using False u by (simp add: word_less_nat_alt)
    ultimately show ?thesis using r1(1) h small ty u by (simp add: read_frame_def frame_header_def)
  qed
qed

lemma write_all_sent:
  "write_all bs ks = (ok, sent, ks') \<Longrightarrow> \<exists>rest. bs = sent @ rest \<and> (ok \<longleftrightarrow> rest = [])"
proof (induction bs ks arbitrary: sent rule: write_all.induct)
  case (3 b bs k ks)
  show ?case
  proof (cases "k = 0")
    case False
    obtain sent' where s: "write_all (drop k (b # bs)) ks = (ok, sent', ks')" "sent = take k (b # bs) @ sent'"
      using 3(2) False by (auto split: prod.splits)
    obtain rest where "drop k (b # bs) = sent' @ rest" "ok \<longleftrightarrow> rest = []"
      using 3(1)[OF False s(1)] by blast
    then show ?thesis unfolding s(2) by (metis append.assoc append_take_drop_id)
  qed (use 3(2) in auto)
qed auto

end
