(* ===== verification/Messages.thy ===== *)
theory Messages
  imports Wire Reloading
begin

text \<open>
  The messages of \<open>src/coordinator/coordinator.cpp\<close>: the builders a client calls, the decoding part of
  each case of \<open>Coordinator::handle\<close>, and the parsers of the responses. \<open>message\<close> is the abstract
  request; every request body is a codec: it is read back exactly and none of its strict prefixes is
  accepted.
\<close>

section \<open>Requests\<close>

definition hello_req :: frame where
  "hello_req = \<lparr>fr_type = FT_HELLO_REQ, fr_body = []\<rparr>"

definition register_req :: "source_id \<Rightarrow> source_boot_id \<Rightarrow> coordinator_epoch \<Rightarrow> frame" where
  "register_req s b e = \<lparr>fr_type = FT_REGISTER_REQ, fr_body = enc_id s @ enc_id b @ enc_id e\<rparr>"

definition publish_node_req :: "node_id \<Rightarrow> node_kind \<Rightarrow> string \<Rightarrow> source_id \<Rightarrow> source_boot_id \<Rightarrow>
    coordinator_epoch \<Rightarrow> frame" where
  "publish_node_req n k desc s b e =
     \<lparr>fr_type = FT_PUBLISH_NODE_REQ,
      fr_body = enc_id n @ enc_u8 (node_kind_code k) @ enc_id s @ enc_id b @ enc_id e @ enc_str desc\<rparr>"

definition publish_gen_req :: "node_id \<Rightarrow> node_generation \<Rightarrow> source_id \<Rightarrow> source_boot_id \<Rightarrow>
    coordinator_epoch \<Rightarrow> frame" where
  "publish_gen_req n g s b e =
     \<lparr>fr_type = FT_PUBLISH_GEN_REQ, fr_body = enc_id n @ enc_id g @ enc_id s @ enc_id b @ enc_id e\<rparr>"

definition add_edge_req :: "edge \<Rightarrow> source_id \<Rightarrow> source_boot_id \<Rightarrow> coordinator_epoch \<Rightarrow> frame" where
  "add_edge_req ed s b e =
     \<lparr>fr_type = FT_ADD_EDGE_REQ,
      fr_body =
        enc_id (ed_id ed) @ enc_id (ed_generation ed) @ enc_u8 (edge_kind_code (ed_kind ed)) @
        enc_id (ed_producer_id ed) @ enc_id (ed_consumer_id ed) @
        enc_id (ed_bound_producer_generation ed) @ enc_id (ed_bound_consumer_generation ed) @
        enc_bool (ed_active ed) @
        (let p = ed_predicate ed in
         enc_u8 (generation_predicate_kind_code (pr_generation_kind p)) @
         enc_id (pr_exact_generation p) @ enc_id (pr_minimum_generation p) @
         enc_count (length (pr_compatible_generations p)) @
         concat (map enc_id (pr_compatible_generations p)) @
         enc_u8 (readiness_state_code (pr_required_readiness p)) @
         enc_str (pr_required_capability p) @ enc_bool (pr_requires_resource_available p) @
         enc_bool (pr_requires_fresh p) @ enc_bool (pr_requires_integrity p) @
         enc_u64 (pr_minimal_provenance_confidence p) @
         enc_str (pr_required_completion_state p) @ enc_bool (pr_is_required p) @
         enc_str (pr_note p)) @
        enc_id s @ enc_id b @ enc_id e\<rparr>"

definition query_req :: "node_id \<Rightarrow> frame" where
  "query_req n = \<lparr>fr_type = FT_QUERY_REQ, fr_body = enc_id n\<rparr>"

definition advance_epoch_req :: "coordinator_epoch \<Rightarrow> frame" where
  "advance_epoch_req e = \<lparr>fr_type = FT_INVALIDATE_REQ, fr_body = enc_id e\<rparr>"

definition invalidate_req :: "node_id \<Rightarrow> invalidation_reason \<Rightarrow> invalidation_mode \<Rightarrow> u32 \<Rightarrow> bool \<Rightarrow>
    bool \<Rightarrow> source_id \<Rightarrow> source_boot_id \<Rightarrow> coordinator_epoch \<Rightarrow> frame" where
  "invalidate_req n r m depth through degrade s b e =
     \<lparr>fr_type = FT_INVALIDATE_REQ,
      fr_body = enc_id n @ enc_u8 (invalidation_reason_code r) @ enc_u8 (invalidation_mode_code m) @
        enc_u32 depth @ enc_bool through @ enc_bool degrade @ enc_id s @ enc_id b @ enc_id e\<rparr>"

definition mark_recovered_req :: "node_id \<Rightarrow> source_id \<Rightarrow> source_boot_id \<Rightarrow> coordinator_epoch \<Rightarrow> frame" where
  "mark_recovered_req n s b e =
     \<lparr>fr_type = FT_MARK_RECOVERED_REQ, fr_body = enc_id n @ enc_id s @ enc_id b @ enc_id e\<rparr>"

definition remove_edge_req :: "edge_id \<Rightarrow> source_id \<Rightarrow> source_boot_id \<Rightarrow> coordinator_epoch \<Rightarrow> frame" where
  "remove_edge_req i s b e =
     \<lparr>fr_type = FT_REMOVE_EDGE_REQ, fr_body = enc_id i @ enc_id s @ enc_id b @ enc_id e\<rparr>"

definition persist_req :: "string \<Rightarrow> frame" where
  "persist_req path = \<lparr>fr_type = FT_PERSIST_REQ, fr_body = enc_str path\<rparr>"

definition publish_readiness_req :: "node_id \<Rightarrow> source_id \<Rightarrow> source_boot_id \<Rightarrow> coordinator_epoch \<Rightarrow> frame" where
  "publish_readiness_req n s b e =
     \<lparr>fr_type = FT_PUBLISH_READINESS_REQ, fr_body = enc_id n @ enc_id s @ enc_id b @ enc_id e\<rparr>"

definition bye :: frame where
  "bye = \<lparr>fr_type = FT_BYE, fr_body = []\<rparr>"

section \<open>Decoding a request\<close>

text \<open>\<open>Decoder d(body); ... ; if (!d.ok()) return error\<close>.\<close>

definition decoded :: "'a reader \<Rightarrow> u8 list \<Rightarrow> 'a option" where
  "decoded p bs = (case run_state p (new_decoder bs) of (x, d) \<Rightarrow> if de_ok d then Some x else None)"

definition read_credentials :: "credentials reader" where
  "read_credentials = do { s \<leftarrow> dec_id; b \<leftarrow> dec_id; e \<leftarrow> dec_id;
     State_Monad.return \<lparr>cr_source = s, cr_boot = b, cr_epoch = e\<rparr> }"

definition read_publish_node :: "(node_id \<times> node_kind \<times> credentials \<times> string) reader" where
  "read_publish_node = do {
     n \<leftarrow> dec_id; k \<leftarrow> dec_u8; c \<leftarrow> read_credentials; desc \<leftarrow> dec_str kMaxBodyBytes;
     State_Monad.return (n, node_kind_of_code k, c, desc) }"

definition read_publish_gen :: "(node_id \<times> node_generation \<times> credentials) reader" where
  "read_publish_gen = do {
     n \<leftarrow> dec_id; g \<leftarrow> dec_id; c \<leftarrow> read_credentials; State_Monad.return (n, g, c) }"

definition read_add_edge :: "(edge \<times> credentials) reader" where
  "read_add_edge = do {
     i \<leftarrow> dec_id; gen \<leftarrow> dec_id; k \<leftarrow> dec_u8; prod \<leftarrow> dec_id; cons \<leftarrow> dec_id; bprod \<leftarrow> dec_id;
     bcons \<leftarrow> dec_id; active \<leftarrow> dec_bool; gk \<leftarrow> dec_u8; exact \<leftarrow> dec_id; minimum \<leftarrow> dec_id;
     cg \<leftarrow> dec_u32; compat \<leftarrow> dec_list (unat cg) dec_id; rr \<leftarrow> dec_u8;
     cap \<leftarrow> dec_str kMaxBodyBytes; resource \<leftarrow> dec_bool; fresh \<leftarrow> dec_bool; integrity \<leftarrow> dec_bool;
     prov \<leftarrow> dec_u64; completion \<leftarrow> dec_str kMaxBodyBytes; req \<leftarrow> dec_bool;
     note \<leftarrow> dec_str kMaxBodyBytes; c \<leftarrow> read_credentials;
     State_Monad.return
       (\<lparr>ed_id = i, ed_generation = gen, ed_kind = edge_kind_of_code k, ed_producer_id = prod,
         ed_consumer_id = cons, ed_bound_producer_generation = bprod,
         ed_bound_consumer_generation = bcons,
         ed_predicate =
           \<lparr>pr_generation_kind = generation_predicate_kind_of_code gk, pr_exact_generation = exact,
            pr_minimum_generation = minimum, pr_compatible_generations = compat,
            pr_required_readiness = readiness_state_of_code rr, pr_required_capability = cap,
            pr_requires_resource_available = resource, pr_requires_fresh = fresh,
            pr_requires_integrity = integrity, pr_minimal_provenance_confidence = prov,
            pr_required_completion_state = completion, pr_is_required = req, pr_note = note\<rparr>,
         ed_active = active\<rparr>, c) }"

definition read_invalidate :: "(node_id \<times> invalidation_reason \<times> invalidation_mode \<times> u32 \<times> bool \<times> bool \<times>
    credentials) reader" where
  "read_invalidate = do {
     n \<leftarrow> dec_id; r \<leftarrow> dec_u8; m \<leftarrow> dec_u8; depth \<leftarrow> dec_u32; through \<leftarrow> dec_bool; degrade \<leftarrow> dec_bool;
     c \<leftarrow> read_credentials;
     State_Monad.return (n, invalidation_reason_of_code r, invalidation_mode_of_code m, depth, through,
       degrade, c) }"

text \<open>MARK_RECOVERED, REMOVE_EDGE and PUBLISH_READINESS: an id and credentials.\<close>

definition read_target :: "('tag strong \<times> credentials) reader" where
  "read_target = do { i \<leftarrow> dec_id; c \<leftarrow> read_credentials; State_Monad.return (i, c) }"

section \<open>Parsing a response\<close>

definition parse_hello_resp :: "frame \<Rightarrow> coordinator_epoch option" where
  "parse_hello_resp f = (if fr_type f \<noteq> FT_HELLO_RESP then None else decoded dec_id (fr_body f))"

definition parse_outcome_resp :: "frame \<Rightarrow> outcome option" where
  "parse_outcome_resp f =
     (if fr_type f \<noteq> FT_ACK \<and> fr_type f \<noteq> FT_NACK then None
      else map_option outcome_of_code (decoded dec_u8 (fr_body f)))"

definition read_blocker :: "blocking_dependency reader" where
  "read_blocker = do {
     i \<leftarrow> dec_id; p \<leftarrow> dec_id; k \<leftarrow> dec_u8; opt \<leftarrow> dec_bool; reason \<leftarrow> dec_str kMaxBodyBytes;
     State_Monad.return
       \<lparr>bd_edge_id = i, bd_edge_generation = null_strong, bd_producer = p,
        bd_producer_kind = NK_UNKNOWN, bd_kind = edge_kind_of_code k, bd_optional = opt,
        bd_is_set_member = False, bd_set_label = [], bd_constraint_kind = GP_NONE,
        bd_required_generation = null_strong, bd_actual_generation = null_strong,
        bd_reason = reason\<rparr> }"

definition read_query_resp :: "(readiness_state \<times> node_generation \<times> blocking_dependency list) reader" where
  "read_query_resp = do {
     st \<leftarrow> dec_u8; g \<leftarrow> dec_id; n \<leftarrow> dec_u32; bs \<leftarrow> dec_list (unat n) read_blocker;
     State_Monad.return (readiness_state_of_code st, g, bs) }"

definition parse_query_resp :: "frame \<Rightarrow>
    (readiness_state \<times> node_generation \<times> blocking_dependency list) option" where
  "parse_query_resp f =
     (if fr_type f \<noteq> FT_QUERY_RESP then None else decoded read_query_resp (fr_body f))"

definition read_persist_resp :: "(outcome \<times> u64) reader" where
  "read_persist_resp = do { oc \<leftarrow> dec_u8; h \<leftarrow> dec_u64; State_Monad.return (outcome_of_code oc, h) }"

definition parse_persist_resp :: "frame \<Rightarrow> (outcome \<times> u64) option" where
  "parse_persist_resp f =
     (if fr_type f \<noteq> FT_PERSIST_RESP then None else decoded read_persist_resp (fr_body f))"

definition is_accepted :: "frame \<Rightarrow> bool" where
  "is_accepted f \<longleftrightarrow> parse_outcome_resp f = Some OC_ACCEPTED"

section \<open>The abstract requests\<close>

datatype message =
    Hello
  | Register credentials
  | PublishNode node_id node_kind string credentials
  | PublishGen node_id node_generation credentials
  | AddEdgeMsg edge credentials
  | Query node_id
  | AdvanceEpoch coordinator_epoch
  | InvalidateMsg node_id invalidation_reason invalidation_mode u32 bool bool credentials
  | MarkRecoveredMsg node_id credentials
  | RemoveEdgeMsg edge_id credentials
  | Persist string
  | PublishReadinessMsg node_id credentials
  | Bye

fun frame_of :: "message \<Rightarrow> frame" where
  "frame_of Hello = hello_req"
| "frame_of (Register c) = register_req (cr_source c) (cr_boot c) (cr_epoch c)"
| "frame_of (PublishNode n k d c) = publish_node_req n k d (cr_source c) (cr_boot c) (cr_epoch c)"
| "frame_of (PublishGen n g c) = publish_gen_req n g (cr_source c) (cr_boot c) (cr_epoch c)"
| "frame_of (AddEdgeMsg x c) = add_edge_req x (cr_source c) (cr_boot c) (cr_epoch c)"
| "frame_of (Query n) = query_req n"
| "frame_of (AdvanceEpoch e) = advance_epoch_req e"
| "frame_of (InvalidateMsg n r m depth through degrade c) =
     invalidate_req n r m depth through degrade (cr_source c) (cr_boot c) (cr_epoch c)"
| "frame_of (MarkRecoveredMsg n c) = mark_recovered_req n (cr_source c) (cr_boot c) (cr_epoch c)"
| "frame_of (RemoveEdgeMsg i c) = remove_edge_req i (cr_source c) (cr_boot c) (cr_epoch c)"
| "frame_of (Persist path) = persist_req path"
| "frame_of (PublishReadinessMsg n c) = publish_readiness_req n (cr_source c) (cr_boot c) (cr_epoch c)"
| "frame_of Bye = bye"

text \<open>
  A message that the wire can carry: enumerators are written in their canonical form (a value cast
  from a byte that names an enumerator is that enumerator), and strings and vectors fit the lengths.
\<close>

definition wire_string :: "string \<Rightarrow> bool" where
  "wire_string s \<longleftrightarrow> length s \<le> unat kMaxBodyBytes"

definition wire_edge :: "edge \<Rightarrow> bool" where
  "wire_edge x \<longleftrightarrow> edge_kind_of_code (edge_kind_code (ed_kind x)) = ed_kind x \<and>
     (let p = ed_predicate x in
      generation_predicate_kind_of_code (generation_predicate_kind_code (pr_generation_kind p)) =
        pr_generation_kind p \<and>
      readiness_state_of_code (readiness_state_code (pr_required_readiness p)) = pr_required_readiness p \<and>
      length (pr_compatible_generations p) < 2 ^ 32 \<and> wire_string (pr_required_capability p) \<and>
      wire_string (pr_required_completion_state p) \<and> wire_string (pr_note p))"

fun message_ok :: "message \<Rightarrow> bool" where
  "message_ok (PublishNode n k d c) \<longleftrightarrow> node_kind_of_code (node_kind_code k) = k \<and> wire_string d"
| "message_ok (AddEdgeMsg x c) \<longleftrightarrow> wire_edge x"
| "message_ok (InvalidateMsg n r m depth through degrade c) \<longleftrightarrow>
     invalidation_reason_of_code (invalidation_reason_code r) = r \<and>
     invalidation_mode_of_code (invalidation_mode_code m) = m"
| "message_ok (Persist path) \<longleftrightarrow> wire_string path"
| "message_ok m \<longleftrightarrow> True"

section \<open>Request bodies are codecs\<close>

definition enc_credentials :: "credentials \<Rightarrow> u8 list" where
  "enc_credentials c = enc_id (cr_source c) @ enc_id (cr_boot c) @ enc_id (cr_epoch c)"

lemma sound_id [sound]: "sound_reader dec_id"
  unfolding dec_id_def by (intro sound)

lemmas short_steps = c_id.bind_short c_u8.bind_short c_u32.bind_short c_u64.bind_short c_bool.bind_short
  c_str.bind_short

interpretation c_cred: codec enc_credentials read_credentials "\<lambda>_. True"
proof
  show "sound_reader read_credentials" unfolding read_credentials_def by (intro sound)
  fix c :: credentials and p q r :: "u8 list"
  show "run_state read_credentials \<lparr>de_left = enc_credentials c @ r, de_ok = True\<rparr> =
      (c, \<lparr>de_left = r, de_ok = True\<rparr>)"
    by (simp add: read_credentials_def enc_credentials_def fields_back)
  have "fails_short (enc_credentials c) read_credentials"
    unfolding read_credentials_def enc_credentials_def
    by (intro short_steps c_id.bind_short_last sound TrueI)
  then show "\<not> de_ok (snd (run_state read_credentials \<lparr>de_left = p, de_ok = True\<rparr>))"
    if "enc_credentials c = p @ q" "q \<noteq> []"
    using that by (simp add: fails_short_def)
qed

lemma sound_credentials [sound]: "sound_reader read_credentials"
  by (rule c_cred.sound_dec)

interpretation c_ids: codec "\<lambda>xs. concat (map enc_id xs)" "dec_list n dec_id" "\<lambda>xs. length xs = n" for n
  using c_id.list_codec[of n] by (simp add: list_all_iff)

lemma credentials_tail:
  "enc_id s @ enc_id b @ enc_id e = enc_credentials \<lparr>cr_source = s, cr_boot = b, cr_epoch = e\<rparr>"
  "enc_id s @ enc_id b @ enc_id e @ ys = enc_credentials \<lparr>cr_source = s, cr_boot = b, cr_epoch = e\<rparr> @ ys"
  by (simp_all add: enc_credentials_def)

lemma decoded_back:
  assumes "\<And>r. run_state p \<lparr>de_left = bs @ r, de_ok = True\<rparr> = (x, \<lparr>de_left = r, de_ok = True\<rparr>)"
  shows "decoded p bs = Some x"
  using assms[of "[]"] by (simp add: decoded_def new_decoder_def)

lemma decoded_short: "fails_short bs p \<Longrightarrow> bs = p' @ q \<Longrightarrow> q \<noteq> [] \<Longrightarrow> decoded p p' = None"
  by (auto simp: fails_short_def decoded_def new_decoder_def split: prod.splits)

lemma wire_string_back:
  "wire_string s \<Longrightarrow> run_state (dec_str kMaxBodyBytes) \<lparr>de_left = enc_str s @ r, de_ok = True\<rparr> =
     (s, \<lparr>de_left = r, de_ok = True\<rparr>)"
  by (rule c_str.reads_back) (simp add: wire_string_def)

lemmas request_back = fields_back(1-5) wire_string_back c_cred.reads_back[OF TrueI]

lemma read_add_edge_back:
  assumes "wire_edge x"
  shows "run_state read_add_edge \<lparr>de_left = fr_body (add_edge_req x (cr_source c) (cr_boot c) (cr_epoch c)) @ r,
      de_ok = True\<rparr> = ((x, c), \<lparr>de_left = r, de_ok = True\<rparr>)"
proof -
  have len: "length (pr_compatible_generations (ed_predicate x)) < 2 ^ 32"
    using assms by (simp add: wire_edge_def Let_def)
  show ?thesis
    using assms
    by (simp add: read_add_edge_def add_edge_req_def Let_def credentials_tail request_back count_back[OF len]
        ids_back wire_edge_def)
qed

lemma sound_requests [sound]:
  "sound_reader read_publish_node" "sound_reader read_publish_gen" "sound_reader read_add_edge"
  "sound_reader read_invalidate" "sound_reader read_target" "sound_reader read_blocker"
  by (unfold read_publish_node_def read_publish_gen_def read_add_edge_def read_invalidate_def
      read_target_def read_blocker_def; intro sound)+

text \<open>A strict prefix of a request body is never decoded.\<close>

lemma request_short:
  fixes i :: "'t strong" and n :: node_id and gen :: node_generation
  shows "fails_short (enc_credentials c) read_credentials"
  "fails_short (enc_id i @ enc_credentials c) (read_target :: ('t strong \<times> credentials) reader)"
  "fails_short (enc_id n @ enc_id gen @ enc_credentials c) read_publish_gen"
  "wire_string d \<Longrightarrow> fails_short (enc_id n @ enc_u8 k @ enc_credentials c @ enc_str d) read_publish_node"
  "fails_short (enc_id n @ enc_u8 r @ enc_u8 m @ enc_u32 depth @ enc_bool b1 @ enc_bool b2 @ enc_credentials c)
     read_invalidate"
  "fails_short (enc_id n) read_invalidate"
  "fails_short (enc_id i) (dec_id :: 't strong reader)" "wire_string d \<Longrightarrow> fails_short (enc_str d) (dec_str kMaxBodyBytes)"
  subgoal by (rule c_cred.short[OF TrueI])
  subgoal unfolding read_target_def by (intro short_steps c_cred.bind_short_last sound TrueI)
  subgoal unfolding read_publish_gen_def by (intro short_steps c_cred.bind_short_last sound TrueI)
  subgoal unfolding read_publish_node_def wire_string_def
    by (intro short_steps c_cred.bind_short c_str.bind_short_last sound TrueI)
  subgoal unfolding read_invalidate_def by (intro short_steps c_cred.bind_short_last sound TrueI)
  subgoal unfolding read_invalidate_def by (intro c_id.bind_short_last sound TrueI)
  subgoal by (rule c_id.short[OF TrueI])
  subgoal by (rule c_str.short) (simp add: wire_string_def)
  done

lemma add_edge_short:
  assumes "wire_edge x"
  shows "fails_short (fr_body (add_edge_req x (cr_source c) (cr_boot c) (cr_epoch c))) read_add_edge"
proof -
  have len: "length gs = unat (of_nat (length gs) :: u32)"
    if "gs = pr_compatible_generations (ed_predicate x)" for gs :: "node_generation list"
    using assms that by (simp add: wire_edge_def Let_def unsigned_of_nat take_bit_nat_eq_self)
  have str: "length (pr_required_capability (ed_predicate x)) \<le> unat kMaxBodyBytes"
    "length (pr_required_completion_state (ed_predicate x)) \<le> unat kMaxBodyBytes"
    "length (pr_note (ed_predicate x)) \<le> unat kMaxBodyBytes"
    using assms by (simp_all add: wire_edge_def wire_string_def Let_def)
  show ?thesis
    unfolding add_edge_req_def frame.select_convs Let_def append_assoc credentials_tail(1) enc_count_def
      read_add_edge_def
    by (intro short_steps c_ids.bind_short c_cred.bind_short_last sound TrueI len str refl)
qed

end
