(* ===== verification/Coordinator.thy ===== *)
theory Coordinator
  imports Messages
begin

text \<open>
  \<open>src/coordinator/coordinator.cpp\<close>: \<open>Coordinator::handle\<close>, the loop of \<open>serve\<close> over the frames of a
  client and over clients, and \<open>CoordinatorClient::exchange\<close>. A client is a script of what its socket
  delivers and accepts (\<open>Wire\<close>). The server works on one client at a time, so serving is a function
  from the graph to the bytes sent, the files written and the next graph; \<open>None\<close> stands for an
  exception that leaves \<open>add_edge\<close>.
\<close>

section \<open>Handling a request\<close>

type_synonym file_write = "string \<times> u8 list"

type_synonym handled = "(frame option \<times> graph \<times> file_write list) option"

definition ack :: "outcome \<Rightarrow> frame" where
  "ack oc = \<lparr>fr_type = (if oc = OC_ACCEPTED then FT_ACK else FT_NACK), fr_body = enc_u8 (outcome_code oc)\<rparr>"

definition error_frame :: frame where
  "error_frame = \<lparr>fr_type = FT_ERROR, fr_body = []\<rparr>"

definition default_policy :: invalidation_policy where
  "default_policy = \<lparr>ip_mode = IM_RECURSIVE, ip_max_depth = 0, ip_propagate_through_optional = False,
     ip_degrade_optional_dependents = False, ip_cascade_blocked = True\<rparr>"

text \<open>\<open>return ack(op)\<close>, and \<open>if (!d.ok()) return error\<close> around it.\<close>

definition acked :: "(outcome \<times> graph) option \<Rightarrow> handled" where
  "acked r = map_option (\<lambda>(oc, g'). (Some (ack oc), g', [])) r"

definition with_request :: "'a reader \<Rightarrow> u8 list \<Rightarrow> graph \<Rightarrow> ('a \<Rightarrow> handled) \<Rightarrow> handled" where
  "with_request p body g act =
     (case decoded p body of None \<Rightarrow> Some (Some error_frame, g, []) | Some x \<Rightarrow> act x)"

definition enc_blocker :: "blocking_dependency \<Rightarrow> u8 list" where
  "enc_blocker b = enc_id (bd_edge_id b) @ enc_id (bd_producer b) @ enc_u8 (edge_kind_code (bd_kind b)) @
     enc_bool (bd_optional b) @ enc_str (bd_reason b)"

definition query_frame :: "readiness_state \<Rightarrow> node_generation \<Rightarrow> blocking_dependency list \<Rightarrow> frame" where
  "query_frame st gen bs = \<lparr>fr_type = FT_QUERY_RESP,
     fr_body = enc_u8 (readiness_state_code st) @ enc_id gen @ enc_count (length bs) @ concat (map enc_blocker bs)\<rparr>"

definition persisted :: "file_system \<Rightarrow> iteration \<Rightarrow> graph \<Rightarrow> string \<Rightarrow> handled" where
  "persisted fs it g path =
     (case save_file fs it g path of (oc, err, bytes) \<Rightarrow>
        if oc \<noteq> OC_ACCEPTED then Some (Some error_frame, g, [])
        else Some (Some \<lparr>fr_type = FT_PERSIST_RESP, fr_body = enc_u8 (outcome_code oc) @ enc_u64 (digest it g)\<rparr>,
                   g, case bytes of None \<Rightarrow> [] | Some bs \<Rightarrow> [(path, bs)]))"

definition handle :: "file_system \<Rightarrow> iteration \<Rightarrow> frame \<Rightarrow> graph \<Rightarrow> handled" where
  "handle fs it req g =
     (case fr_type req of
        FT_HELLO_REQ \<Rightarrow>
          Some (Some \<lparr>fr_type = FT_HELLO_RESP, fr_body = enc_id (current_epoch g)\<rparr>, g, [])
      | FT_REGISTER_REQ \<Rightarrow> with_request read_credentials (fr_body req) g (\<lambda>c.
          acked (Some (register_source (cr_source c) (cr_boot c) (cr_epoch c) g)))
      | FT_PUBLISH_NODE_REQ \<Rightarrow> with_request read_publish_node (fr_body req) g (\<lambda>(n, k, c, desc).
          acked (Some (declare_node n k desc (cr_source c) (cr_boot c) (cr_epoch c) False g)))
      | FT_PUBLISH_GEN_REQ \<Rightarrow> with_request read_publish_gen (fr_body req) g (\<lambda>(n, gen, c).
          acked (Some (publish_generation n gen (cr_source c) (cr_boot c) (cr_epoch c) g)))
      | FT_ADD_EDGE_REQ \<Rightarrow> with_request read_add_edge (fr_body req) g (\<lambda>(x, c).
          acked (add_edge x (cr_source c) (cr_boot c) (cr_epoch c) g))
      | FT_QUERY_REQ \<Rightarrow> with_request dec_id (fr_body req) g (\<lambda>n.
          Some (Some (query_frame (readiness g n) (current_authority g n) (blockers g n)), g, []))
      | FT_INVALIDATE_REQ \<Rightarrow>
          if length (fr_body req) = 8 then
            with_request dec_id (fr_body req) g (\<lambda>e. acked (Some (advance_epoch e g)))
          else
            with_request read_invalidate (fr_body req) g (\<lambda>(n, r, m, depth, through, degrade, c).
              acked (Some (invalidate_node n r
                (default_policy\<lparr>ip_mode := m, ip_max_depth := depth,
                   ip_propagate_through_optional := through, ip_degrade_optional_dependents := degrade\<rparr>)
                (cr_source c) (cr_boot c) (cr_epoch c) g)))
      | FT_MARK_RECOVERED_REQ \<Rightarrow> with_request read_target (fr_body req) g (\<lambda>(n, c).
          acked (Some (mark_recovered n (cr_source c) (cr_boot c) (cr_epoch c) g)))
      | FT_REMOVE_EDGE_REQ \<Rightarrow> with_request read_target (fr_body req) g (\<lambda>(i, c).
          acked (Some (remove_edge i (cr_source c) (cr_boot c) (cr_epoch c) g)))
      | FT_PUBLISH_READINESS_REQ \<Rightarrow> with_request read_target (fr_body req) g (\<lambda>(n, c).
          acked (Some (publish_readiness n RS_READY (cr_source c) (cr_boot c) (cr_epoch c) g)))
      | FT_PERSIST_REQ \<Rightarrow> with_request (dec_str kMaxBodyBytes) (fr_body req) g (persisted fs it g)
      | FT_BYE \<Rightarrow> Some (None, g, [])
      | _ \<Rightarrow> Some (Some error_frame, g, []))"

section \<open>Serving\<close>

text \<open>What is left in the script of a socket.\<close>

fun script_size :: "arrival list \<Rightarrow> nat" where
  "script_size [] = 0"
| "script_size (Bytes c # as) = Suc (length c) + script_size as"
| "script_size (Broken # as) = Suc (script_size as)"

lemma read_exact_size:
  "read_exact n as = (r, as') \<Longrightarrow> script_size as' \<le> script_size as"
  "read_exact n as = (Received bs, as') \<Longrightarrow> 0 < n \<Longrightarrow> script_size as' < script_size as"
proof (induction n as arbitrary: r bs as' rule: read_exact.induct)
  case (3 n c as)
  { case 1 then show ?case using 3 by (fastforce split: if_splits prod.splits received.splits) }
  { case 2 then show ?case using 3 by (fastforce split: if_splits prod.splits received.splits) }
qed (auto split: if_splits)

lemma read_frame_size: "read_frame as = (Received f, as') \<Longrightarrow> script_size as' < script_size as"
proof -
  assume r: "read_frame as = (Received f, as')"
  obtain hb as1 where h: "read_exact kHeaderBytes as = (Received hb, as1)"
    using r by (auto simp: read_frame_def split: prod.splits received.splits)
  have "script_size as1 < script_size as" by (rule read_exact_size(2)[OF h]) (simp add: kHeaderBytes_def)
  moreover have "script_size as' \<le> script_size as1"
    using r h by (auto simp: read_frame_def split: prod.splits received.splits if_splits dest: read_exact_size(1))
  ultimately show ?thesis by simp
qed

function serve_client :: "file_system \<Rightarrow> iteration \<Rightarrow> arrival list \<Rightarrow> nat list \<Rightarrow> graph \<Rightarrow>
    (u8 list \<times> file_write list \<times> graph) option" where
  "serve_client fs it as ks g =
     (case read_frame as of
        (Refused err, as') \<Rightarrow> Some ([], [], g)
      | (Received f, as') \<Rightarrow>
          (case handle fs it f g of
             None \<Rightarrow> None
           | Some (None, g', ws) \<Rightarrow> Some ([], ws, g')
           | Some (Some resp, g', ws) \<Rightarrow>
               (case write_frame resp ks of (ok, sent, ks') \<Rightarrow>
                  if \<not> ok then Some (sent, ws, g')
                  else map_option (\<lambda>(sent', ws', g''). (sent @ sent', ws @ ws', g''))
                         (serve_client fs it as' ks' g'))))"
  by auto
termination by (relation "measure (\<lambda>(fs, it, as, ks, g). script_size as)")
  (auto dest: read_frame_size[OF sym])

declare serve_client.simps [simp del]

text \<open>The accept loop: clients in the order in which they connect, until the stop flag is set.\<close>

fun serve :: "file_system \<Rightarrow> iteration \<Rightarrow> (arrival list \<times> nat list) list \<Rightarrow> graph \<Rightarrow>
    (u8 list list \<times> file_write list \<times> graph) option" where
  "serve fs it [] g = Some ([], [], g)"
| "serve fs it ((as, ks) # cs) g =
     (case serve_client fs it as ks g of
        None \<Rightarrow> None
      | Some (sent, ws, g') \<Rightarrow>
          map_option (\<lambda>(sents, ws', g''). (sent # sents, ws @ ws', g'')) (serve fs it cs g'))"

text \<open>The client's side: one request, one response.\<close>

definition exchange :: "frame \<Rightarrow> nat list \<Rightarrow> arrival list \<Rightarrow> u8 list \<times> frame option" where
  "exchange req ks as =
     (case write_frame req ks of (ok, sent, ks') \<Rightarrow>
        if \<not> ok then (sent, None)
        else (sent, case read_frame as of (Received f, as') \<Rightarrow> Some f | (Refused err, as') \<Rightarrow> None))"

section \<open>The contract of the handler\<close>

text \<open>What each message asks of the graph: the commands of \<open>Mutations\<close>, or one of the queries.\<close>

fun answer :: "file_system \<Rightarrow> iteration \<Rightarrow> message \<Rightarrow> graph \<Rightarrow> handled" where
  "answer fs it Hello g = Some (Some \<lparr>fr_type = FT_HELLO_RESP, fr_body = enc_id (gr_epoch g)\<rparr>, g, [])"
| "answer fs it (Register c) g = acked (Some (register_source (cr_source c) (cr_boot c) (cr_epoch c) g))"
| "answer fs it (PublishNode n k d c) g = acked (submit (c, DeclareNode n k d False) g)"
| "answer fs it (PublishGen n gen c) g = acked (submit (c, PublishGeneration n gen) g)"
| "answer fs it (AddEdgeMsg x c) g = acked (submit (c, AddEdge x) g)"
| "answer fs it (Query n) g =
     Some (Some (query_frame (readiness g n) (current_authority g n) (blockers g n)), g, [])"
| "answer fs it (AdvanceEpoch e) g = acked (Some (advance_epoch e g))"
| "answer fs it (InvalidateMsg n r m depth through degrade c) g =
     acked (submit (c, InvalidateNode n r \<lparr>ip_mode = m, ip_max_depth = depth,
       ip_propagate_through_optional = through, ip_degrade_optional_dependents = degrade,
       ip_cascade_blocked = True\<rparr>) g)"
| "answer fs it (MarkRecoveredMsg n c) g = acked (submit (c, MarkRecovered n) g)"
| "answer fs it (RemoveEdgeMsg i c) g = acked (submit (c, RemoveEdge i) g)"
| "answer fs it (Persist path) g = persisted fs it g path"
| "answer fs it (PublishReadinessMsg n c) g = acked (submit (c, PublishReadiness n RS_READY) g)"
| "answer fs it Bye g = Some (None, g, [])"

lemma requests_decoded:
  "decoded read_credentials (enc_id s @ enc_id b @ enc_id e) = Some \<lparr>cr_source = s, cr_boot = b, cr_epoch = e\<rparr>"
  "decoded read_target (enc_id i @ enc_id s @ enc_id b @ enc_id e) =
     Some (i, \<lparr>cr_source = s, cr_boot = b, cr_epoch = e\<rparr>)"
  "decoded read_publish_gen (enc_id n @ enc_id gen @ enc_id s @ enc_id b @ enc_id e) =
     Some (n, gen, \<lparr>cr_source = s, cr_boot = b, cr_epoch = e\<rparr>)"
  "decoded dec_id (enc_id i) = Some i"
  by (rule decoded_back; simp add: credentials_tail request_back read_target_def read_publish_gen_def)+

lemma strings_decoded:
  "wire_string d \<Longrightarrow> decoded (dec_str kMaxBodyBytes) (enc_str d) = Some d"
  "wire_string d \<Longrightarrow> decoded read_publish_node
     (enc_id n @ enc_u8 k @ enc_id s @ enc_id b @ enc_id e @ enc_str d) =
     Some (n, node_kind_of_code k, \<lparr>cr_source = s, cr_boot = b, cr_epoch = e\<rparr>, d)"
  "decoded read_invalidate (enc_id n @ enc_u8 r @ enc_u8 m @ enc_u32 depth @ enc_bool b1 @ enc_bool b2 @
     enc_id s @ enc_id b @ enc_id e) = Some (n, invalidation_reason_of_code r, invalidation_mode_of_code m,
       depth, b1, b2, \<lparr>cr_source = s, cr_boot = b, cr_epoch = e\<rparr>)"
  "wire_edge x \<Longrightarrow> decoded read_add_edge (fr_body (add_edge_req x (cr_source c) (cr_boot c) (cr_epoch c))) =
     Some (x, c)"
  by (rule decoded_back; simp add: credentials_tail request_back read_publish_node_def read_invalidate_def
      read_add_edge_back)+

text \<open>The handler does what the message asks.\<close>

lemma handle_answers:
  assumes "message_ok m"
  shows "handle fs it (frame_of m) g = answer fs it m g"
proof (cases m)
  case (AddEdgeMsg x c)
  then show ?thesis
    using assms strings_decoded(4)[of x c]
    by (simp add: handle_def with_request_def submit_def add_edge_req_def)
qed (use assms in \<open>simp_all add: handle_def with_request_def submit_def default_policy_def requests_decoded
  strings_decoded hello_req_def register_req_def publish_node_req_def publish_gen_req_def query_req_def
  advance_epoch_req_def invalidate_req_def mark_recovered_req_def remove_edge_req_def persist_req_def
  publish_readiness_req_def bye_def current_epoch_def\<close>)

section \<open>What a client can do to the graph\<close>

text \<open>Whatever a frame contains, the handler returns, and its effect is one step of the runtime or none.\<close>

definition any_command :: "graph \<Rightarrow> command \<Rightarrow> bool" where
  "any_command g c \<longleftrightarrow> True"

lemma acked_step:
  assumes "acked (submit (c, cmd) g) = Some (r, g', ws)"
  shows "fabric_step any_command it g g'"
proof -
  obtain oc where "submit (c, cmd) g = Some (oc, g')" using assms by (auto simp: acked_def)
  then show ?thesis by (intro fs_request) (auto simp: any_command_def)
qed

lemma with_request_cases:
  assumes "with_request p body g act = Some (r, g', ws)"
  obtains "r = Some error_frame" "g' = g" "ws = []" | x where "decoded p body = Some x" "act x = Some (r, g', ws)"
  using assms by (auto simp: with_request_def split: option.splits)

lemma acked_perform:
  assumes "acked (perform cmd s b e g) = Some (r, g', ws)"
  shows "fabric_step any_command it g g'"
  using assms acked_step[of "\<lparr>cr_source = s, cr_boot = b, cr_epoch = e\<rparr>" cmd] by (simp add: submit_def)

lemma acked_authority:
  "acked (Some (register_source s b e g)) = Some (r, g', ws) \<Longrightarrow> fabric_step any_command it g g'"
  "acked (Some (advance_epoch e g)) = Some (r, g', ws) \<Longrightarrow> fabric_step any_command it g g'"
  by (auto simp: acked_def intro: fs_register fs_advance split: prod.splits)

lemmas acked_steps = acked_authority acked_perform[of "DeclareNode i k d st" for i k d st, unfolded perform.simps]
  acked_perform[of "PublishGeneration i gen" for i gen, unfolded perform.simps]
  acked_perform[of "AddEdge x" for x, unfolded perform.simps]
  acked_perform[of "InvalidateNode i r p" for i r p, unfolded perform.simps]
  acked_perform[of "MarkRecovered i" for i, unfolded perform.simps]
  acked_perform[of "RemoveEdge i" for i, unfolded perform.simps]
  acked_perform[of "PublishReadiness i st" for i st, unfolded perform.simps]

lemma handle_step:
  assumes "handle fs it f g = Some (r, g', ws)"
  shows "g' = g \<or> fabric_step any_command it g g'"
  using assms
  by (auto simp: handle_def persisted_def elim!: with_request_cases
      split: frame_type.splits if_splits prod.splits dest: acked_steps[where it = it])

lemma handle_returns:
  assumes "core_inv g"
  shows "handle fs it f g \<noteq> None"
proof -
  have "add_edge x s b e g \<noteq> None" for x s b e
    using perform_returns[OF assms, of "AddEdge x"] by simp
  then show ?thesis
    by (cases "fr_type f", simp_all add: handle_def with_request_def acked_def persisted_def split_def
        split: option.split) blast
qed

text \<open>A whole connection, and a sequence of connections.\<close>

lemma serve_client_steps:
  assumes "core_inv g"
  shows "\<exists>sent ws g'. serve_client fs it as ks g = Some (sent, ws, g') \<and> (fabric_step any_command it)\<^sup>*\<^sup>* g g'"
  using assms
proof (induction fs it as ks g rule: serve_client.induct)
  case (1 fs it as ks g)
  note unfolded = serve_client.simps[of fs it as ks g]
  obtain rf as' where rf: "read_frame as = (rf, as')" by fastforce
  show ?case
  proof (cases rf)
    case (Refused err)
    with rf show ?thesis by (simp add: unfolded)
  next
    case (Received f)
    obtain resp g1 ws where h: "handle fs it f g = Some (resp, g1, ws)"
      using handle_returns[OF "1.prems", of fs it f] by auto
    have step: "g1 = g \<or> fabric_step any_command it g g1" by (rule handle_step[OF h])
    then have core: "core_inv g1" and steps: "(fabric_step any_command it)\<^sup>*\<^sup>* g g1"
      using "1.prems" core_inv_step by auto
    show ?thesis
    proof (cases resp)
      case None
      with rf Received h steps show ?thesis by (simp add: unfolded)
    next
      case (Some m)
      obtain ok sent ks' where w: "write_frame m ks = (ok, sent, ks')" by (metis prod_cases3)
      show ?thesis
      proof (cases ok)
        case True
        have "\<exists>sent ws g'. serve_client fs it as' ks' g1 = Some (sent, ws, g') \<and>
            (fabric_step any_command it)\<^sup>*\<^sup>* g1 g'"
          using "1.IH"[OF rf[symmetric] Received h _ Some _ w[symmetric]] True core by simp
        then obtain sent' ws' g2 where "serve_client fs it as' ks' g1 = Some (sent', ws', g2)"
          "(fabric_step any_command it)\<^sup>*\<^sup>* g1 g2"
          by blast
        with rf Received h Some w True steps show ?thesis by (auto simp: unfolded)
      qed (use rf Received h Some w steps in \<open>simp add: unfolded\<close>)
    qed
  qed
qed

lemma steps_core_inv: "(fabric_step P it)\<^sup>*\<^sup>* g g' \<Longrightarrow> core_inv g \<Longrightarrow> core_inv g'"
  by (induction rule: rtranclp_induct) (auto intro: core_inv_step)

lemma serve_steps:
  "core_inv g \<Longrightarrow> \<exists>sents ws g'. serve fs it cs g = Some (sents, ws, g') \<and> (fabric_step any_command it)\<^sup>*\<^sup>* g g'"
proof (induction cs arbitrary: g)
  case (Cons c cs)
  obtain as ks where c: "c = (as, ks)" by fastforce
  obtain sent ws g1 where g1: "serve_client fs it as ks g = Some (sent, ws, g1)"
    "(fabric_step any_command it)\<^sup>*\<^sup>* g g1"
    using serve_client_steps[OF Cons.prems] by metis
  obtain sents ws' g2 where "serve fs it cs g1 = Some (sents, ws', g2)" "(fabric_step any_command it)\<^sup>*\<^sup>* g1 g2"
    using Cons.IH[OF steps_core_inv[OF g1(2) Cons.prems]] by blast
  with g1 show ?case by (auto simp: c intro: rtranclp_trans)
qed simp

section \<open>A conversation\<close>

text \<open>The replies, file writes and final graph of a list of messages; BYE ends the conversation.\<close>

fun converse :: "file_system \<Rightarrow> iteration \<Rightarrow> message list \<Rightarrow> graph \<Rightarrow>
    (frame list \<times> file_write list \<times> graph) option" where
  "converse fs it [] g = Some ([], [], g)"
| "converse fs it (m # ms) g =
     (case answer fs it m g of
        None \<Rightarrow> None
      | Some (None, g', ws) \<Rightarrow> Some ([], ws, g')
      | Some (Some r, g', ws) \<Rightarrow>
          map_option (\<lambda>(rs, ws', g''). (r # rs, ws @ ws', g'')) (converse fs it ms g'))"

definition fits_frame :: "frame \<Rightarrow> bool" where
  "fits_frame f \<longleftrightarrow> length (fr_body f) \<le> unat kMaxBodyBytes"

definition wire_bytes :: "frame list \<Rightarrow> u8 list" where
  "wire_bytes fs = concat (map (\<lambda>f. enc_header (frame_header f) @ fr_body f) fs)"

definition sends_ok :: "nat list \<Rightarrow> nat \<Rightarrow> bool" where
  "sends_ok ks n \<longleftrightarrow> list_all (\<lambda>k. 0 < k) ks \<and> n \<le> length ks"

lemma wire_bytes_Cons [simp]: "wire_bytes (f # fs) = (enc_header (frame_header f) @ fr_body f) @ wire_bytes fs"
  and wire_bytes_Nil [simp]: "wire_bytes [] = []"
  by (simp_all add: wire_bytes_def)

lemma write_all_ok:
  "sends_ok ks (length bs + n) \<Longrightarrow> \<exists>ks'. write_all bs ks = (True, bs, ks') \<and> sends_ok ks' n"
proof (induction bs ks rule: write_all.induct)
  case (3 b bs k ks)
  have k: "0 < k" using "3.prems" by (simp add: sends_ok_def)
  have "sends_ok ks (length (drop k (b # bs)) + n)"
    using "3.prems" k by (auto simp: sends_ok_def)
  then obtain ks' where "write_all (drop k (b # bs)) ks = (True, drop k (b # bs), ks')" "sends_ok ks' n"
    using "3.IH" k by blast
  then show ?case using k by (cases k) simp_all
qed (auto simp: sends_ok_def)

lemma write_frame_ok:
  assumes "fits_frame f" and "sends_ok ks (length (wire_bytes (f # fs)))"
  shows "\<exists>ks'. write_frame f ks = (True, enc_header (frame_header f) @ fr_body f, ks') \<and>
     sends_ok ks' (length (wire_bytes fs))"
  using assms write_all_ok[of ks "enc_header (frame_header f) @ fr_body f" "length (wire_bytes fs)"]
  by (simp add: write_frame_def encode_frame_alt fits_frame_def add.assoc)

lemma frame_type_of [simp]: "frame_type_of_code (frame_type_code (fr_type (frame_of m))) = fr_type (frame_of m)"
  by (cases m) (simp_all add: hello_req_def register_req_def publish_node_req_def publish_gen_req_def
      query_req_def advance_epoch_req_def invalidate_req_def mark_recovered_req_def remove_edge_req_def
      persist_req_def publish_readiness_req_def add_edge_req_def bye_def frame_type_of_code_def)

lemma serve_conversation:
  assumes "arrivals_ok as" and "arrived as = wire_bytes (map frame_of ms)"
    and "list_all message_ok ms" and "list_all (\<lambda>m. fits_frame (frame_of m)) ms"
    and "converse fs it ms g = Some (rs, ws, g')"
    and "list_all fits_frame rs" and "sends_ok ks (length (wire_bytes rs))"
  shows "serve_client fs it as ks g = Some (wire_bytes rs, ws, g')"
  using assms
proof (induction ms arbitrary: as ks g rs ws)
  case Nil
  then have "read_exact kHeaderBytes as = (Refused ''connection closed'', [])"
    by (intro read_exact_short) (simp_all add: kHeaderBytes_def)
  then show ?case using Nil.prems(5) by (simp add: serve_client.simps read_frame_def)
next
  case (Cons m ms)
  let ?f = "frame_of m"
  have f: "frame_ok ?f" "encode_frame ?f = Some (enc_header (frame_header ?f) @ fr_body ?f)"
    using Cons.prems(4) by (simp_all add: frame_ok_def encode_frame_alt fits_frame_def)
  obtain as' where as': "read_frame as = (Received ?f, as')" "arrivals_ok as'"
    "arrived as' = wire_bytes (map frame_of ms)"
    using read_frame_arrived[OF Cons.prems(1) _ f] Cons.prems(2) by auto
  have h: "handle fs it ?f g = answer fs it m g" using Cons.prems(3) by (simp add: handle_answers)
  obtain resp g1 ws1 where ans: "answer fs it m g = Some (resp, g1, ws1)"
    using Cons.prems(5) by (auto split: option.splits)
  show ?case
  proof (cases resp)
    case None
    then show ?thesis using Cons.prems(5) as'(1) h ans by (simp add: serve_client.simps)
  next
    case (Some r)
    then obtain rs' ws' where c: "converse fs it ms g1 = Some (rs', ws', g')" "rs = r # rs'" "ws = ws1 @ ws'"
      using Cons.prems(5) ans by auto
    obtain ks' where w: "write_frame r ks = (True, enc_header (frame_header r) @ fr_body r, ks')"
      "sends_ok ks' (length (wire_bytes rs'))"
      using write_frame_ok[of r ks rs'] Cons.prems(6,7) c(2) by auto
    have "serve_client fs it as' ks' g1 = Some (wire_bytes rs', ws', g')"
      by (rule Cons.IH[OF as'(2,3) _ _ c(1) _ w(2)]) (use Cons.prems c(2) in simp_all)
    then show ?thesis using as'(1) h ans Some w(1) c(2,3) by (simp add: serve_client.simps)
  qed
qed

section \<open>Truncated requests\<close>

lemma with_request_refused:
  "fails_short bs r \<Longrightarrow> bs = p @ q \<Longrightarrow> q \<noteq> [] \<Longrightarrow> with_request r p g act = Some (Some error_frame, g, [])"
  by (simp add: with_request_def decoded_short)

lemma truncated_refused:
  assumes m: "message_ok m" and b: "fr_body (frame_of m) = p @ q" "q \<noteq> []"
    and n8: "\<not> (fr_type (frame_of m) = FT_INVALIDATE_REQ \<and> length p = 8)"
  shows "handle fs it \<lparr>fr_type = fr_type (frame_of m), fr_body = p\<rparr> g = Some (Some error_frame, g, [])"
proof -
  note refused = with_request_refused[OF _ _ b(2)]
  show ?thesis
  proof (cases m)
    case (AddEdgeMsg x c)
    then show ?thesis using refused[OF add_edge_short[of x c], of p g] m b(1)
      by (simp add: handle_def add_edge_req_def)
  next
    case (AdvanceEpoch e)
    moreover have "enc_id e = enc_id (Strong (strong_value e) :: node_id)" by (simp add: enc_id_def)
    ultimately show ?thesis
      using refused[OF request_short(6)[of "Strong (strong_value e)"], of p g] b(1) n8
      by (simp add: handle_def advance_epoch_req_def)
  next
    case (PublishNode n k d c)
    then show ?thesis
      using refused[OF request_short(4)[where d = d and n = n and k = "node_kind_code k" and
          c = "\<lparr>cr_source = cr_source c, cr_boot = cr_boot c, cr_epoch = cr_epoch c\<rparr>"]] m b(1)
      by (simp add: handle_def publish_node_req_def credentials_tail)
  next
    case (Persist d)
    then show ?thesis using refused[OF request_short(8)] m b(1)
      by (simp add: handle_def persist_req_def)
  qed (use b n8 refused[OF request_short(1)] refused[OF request_short(2)] refused[OF request_short(3)]
    refused[OF request_short(5)] refused[OF request_short(7)] in \<open>simp_all add: handle_def hello_req_def
    register_req_def publish_gen_req_def query_req_def invalidate_req_def mark_recovered_req_def
    remove_edge_req_def publish_readiness_req_def bye_def credentials_tail\<close>)
qed

text \<open>An invalidation cut to its node id reads as an epoch.\<close>

lemma cut_to_epoch:
  assumes b: "fr_body (frame_of (InvalidateMsg n r m depth through degrade c)) = p @ q" and n8: "length p = 8"
  shows "handle fs it \<lparr>fr_type = FT_INVALIDATE_REQ, fr_body = p\<rparr> g =
    acked (Some (advance_epoch (Strong (strong_value n)) g))"
proof -
  have "p = enc_id (Strong (strong_value n) :: coordinator_epoch)"
    using arg_cong[OF b, of "take 8"] n8 by (simp add: invalidate_req_def enc_id_def enc_u64_def)
  then show ?thesis using n8 by (simp add: handle_def with_request_def requests_decoded)
qed

section \<open>What a client reads\<close>

lemma ack_parsed:
  "outcome_enumerator oc \<Longrightarrow> parse_outcome_resp (ack oc) = Some oc"
  "outcome_enumerator oc \<Longrightarrow> is_accepted (ack oc) \<longleftrightarrow> oc = OC_ACCEPTED"
  by (simp_all add: parse_outcome_resp_def is_accepted_def ack_def decoded_def new_decoder_def enc_u8_def
      dec_u8_def outcome_of_code_code)

text \<open>The fields of a blocker that a query response carries; the others have their defaults.\<close>

definition wire_view :: "blocking_dependency \<Rightarrow> blocking_dependency" where
  "wire_view b = \<lparr>bd_edge_id = bd_edge_id b, bd_edge_generation = null_strong, bd_producer = bd_producer b,
     bd_producer_kind = NK_UNKNOWN, bd_kind = bd_kind b, bd_optional = bd_optional b,
     bd_is_set_member = False, bd_set_label = [], bd_constraint_kind = GP_NONE,
     bd_required_generation = null_strong, bd_actual_generation = null_strong, bd_reason = bd_reason b\<rparr>"

lemma blockers_back:
  "\<forall>b \<in> set bs. edge_kind_enumerator (bd_kind b) \<and> wire_string (bd_reason b) \<Longrightarrow>
   run_state (dec_list (length bs) read_blocker) \<lparr>de_left = concat (map enc_blocker bs) @ r, de_ok = True\<rparr> =
     (map wire_view bs, \<lparr>de_left = r, de_ok = True\<rparr>)"
  by (induction bs)
    (simp_all add: read_blocker_def enc_blocker_def request_back codes_back wire_view_def)

lemma blockers_fit:
  assumes "fits_frame (query_frame st gen bs)"
  shows "length bs < 2 ^ 32" "\<forall>b \<in> set bs. wire_string (bd_reason b)"
proof -
  have sum: "length (concat (map enc_blocker bs)) = (\<Sum>b\<leftarrow>bs. 22 + length (bd_reason b))"
    by (simp add: length_concat enc_blocker_def comp_def)
  have le: "(\<Sum>b\<leftarrow>bs. 22 + length (bd_reason b)) \<le> 2 ^ 24"
    using assms by (simp add: fits_frame_def query_frame_def kMaxBodyBytes_def sum)
  have "length bs * 22 \<le> (\<Sum>b\<leftarrow>bs. 22 + length (bd_reason b))" by (induction bs) auto
  with le show "length bs < 2 ^ 32" by simp
  show "\<forall>b \<in> set bs. wire_string (bd_reason b)"
  proof
    fix b assume "b \<in> set bs"
    then have "22 + length (bd_reason b) \<le> (\<Sum>b\<leftarrow>bs. 22 + length (bd_reason b))"
      by (intro member_le_sum_list) auto
    with le show "wire_string (bd_reason b)" by (simp add: wire_string_def kMaxBodyBytes_def)
  qed
qed

lemma query_parsed:
  assumes "fits_frame (query_frame st gen bs)" and "readiness_state_enumerator st"
    and "\<forall>b \<in> set bs. edge_kind_enumerator (bd_kind b)"
  shows "parse_query_resp (query_frame st gen bs) = Some (st, gen, map wire_view bs)"
proof -
  note fit = blockers_fit[OF assms(1)]
  have "decoded read_query_resp (fr_body (query_frame st gen bs)) = Some (st, gen, map wire_view bs)"
    by (rule decoded_back)
      (use assms fit blockers_back[of bs] in \<open>simp add: read_query_resp_def query_frame_def request_back
        count_back[OF fit(1)] codes_back\<close>)
  then show ?thesis by (simp add: parse_query_resp_def query_frame_def)
qed

end
