(* ===== verification/Accelerator.thy ===== *)
theory Accelerator
  imports Transparency Cli Coordinator
begin

text \<open>
  \<open>src/cuda/df_cuda_proof.cu\<close>: readiness gates work on an accelerator. A \<open>CudaRun\<close> launches its kernel
  only when the node it is gated by is READY, and compares the result with a computation on the host;
  five scenarios build a chain model - kernel - execution phase, disturb it and run.

  Arithmetic on \<open>float\<close> and the CUDA runtime are parameters (\<open>float_ops\<close>, \<open>cuda_api\<close>). The kernel is
  the code's: its threads are small machines that a schedule of the device interleaves. \<open>CUDA_CHECK\<close>
  ends the process: the host computation is then \<open>None\<close>.
\<close>

section \<open>Floats\<close>

text \<open>\<open>fl_axpy\<close> is \<open>a * x + y\<close> as the compiler of the host or of the device contracts it.\<close>

record 'f float_ops =
  fl_of_int :: "int \<Rightarrow> 'f"
  fl_literal :: "string \<Rightarrow> 'f"
  fl_mul :: "'f \<Rightarrow> 'f \<Rightarrow> 'f"
  fl_sub :: "'f \<Rightarrow> 'f \<Rightarrow> 'f"
  fl_abs :: "'f \<Rightarrow> 'f"
  fl_greater :: "'f \<Rightarrow> 'f \<Rightarrow> bool"
  fl_axpy_host :: "'f \<Rightarrow> 'f \<Rightarrow> 'f \<Rightarrow> 'f"
  fl_axpy_device :: "'f \<Rightarrow> 'f \<Rightarrow> 'f \<Rightarrow> 'f"

definition cpu_reference :: "'f float_ops \<Rightarrow> nat \<Rightarrow> 'f \<Rightarrow> 'f list \<Rightarrow> 'f list \<Rightarrow> 'f list" where
  "cpu_reference F n a x y = fold (\<lambda>i y. y[i := fl_axpy_host F a (x ! i) (y ! i)]) [0..<n] y"

definition all_close :: "'f float_ops \<Rightarrow> 'f list \<Rightarrow> 'f list \<Rightarrow> bool" where
  "all_close F a b \<longleftrightarrow>
     (if length a \<noteq> length b then False
      else list_all (\<lambda>(u, v). \<not> fl_greater F (fl_abs F (fl_sub F u v)) (fl_literal F ''1e-4f'')) (zip a b))"

section \<open>The kernel\<close>

text \<open>
  A thread computes its index, reads its element and writes it back; other threads may run between
  the read and the write. \<open>run_grid\<close> runs the threads as a schedule picks them.
\<close>

datatype 'f thread = Start | Loaded 'f | Finished

definition saxpy_step :: "'f float_ops \<Rightarrow> nat \<Rightarrow> 'f \<Rightarrow> 'f list \<Rightarrow> nat \<Rightarrow> 'f thread list \<times> 'f list \<Rightarrow>
    'f thread list \<times> 'f list" where
  "saxpy_step F n a x i st =
     (case st of (ts, y) \<Rightarrow>
       if length ts \<le> i then (ts, y)
       else case ts ! i of
         Start \<Rightarrow> if i < n then (ts[i := Loaded (fl_axpy_device F a (x ! i) (y ! i))], y)
                  else (ts[i := Finished], y)
       | Loaded v \<Rightarrow> (ts[i := Finished], y[i := v])
       | Finished \<Rightarrow> (ts, y))"

definition run_grid :: "'f float_ops \<Rightarrow> nat \<Rightarrow> nat \<Rightarrow> 'f \<Rightarrow> nat list \<Rightarrow> 'f list \<Rightarrow> 'f list \<Rightarrow>
    'f thread list \<times> 'f list" where
  "run_grid F threads n a schedule x y =
     fold (saxpy_step F n a x) schedule (replicate threads Start, y)"

text \<open>Every schedule that lets each thread finish computes what the loop on the host computes.\<close>

definition complete_schedule :: "nat \<Rightarrow> nat list \<Rightarrow> bool" where
  "complete_schedule threads schedule \<longleftrightarrow> (\<forall>i < threads. 2 \<le> count_list schedule i)"

definition thread_after :: "nat \<Rightarrow> nat \<Rightarrow> 'f \<Rightarrow> nat \<Rightarrow> 'f thread" where
  "thread_after n i v steps =
     (if steps = 0 then Start else if steps = 1 \<and> i < n then Loaded v else Finished)"

lemma run_grid_snoc:
  "run_grid F threads n a (s @ [i]) x y = saxpy_step F n a x i (run_grid F threads n a s x y)"
  by (simp add: run_grid_def)

lemma grid_threads:
  fixes F :: "'f float_ops"
  defines "v \<equiv> \<lambda>x y a j. fl_axpy_device F a (x ! j) (y ! j)"
  assumes n: "n \<le> length y"
  shows "length (fst (run_grid F threads n a s x y)) = threads \<and>
    length (snd (run_grid F threads n a s x y)) = length y \<and>
    (\<forall>j < threads. fst (run_grid F threads n a s x y) ! j = thread_after n j (v x y a j) (count_list s j)) \<and>
    (\<forall>j < length y. snd (run_grid F threads n a s x y) ! j =
       (if j < threads \<and> j < n \<and> 2 \<le> count_list s j then v x y a j else y ! j))"
proof (induction s rule: rev_induct)
  case Nil
  then show ?case by (simp add: run_grid_def thread_after_def)
next
  case (snoc i s)
  obtain ts z where st: "run_grid F threads n a s x y = (ts, z)" by (cases "run_grid F threads n a s x y")
  note IH = snoc.IH[unfolded st fst_conv snd_conv]
  show ?case
  proof (cases "i < threads")
    case False
    then show ?thesis using IH by (auto simp: run_grid_snoc st saxpy_step_def)
  next
    case True
    then have ti: "ts ! i = thread_after n i (v x y a i) (count_list s i)" using IH by simp
    have zi: "i < n \<Longrightarrow> count_list s i < 2 \<Longrightarrow> z ! i = y ! i" using IH True n by simp
    show ?thesis
      using IH True ti zi
      by (cases "count_list s i" rule: nat.exhaust[case_names zero suc])
        (auto simp: run_grid_snoc st saxpy_step_def thread_after_def nth_list_update v_def split: if_splits)
  qed
qed

lemma cpu_reference_nth:
  "length (cpu_reference F n a x y) = length y \<and>
   (\<forall>j < length y. cpu_reference F n a x y ! j =
      (if j < n then fl_axpy_host F a (x ! j) (y ! j) else y ! j))"
  unfolding cpu_reference_def by (induction n) (auto simp: nth_list_update less_Suc_eq)

lemma cpu_reference_length [simp]: "length (cpu_reference F n a x y) = length y"
  by (rule cpu_reference_nth[THEN conjunct1])

lemma kernel_computes:
  assumes "complete_schedule threads s" and "n \<le> threads" and "n \<le> length y"
  shows "snd (run_grid F threads n a s x y) =
    cpu_reference (F\<lparr>fl_axpy_host := fl_axpy_device F\<rparr>) n a x y"
  using assms(1,2) grid_threads[OF assms(3), where F = F and threads = threads and a = a and s = s and x = x]
    cpu_reference_nth[of "F\<lparr>fl_axpy_host := fl_axpy_device F\<rparr>" n a x y]
  by (intro nth_equalityI) (auto simp: complete_schedule_def)

section \<open>The CUDA runtime\<close>

record device_prop =
  dp_name :: string
  dp_major :: nat
  dp_minor :: nat

text \<open>A call gives a result, or (\<open>None\<close>) an error; a kernel launch only enqueues work.\<close>

record ('f, 'd) cuda_api =
  cu_properties :: "'d \<Rightarrow> device_prop option \<times> 'd"
  cu_mem_free :: "'d \<Rightarrow> u64 option \<times> 'd"
  cu_malloc :: "nat \<Rightarrow> 'd \<Rightarrow> u64 option \<times> 'd"
  cu_to_device :: "u64 \<Rightarrow> 'f list \<Rightarrow> 'd \<Rightarrow> unit option \<times> 'd"
  cu_launch :: "nat \<Rightarrow> nat \<Rightarrow> (nat list \<Rightarrow> 'f list \<Rightarrow> 'f list \<Rightarrow> 'f list) \<Rightarrow> u64 \<Rightarrow> u64 \<Rightarrow> 'd \<Rightarrow> 'd"
  cu_synchronize :: "'d \<Rightarrow> unit option \<times> 'd"
  cu_from_device :: "u64 \<Rightarrow> nat \<Rightarrow> 'd \<Rightarrow> 'f list option \<times> 'd"
  cu_release :: "u64 \<Rightarrow> 'd \<Rightarrow> unit option \<times> 'd"
  cu_reset :: "'d \<Rightarrow> unit option \<times> 'd"

record 'd host =
  ho_device :: 'd
  ho_out :: "string list"

definition say :: "string \<Rightarrow> 'd host \<Rightarrow> 'd host" where
  "say line h = h\<lparr>ho_out := ho_out h @ [line]\<rparr>"

text \<open>\<open>CUDA_CHECK\<close>\<close>

definition cuda_check :: "('d \<Rightarrow> 'a option \<times> 'd) \<Rightarrow> 'd host \<Rightarrow> ('a \<times> 'd host) option" where
  "cuda_check f h = (case f (ho_device h) of (None, d) \<Rightarrow> None | (Some a, d) \<Rightarrow> Some (a, h\<lparr>ho_device := d\<rparr>))"

definition free_mem :: "('f, 'd) cuda_api \<Rightarrow> 'd host \<Rightarrow> (u64 \<times> 'd host) option" where
  "free_mem cu h = cuda_check (cu_mem_free cu) h"

section \<open>Gated runs\<close>

record 'f cuda_job =
  cj_gate :: node_id
  cj_n :: nat
  cj_a :: 'f
  cj_x :: "'f list"
  cj_y_host :: "'f list"
  cj_y_ref :: "'f list"

definition cuda_job_of :: "'f float_ops \<Rightarrow> node_id \<Rightarrow> nat \<Rightarrow> 'f \<Rightarrow> 'f cuda_job" where
  "cuda_job_of F gate n alpha =
     (let y = map (\<lambda>i. fl_mul F (fl_of_int F (int (i mod 257) - 128)) (fl_literal F ''0.01f'')) [0..<n] in
      \<lparr>cj_gate = gate, cj_n = n, cj_a = alpha,
       cj_x = map (\<lambda>i. fl_mul F (fl_of_int F (int (i mod 1000) - 500)) (fl_literal F ''0.01f'')) [0..<n],
       cj_y_host = y, cj_y_ref = y\<rparr>)"

text \<open>\<open>%zd\<close> of the wrapped difference.\<close>

definition show_i64 :: "u64 \<Rightarrow> string" where
  "show_i64 w = (if sint w < 0 then ''-'' @ to_string_nat (nat (- sint w)) else to_string_nat (nat (sint w)))"

definition gate_line :: "node_id \<Rightarrow> readiness_state \<Rightarrow> string" where
  "gate_line gate st = ''  gate node '' @ strong_to_string gate @ '' state='' @ readiness_state_name st @
     '' -> '' @ (if st = RS_READY then ''RUN'' else ''BLOCK'')"

definition memory_line :: "u64 \<Rightarrow> u64 \<Rightarrow> string" where
  "memory_line base after = ''  device memory baseline='' @ show_u64 base @ '' after='' @ show_u64 after @
     '' (delta='' @ show_i64 (after - base) @ '', '' @ (if after = base then ''OK'' else ''LEAK'') @ '')''"

text \<open>From the first allocation to the last release: the contents of \<open>y\<close> after the kernel.\<close>

definition offload :: "'f float_ops \<Rightarrow> ('f, 'd) cuda_api \<Rightarrow> 'f cuda_job \<Rightarrow> 'd host \<Rightarrow>
    ('f list \<times> 'd host) option" where
  "offload F cu job h0 =
     (let n = cj_n job; threads = 256; blocks = (n + threads - 1) div threads in do {
       (dx, h1) \<leftarrow> cuda_check (cu_malloc cu (n * 4)) h0;
       (dy, h2) \<leftarrow> cuda_check (cu_malloc cu (n * 4)) h1;
       (u, h3) \<leftarrow> cuda_check (cu_to_device cu dx (cj_x job)) h2;
       (u, h4) \<leftarrow> cuda_check (cu_to_device cu dy (cj_y_host job)) h3;
       let h5 = h4\<lparr>ho_device := cu_launch cu blocks threads
         (\<lambda>s x y. snd (run_grid F (blocks * threads) n (cj_a job) s x y)) dx dy (ho_device h4)\<rparr>;
       (u, h6) \<leftarrow> cuda_check (cu_synchronize cu) h5;
       (y, h7) \<leftarrow> cuda_check (cu_from_device cu dy n) h6;
       (u, h8) \<leftarrow> cuda_check (cu_release cu dx) h7;
       (u, h9) \<leftarrow> cuda_check (cu_release cu dy) h8;
       Some (y, h9) })"

definition cuda_run :: "'f float_ops \<Rightarrow> ('f, 'd) cuda_api \<Rightarrow> graph \<Rightarrow> 'f cuda_job \<Rightarrow> 'd host \<Rightarrow>
    (bool \<times> 'f cuda_job \<times> 'd host) option" where
  "cuda_run F cu g job h =
     (let st = readiness g (cj_gate job); h0 = say (gate_line (cj_gate job) st) h in
      if st \<noteq> RS_READY then Some (False, job, h0)
      else do {
        (base, h1) \<leftarrow> free_mem cu h0;
        (y, h2) \<leftarrow> offload F cu job h1;
        (after, h3) \<leftarrow> free_mem cu h2;
        let h4 = say (memory_line base after) h3;
        let job1 = job\<lparr>cj_y_host := y\<rparr>;
        if after \<noteq> base then Some (False, job1, say ''  FAIL: device memory did not return to baseline'' h4)
        else
          let ref = cpu_reference F (cj_n job) (cj_a job) (cj_x job) (cj_y_ref job);
              job2 = job1\<lparr>cj_y_ref := ref\<rparr> in
          if \<not> all_close F y ref
          then Some (False, job2, say ''  FAIL: CUDA result does not match CPU reference'' h4)
          else Some (True, job2, say ''  CPU parity: OK'' h4) })"


section \<open>The chain\<close>

definition gpu_cred :: credentials where
  "gpu_cred = \<lparr>cr_source = Strong 1, cr_boot = Strong 1, cr_epoch = Strong 1\<rparr>"

text \<open>Calls whose outcome the program ignores.\<close>

definition do_calls :: "command list \<Rightarrow> graph \<Rightarrow> graph option" where
  "do_calls cs g = run_acts submit (map (Pair gpu_cred) cs) g"

definition recompute :: "iteration \<Rightarrow> graph \<Rightarrow> graph option" where
  "recompute it g = map_option snd (recompute_all_readiness it g)"

text \<open>\<open>em\<close>, \<open>ek\<close>, \<open>em2\<close>, \<open>ek2\<close>: a required edge pinned to one generation.\<close>

definition pinned_edge :: "edge_id \<Rightarrow> node_id \<Rightarrow> node_id \<Rightarrow> node_generation \<Rightarrow> edge" where
  "pinned_edge i producer consumer gen =
     \<lparr>ed_id = i, ed_generation = Strong 1, ed_kind = EK_REQUIRES_GENERATION, ed_producer_id = producer,
      ed_consumer_id = consumer, ed_bound_producer_generation = null_strong,
      ed_bound_consumer_generation = null_strong,
      ed_predicate = default_predicate\<lparr>pr_generation_kind := GP_EXACT, pr_exact_generation := gen,
        pr_required_readiness := RS_READY, pr_is_required := True\<rparr>,
      ed_active = True\<rparr>"

definition chain_calls :: "u64 \<Rightarrow> u64 \<Rightarrow> bool \<Rightarrow> command list" where
  "chain_calls model_gen kernel_gen dur =
     [DeclareNode (Strong 1) NK_MODEL ''model'' dur,
      DeclareNode (Strong 2) NK_KERNEL ''kernel'' dur,
      DeclareNode (Strong 3) NK_WORKLOAD_PHASE ''exec'' dur,
      PublishGeneration (Strong 1) (Strong model_gen),
      PublishGeneration (Strong 2) (Strong kernel_gen),
      AddEdge (pinned_edge (Strong 1) (Strong 1) (Strong 2) (Strong model_gen)),
      AddEdge (pinned_edge (Strong 2) (Strong 2) (Strong 3) (Strong kernel_gen))]"

definition build_chain :: "iteration \<Rightarrow> u64 \<Rightarrow> u64 \<Rightarrow> bool \<Rightarrow> graph \<Rightarrow> graph option" where
  "build_chain it model_gen kernel_gen dur g =
     Option.bind (do_calls (chain_calls model_gen kernel_gen dur) g) (recompute it)"

definition registered :: graph where
  "registered = snd (register_source (Strong 1) (Strong 1) (Strong 1) empty_graph)"

section \<open>The scenarios\<close>

definition N :: nat where "N = 2 ^ 20"

definition heading :: "string \<Rightarrow> 'd host \<Rightarrow> 'd host" where
  "heading line h = say line (say [] h)"

definition verdict :: "string \<Rightarrow> bool \<Rightarrow> string \<Rightarrow> string \<Rightarrow> 'd host \<Rightarrow> 'd host" where
  "verdict name ok good bad h = say (''  Scenario '' @ name @ (if ok then good else bad)) h"

definition gate_job :: "'f float_ops \<Rightarrow> string \<Rightarrow> 'f cuda_job" where
  "gate_job F alpha = cuda_job_of F (Strong 3) N (fl_literal F alpha)"

definition state_name :: "graph \<Rightarrow> nat \<Rightarrow> string" where
  "state_name g i = readiness_state_name (readiness g (Strong (of_nat i)))"

definition scenario_a :: "iteration \<Rightarrow> 'f float_ops \<Rightarrow> ('f, 'd) cuda_api \<Rightarrow> 'd host \<Rightarrow> 'd host option" where
  "scenario_a it F cu h =
     (let h0 = heading ''=== Scenario A: valid dependency chain gates CUDA ==='' h in do {
       g \<leftarrow> build_chain it 1 1 True registered;
       (ok, job, h1) \<leftarrow> cuda_run F cu g (gate_job F ''2.0f'') h0;
       let h2 = verdict ''A'' ok '': PASS'' '': FAIL'' h1;
       Some (if readiness g (Strong 3) \<noteq> RS_READY then say ''  Scenario A: FAIL (gate not READY)'' h2 else h2) })"

definition republish_calls :: "command list" where
  "republish_calls =
     [RemoveEdge (Strong 1), AddEdge (pinned_edge (Strong 3) (Strong 1) (Strong 2) (Strong 2)),
      PublishGeneration (Strong 2) (Strong 2), RemoveEdge (Strong 2),
      AddEdge (pinned_edge (Strong 4) (Strong 2) (Strong 3) (Strong 2))]"

definition scenario_b :: "iteration \<Rightarrow> 'f float_ops \<Rightarrow> ('f, 'd) cuda_api \<Rightarrow> 'd host \<Rightarrow> 'd host option" where
  "scenario_b it F cu h =
     (let h0 = heading ''=== Scenario B: stale generation blocks CUDA launch ==='' h in do {
       g \<leftarrow> build_chain it 1 1 True registered;
       g1 \<leftarrow> do_calls [PublishGeneration (Strong 1) (Strong 2)] g;
       g2 \<leftarrow> recompute it g1;
       let h1 = say (''  after model gen2: kernel='' @ state_name g2 2 @ '' exec='' @ state_name g2 3) h0;
       (ok, job, h2) \<leftarrow> cuda_run F cu g2 (gate_job F ''2.0f'') h1;
       let h3 = verdict ''B'' ok '': FAIL (stale execution was allowed)''
         ('': launch correctly rejected (state='' @ state_name g2 3 @ '')'') h2;
       g3 \<leftarrow> do_calls republish_calls g2;
       g4 \<leftarrow> recompute it g3;
       if readiness g4 (Strong 3) = RS_READY
       then do {
         (ok2, job2, h4) \<leftarrow> cuda_run F cu g4 (gate_job F ''3.0f'') h3;
         Some (verdict ''B'' ok2 '': PASS (fresh dependent generations republished)''
           '': FAIL (fresh generations did not permit run)'' h4) }
       else Some (say (''  Scenario B: FAIL (gate not READY after republish: '' @ state_name g4 3 @ '')'') h3) })"

definition scenario_c :: "iteration \<Rightarrow> 'f float_ops \<Rightarrow> ('f, 'd) cuda_api \<Rightarrow> 'd host \<Rightarrow> 'd host option" where
  "scenario_c it F cu h =
     (let h0 = heading ''=== Scenario C: segmented CUDA workflow with invalidation ==='' h in do {
       g \<leftarrow> build_chain it 1 1 True registered;
       (s1, job1, h1) \<leftarrow> cuda_run F cu g (gate_job F ''2.0f'') h0;
       let h2 = say (''  segment 1: '' @ (if s1 then ''RUN'' else ''FAIL'')) h1;
       g1 \<leftarrow> do_calls [InvalidateNode (Strong 1) IR_INTEGRITY_FAILED (default_policy\<lparr>ip_mode := IM_RECURSIVE\<rparr>)] g;
       g2 \<leftarrow> recompute it g1;
       let h3 = say (''  after invalidation: exec='' @ state_name g2 3 @ '' (must be BLOCKED)'') h2;
       (s2, job2, h4) \<leftarrow> cuda_run F cu g2 (gate_job F ''3.0f'') h3;
       let h5 = say (''  segment 2 (during invalidation): '' @
         (if s2 then ''FAIL (ran while invalid)'' else ''CORRECTLY BLOCKED'')) h4;
       g3 \<leftarrow> do_calls [MarkRecovered (Strong 1)] g2;
       g4 \<leftarrow> recompute it g3;
       (s3, job3, h6) \<leftarrow> cuda_run F cu g4 (gate_job F ''4.0f'') h5;
       Some (verdict ''C'' (s1 \<and> \<not> s2 \<and> s3) '': PASS (segmented workflow gated and resumed)'' '': FAIL'' h6) })"


definition capability_edge :: "edge_id \<Rightarrow> string \<Rightarrow> edge" where
  "capability_edge i capability =
     \<lparr>ed_id = i, ed_generation = Strong 1, ed_kind = EK_REQUIRES_CAPABILITY, ed_producer_id = Strong 1,
      ed_consumer_id = Strong 2, ed_bound_producer_generation = null_strong,
      ed_bound_consumer_generation = null_strong,
      ed_predicate = default_predicate\<lparr>pr_required_capability := capability,
        pr_required_readiness := RS_READY, pr_is_required := True\<rparr>,
      ed_active = True\<rparr>"

definition exec_edge :: edge where
  "exec_edge =
     \<lparr>ed_id = Strong 2, ed_generation = Strong 1, ed_kind = EK_REQUIRES_READY, ed_producer_id = Strong 2,
      ed_consumer_id = Strong 3, ed_bound_producer_generation = null_strong,
      ed_bound_consumer_generation = null_strong,
      ed_predicate = default_predicate\<lparr>pr_required_readiness := RS_READY, pr_is_required := True\<rparr>,
      ed_active = True\<rparr>"

text \<open>The positional initialiser of the patch: of its facts only the capabilities are set.\<close>

definition capability_patch :: "string \<Rightarrow> node_evidence_patch" where
  "capability_patch sm =
     \<lparr>np_claimed_capabilities = [sm], np_set_resource_available = False, np_resource_available = True,
      np_set_integrity = False, np_integrity_valid = True, np_set_freshness = False,
      np_freshness_valid = True, np_set_provenance = False, np_provenance_confidence = 100,
      np_set_completion = False, np_completion_state = []\<rparr>"

definition resource_calls :: "string \<Rightarrow> command list" where
  "resource_calls sm =
     [DeclareNode (Strong 1) NK_RESOURCE ''rtx5090'' True, DeclareNode (Strong 2) NK_KERNEL ''kernel'' True,
      DeclareNode (Strong 3) NK_WORKLOAD_PHASE ''exec'' True,
      PublishGeneration (Strong 1) (Strong 1), PublishGeneration (Strong 2) (Strong 1),
      SetNodeEvidence (Strong 1) (capability_patch sm),
      AddEdge (capability_edge (Strong 1) sm), AddEdge exec_edge]"

definition sm_of :: "nat \<Rightarrow> string" where
  "sm_of version = ''sm_'' @ to_string_nat version"

definition scenario_d :: "iteration \<Rightarrow> 'f float_ops \<Rightarrow> ('f, 'd) cuda_api \<Rightarrow> device_prop \<Rightarrow> 'd host \<Rightarrow>
    'd host option" where
  "scenario_d it F cu prop h =
     (let version = dp_major prop * 10 + dp_minor prop; sm = sm_of version; bad = sm_of (version + 1);
          h0 = heading ''=== Scenario D: resource/capability dependency (real sm_120) ==='' h in do {
       g \<leftarrow> do_calls (resource_calls sm) registered;
       g1 \<leftarrow> recompute it g;
       let h1 = say (''  resource capability '' @ CHR 0x27 # c_str sm @ CHR 0x27 # '' claimed on real device; kernel='' @
         state_name g1 2 @ '' exec='' @ state_name g1 3) h0;
       h3 \<leftarrow> (if readiness g1 (Strong 3) = RS_READY
              then do {
                (ok, job, h2) \<leftarrow> cuda_run F cu g1 (gate_job F ''1.5f'') h1;
                Some (verdict ''D'' ok '' (compatible real capability): PASS'' '': FAIL'' h2) }
              else Some (say ''  Scenario D: FAIL (compatible capability not READY)'' h1));
       g2 \<leftarrow> do_calls [RemoveEdge (Strong 1), AddEdge (capability_edge (Strong 3) bad)] g1;
       g3 \<leftarrow> recompute it g2;
       let h4 = say (''  SYNTHETIC incompatible capability '' @ CHR 0x27 # c_str bad @ CHR 0x27 # '' -> kernel='' @
         state_name g3 2 @ '' (must NOT be READY)'') h3;
       Some (verdict ''D'' (readiness g3 (Strong 2) \<noteq> RS_READY) '' (incompatible capability blocked): PASS''
         '': FAIL (incompatible capability was accepted)'' h4) })"

definition fresh_cred :: credentials where
  "fresh_cred = \<lparr>cr_source = Strong 2, cr_boot = Strong 1, cr_epoch = Strong 1\<rparr>"

definition revalidate :: "graph \<Rightarrow> graph option" where
  "revalidate g = run_acts submit
     (map (\<lambda>i. (fresh_cred, PublishReadiness (Strong i) RS_READY)) [1, 2, 3])
     (snd (register_source (Strong 2) (Strong 1) (Strong 1) g))"

text \<open>Dereferencing an empty \<open>serialize()\<close> is not defined; \<open>load\<close> reports into its target only.\<close>

definition scenario_e :: "iteration \<Rightarrow> 'f float_ops \<Rightarrow> ('f, 'd) cuda_api \<Rightarrow> 'd host \<Rightarrow> 'd host option" where
  "scenario_e it F cu h =
     (let h0 = heading ''=== Scenario E: recovery requires revalidation ==='' h in do {
       g \<leftarrow> build_chain it 1 1 False registered;
       bytes \<leftarrow> serialize it g;
       (oc, err, target) \<leftarrow> load it bytes (Some empty_graph);
       g2 \<leftarrow> target;
       let rec = readiness g2 (Strong 3);
       let h1 = say (''  after coordinator restart, exec='' @ readiness_state_name rec @
         '' (must be REVALIDATION_REQUIRED, not READY)'') h0;
       if rec = RS_READY
       then Some (say ''  Scenario E: FAIL (recovered dynamic readiness was silently accepted)'' h1)
       else do {
         g3 \<leftarrow> revalidate g2;
         if readiness g3 (Strong 3) = RS_READY
         then do {
           (ok, job, h2) \<leftarrow> cuda_run F cu g3 (gate_job F ''4.0f'') h1;
           Some (verdict ''E'' ok '': PASS (revalidated evidence restored CUDA)'' '': FAIL'' h2) }
         else Some (say (''  Scenario E: FAIL (gate not READY after revalidation: '' @ state_name g3 3 @ '')'') h1) } })"

section \<open>The program\<close>

definition device_lines :: "device_prop \<Rightarrow> string list" where
  "device_lines prop =
     (let major = to_string_nat (dp_major prop); minor = to_string_nat (dp_minor prop) in
      (''Device: '' @ c_str (dp_name prop) @ '' computeCapability='' @ major @ ''.'' @ minor @
       '' sm_'' @ major @ minor) #
      (if dp_major prop \<noteq> 12
       then [''WARNING: expected sm_120 (RTX 5090) but found sm_'' @ major @ minor] else []))"

text \<open>The exit code is 0; \<open>None\<close> is a CUDA error, after which the process has ended.\<close>

definition cuda_main :: "iteration \<Rightarrow> 'f float_ops \<Rightarrow> ('f, 'd) cuda_api \<Rightarrow> 'd \<Rightarrow> 'd host option" where
  "cuda_main it F cu d = do {
     (prop, h0) \<leftarrow> cuda_check (cu_properties cu) \<lparr>ho_device = d, ho_out = []\<rparr>;
     h1 \<leftarrow> scenario_a it F cu (fold say (device_lines prop) h0);
     h2 \<leftarrow> scenario_b it F cu h1;
     h3 \<leftarrow> scenario_c it F cu h2;
     h4 \<leftarrow> scenario_d it F cu prop h3;
     h5 \<leftarrow> scenario_e it F cu h4;
     (u, h6) \<leftarrow> cuda_check (cu_reset cu) h5;
     Some (heading ''All CUDA scenarios complete.'' h6) }"


section \<open>What a run relies on\<close>

text \<open>
  The documented behaviour of the runtime on a device the process has to itself: \<open>mem\<close> are the
  allocated blocks, \<open>room\<close> what \<open>cudaMemGetInfo\<close> reports as free. A launched kernel has run to its end,
  under some schedule of its threads, when the device is synchronised.
\<close>

definition faithful_device :: "('f, 'd) cuda_api \<Rightarrow> nat \<Rightarrow> ('d \<Rightarrow> u64 \<Rightarrow> 'f list option) \<Rightarrow> ('d \<Rightarrow> u64) \<Rightarrow> bool" where
  "faithful_device cu limit mem room \<longleftrightarrow>
     (\<forall>d. \<exists>p d'. cu_properties cu d = (Some p, d') \<and> mem d' = mem d) \<and>
     (\<forall>d. \<exists>d'. cu_mem_free cu d = (Some (room d), d') \<and> mem d' = mem d) \<and>
     (\<forall>d d'. mem d = mem d' \<longrightarrow> room d = room d') \<and>
     (\<forall>d k. k * 4 \<le> limit \<and> card (dom (mem d)) < 2 \<longrightarrow>
        (\<exists>p d' b. cu_malloc cu (k * 4) d = (Some p, d') \<and> mem d p = None \<and> length b = k \<and>
           mem d' = (mem d)(p \<mapsto> b))) \<and>
     (\<forall>d p b xs. mem d p = Some b \<and> length xs = length b \<longrightarrow>
        (\<exists>d'. cu_to_device cu p xs d = (Some (), d') \<and> mem d' = (mem d)(p \<mapsto> xs))) \<and>
     (\<forall>d px py x y blocks threads K. mem d px = Some x \<and> mem d py = Some y \<longrightarrow>
        (\<exists>s d'. complete_schedule (blocks * threads) s \<and>
           cu_synchronize cu (cu_launch cu blocks threads K px py d) = (Some (), d') \<and>
           mem d' = (mem d)(py \<mapsto> K s x y))) \<and>
     (\<forall>d p y. mem d p = Some y \<longrightarrow>
        (\<exists>d'. cu_from_device cu p (length y) d = (Some y, d') \<and> mem d' = mem d)) \<and>
     (\<forall>d p y. mem d p = Some y \<longrightarrow>
        (\<exists>d'. cu_release cu p d = (Some (), d') \<and> mem d' = (mem d)(p := None))) \<and>
     (\<forall>d. \<exists>d'. cu_reset cu d = (Some (), d'))"

lemmas device_properties = faithful_device_def[THEN iffD1, THEN conjunct1, rule_format]
lemmas device_info = faithful_device_def[THEN iffD1, THEN conjunct2, THEN conjunct1, rule_format]
lemmas device_same = faithful_device_def[THEN iffD1, THEN conjunct2, THEN conjunct2, THEN conjunct1, rule_format]
lemmas device_malloc = faithful_device_def[THEN iffD1, THEN conjunct2, THEN conjunct2, THEN conjunct2, THEN conjunct1, rule_format]
lemmas device_copy = faithful_device_def[THEN iffD1, THEN conjunct2, THEN conjunct2, THEN conjunct2, THEN conjunct2, THEN conjunct1, rule_format]
lemmas device_launch = faithful_device_def[THEN iffD1, THEN conjunct2, THEN conjunct2, THEN conjunct2, THEN conjunct2, THEN conjunct2, THEN conjunct1, rule_format]
lemmas device_fetch = faithful_device_def[THEN iffD1, THEN conjunct2, THEN conjunct2, THEN conjunct2, THEN conjunct2, THEN conjunct2, THEN conjunct2, THEN conjunct1, rule_format]
lemmas device_free = faithful_device_def[THEN iffD1, THEN conjunct2, THEN conjunct2, THEN conjunct2, THEN conjunct2, THEN conjunct2, THEN conjunct2, THEN conjunct2, THEN conjunct1, rule_format]
lemmas device_reset = faithful_device_def[THEN iffD1, THEN conjunct2, THEN conjunct2, THEN conjunct2, THEN conjunct2, THEN conjunct2, THEN conjunct2, THEN conjunct2, THEN conjunct2, rule_format]

text \<open>The arithmetic of device and host agrees within the tolerance on the data of a job.\<close>

definition accurate :: "'f float_ops \<Rightarrow> 'f cuda_job \<Rightarrow> bool" where
  "accurate F job \<longleftrightarrow>
     all_close F
       (cpu_reference (F\<lparr>fl_axpy_host := fl_axpy_device F\<rparr>) (cj_n job) (cj_a job) (cj_x job) (cj_y_host job))
       (cpu_reference F (cj_n job) (cj_a job) (cj_x job) (cj_y_ref job))"

definition sized :: "'f cuda_job \<Rightarrow> bool" where
  "sized job \<longleftrightarrow> length (cj_x job) = cj_n job \<and> length (cj_y_host job) = cj_n job"

lemma blocks_cover: "(n :: nat) \<le> (n + 256 - 1) div 256 * 256"
  by linarith

lemma offload_computes:
  assumes dev: "faithful_device cu limit mem room" and "sized job" and "cj_n job * 4 \<le> limit"
    and "mem (ho_device h) = Map.empty"
  obtains h' where "offload F cu job h = Some (cpu_reference (F\<lparr>fl_axpy_host := fl_axpy_device F\<rparr>)
      (cj_n job) (cj_a job) (cj_x job) (cj_y_host job), h')"
    "mem (ho_device h') = Map.empty" "ho_out h' = ho_out h"
proof -
  let ?n = "cj_n job" and ?b = "(cj_n job + 256 - 1) div 256" and ?d = "ho_device h"
  let ?K = "\<lambda>s x y. snd (run_grid F (?b * 256) ?n (cj_a job) s x y)"
  obtain dx d1 b1 where d1: "cu_malloc cu (?n * 4) ?d = (Some dx, d1)" "length b1 = ?n" "mem d1 = [dx \<mapsto> b1]"
    using device_malloc[OF dev, of ?n ?d] assms(3,4) by auto
  obtain dy d2 b2 where d2: "cu_malloc cu (?n * 4) d1 = (Some dy, d2)" "length b2 = ?n" "dy \<noteq> dx"
      "mem d2 = [dx \<mapsto> b1, dy \<mapsto> b2]"
    using device_malloc[OF dev, of ?n d1] assms(3) d1(3)
    by (auto split: if_splits)
  note copy = device_copy[OF dev, OF conjI] and free = device_free[OF dev]
  obtain d3 where d3: "cu_to_device cu dx (cj_x job) d2 = (Some (), d3)" "mem d3 = [dx \<mapsto> cj_x job, dy \<mapsto> b2]"
    using copy[of d2 dx b1 "cj_x job"] d1(2) d2(3,4) assms(2) by (auto simp: sized_def fun_upd_twist)
  obtain d4 where d4: "cu_to_device cu dy (cj_y_host job) d3 = (Some (), d4)"
      "mem d4 = [dx \<mapsto> cj_x job, dy \<mapsto> cj_y_host job]"
    using copy[of d3 dy b2 "cj_y_host job"] d2(2) d3(2) assms(2) by (auto simp: sized_def)
  have "mem d4 dx = Some (cj_x job) \<and> mem d4 dy = Some (cj_y_host job)" using d4(2) d2(3) by simp
  from device_launch[OF dev this, of ?b 256 ?K] obtain s d5 where s: "complete_schedule (?b * 256) s"
    and d5: "cu_synchronize cu (cu_launch cu ?b 256 ?K dx dy d4) = (Some (), d5)"
      "mem d5 = (mem d4)(dy \<mapsto> ?K s (cj_x job) (cj_y_host job))"
    by blast
  let ?y = "cpu_reference (F\<lparr>fl_axpy_host := fl_axpy_device F\<rparr>) ?n (cj_a job) (cj_x job) (cj_y_host job)"
  have n: "length (cj_y_host job) = ?n" using assms(2) by (simp add: sized_def)
  then have y: "?K s (cj_x job) (cj_y_host job) = ?y" by (intro kernel_computes[OF s blocks_cover]) simp
  have "mem d5 dy = Some ?y" "length ?y = ?n" using y n d5(2) by simp_all
  obtain d6 where d6: "cu_from_device cu dy ?n d5 = (Some ?y, d6)" "mem d6 = [dx \<mapsto> cj_x job, dy \<mapsto> ?y]"
    using device_fetch[OF dev, of d5 dy ?y] y n d5(2) d4(2) by auto
  obtain d7 where d7: "cu_release cu dx d6 = (Some (), d7)" "mem d7 = [dy \<mapsto> ?y]"
    using free[of d6 dx "cj_x job"] d6(2) d2(3) by (auto simp: fun_upd_twist)
  obtain d8 where d8: "cu_release cu dy d7 = (Some (), d8)" "mem d8 = Map.empty"
    using free[of d7 dy ?y] d7(2) by auto
  have "offload F cu job h = Some (?y, h\<lparr>ho_device := d8\<rparr>)"
    by (simp add: offload_def cuda_check_def d1 d2 d3 d4 d5[simplified] d6 d7 d8)
  with that d8(2) show thesis by simp
qed


text \<open>A gate that is not READY keeps the device untouched.\<close>

lemma run_blocked:
  "readiness g (cj_gate job) \<noteq> RS_READY \<Longrightarrow>
   cuda_run F cu g job h = Some (False, job, say (gate_line (cj_gate job) (readiness g (cj_gate job))) h)"
  by (simp add: cuda_run_def)

lemma run_ready:
  assumes dev: "faithful_device cu limit mem room" and "sized job" and "cj_n job * 4 \<le> limit"
    and "mem (ho_device h) = Map.empty" and "accurate F job" and "readiness g (cj_gate job) = RS_READY"
  obtains job' h' where "cuda_run F cu g job h = Some (True, job', h')"
    "mem (ho_device h') = Map.empty"
    "ho_out h' = ho_out h @ [gate_line (cj_gate job) RS_READY,
       memory_line (room (ho_device h)) (room (ho_device h)), ''  CPU parity: OK'']"
proof -
  note info = device_info[OF dev] and same = device_same[OF dev]
  let ?h0 = "say (gate_line (cj_gate job) RS_READY) h"
  obtain d1 where d1: "cu_mem_free cu (ho_device h) = (Some (room (ho_device h)), d1)" "mem d1 = Map.empty"
    using info[of "ho_device h"] assms(4) by auto
  obtain h2 where h2: "offload F cu job (?h0\<lparr>ho_device := d1\<rparr>) =
      Some (cpu_reference (F\<lparr>fl_axpy_host := fl_axpy_device F\<rparr>) (cj_n job) (cj_a job) (cj_x job) (cj_y_host job), h2)"
    "mem (ho_device h2) = Map.empty" "ho_out h2 = ho_out h @ [gate_line (cj_gate job) RS_READY]"
    by (rule offload_computes[OF dev assms(2,3), where F = F and h = "?h0\<lparr>ho_device := d1\<rparr>"])
      (simp_all add: d1(2) say_def)
  obtain d3 where d3: "cu_mem_free cu (ho_device h2) = (Some (room (ho_device h)), d3)" "mem d3 = Map.empty"
    using info[of "ho_device h2"] h2(2) same[of "ho_device h2" "ho_device h"] assms(4) by auto
  show thesis
    using that assms(5) h2 d3
    by (simp add: cuda_run_def assms(6) free_mem_def cuda_check_def d1(1) Let_def say_def accurate_def)
qed

end
