(* ===== verification/Restarts.thy ===== *)
theory Restarts
  imports Transparency Reloading
begin

text \<open>
  Saving and loading on the facts alone: a graph like a storable one is storable, and the loaded graph is
  found by writing down the saved one with its dynamic nodes demoted. Closure recomputations that work
  in topological order leave every node settled.
\<close>

section \<open>Storable graphs\<close>

lemma um_size_cong:
  assumes "um_wf m" and "um_wf m'" and "\<And>k. um_find k m' = um_find k m"
  shows "um_size m' = um_size m"
proof -
  have "set (um_keys m') = set (um_keys m)" using assms(3) by (auto simp: um.keys_find)
  then show ?thesis using assms(1,2) by (simp add: wf_keys_length)
qed

lemma mset_cong:
  assumes "um_wf m" and "um_wf m'" and "\<And>k. um_find k m' = um_find k m"
  shows "mset m' = mset m"
proof -
  have "distinct m" "distinct m'" using assms(1,2) by (simp_all add: um_wf_def distinct_map)
  moreover have "set m' = set m"
    using assms um_find_mem[OF assms(1)] um_find_mem[OF assms(2)] by auto
  ultimately show ?thesis by (simp add: set_eq_iff_mset_eq_distinct)
qed

lemma storable_alike:
  assumes "alike k g" and "storable k" and "core_inv g" and "\<And>i. readiness g i = readiness k i"
  shows "storable g"
proof -
  have k: "core_inv k" "acyclic_graph k" using assms(2) by (simp_all add: storable_def)
  have "um_size (gr_sources g) = um_size (gr_sources k)" "um_size (gr_sets g) = um_size (gr_sets k)"
    by (rule um_size_cong;
        use assms(1,3) k in \<open>simp add: core_inv_def graph_wf_def alike_lookups\<close>)+
  moreover have "storable_node (um_size (gr_nodes g)) n" if n: "find_node g i = Some n" for i n
  proof -
    obtain m where m: "find_node k i = Some m" "essence m = essence n"
      by (rule alike_some[OF alike_sym[OF assms(1)] n])
    then have st: "storable_node (um_size (gr_nodes k)) m" using assms(2) by (simp add: storable_def)
    have "nd_state n = nd_state m" using assms(4)[of i] n m(1) by (simp add: readiness_def)
    then have "readiness_state_enumerator (nd_state n)"
      using st by (simp add: storable_node_def admitted_node_def)
    moreover have "durable n = durable m" using m(2) by (simp add: essence_iff)
    ultimately show ?thesis using storable_durable[OF _ st] by (simp add: alike_sizes[OF assms(1)])
  qed
  ultimately show ?thesis
    using assms(1-3) k alike_dep_rel[OF assms(1)]
    by (auto simp: storable_def acyclic_graph_def alike_sizes alike_lookups)
qed

section \<open>Loaded graphs\<close>

lemma short_lists_eq:
  assumes "distinct xs" and "distinct ys" and "set xs = set ys" and "length ys \<le> 1"
  shows "xs = ys"
proof -
  have "length xs = length ys" using assms by (metis distinct_card)
  with assms(3,4) show ?thesis by (cases xs; cases ys) auto
qed

lemma durable_demoted: "durable n = durable m \<Longrightarrow> durable (demote_node n) = durable (demote_node m)"
  by (cases n; cases m) (simp add: durable_def demote_node_def)

text \<open>The edges of each node in a written-out graph with at most one edge into and out of a node.\<close>

lemma index_determined:
  assumes "index_exact r" and "index_exact h" and "\<And>j. find_edge h j = find_edge r j"
    and "\<And>v. length (out_at r v) \<le> 1 \<and> length (in_at r v) \<le> 1"
  shows "out_at h v = out_at r v" "in_at h v = in_at r v"
  by (rule short_lists_eq; use assms in \<open>auto simp: index_exact_def\<close>)+

lemma no_sets_unlisted:
  assumes "core_inv g" and "\<And>j. find_set g j = None"
  shows "ix_at v (gr_node_sets g) = []"
proof (cases "ix_at v (gr_node_sets g)")
  case (Cons i "is")
  then show ?thesis
    using set_index_owner[of g i v] assms by (simp add: core_inv_def)
qed

lemma reloaded_alike:
  assumes rel: "reloaded g h" and k: "alike k g" and h: "core_inv h" "index_exact h"
    and r: "core_inv r" "index_exact r" "\<And>v. length (out_at r v) \<le> 1 \<and> length (in_at r v) \<le> 1"
    and edges: "\<And>j. find_edge r j = find_edge k j" and sets: "\<And>j. find_set r j = find_set k j"
    and none: "\<And>j. find_set k j = None"
    and rest: "\<And>s. um_find s (gr_sources r) = um_find s (gr_sources k)" "gr_epoch r = gr_epoch k"
      "gr_adapter r = gr_adapter h"
    and nodes: "\<And>i. find_node r i = map_option demote_node (find_node k i)"
    and dyn: "\<And>i n. find_node k i = Some n \<Longrightarrow> nd_dynamic_evidence n"
    and dynh: "\<And>i n. find_node h i = Some n \<Longrightarrow> nd_dynamic_evidence n \<Longrightarrow> nd_state n = RS_REVALIDATION_REQUIRED"
  shows "alike r h"
proof -
  have fe: "find_edge h j = find_edge r j" and fs: "find_set h l = find_set r l" for j l
    using rel edges sets alike_lookups[OF k] by (simp_all add: reloaded_def)
  have "ix_at v (gr_node_sets h) = []" "ix_at v (gr_node_sets r) = []" for v
    by (rule no_sets_unlisted; use h(1) r(1) fs sets none in simp)+
  moreover have nd: "map_option essence (find_node h i) = map_option essence (find_node r i)" for i
  proof (cases "find_node k i")
    case None
    then have "find_node g i = None" by (simp add: alike_none[OF k])
    then have "map_option durable (find_node h i) = None" using rel by (simp add: reloaded_def)
    then show ?thesis using None nodes[of i] by simp
  next
    case (Some n)
    obtain m where m: "find_node g i = Some m" "essence m = essence n" by (rule alike_some[OF k Some])
    obtain l where l: "find_node h i = Some l" "durable l = durable (demote_node m)"
      using rel m(1) unfolding reloaded_def by (metis (no_types, lifting) comp_apply map_option_eq_Some)
    have "durable m = durable n" using m(2) by (simp add: essence_iff)
    then have d: "durable l = durable (demote_node n)" using l(2) durable_demoted by metis
    moreover have "nd_dynamic_evidence (demote_node n)" "nd_state (demote_node n) = RS_REVALIDATION_REQUIRED"
      using dyn[OF Some] by (simp_all add: demote_node_def)
    moreover from this d have "nd_dynamic_evidence l" by (cases l; cases "demote_node n"; simp add: durable_def)
    ultimately have "essence l = essence (demote_node n)"
      using dynh[OF l(1)] by (simp add: essence_iff)
    then show ?thesis using l(1) nodes[of i] Some by simp
  qed
  moreover have "um_size (gr_nodes h) = um_size (gr_nodes r)"
  proof -
    have "find_node h i = None \<longleftrightarrow> find_node r i = None" for i
      using arg_cong[OF nd[of i], of "\<lambda>x. x = None"] by simp
    then have "set (um_keys (gr_nodes h)) = set (um_keys (gr_nodes r))"
      by (simp add: set_eq_iff um.keys_find)
    then show ?thesis using h(1) r(1) by (simp add: core_inv_def graph_wf_def wf_keys_length)
  qed
  moreover have "mset (gr_edges h) = mset (gr_edges r)"
    by (rule mset_cong) (use h(1) r(1) fe in \<open>simp_all add: core_inv_def graph_wf_def\<close>)
  ultimately show ?thesis
    using rel rest fe fs index_determined[OF r(2) h(2) fe r(3)] alike_lookups[OF k]
    by (simp add: alike_def same_lookups_def reloaded_def)
qed

section \<open>Closures in topological order\<close>

text \<open>
  A node is rewritten and the closure behind it recomputed. When the breadth-first order is
  topological, the graph stays settled.
\<close>

lemma settled_other_node:
  assumes "settled g j" and "j \<noteq> i" and "i \<notin> reads g j"
  shows "settled (put_node i n g) j"
proof (cases "find_node g j")
  case (Some m)
  have "recomputed_state (put_node i n g) j m = recomputed_state g j m"
    by (rule recomputed_state_cong) (use assms(3) in \<open>auto simp: same_lookups_def same_view_def\<close>)
  then show ?thesis using assms(1,2) Some by (simp add: settled_def)
qed (use assms(2) in \<open>simp add: settled_def\<close>)

lemma write_settled:
  assumes "index_sound g" and "members_local g" and "\<forall>j. settled g j" and "find_node g i \<noteq> None" and "valid i"
    and ord: "\<And>js v ks. topology_order_locked g [i] = js @ v # ks \<Longrightarrow> dep_rel g `` set (v # ks) \<inter> {v} = {}"
  shows "settled (recompute_closure_locked [i] (put_node i n g)) j"
proof -
  let ?h = "put_node i n g"
  have ss: "same_structure g ?h" by (rule same_structure_put[OF assms(4)])
  note facts = same_structure_facts[OF ss]
  have order: "topology_order_locked ?h [i] = topology_order_locked g [i]"
    by (simp add: topology_order_locked_def closure_search_def succs_def[abs_def] facts)
  show ?thesis
  proof (cases "j \<in> (dep_rel ?h)\<^sup>* `` {r \<in> set [i]. valid r}")
    case True
    show ?thesis
      by (rule recompute_closure_settles[OF _ _ _ True]) (use assms(1,2) ord in \<open>simp_all add: facts order\<close>)
  next
    case False
    then have "(i, j) \<notin> (dep_rel g)\<^sup>*" using assms(5) by (auto simp: facts)
    then have "j \<noteq> i" "i \<notin> reads g j" using reads_dep_rel[OF assms(1,2), of i j] by auto
    then have "settled ?h j" using assms(3) by (intro settled_other_node) simp_all
    then show ?thesis
      by (rule recompute_closure_keeps_settled[rotated 2]) (use assms(1,2) False in \<open>simp_all add: facts\<close>)
  qed
qed

end
