(* ===== verification/Samples.thy ===== *)
theory Samples
  imports Runs
begin

text \<open>
  Concrete graphs on which the properties are instantiated: \<open>built_graph\<close>, reached from the empty
  graph by a list of requests, and \<open>chain_graph\<close>, a chain of three nodes with a dependency set,
  written out.
\<close>

section \<open>A reached graph\<close>

definition sample_it :: iteration where
  "sample_it = \<lparr>it_nodes = id, it_edges = rev, it_sets = id, it_sources = id\<rparr>"

lemma sample_it_ok [simp]: "iteration_ok sample_it"
  by (simp add: iteration_ok_def sample_it_def)

definition sample_cred :: credentials where
  "sample_cred = \<lparr>cr_source = Strong 7, cr_boot = Strong 8, cr_epoch = Strong 1\<rparr>"

definition sample_edge :: "edge_id \<Rightarrow> node_id \<Rightarrow> node_id \<Rightarrow> edge" where
  "sample_edge i p c =
     \<lparr>ed_id = i, ed_generation = Strong 1, ed_kind = EK_REQUIRES_READY, ed_producer_id = p,
      ed_consumer_id = c, ed_bound_producer_generation = null_strong,
      ed_bound_consumer_generation = null_strong, ed_predicate = default_predicate,
      ed_active = True\<rparr>"

lemma sample_edge_fields [simp]:
  "ed_id (sample_edge i p c) = i" "ed_producer_id (sample_edge i p c) = p"
  "ed_consumer_id (sample_edge i p c) = c" "ed_active (sample_edge i p c) = True"
  "ed_kind (sample_edge i p c) = EK_REQUIRES_READY"
  "ed_predicate (sample_edge i p c) = default_predicate"
  by (simp_all add: sample_edge_def)

definition registered_graph :: graph where
  "registered_graph = snd (register_source (Strong 7) (Strong 8) (Strong 1) empty_graph)"

definition sample_commands :: "command list" where
  "sample_commands =
     [DeclareNode (Strong 1) NK_ARTIFACT ''a'' True, DeclareNode (Strong 2) NK_MODEL ''b'' True,
      DeclareNode (Strong 3) NK_SERVICE ''c'' True,
      PublishGeneration (Strong 1) (Strong 1), PublishGeneration (Strong 2) (Strong 1),
      AddEdge (sample_edge (Strong 10) (Strong 1) (Strong 2)),
      AddEdge (sample_edge (Strong 11) (Strong 2) (Strong 3)),
      SetEdgeActive (Strong 11) False, InvalidateNode (Strong 2) IR_EXPLICIT
        \<lparr>ip_mode = IM_RECURSIVE, ip_max_depth = 0, ip_propagate_through_optional = False,
         ip_degrade_optional_dependents = False, ip_cascade_blocked = False\<rparr>]"

definition built_graph :: graph where
  "built_graph = the (run_acts submit (map (Pair sample_cred) sample_commands) registered_graph)"

text \<open>Commands whose cleanness does not depend on the graph once it has no sets.\<close>

definition plain :: "command \<Rightarrow> bool" where
  "plain c \<longleftrightarrow> (case c of SetEdgeActive i a \<Rightarrow> \<not> a | AddEdge e \<Rightarrow> ed_active e
     | AddDependencySet s \<Rightarrow> False | _ \<Rightarrow> True)"

lemma structural_sets:
  "structural c g g' \<Longrightarrow> plain c \<Longrightarrow> gr_sets g = [] \<Longrightarrow> gr_sets g' = []"
  by (induction rule: structural.induct)
    (auto simp: content_only_def same_structure_def plain_def insert_edge_def delete_edge_def
      switch_edge_def Let_def um_erase_def)

lemma run_plain:
  assumes "reachable clean it g" and "gr_sets g = []" and "\<forall>c \<in> set (map snd rqs). plain c"
  shows "\<exists>g'. run_acts submit rqs g = Some g' \<and> reachable clean it g' \<and> gr_sets g' = []"
  using assms
proof (induction rqs arbitrary: g)
  case (Cons rq rqs)
  obtain r h where h: "submit rq g = Some (r, h)"
    using requests.returns[OF reachable_core_inv[OF Cons.prems(1)], of rq] by auto
  have "clean g (snd rq)" using Cons.prems(2,3)
    by (auto simp: plain_def clean_def unlisted_def split: command.splits)
  then have "reachable clean it h" by (intro re_step[OF Cons.prems(1)] fs_request[OF _ h])
  moreover have "gr_sets h = []"
    using h[unfolded submit_def]
  proof (cases rule: perform_cases)
    case refused
    then show ?thesis using Cons.prems(2) by simp
  next
    case (accepted g1)
    then have "gr_sets g1 = []" using structural_sets Cons.prems(2,3) by auto
    then show ?thesis using content_structure[OF accepted(4)] by (simp add: same_structure_def)
  qed
  ultimately show ?case using Cons.IH Cons.prems(3) h by simp
qed simp

lemma registered_reachable: "reachable P it registered_graph"
  unfolding registered_graph_def
  by (rule re_step[OF re_start], rule fs_register, rule prod.collapse[symmetric])

lemma built_reachable: "reachable clean sample_it built_graph" "gr_sets built_graph = []"
proof -
  have "gr_sets registered_graph = []"
    by (simp add: registered_graph_def register_source_def empty_graph_def)
  moreover have "\<forall>c \<in> set (map snd (map (Pair sample_cred) sample_commands)). plain c"
    by (simp add: sample_commands_def plain_def)
  ultimately have "\<exists>g'. run_acts submit (map (Pair sample_cred) sample_commands) registered_graph = Some g' \<and>
      reachable clean sample_it g' \<and> gr_sets g' = []"
    by (rule run_plain[OF registered_reachable])
  then show "reachable clean sample_it built_graph" "gr_sets built_graph = []"
    by (auto simp: built_graph_def)
qed

lemma built_sets_in_range: "sets_in_range built_graph i"
  using built_reachable(2)
  by (simp add: sets_in_range_def active_sets_def List.map_filter_def)

section \<open>A chain written out\<close>

definition chain_node :: "node_id \<Rightarrow> node_kind \<Rightarrow> readiness_state \<Rightarrow> node" where
  "chain_node i k st =
     (make_node i k ''sample'')\<lparr>nd_generation_history := [Strong 1],
        nd_current_generation := Strong 1, nd_static_durable_fact := True,
        nd_origin_source := Strong 7, nd_origin_boot := Strong 8, nd_state := st,
        nd_recovered_evidence := DE_FRESH\<rparr>"

definition chain_set :: dependency_set where
  "chain_set = \<lparr>ds_id = Strong 20, ds_generation = Strong 1, ds_owner = Strong 3,
     ds_op = SO_ALL_OF, ds_at_least_n = 0, ds_members = [Strong 11], ds_active = True\<rparr>"

definition chain_with :: "readiness_state \<Rightarrow> graph" where
  "chain_with st =
     \<lparr>gr_nodes = [(Strong 1, chain_node (Strong 1) NK_ARTIFACT st),
                  (Strong 2, chain_node (Strong 2) NK_MODEL RS_READY),
                  (Strong 3, chain_node (Strong 3) NK_SERVICE RS_READY)],
      gr_edges = [(Strong 10, sample_edge (Strong 10) (Strong 1) (Strong 2)),
                  (Strong 11, sample_edge (Strong 11) (Strong 2) (Strong 3))],
      gr_sets = [(Strong 20, chain_set)],
      gr_sources = [(Strong 7, \<lparr>sr_source = Strong 7, sr_boot = Strong 8, sr_epoch = Strong 1,
                               sr_active = True\<rparr>)],
      gr_out_edges = [(Strong 1, [Strong 10]), (Strong 2, [Strong 11])],
      gr_in_edges = [(Strong 2, [Strong 10]), (Strong 3, [Strong 11])],
      gr_node_sets = [(Strong 3, [Strong 20])],
      gr_epoch = Strong 1, gr_adapter = None\<rparr>"

definition chain_graph :: graph where
  "chain_graph = chain_with RS_READY"

lemma chain_find [simp]:
  "find_node (chain_with st) i =
     (if i = Strong 1 then Some (chain_node i NK_ARTIFACT st)
      else if i = Strong 2 then Some (chain_node i NK_MODEL RS_READY)
      else if i = Strong 3 then Some (chain_node i NK_SERVICE RS_READY) else None)"
  "find_edge (chain_with st) j =
     (if j = Strong 10 then Some (sample_edge j (Strong 1) (Strong 2))
      else if j = Strong 11 then Some (sample_edge j (Strong 2) (Strong 3)) else None)"
  "find_set (chain_with st) k = (if k = Strong 20 then Some chain_set else None)"
  "um_find s (gr_sources (chain_with st)) =
     (if s = Strong 7 then Some \<lparr>sr_source = Strong 7, sr_boot = Strong 8, sr_epoch = Strong 1,
        sr_active = True\<rparr> else None)"
  "out_at (chain_with st) i =
     (if i = Strong 1 then [Strong 10] else if i = Strong 2 then [Strong 11] else [])"
  "in_at (chain_with st) i =
     (if i = Strong 2 then [Strong 10] else if i = Strong 3 then [Strong 11] else [])"
  "ix_at i (gr_node_sets (chain_with st)) = (if i = Strong 3 then [Strong 20] else [])"
  "gr_epoch (chain_with st) = Strong 1"
  "gr_adapter (chain_with st) = None"
  by (simp_all add: chain_with_def ix_at_def)

lemma chain_set_fields [simp]:
  "ds_id chain_set = Strong 20" "ds_owner chain_set = Strong 3" "ds_members chain_set = [Strong 11]"
  "ds_op chain_set = SO_ALL_OF" "ds_active chain_set"
  by (simp_all add: chain_set_def)

lemma chain_node_fields [simp]:
  "nd_id (chain_node i k st) = i" "nd_kind (chain_node i k st) = k"
  "nd_state (chain_node i k st) = st" "nd_current_generation (chain_node i k st) = Strong 1"
  "nd_generation_history (chain_node i k st) = [Strong 1]"
  "nd_dynamic_evidence (chain_node i k st) = False"
  by (simp_all add: chain_node_def make_node_def)

lemma chain_exact: "index_exact (chain_with st)"
  unfolding index_exact_alt distinct_index_def exact_at_def by simp

lemma chain_dep_rel: "dep_rel (chain_with st) = {(Strong 1, Strong 2), (Strong 2, Strong 3)}"
  by (auto simp: dep_rel_def split: if_splits) (rule exI[of _ "Strong 10"], simp)

lemma chain_acyclic: "acyclic_graph (chain_with st)"
proof -
  have "dep_rel (chain_with st) \<subseteq> measure (\<lambda>i. unat (strong_value i))"
    by (auto simp: chain_dep_rel)
  then show ?thesis unfolding acyclic_graph_def by (meson acyclic_subset wf_acyclic wf_measure)
qed

lemma chain_core: "core_inv (chain_with st)"
proof -
  have "graph_wf (chain_with st)"
    by (simp add: graph_wf_def) (simp add: chain_with_def um_size_def kMaxGraphEdges_def)
  moreover have "keys_ok (chain_with st)"
    by (simp add: keys_ok_def) (simp add: chain_with_def um_size_def kMaxGraphNodes_def)
  moreover have "set_index_ok (chain_with st)" by (auto simp: set_index_ok_def)
  ultimately show ?thesis using index_exact_sound[OF chain_exact] by (simp add: core_inv_def)
qed

lemma chain_clean: "clean_inv (chain_with st)"
  by (auto simp: clean_inv_def chain_core chain_exact chain_acyclic sets_local_def split: if_splits)

lemma chain_sets_in_range: "sets_in_range (chain_with st) i"
  by (simp add: sets_in_range_def active_sets_def List.map_filter_def set_in_range_def)

lemma chain_authority [simp]:
  "authority_ok (chain_with st) (Strong 7) (Strong 8) (Strong 1) = None"
  by (simp add: authority_ok_def)

lemmas chain_facts = chain_core chain_exact chain_acyclic chain_clean chain_sets_in_range

lemma chain_sound: "index_sound (chain_with st)"
  by (rule index_exact_sound[OF chain_exact])

end
