(* ===== verification/Scenarios.thy ===== *)
theory Scenarios
  imports Accelerator Restarts Samples
begin

text \<open>
  What the scenarios of the accelerator program do on a faithful device. Each graph on the way is written
  down with the states it settles in; the runtime is followed to it on the facts alone.
\<close>

section \<open>Stages\<close>

definition gpu_node :: "node_id \<Rightarrow> node_kind \<Rightarrow> string \<Rightarrow> bool \<Rightarrow> readiness_state \<Rightarrow> node" where
  "gpu_node i k name dur st =
     (make_node i k name)\<lparr>nd_static_durable_fact := dur, nd_dynamic_evidence := \<not> dur,
        nd_origin_source := Strong 1, nd_origin_boot := Strong 1, nd_state := st\<rparr>"

definition with_gens :: "node_generation list \<Rightarrow> node \<Rightarrow> node" where
  "with_gens gens n = n\<lparr>nd_generation_history := gens, nd_current_generation := last gens,
     nd_superseded_generations := butlast gens, nd_recovered_evidence := DE_FRESH\<rparr>"

text \<open>Edge \<open>i\<close> leads from the model to the kernel, edge \<open>j\<close> from the kernel to the execution phase.\<close>

definition gpu_graph :: "node list \<Rightarrow> edge \<Rightarrow> edge \<Rightarrow> graph" where
  "gpu_graph ns e1 e2 =
     \<lparr>gr_nodes = map (\<lambda>n. (nd_id n, n)) ns, gr_edges = [(ed_id e1, e1), (ed_id e2, e2)], gr_sets = [],
      gr_sources = [(Strong 1, \<lparr>sr_source = Strong 1, sr_boot = Strong 1, sr_epoch = Strong 1, sr_active = True\<rparr>)],
      gr_out_edges = [(Strong 1, [ed_id e1]), (Strong 2, [ed_id e2])],
      gr_in_edges = [(Strong 2, [ed_id e1]), (Strong 3, [ed_id e2])],
      gr_node_sets = [], gr_epoch = Strong 1, gr_adapter = None\<rparr>"

lemmas stage_simps = gpu_graph_def gpu_node_def with_gens_def pinned_edge_def make_node_def null_strong_def
  default_predicate_def

lemma registered_eq: "registered = empty_graph\<lparr>gr_sources :=
    [(Strong 1, \<lparr>sr_source = Strong 1, sr_boot = Strong 1, sr_epoch = Strong 1, sr_active = True\<rparr>)]\<rparr>"
  by (simp add: registered_def register_source_def empty_graph_def)

lemma registered_start: "reachable clean it registered" "gr_sets registered = []"
proof -
  show "reachable clean it registered"
    unfolding registered_def by (rule re_step[OF re_start], rule fs_register, rule prod.collapse[symmetric])
qed (simp add: registered_eq empty_graph_def)

text \<open>Calls followed by a full recomputation, from a graph like \<open>k0\<close> to one that reads like \<open>k\<close>.\<close>

lemma next_stage:
  assumes "reachable clean it g" and "gr_sets g = []" and "alike k0 g"
    and "leads k0 (map (Pair gpu_cred) cs) k" and "\<forall>i. settled k i"
    and "\<forall>c \<in> set cs. plain c" and "iteration_ok it"
  obtains g1 g2 where "do_calls cs g = Some g1" "recompute it g1 = Some g2"
    "reachable clean it g2" "gr_sets g2 = []" "alike k g2" "\<And>i. readiness g2 i = readiness k i"
proof -
  have "\<forall>c \<in> set (map snd (map (Pair gpu_cred) cs)). plain c" using assms(6) by simp
  from run_plain[OF assms(1,2) this] obtain g1 where
    g1: "do_calls cs g = Some g1" "reachable clean it g1" "gr_sets g1 = []"
    unfolding do_calls_def by blast
  have "leads g (map (Pair gpu_cred) cs) k" using assms(4) leads_alike[OF assms(3)] by simp
  then have al: "alike k g1" using g1(1) by (simp add: leads_def do_calls_def)
  obtain g2 where g2: "recompute_all_readiness it g1 = Some (OC_ACCEPTED, g2)" "alike k g2"
    "\<And>i. readiness g2 i = readiness k i"
    by (rule recomputed_readiness[OF al assms(5) reachable_clean[OF g1(2)] assms(7)]) blast
  have "reachable clean it g2" by (rule re_step[OF g1(2) fs_recompute_all[OF g2(1)]])
  moreover have "gr_sets g2 = []"
    using g2(1) g1(3) recompute_all_form by (fastforce simp: recompute_all_readiness_def)
  ultimately show thesis by (intro that[OF g1(1) _ _ _ g2(2,3)]) (simp_all add: recompute_def g2(1))
qed

section \<open>The graphs of the scenarios\<close>

definition chain_stage :: "bool \<Rightarrow> graph" where
  "chain_stage dur = gpu_graph
     [with_gens [Strong 1] (gpu_node (Strong 1) NK_MODEL ''model'' dur RS_READY),
      with_gens [Strong 1] (gpu_node (Strong 2) NK_KERNEL ''kernel'' dur RS_READY),
      gpu_node (Strong 3) NK_WORKLOAD_PHASE ''exec'' dur RS_READY]
     (pinned_edge (Strong 1) (Strong 1) (Strong 2) (Strong 1))
     (pinned_edge (Strong 2) (Strong 2) (Strong 3) (Strong 1))"

definition stale_stage :: graph where
  "stale_stage = gpu_graph
     [with_gens [Strong 1, Strong 2] (gpu_node (Strong 1) NK_MODEL ''model'' True RS_READY),
      with_gens [Strong 1] (gpu_node (Strong 2) NK_KERNEL ''kernel'' True RS_STALE),
      gpu_node (Strong 3) NK_WORKLOAD_PHASE ''exec'' True RS_BLOCKED]
     (pinned_edge (Strong 1) (Strong 1) (Strong 2) (Strong 1))
     (pinned_edge (Strong 2) (Strong 2) (Strong 3) (Strong 1))"

definition fresh_stage :: graph where
  "fresh_stage = gpu_graph
     [with_gens [Strong 1, Strong 2] (gpu_node (Strong 1) NK_MODEL ''model'' True RS_READY),
      with_gens [Strong 1, Strong 2] (gpu_node (Strong 2) NK_KERNEL ''kernel'' True RS_READY),
      gpu_node (Strong 3) NK_WORKLOAD_PHASE ''exec'' True RS_READY]
     (pinned_edge (Strong 3) (Strong 1) (Strong 2) (Strong 2))
     (pinned_edge (Strong 4) (Strong 2) (Strong 3) (Strong 2))"

definition hit :: "node \<Rightarrow> node" where
  "hit n = mark_invalidated IR_INTEGRITY_FAILED n"

definition broken_stage :: graph where
  "broken_stage = gpu_graph
     [hit (with_gens [Strong 1] (gpu_node (Strong 1) NK_MODEL ''model'' True RS_INVALIDATED)),
      hit (with_gens [Strong 1] (gpu_node (Strong 2) NK_KERNEL ''kernel'' True RS_BLOCKED)),
      hit (gpu_node (Strong 3) NK_WORKLOAD_PHASE ''exec'' True RS_BLOCKED)]
     (pinned_edge (Strong 1) (Strong 1) (Strong 2) (Strong 1))
     (pinned_edge (Strong 2) (Strong 2) (Strong 3) (Strong 1))"

definition recovered_stage :: graph where
  "recovered_stage = gpu_graph
     [(hit (with_gens [Strong 1] (gpu_node (Strong 1) NK_MODEL ''model'' True RS_READY)))\<lparr>nd_ever_invalidated := False\<rparr>,
      hit (with_gens [Strong 1] (gpu_node (Strong 2) NK_KERNEL ''kernel'' True RS_READY)),
      hit (gpu_node (Strong 3) NK_WORKLOAD_PHASE ''exec'' True RS_READY)]
     (pinned_edge (Strong 1) (Strong 1) (Strong 2) (Strong 1))
     (pinned_edge (Strong 2) (Strong 2) (Strong 3) (Strong 1))"

definition resource_stage :: "string \<Rightarrow> graph" where
  "resource_stage sm = gpu_graph
     [(with_gens [Strong 1] (gpu_node (Strong 1) NK_RESOURCE ''rtx5090'' True RS_READY))\<lparr>nd_claimed_capabilities := [sm]\<rparr>,
      with_gens [Strong 1] (gpu_node (Strong 2) NK_KERNEL ''kernel'' True RS_READY),
      gpu_node (Strong 3) NK_WORKLOAD_PHASE ''exec'' True RS_READY]
     (capability_edge (Strong 1) sm) exec_edge"

lemma chain_leads: "leads registered (map (Pair gpu_cred) (chain_calls 1 1 dur)) (chain_stage dur)"
  by (simp add: registered_eq empty_graph_def run_simps chain_calls_def gpu_cred_def pinned_edge_def)
    (rule alike_trans[OF _ alike_closure], simp add: chain_stage_def stage_simps alike_simps)

lemma stale_leads: "leads (chain_stage True) [(gpu_cred, PublishGeneration (Strong 1) (Strong 2))] stale_stage"
  by (simp add: run_simps gpu_cred_def chain_stage_def stage_simps)
    (rule alike_trans[OF _ alike_closure], simp add: stale_stage_def stage_simps alike_simps)

lemma fresh_leads: "leads stale_stage (map (Pair gpu_cred) republish_calls) fresh_stage"
  by (simp add: run_simps gpu_cred_def stale_stage_def stage_simps republish_calls_def)
    (rule alike_trans[OF _ alike_closure], simp add: fresh_stage_def stage_simps alike_simps)

lemma chain_stage_settled: "settled (chain_stage dur) i"
  by (simp add: chain_stage_def stage_simps settled_simps)

lemma stale_settled: "settled stale_stage i"
  by (simp add: stale_stage_def stage_simps settled_simps)

lemma fresh_settled: "settled fresh_stage i"
  by (simp add: fresh_stage_def stage_simps settled_simps)

lemma broken_leads: "leads (chain_stage True)
    [(gpu_cred, InvalidateNode (Strong 1) IR_INTEGRITY_FAILED (default_policy\<lparr>ip_mode := IM_RECURSIVE\<rparr>))] broken_stage"
  by (simp add: run_simps gpu_cred_def chain_stage_def stage_simps default_policy_def)
    (rule alike_trans[OF _ alike_closure], simp add: broken_stage_def stage_simps alike_simps hit_def mark_invalidated_def bump_def)

lemma recovered_leads: "leads broken_stage [(gpu_cred, MarkRecovered (Strong 1))] recovered_stage"
  by (simp add: run_simps gpu_cred_def broken_stage_def stage_simps hit_def mark_invalidated_def)
    (rule alike_trans[OF _ alike_closure], simp add: recovered_stage_def stage_simps alike_simps hit_def mark_invalidated_def bump_def)

lemma broken_settled: "settled broken_stage i"
  by (simp add: broken_stage_def stage_simps settled_simps hit_def mark_invalidated_def)

lemma recovered_settled: "settled recovered_stage i"
  by (simp add: recovered_stage_def stage_simps settled_simps hit_def mark_invalidated_def)

lemma resource_leads: "leads registered (map (Pair gpu_cred) (resource_calls sm)) (resource_stage sm)"
  by (simp add: registered_eq empty_graph_def run_simps resource_calls_def gpu_cred_def capability_edge_def exec_edge_def capability_patch_def)
    (rule alike_trans[OF _ alike_closure], simp add: resource_stage_def stage_simps alike_simps capability_edge_def exec_edge_def)

lemma resource_settled: "settled (resource_stage sm) i"
  by (simp add: resource_stage_def stage_simps settled_simps capability_edge_def exec_edge_def capability_fact_def)


definition mismatch_stage :: "string \<Rightarrow> string \<Rightarrow> graph" where
  "mismatch_stage sm bad =
     \<lparr>gr_nodes = gr_nodes (gpu_graph
        [(with_gens [Strong 1] (gpu_node (Strong 1) NK_RESOURCE ''rtx5090'' True RS_READY))\<lparr>nd_claimed_capabilities := [sm]\<rparr>,
         with_gens [Strong 1] (gpu_node (Strong 2) NK_KERNEL ''kernel'' True RS_BLOCKED),
         gpu_node (Strong 3) NK_WORKLOAD_PHASE ''exec'' True RS_BLOCKED] exec_edge exec_edge),
      gr_edges = [(Strong 2, exec_edge), (Strong 3, capability_edge (Strong 3) bad)], gr_sets = [],
      gr_sources = gr_sources (gpu_graph [] exec_edge exec_edge),
      gr_out_edges = [(Strong 1, [Strong 3]), (Strong 2, [Strong 2])],
      gr_in_edges = [(Strong 2, [Strong 3]), (Strong 3, [Strong 2])],
      gr_node_sets = [], gr_epoch = Strong 1, gr_adapter = None\<rparr>"

lemma mismatch_leads: "leads (resource_stage sm)
    (map (Pair gpu_cred) [RemoveEdge (Strong 1), AddEdge (capability_edge (Strong 3) bad)]) (mismatch_stage sm bad)"
  by (simp add: run_simps gpu_cred_def resource_stage_def stage_simps capability_edge_def exec_edge_def)
    (rule alike_trans[OF _ alike_closure],
      simp add: mismatch_stage_def stage_simps alike_simps capability_edge_def exec_edge_def)

lemma mismatch_settled: "sm \<noteq> bad \<Longrightarrow> bad \<noteq> [] \<Longrightarrow> settled (mismatch_stage sm bad) i"
  by (simp add: mismatch_stage_def stage_simps settled_simps capability_edge_def exec_edge_def capability_fact_def)

lemma stage_readiness:
  "readiness (chain_stage dur) (Strong 3) = RS_READY"
  "readiness stale_stage (Strong 2) = RS_STALE" "readiness stale_stage (Strong 3) = RS_BLOCKED"
  "readiness fresh_stage (Strong 3) = RS_READY"
  "readiness broken_stage (Strong 3) = RS_BLOCKED"
  "readiness recovered_stage (Strong 3) = RS_READY"
  "readiness (resource_stage sm) (Strong 2) = RS_READY" "readiness (resource_stage sm) (Strong 3) = RS_READY"
  "readiness (mismatch_stage sm bad) (Strong 2) = RS_BLOCKED"
  by (simp_all add: readiness_def chain_stage_def stale_stage_def fresh_stage_def broken_stage_def
      recovered_stage_def resource_stage_def mismatch_stage_def stage_simps hit_def mark_invalidated_def)

lemmas plain_calls = plain_def chain_calls_def republish_calls_def resource_calls_def pinned_edge_def
  capability_edge_def exec_edge_def

text \<open>The chain is built, whatever the durability of its nodes.\<close>

lemma chain_built:
  assumes "iteration_ok it"
  obtains g where "build_chain it 1 1 dur registered = Some g" "reachable clean it g" "gr_sets g = []"
    "alike (chain_stage dur) g" "\<And>i. readiness g i = readiness (chain_stage dur) i"
proof (rule next_stage[OF registered_start alike_refl chain_leads _ _ assms])
  show "\<forall>i. settled (chain_stage dur) i" by (simp add: chain_stage_settled)
  show "\<forall>c \<in> set (chain_calls 1 1 dur). plain c" by (simp add: plain_calls)
next
  fix g1 g2
  assume "do_calls (chain_calls 1 1 dur) registered = Some g1" "recompute it g1 = Some g2"
    "reachable clean it g2" "gr_sets g2 = []" "alike (chain_stage dur) g2"
    "\<And>i. readiness g2 i = readiness (chain_stage dur) i"
  then show thesis by (intro that[of g2]) (simp_all add: build_chain_def)
qed

section \<open>What the scenarios print\<close>

definition idle :: "('d \<Rightarrow> u64 \<Rightarrow> 'f list option) \<Rightarrow> ('d \<Rightarrow> u64) \<Rightarrow> u64 \<Rightarrow> 'd host \<Rightarrow> bool" where
  "idle mem room B h \<longleftrightarrow> mem (ho_device h) = Map.empty \<and> room (ho_device h) = B"

definition ran :: "u64 \<Rightarrow> string list" where
  "ran B = [gate_line (Strong 3) RS_READY, memory_line B B, ''  CPU parity: OK'']"

text \<open>A device that serves two buffers of \<open>N\<close> floats, and accurate arithmetic on the data of every run.\<close>

definition good_device :: "'f float_ops \<Rightarrow> ('f, 'd) cuda_api \<Rightarrow> ('d \<Rightarrow> u64 \<Rightarrow> 'f list option) \<Rightarrow> ('d \<Rightarrow> u64) \<Rightarrow> bool" where
  "good_device F cu mem room \<longleftrightarrow> faithful_device cu (N * 4) mem room \<and>
     (\<forall>\<alpha> \<in> {''1.5f'', ''2.0f'', ''3.0f'', ''4.0f''}. accurate F (gate_job F \<alpha>))"

lemma idle_say [simp]: "idle mem room B (say l h) = idle mem room B h"
  by (simp add: idle_def say_def)

lemma out_say [simp]: "ho_out (say l h) = ho_out h @ [l]"
  by (simp add: say_def)

lemma gate_job_fields [simp]: "cj_gate (gate_job F \<alpha>) = Strong 3" "cj_n (gate_job F \<alpha>) = N" "sized (gate_job F \<alpha>)"
  by (simp_all add: gate_job_def cuda_job_of_def sized_def Let_def)

lemma job_runs:
  assumes "good_device F cu mem room" and "idle mem room B h" and "readiness g (Strong 3) = RS_READY"
    and "\<alpha> \<in> {''1.5f'', ''2.0f'', ''3.0f'', ''4.0f''}"
  obtains job' h' where "cuda_run F cu g (gate_job F \<alpha>) h = Some (True, job', h')"
    "idle mem room B h'" "ho_out h' = ho_out h @ ran B"
proof -
  have dev: "faithful_device cu (N * 4) mem room" and acc: "accurate F (gate_job F \<alpha>)"
    using assms(1,4) by (auto simp: good_device_def)
  have empty: "mem (ho_device h) = Map.empty" "room (ho_device h) = B" using assms(2) by (simp_all add: idle_def)
  obtain job' h' where "cuda_run F cu g (gate_job F \<alpha>) h = Some (True, job', h')"
    "mem (ho_device h') = Map.empty" "ho_out h' = ho_out h @ [gate_line (cj_gate (gate_job F \<alpha>)) RS_READY,
       memory_line (room (ho_device h)) (room (ho_device h)), ''  CPU parity: OK'']"
    by (rule run_ready[OF dev _ _ empty(1) acc, of g]) (simp_all add: assms(3))
  moreover from this(2) have "room (ho_device h') = B"
    using device_same[OF dev, of "ho_device h'" "ho_device h"] empty by simp
  ultimately show thesis using that empty(2) by (simp add: idle_def ran_def)
qed

lemma alphas:
  "''1.5f'' \<in> {''1.5f'', ''2.0f'', ''3.0f'', ''4.0f''}" "''2.0f'' \<in> {''1.5f'', ''2.0f'', ''3.0f'', ''4.0f''}"
  "''3.0f'' \<in> {''1.5f'', ''2.0f'', ''3.0f'', ''4.0f''}" "''4.0f'' \<in> {''1.5f'', ''2.0f'', ''3.0f'', ''4.0f''}"
  by blast+

lemma scenario_a_passes:
  assumes "good_device F cu mem room" and "idle mem room B h" and "iteration_ok it"
  obtains h' where "scenario_a it F cu h = Some h'" "idle mem room B h'"
    "ho_out h' = ho_out h @ [[], ''=== Scenario A: valid dependency chain gates CUDA ===''] @ ran B @ [''  Scenario A: PASS'']"
proof -
  obtain g where g: "build_chain it 1 1 True registered = Some g" "readiness g (Strong 3) = RS_READY"
    using chain_built[OF assms(3)] stage_readiness(1) by metis
  let ?h = "heading ''=== Scenario A: valid dependency chain gates CUDA ==='' h"
  obtain job' h' where r: "cuda_run F cu g (gate_job F ''2.0f'') ?h = Some (True, job', h')"
    "idle mem room B h'" "ho_out h' = ho_out ?h @ ran B"
    by (rule job_runs[OF assms(1) _ g(2) alphas(2), where h = ?h]) (use assms(2) in \<open>simp_all add: heading_def\<close>)
  have "scenario_a it F cu h = Some (say ''  Scenario A: PASS'' h')"
    by (simp add: scenario_a_def g r(1) verdict_def)
  then show thesis by (rule that) (use r(2,3) in \<open>simp_all add: heading_def\<close>)
qed


lemma scenario_b_passes:
  assumes "good_device F cu mem room" and "idle mem room B h" and "iteration_ok it"
  obtains h' where "scenario_b it F cu h = Some h'" "idle mem room B h'"
    "ho_out h' = ho_out h @ [[], ''=== Scenario B: stale generation blocks CUDA launch ==='',
       ''  after model gen2: kernel=STALE exec=BLOCKED'', gate_line (Strong 3) RS_BLOCKED,
       ''  Scenario B: launch correctly rejected (state=BLOCKED)''] @ ran B @
       [''  Scenario B: PASS (fresh dependent generations republished)'']"
proof -
  obtain g where g: "build_chain it 1 1 True registered = Some g" "reachable clean it g" "gr_sets g = []"
    "alike (chain_stage True) g"
    by (rule chain_built[OF assms(3)]) blast
  obtain g1 g2 where g2: "do_calls [PublishGeneration (Strong 1) (Strong 2)] g = Some g1" "recompute it g1 = Some g2"
    "reachable clean it g2" "gr_sets g2 = []" "alike stale_stage g2" "\<And>i. readiness g2 i = readiness stale_stage i"
    by (rule next_stage[OF g(2-4) _ _ _ assms(3), where k = stale_stage
        and cs = "[PublishGeneration (Strong 1) (Strong 2)]"])
      (use stale_leads stale_settled in \<open>simp_all add: plain_calls\<close>)
  obtain g3 g4 where g4: "do_calls republish_calls g2 = Some g3" "recompute it g3 = Some g4"
    "\<And>i. readiness g4 i = readiness fresh_stage i"
    by (rule next_stage[OF g2(3-5) fresh_leads _ _ assms(3)])
      (use fresh_settled in \<open>simp_all add: plain_calls\<close>)
  have r4: "readiness g4 (Strong 3) = RS_READY" by (simp add: g4(3) stage_readiness)
  let ?h1 = "say ''  after model gen2: kernel=STALE exec=BLOCKED''
    (heading ''=== Scenario B: stale generation blocks CUDA launch ==='' h)"
  let ?h3 = "say ''  Scenario B: launch correctly rejected (state=BLOCKED)'' (say (gate_line (Strong 3) RS_BLOCKED) ?h1)"
  obtain job' h' where r: "cuda_run F cu g4 (gate_job F ''3.0f'') ?h3 = Some (True, job', h')"
    "idle mem room B h'" "ho_out h' = ho_out ?h3 @ ran B"
    by (rule job_runs[OF assms(1) _ r4 alphas(3), where h = ?h3]) (use assms(2) in \<open>simp_all add: heading_def\<close>)
  have "scenario_b it F cu h = Some (say ''  Scenario B: PASS (fresh dependent generations republished)'' h')"
    using r(1)
    by (simp add: scenario_b_def g(1) g2(1,2) g4(1,2) r4 state_name_def g2(6) stage_readiness run_blocked verdict_def)
  then show thesis by (rule that) (use r(2,3) in \<open>simp_all add: heading_def\<close>)
qed

lemma scenario_c_passes:
  assumes "good_device F cu mem room" and "idle mem room B h" and "iteration_ok it"
  obtains h' where "scenario_c it F cu h = Some h'" "idle mem room B h'"
    "ho_out h' = ho_out h @ [[], ''=== Scenario C: segmented CUDA workflow with invalidation ===''] @ ran B @
       [''  segment 1: RUN'', ''  after invalidation: exec=BLOCKED (must be BLOCKED)'',
        gate_line (Strong 3) RS_BLOCKED, ''  segment 2 (during invalidation): CORRECTLY BLOCKED''] @ ran B @
       [''  Scenario C: PASS (segmented workflow gated and resumed)'']"
proof -
  obtain g where g: "build_chain it 1 1 True registered = Some g" "reachable clean it g" "gr_sets g = []"
    "alike (chain_stage True) g" "readiness g (Strong 3) = RS_READY"
    using chain_built[OF assms(3)] stage_readiness(1) by metis
  obtain g1 g2 where g2: "do_calls [InvalidateNode (Strong 1) IR_INTEGRITY_FAILED (default_policy\<lparr>ip_mode := IM_RECURSIVE\<rparr>)] g = Some g1"
    "recompute it g1 = Some g2" "reachable clean it g2" "gr_sets g2 = []" "alike broken_stage g2"
    "\<And>i. readiness g2 i = readiness broken_stage i"
    by (rule next_stage[OF g(2-4) _ _ _ assms(3), where k = broken_stage and cs = "[InvalidateNode (Strong 1)
        IR_INTEGRITY_FAILED (default_policy\<lparr>ip_mode := IM_RECURSIVE\<rparr>)]"])
      (use broken_leads broken_settled in \<open>simp_all add: plain_calls\<close>)
  obtain g3 g4 where g4: "do_calls [MarkRecovered (Strong 1)] g2 = Some g3" "recompute it g3 = Some g4"
    "\<And>i. readiness g4 i = readiness recovered_stage i"
    by (rule next_stage[OF g2(3-5) _ _ _ assms(3), where k = recovered_stage and cs = "[MarkRecovered (Strong 1)]"])
      (use recovered_leads recovered_settled in \<open>simp_all add: plain_calls\<close>)
  have r4: "readiness g4 (Strong 3) = RS_READY" by (simp add: g4(3) stage_readiness)
  let ?h0 = "heading ''=== Scenario C: segmented CUDA workflow with invalidation ==='' h"
  obtain job1 h1 where r1: "cuda_run F cu g (gate_job F ''2.0f'') ?h0 = Some (True, job1, h1)"
    "idle mem room B h1" "ho_out h1 = ho_out ?h0 @ ran B"
    by (rule job_runs[OF assms(1) _ g(5) alphas(2), where h = ?h0]) (use assms(2) in \<open>simp_all add: heading_def\<close>)
  let ?h5 = "say ''  segment 2 (during invalidation): CORRECTLY BLOCKED'' (say (gate_line (Strong 3) RS_BLOCKED)
    (say ''  after invalidation: exec=BLOCKED (must be BLOCKED)'' (say ''  segment 1: RUN'' h1)))"
  obtain job3 h3 where r3: "cuda_run F cu g4 (gate_job F ''4.0f'') ?h5 = Some (True, job3, h3)"
    "idle mem room B h3" "ho_out h3 = ho_out ?h5 @ ran B"
    by (rule job_runs[OF assms(1) _ r4 alphas(4), where h = ?h5]) (use r1(2) in simp_all)
  have "scenario_c it F cu h = Some (say ''  Scenario C: PASS (segmented workflow gated and resumed)'' h3)"
    using r1(1) r3(1)
    by (simp add: scenario_c_def g(1) g2(1,2) g4(1,2) state_name_def g2(6) stage_readiness run_blocked verdict_def)
  then show thesis by (rule that) (use r1(2,3) r3(2,3) in \<open>simp_all add: heading_def\<close>)
qed

lemma sm_of_inj: "sm_of v \<noteq> sm_of (Suc v)" "sm_of v \<noteq> []"
  by (simp_all add: sm_of_def)

end
