(* ===== verification/Execution.thy ===== *)
theory Execution
  imports Transparency
begin

text \<open>
  Runs on a graph that is written out, evaluated exactly: the closure recomputation that ends a mutation
  is carried out node by node with the declarative verdict, and a full recomputation of a settled graph
  is the identity.
\<close>

lemma recompute_node_settled:
  assumes "settled g i" and "readiness g i \<noteq> RS_INVALIDATED" and "\<not> escape_state (readiness g i)"
  shows "snd (recompute_node_locked g i) = g"
proof (cases "find_node g i")
  case (Some n)
  then have "recomputed_node g i n = n"
    using assms by (simp add: settled_def readiness_def recomputed_node_def)
  with Some show ?thesis by (simp add: recompute_node_locked_eq um_put_same)
qed (simp add: recompute_node_locked_eq)

lemma recompute_all_settled:
  assumes "clean_inv g" and "iteration_ok it" and "\<And>i. settled g i"
    and "\<And>i. readiness g i \<noteq> RS_INVALIDATED \<and> \<not> escape_state (readiness g i)"
  shows "recompute_all_readiness it g = Some (OC_ACCEPTED, g)"
proof -
  obtain g' where g': "recompute_all_locked it g = Some g'" by (rule clean_recomputes[OF assms(1,2)])
  have "recompute_nodes is g = g" for "is"
    by (induction "is") (simp_all add: recompute_nodes_def recompute_node_settled assms(3,4))
  then have "g' = g" using recompute_all_form[OF g'] by auto
  with g' show ?thesis by (simp add: recompute_all_readiness_def)
qed

lemma closure_eval:
  "recompute_closure_locked roots \<lparr>gr_nodes = n, gr_edges = e, gr_sets = s, gr_sources = src, gr_out_edges = oe,
      gr_in_edges = ie, gr_node_sets = ns, gr_epoch = ep, gr_adapter = ad\<rparr> =
   (let g = \<lparr>gr_nodes = n, gr_edges = e, gr_sets = s, gr_sources = src, gr_out_edges = oe,
      gr_in_edges = ie, gr_node_sets = ns, gr_epoch = ep, gr_adapter = ad\<rparr>
    in recompute_nodes (topology_order_locked g roots) g)"
  by (simp add: recompute_closure_alt Let_def)

lemma nodes_eval:
  "recompute_nodes [] g = g" "recompute_nodes (i # is) g = recompute_nodes is (snd (recompute_node_locked g i))"
  by (simp_all add: recompute_nodes_def)

lemmas exec_simps = run_simps closure_eval nodes_eval topology_order_locked_def start_queue_def closure_search_def
  recompute_node_locked_eq recomputed_node_def touch_def settled_simps

text \<open>
  Graphs written out: nodes published by one source, and edges of which no two leave or enter the same
  node, without sets.
\<close>

definition line_graph :: "source_registration list \<Rightarrow> coordinator_epoch \<Rightarrow> node list \<Rightarrow> edge list \<Rightarrow> graph" where
  "line_graph srcs epoch ns es =
     \<lparr>gr_nodes = map (\<lambda>n. (nd_id n, n)) ns, gr_edges = map (\<lambda>e. (ed_id e, e)) es, gr_sets = [],
      gr_sources = map (\<lambda>r. (sr_source r, r)) srcs,
      gr_out_edges = map (\<lambda>e. (ed_producer_id e, [ed_id e])) es,
      gr_in_edges = map (\<lambda>e. (ed_consumer_id e, [ed_id e])) es,
      gr_node_sets = [], gr_epoch = epoch, gr_adapter = None\<rparr>"

definition registered_at :: "source_id \<Rightarrow> source_boot_id \<Rightarrow> coordinator_epoch \<Rightarrow> source_registration" where
  "registered_at s b e = \<lparr>sr_source = s, sr_boot = b, sr_epoch = e, sr_active = True\<rparr>"

definition published :: "node_generation list \<Rightarrow> readiness_generation \<Rightarrow> readiness_state \<Rightarrow> node \<Rightarrow> node" where
  "published gens changes st n =
     n\<lparr>nd_generation_history := gens, nd_current_generation := (if gens = [] then null_strong else last gens),
       nd_superseded_generations := butlast gens,
       nd_recovered_evidence := (if gens = [] then DE_UNKNOWN else DE_FRESH),
       nd_readiness_generation := changes, nd_state := st\<rparr>"

definition declared :: "node_id \<Rightarrow> node_kind \<Rightarrow> string \<Rightarrow> bool \<Rightarrow> source_id \<Rightarrow> source_boot_id \<Rightarrow> node" where
  "declared i k name dur s b =
     (make_node i k name)\<lparr>nd_static_durable_fact := dur, nd_dynamic_evidence := \<not> dur,
        nd_origin_source := s, nd_origin_boot := b\<rparr>"

lemmas line_simps = line_graph_def registered_at_def published_def declared_def make_node_def null_strong_def
  default_predicate_def

end
