(* ===== verification/Chains.thy ===== *)
theory Chains
  imports Restarts Execution
begin

text \<open>
  Three nodes in a chain: their structure, their storage and reload, and the publication of readiness
  along them. The accelerator program and the multi-process demonstration both end on such a chain.
\<close>

section \<open>Structure\<close>

abbreviation chain_of :: "source_registration list \<Rightarrow> coordinator_epoch \<Rightarrow> edge \<Rightarrow> edge \<Rightarrow> node \<Rightarrow> node \<Rightarrow> node \<Rightarrow> graph" where
  "chain_of srcs epoch e1 e2 n1 n2 n3 \<equiv> line_graph srcs epoch [n1, n2, n3] [e1, e2]"

definition numbered :: "node \<Rightarrow> node \<Rightarrow> node \<Rightarrow> bool" where
  "numbered n1 n2 n3 \<longleftrightarrow> nd_id n1 = Strong 1 \<and> nd_id n2 = Strong 2 \<and> nd_id n3 = Strong 3"

definition linked :: "edge \<Rightarrow> edge \<Rightarrow> bool" where
  "linked e1 e2 \<longleftrightarrow> valid (ed_id e1) \<and> valid (ed_id e2) \<and> ed_id e1 \<noteq> ed_id e2 \<and> ed_active e1 \<and> ed_active e2 \<and>
     ed_producer_id e1 = Strong 1 \<and> ed_consumer_id e1 = Strong 2 \<and>
     ed_producer_id e2 = Strong 2 \<and> ed_consumer_id e2 = Strong 3"

lemma splits_of_short:
  "js @ v # ks = [a] \<longleftrightarrow> js = [] \<and> v = a \<and> ks = []"
  "js @ v # ks = [a, b] \<longleftrightarrow> js = [] \<and> v = a \<and> ks = [b] \<or> js = [a] \<and> v = b \<and> ks = []"
  "js @ v # ks = [a, b, c] \<longleftrightarrow> js = [] \<and> v = a \<and> ks = [b, c] \<or> js = [a] \<and> v = b \<and> ks = [c] \<or>
     js = [a, b] \<and> v = c \<and> ks = []"
  by (auto simp: append_eq_Cons_conv)

lemma demoted_numbered: "numbered n1 n2 n3 \<Longrightarrow> numbered (demote_node n1) (demote_node n2) (demote_node n3)"
  by (simp add: numbered_def demote_node_def)

text \<open>A node whose readiness is published again after a reload.\<close>

definition renewed :: "node \<Rightarrow> node" where
  "renewed n = n\<lparr>nd_recovered_evidence := DE_FRESH, nd_state := RS_READY, nd_was_ready_before_restart := True\<rparr>"

locale chained =
  fixes srcs :: "source_registration list" and epoch :: coordinator_epoch and e1 e2 :: edge
  assumes link: "linked e1 e2"
    and known: "distinct (map sr_source srcs)"
begin

lemma lookups [simp]:
  assumes "numbered n1 n2 n3"
  shows
  "find_node (chain_of srcs epoch e1 e2 n1 n2 n3) i =
     (if i = Strong 1 then Some n1 else if i = Strong 2 then Some n2 else if i = Strong 3 then Some n3 else None)"
  "find_edge (chain_of srcs epoch e1 e2 n1 n2 n3) j =
     (if j = ed_id e1 then Some e1 else if j = ed_id e2 then Some e2 else None)"
  "find_set (chain_of srcs epoch e1 e2 n1 n2 n3) k = None"
  "out_at (chain_of srcs epoch e1 e2 n1 n2 n3) i =
     (if i = Strong 1 then [ed_id e1] else if i = Strong 2 then [ed_id e2] else [])"
  "in_at (chain_of srcs epoch e1 e2 n1 n2 n3) i =
     (if i = Strong 2 then [ed_id e1] else if i = Strong 3 then [ed_id e2] else [])"
  "ix_at i (gr_node_sets (chain_of srcs epoch e1 e2 n1 n2 n3)) = []"
  using assms link by (simp_all add: line_graph_def ix_at_def numbered_def linked_def)

lemma exact: "numbered n1 n2 n3 \<Longrightarrow> index_exact (chain_of srcs epoch e1 e2 n1 n2 n3)"
  unfolding index_exact_alt distinct_index_def exact_at_def using link by (simp add: linked_def) fastforce

lemma depends:
  assumes "numbered n1 n2 n3"
  shows "dep_rel (chain_of srcs epoch e1 e2 n1 n2 n3) = {(Strong 1, Strong 2), (Strong 2, Strong 3)}"
proof -
  have found: "(\<exists>j. find_edge (chain_of srcs epoch e1 e2 n1 n2 n3) j = Some e) \<longleftrightarrow> e = e1 \<or> e = e2" for e
    using assms link by (auto simp: linked_def)
  have "dep_rel (chain_of srcs epoch e1 e2 n1 n2 n3) =
      {(ed_producer_id e, ed_consumer_id e) |e.
        (\<exists>j. find_edge (chain_of srcs epoch e1 e2 n1 n2 n3) j = Some e) \<and> ed_active e}"
    unfolding dep_rel_def by blast
  also have "\<dots> = (\<lambda>e. (ed_producer_id e, ed_consumer_id e)) ` {e1, e2}"
    unfolding found using link unfolding linked_def by blast
  finally show ?thesis using link by (simp add: linked_def)
qed

lemma acyclic:
  assumes "numbered n1 n2 n3"
  shows "acyclic_graph (chain_of srcs epoch e1 e2 n1 n2 n3)"
proof -
  have "dep_rel (chain_of srcs epoch e1 e2 n1 n2 n3) \<subseteq> measure (\<lambda>i. unat (strong_value i))"
    by (auto simp: depends[OF assms])
  then show ?thesis unfolding acyclic_graph_def by (meson acyclic_subset wf_acyclic wf_measure)
qed

lemma core:
  assumes "numbered n1 n2 n3"
  shows "core_inv (chain_of srcs epoch e1 e2 n1 n2 n3)"
proof -
  have "graph_wf (chain_of srcs epoch e1 e2 n1 n2 n3)"
    using assms link known
    by (simp add: graph_wf_def numbered_def linked_def line_graph_def um_size_def kMaxGraphEdges_def um_wf_def comp_def)
  moreover have "keys_ok (chain_of srcs epoch e1 e2 n1 n2 n3)"
    using assms link by (simp add: keys_ok_def numbered_def linked_def line_graph_def um_size_def kMaxGraphNodes_def)
  moreover have "set_index_ok (chain_of srcs epoch e1 e2 n1 n2 n3)" using assms by (auto simp: set_index_ok_def)
  ultimately show ?thesis using index_exact_sound[OF exact[OF assms]] by (simp add: core_inv_def)
qed

lemma clean: "numbered n1 n2 n3 \<Longrightarrow> clean_inv (chain_of srcs epoch e1 e2 n1 n2 n3)"
  by (simp add: clean_inv_def core exact acyclic sets_local_def)

text \<open>The closure of a node comes producers first.\<close>

lemma succs_chain: "numbered n1 n2 n3 \<Longrightarrow> succs (chain_of srcs epoch e1 e2 n1 n2 n3) v =
    (if v = Strong 1 then [Strong 2] else if v = Strong 2 then [Strong 3] else [])"
  using link by (auto simp: succs_def out_active_def active_edges_def List.map_filter_simps linked_def)

lemma orders:
  assumes "numbered n1 n2 n3"
  shows
  "topology_order_locked (chain_of srcs epoch e1 e2 n1 n2 n3) [Strong 1] = [Strong 1, Strong 2, Strong 3]"
  "topology_order_locked (chain_of srcs epoch e1 e2 n1 n2 n3) [Strong 2] = [Strong 2, Strong 3]"
  "topology_order_locked (chain_of srcs epoch e1 e2 n1 n2 n3) [Strong 3] = [Strong 3]"
  by (simp_all add: topology_order_locked_def start_queue_def search_result_def search_eval closure_search_def
      succs_chain[OF assms])

lemma order:
  assumes "numbered n1 n2 n3" and "i \<in> {Strong 1, Strong 2, Strong 3}"
    and "topology_order_locked (chain_of srcs epoch e1 e2 n1 n2 n3) [i] = js @ v # ks"
  shows "dep_rel (chain_of srcs epoch e1 e2 n1 n2 n3) `` set (v # ks) \<inter> {v} = {}"
proof -
  have "js @ v # ks = [Strong 1, Strong 2, Strong 3] \<or> js @ v # ks = [Strong 2, Strong 3] \<or>
      js @ v # ks = [Strong 3]"
    using assms orders[OF assms(1)] by auto
  then have "v = Strong 1 \<and> ks = [Strong 2, Strong 3] \<or> v = Strong 2 \<and> ks = [Strong 3] \<or> v = Strong 3 \<and> ks = []"
    unfolding splits_of_short by blast
  then show ?thesis
    unfolding depends[OF assms(1)] by (elim disjE conjE) auto
qed

section \<open>Stored and loaded\<close>

lemma storable_chain:
  assumes n: "numbered n1 n2 n3" and "\<forall>n \<in> {n1, n2, n3}. storable_node 3 n"
    and "storable_edge e1" "storable_edge e2" and "\<forall>r \<in> set srcs. valid (sr_source r)" and "length srcs \<le> 2 ^ 24"
  shows "storable (chain_of srcs epoch e1 e2 n1 n2 n3)"
  unfolding storable_def
proof (intro conjI allI impI)
  show "core_inv (chain_of srcs epoch e1 e2 n1 n2 n3)" "acyclic_graph (chain_of srcs epoch e1 e2 n1 n2 n3)"
    by (rule core[OF n] acyclic[OF n])+
  show "um_size (gr_sources (chain_of srcs epoch e1 e2 n1 n2 n3)) \<le> 2 ^ 24"
    "um_size (gr_edges (chain_of srcs epoch e1 e2 n1 n2 n3)) \<le> 2 ^ 24"
    "um_size (gr_sets (chain_of srcs epoch e1 e2 n1 n2 n3)) \<le> 2 ^ 24"
    using assms(6) by (simp_all add: line_graph_def um_size_def)
  fix i nd assume "find_node (chain_of srcs epoch e1 e2 n1 n2 n3) i = Some nd"
  then have "nd \<in> {n1, n2, n3}" using n by (auto split: if_splits)
  moreover have "um_size (gr_nodes (chain_of srcs epoch e1 e2 n1 n2 n3)) = 3"
    by (simp add: line_graph_def um_size_def)
  ultimately show "storable_node (um_size (gr_nodes (chain_of srcs epoch e1 e2 n1 n2 n3))) nd"
    using assms(2) by auto
next
  fix s r assume "um_find s (gr_sources (chain_of srcs epoch e1 e2 n1 n2 n3)) = Some r"
  then have "(s, r) \<in> set (map (\<lambda>r. (sr_source r, r)) srcs)"
    using map_of_SomeD by (fastforce simp: line_graph_def um_find_def)
  then show "valid s" "sr_source r = s" using assms(5) by auto
qed (use n assms in \<open>auto split: if_splits\<close>)

lemma reloads:
  assumes it: "iteration_ok it" and n: "numbered n1 n2 n3"
    and dyn: "\<forall>n \<in> {n1, n2, n3}. nd_dynamic_evidence n"
    and g: "alike (chain_of srcs epoch e1 e2 n1 n2 n3) g" "storable g"
  obtains bs h where "save it g = Some bs" "load it bs (Some empty_graph) = Some (OC_ACCEPTED, [], Some h)"
    "alike (chain_of srcs epoch e1 e2 (demote_node n1) (demote_node n2) (demote_node n3)) h"
    "clean_inv h" "\<forall>j. settled h j" "readiness h (Strong 3) = RS_REVALIDATION_REQUIRED"
proof -
  let ?d = "chain_of srcs epoch e1 e2 (demote_node n1) (demote_node n2) (demote_node n3)"
  obtain bs where bs: "save it g = Some bs" by (simp add: save_def Let_def)
  obtain h where h: "load it bs (Some empty_graph) = Some (OC_ACCEPTED, [], Some h)" "reloaded g h" "gr_adapter h = None"
    using load_saved[OF g(2) it it bs, of empty_graph] by (auto simp: empty_graph_def)
  note str = loaded_structure[OF it h(1)] and node = loaded_node(2)[OF it h(1)]
  note D = demoted_numbered[OF n]
  have al: "alike ?d h"
    by (rule reloaded_alike[OF h(2) g(1) str(1,2) core[OF D] exact[OF D]])
      (use n D dyn node h(3) link in \<open>auto simp: line_graph_def ix_at_def linked_def split: if_splits\<close>)
  have "find_set h j = None" for j using alike_lookups(2)[OF al] D by simp
  then have loc: "sets_local h" by (simp add: sets_local_def)
  then have "clean_inv h" using str by (simp add: clean_inv_def)
  moreover have "\<forall>j. settled h j" using loaded_settled[OF it h(1) loc] by simp
  moreover have "readiness h (Strong 3) = RS_REVALIDATION_REQUIRED"
  proof -
    have "find_node ?d (Strong 3) = Some (demote_node n3)" using D by simp
    then obtain m where m: "find_node h (Strong 3) = Some m" "essence m = essence (demote_node n3)"
      by (rule alike_some[OF al])
    have "nd_dynamic_evidence (demote_node n3)" using dyn by (simp add: demote_node_def)
    then have "nd_dynamic_evidence m" using facts_agree(6)[of m "demote_node n3"] m(2)
      by (simp add: essence_iff)
    then show ?thesis using node[OF m(1)] m(1) by (simp add: readiness_def)
  qed
  ultimately show thesis using that bs h(1) al by blast
qed

end

section \<open>Readiness published along a chain\<close>

lemma same_succs:
  assumes "succs g = succs h" and "index_sound g" and "index_sound h"
  shows "topology_order_locked g = topology_order_locked h" "dep_rel g = dep_rel h"
proof -
  show "topology_order_locked g = topology_order_locked h"
    by (simp add: topology_order_locked_def[abs_def] closure_search_def assms(1))
  have "succ_rel g = succ_rel h" using assms(1) by (simp add: succ_rel_def)
  then show "dep_rel g = dep_rel h" by (simp add: succ_rel_dep_rel assms(2,3))
qed

abbreviation republish :: "credentials \<Rightarrow> node_id list \<Rightarrow> request list" where
  "republish c is \<equiv> map (\<lambda>i. (c, PublishReadiness i RS_READY)) is"

context chained
begin

lemma publish_settles:
  assumes "clean_inv g" and "\<forall>j. settled g j"
    and n: "numbered n1 n2 n3" and "succs g = succs (chain_of srcs epoch e1 e2 n1 n2 n3)"
    and "i \<in> {Strong 1, Strong 2, Strong 3}" and "find_node g i = Some n"
    and "authority_ok g (cr_source c) (cr_boot c) (cr_epoch c) = None"
  obtains g' where "submit (c, PublishReadiness i RS_READY) g = Some (OC_ACCEPTED, g')"
    "clean_inv g'" "\<forall>j. settled g' j" "same_structure g g'" "gr_sources g' = gr_sources g" "gr_epoch g' = gr_epoch g"
proof -
  let ?n = "n\<lparr>nd_ever_invalidated := False, nd_recovered_evidence := DE_FRESH, nd_dynamic_evidence := True\<rparr>"
  let ?g = "recompute_closure_locked [i] (put_node i ?n g)"
  have pub: "submit (c, PublishReadiness i RS_READY) g = Some (OC_ACCEPTED, ?g)"
    by (simp add: submit_def publish_readiness_def assms(6,7) Let_def)
  have idx: "index_sound g" "members_local g"
    using assms(1) by (simp_all add: clean_inv_def core_inv_def sets_local_members)
  note same = same_succs[OF assms(4) idx(1) index_exact_sound[OF exact[OF n]]]
  have "settled ?g j" for j
  proof (rule write_settled[OF idx assms(2)])
    show "find_node g i \<noteq> None" "valid i" using assms(5,6) by auto
    fix js v ks assume "topology_order_locked g [i] = js @ v # ks"
    then show "dep_rel g `` set (v # ks) \<inter> {v} = {}" unfolding same by (rule order[OF n assms(5)])
  qed
  moreover have "clean_inv ?g"
    by (rule clean_inv_step[OF fs_request[OF _ pub] assms(1)]) (simp add: clean_def)
  moreover have "same_structure g (put_node i ?n g)" by (rule same_structure_put) (simp add: assms(6))
  ultimately show thesis by (intro that[OF pub]) (simp_all add: same_structure_def)
qed

lemma publishes_settle:
  assumes "clean_inv g" and "\<forall>j. settled g j"
    and n: "numbered n1 n2 n3" and "succs g = succs (chain_of srcs epoch e1 e2 n1 n2 n3)"
    and "set is \<subseteq> {Strong 1, Strong 2, Strong 3}" and "\<And>i. i \<in> set is \<Longrightarrow> find_node g i \<noteq> None"
    and "authority_ok g (cr_source c) (cr_boot c) (cr_epoch c) = None"
  shows "\<exists>g'. run_acts submit (republish c is) g = Some g' \<and> clean_inv g' \<and> (\<forall>j. settled g' j)"
  using assms(1,2,4-)
proof (induction "is" arbitrary: g)
  case (Cons i "is")
  obtain m where m: "find_node g i = Some m" using Cons.prems(5)[of i] by auto
  obtain g1 where g1: "submit (c, PublishReadiness i RS_READY) g = Some (OC_ACCEPTED, g1)"
    "clean_inv g1" "\<forall>j. settled g1 j" "same_structure g g1" "gr_sources g1 = gr_sources g" "gr_epoch g1 = gr_epoch g"
    by (rule publish_settles[OF Cons.prems(1,2) n Cons.prems(3) _ m Cons.prems(6)]) (use Cons.prems(4) in auto)
  have "succs g1 = succs g" by (simp add: succs_def[abs_def] same_structure_facts[OF g1(4)])
  moreover have "find_node g1 j \<noteq> None" if "j \<in> set is" for j
    using Cons.prems(5)[of j] that g1(4) um.keys_find unfolding same_structure_def by (metis list.set_intros(2))
  moreover have "authority_ok g1 (cr_source c) (cr_boot c) (cr_epoch c) = None"
    using Cons.prems(6) by (simp only: authority_ok_def g1(5,6))
  ultimately show ?case using Cons.IH[OF g1(2,3)] Cons.prems(3,4) g1(1) by simp
qed simp

end

section \<open>A further source\<close>

definition joined :: "credentials \<Rightarrow> graph \<Rightarrow> graph" where
  "joined c g = snd (register_source (cr_source c) (cr_boot c) (cr_epoch c) g)"

lemma joined_lookups: "find_node (joined c g) i = find_node g i" "succs (joined c g) = succs g"
  by (simp_all add: succs_def[abs_def] out_active_def active_edges_def joined_def register_source_def
      split: option.split)

lemma joined_alike: "alike g h \<Longrightarrow> alike (joined c g) (joined c h)"
  by (simp add: alike_def same_lookups_def joined_def register_source_def split: option.split) fastforce

lemma joined_settled: "settled (joined c g) i = settled g i"
proof -
  have "recomputed_state (joined c g) i n = recomputed_state g i n" for n
    by (rule recomputed_state_cong)
      (simp_all add: same_lookups_def same_view_def joined_def register_source_def split: option.split)
  then show ?thesis by (simp add: settled_def joined_lookups split: option.split)
qed

lemma joined_clean: "clean_inv g \<Longrightarrow> clean_inv (joined c g)"
  unfolding joined_def by (rule clean_inv_step[OF fs_register[OF prod.collapse[symmetric]]])

context chained
begin

text \<open>After a reload a new source vouches for the three nodes, and the chain reads as written down.\<close>

lemma revalidates:
  assumes n: "numbered n1 n2 n3" and h: "alike (chain_of srcs epoch e1 e2 n1 n2 n3) h"
    "clean_inv h" "\<forall>j. settled h j"
    and auth: "authority_ok (joined c h) (cr_source c) (cr_boot c) (cr_epoch c) = None"
    and leads: "leads (joined c (chain_of srcs epoch e1 e2 n1 n2 n3)) (republish c [Strong 1, Strong 2, Strong 3]) k"
    and k: "clean_inv k" "\<forall>j. settled k j"
  obtains h' where "run_acts submit (republish c [Strong 1, Strong 2, Strong 3]) (joined c h) = Some h'"
    "clean_inv h'" "\<forall>j. settled h' j" "alike k h'" "\<And>i. same_view k h' i"
proof -
  note al = joined_alike[OF h(1), of c]
  have su: "succs (joined c h) = succs (chain_of srcs epoch e1 e2 n1 n2 n3)"
    unfolding alike_active(3)[OF al] by (simp add: joined_lookups)
  have nodes: "find_node (joined c h) i \<noteq> None" if "i \<in> {Strong 1, Strong 2, Strong 3}" for i
    using that by (auto simp: alike_none[OF h(1)] joined_lookups lookups[OF n])
  obtain h' where h': "run_acts submit (republish c [Strong 1, Strong 2, Strong 3]) (joined c h) = Some h'"
    "clean_inv h'" "\<forall>j. settled h' j"
    using publishes_settle[OF joined_clean[OF h(2)] _ n su _ _ auth, of "[Strong 1, Strong 2, Strong 3]"] h(3) nodes
    by (auto simp: joined_settled)
  have "leads (joined c h) (republish c [Strong 1, Strong 2, Strong 3]) k"
    using leads_alike[OF al] leads by simp
  then have al': "alike k h'" using h'(1) by (simp add: leads_def)
  have "same_view k h' i" for i
    unfolding same_view_def
    by (rule settled_unique[OF al' _ _ _ k(2) h'(3)])
      (use k(1) in \<open>simp_all add: clean_inv_def core_inv_def sets_local_members\<close>)
  with h' al' that show thesis by blast
qed

end

end
