(* ===== verification/CudaProgram.thy ===== *)
theory CudaProgram
  imports Scenarios Chains
begin

text \<open>
  The last two scenarios - a capability the device does not have, and a restart - and the transcript of
  the whole program on a faithful device.
\<close>

section \<open>Capabilities\<close>

lemma scenario_d_passes:
  assumes "good_device F cu mem room" and "idle mem room B h" and "iteration_ok it"
    and ver: "dp_major prop * 10 + dp_minor prop = v"
  obtains h' where "scenario_d it F cu prop h = Some h'" "idle mem room B h'"
    "ho_out h' = ho_out h @ [[], ''=== Scenario D: resource/capability dependency (real sm_120) ==='',
       ''  resource capability '' @ CHR 0x27 # c_str (sm_of v) @ CHR 0x27 # '' claimed on real device; kernel=READY exec=READY''] @
       ran B @ [''  Scenario D (compatible real capability): PASS'',
       ''  SYNTHETIC incompatible capability '' @ CHR 0x27 # c_str (sm_of (Suc v)) @ CHR 0x27 # '' -> kernel=BLOCKED (must NOT be READY)'',
       ''  Scenario D (incompatible capability blocked): PASS'']"
proof -
  let ?sm = "sm_of v" and ?bad = "sm_of (Suc v)"
  obtain g g1 where g1: "do_calls (resource_calls ?sm) registered = Some g" "recompute it g = Some g1"
    "reachable clean it g1" "gr_sets g1 = []" "alike (resource_stage ?sm) g1"
    "\<And>i. readiness g1 i = readiness (resource_stage ?sm) i"
    by (rule next_stage[OF registered_start alike_refl _ _ _ assms(3), where cs = "resource_calls ?sm" and k = "resource_stage ?sm"])
      (use resource_leads resource_settled in \<open>simp_all add: plain_calls\<close>)
  obtain g2 g3 where g3: "do_calls [RemoveEdge (Strong 1), AddEdge (capability_edge (Strong 3) ?bad)] g1 = Some g2"
    "recompute it g2 = Some g3" "\<And>i. readiness g3 i = readiness (mismatch_stage ?sm ?bad) i"
    by (rule next_stage[OF g1(3-5) _ _ _ assms(3), where k = "mismatch_stage ?sm ?bad"
        and cs = "[RemoveEdge (Strong 1), AddEdge (capability_edge (Strong 3) ?bad)]"])
      (use mismatch_leads mismatch_settled sm_of_inj in \<open>simp_all add: plain_calls\<close>)
  have r1: "readiness g1 (Strong 3) = RS_READY" by (simp add: g1(6) stage_readiness)
  let ?h1 = "say (''  resource capability '' @ CHR 0x27 # c_str ?sm @ CHR 0x27 # '' claimed on real device; kernel=READY exec=READY'')
    (heading ''=== Scenario D: resource/capability dependency (real sm_120) ==='' h)"
  obtain job' h2 where r: "cuda_run F cu g1 (gate_job F ''1.5f'') ?h1 = Some (True, job', h2)"
    "idle mem room B h2" "ho_out h2 = ho_out ?h1 @ ran B"
    by (rule job_runs[OF assms(1) _ r1 alphas(1), where h = ?h1]) (use assms(2) in \<open>simp_all add: heading_def\<close>)
  have "scenario_d it F cu prop h = Some (say ''  Scenario D (incompatible capability blocked): PASS''
      (say (''  SYNTHETIC incompatible capability '' @ CHR 0x27 # c_str ?bad @ CHR 0x27 # '' -> kernel=BLOCKED (must NOT be READY)'')
        (say ''  Scenario D (compatible real capability): PASS'' h2)))"
    using r(1)
    by (simp add: scenario_d_def ver g1(1,2) g3(1,2) state_name_def g1(6) g3(3) stage_readiness verdict_def Let_def)
  then show thesis by (rule that) (use r(2,3) in \<open>simp_all add: heading_def\<close>)
qed

section \<open>Restarts\<close>

text \<open>The chain on dynamic evidence, as loaded from a snapshot, and with its readiness published again.\<close>

abbreviation gpu_chain :: "node \<Rightarrow> node \<Rightarrow> node \<Rightarrow> graph" where
  "gpu_chain \<equiv> chain_of [registered_at (Strong 1) (Strong 1) (Strong 1)] (Strong 1)
     (pinned_edge (Strong 1) (Strong 1) (Strong 2) (Strong 1)) (pinned_edge (Strong 2) (Strong 2) (Strong 3) (Strong 1))"

interpretation gpu: chained "[registered_at (Strong 1) (Strong 1) (Strong 1)]" "Strong 1"
    "pinned_edge (Strong 1) (Strong 1) (Strong 2) (Strong 1)" "pinned_edge (Strong 2) (Strong 2) (Strong 3) (Strong 1)"
  by unfold_locales (simp_all add: linked_def pinned_edge_def)

definition dyn1 :: node where
  "dyn1 = with_gens [Strong 1] (gpu_node (Strong 1) NK_MODEL ''model'' False RS_READY)"

definition dyn2 :: node where
  "dyn2 = with_gens [Strong 1] (gpu_node (Strong 2) NK_KERNEL ''kernel'' False RS_READY)"

definition dyn3 :: node where
  "dyn3 = gpu_node (Strong 3) NK_WORKLOAD_PHASE ''exec'' False RS_READY"

lemmas dyn_defs = dyn1_def dyn2_def dyn3_def

lemma chain_stage_dyn: "chain_stage False = gpu_chain dyn1 dyn2 dyn3"
  by (simp add: chain_stage_def dyn_defs gpu_graph_def line_graph_def registered_at_def pinned_edge_def)

lemma dyn_numbered: "numbered dyn1 dyn2 dyn3"
  by (simp add: dyn_defs numbered_def gpu_node_def with_gens_def make_node_def)

lemma dyn_dynamic: "\<forall>n \<in> {dyn1, dyn2, dyn3}. nd_dynamic_evidence n"
  by (simp add: dyn_defs gpu_node_def with_gens_def make_node_def)

lemma chain_stage_storable: "storable (chain_stage False)"
  unfolding chain_stage_dyn
  by (rule gpu.storable_chain[OF dyn_numbered])
    (simp_all add: storable_node_def admitted_node_def lineage_ok_def short_string_def dyn_defs gpu_node_def
      with_gens_def make_node_def node_kind_enumerator_def readiness_state_enumerator_def registered_at_def
      invalidation_reason_enumerator_def kMaxStringBytes_def null_strong_def storable_edge_def admitted_edge_def
      edge_kind_enumerator_def default_predicate_def generation_predicate_kind_enumerator_def pinned_edge_def)

definition renewed_stage :: graph where
  "renewed_stage = chain_of [registered_at (Strong 1) (Strong 1) (Strong 1), registered_at (Strong 2) (Strong 1) (Strong 1)]
     (Strong 1) (pinned_edge (Strong 1) (Strong 1) (Strong 2) (Strong 1))
     (pinned_edge (Strong 2) (Strong 2) (Strong 3) (Strong 1)) (renewed dyn1) (renewed dyn2) (renewed dyn3)"

interpretation gpu_renewed: chained
    "[registered_at (Strong 1) (Strong 1) (Strong 1), registered_at (Strong 2) (Strong 1) (Strong 1)]" "Strong 1"
    "pinned_edge (Strong 1) (Strong 1) (Strong 2) (Strong 1)" "pinned_edge (Strong 2) (Strong 2) (Strong 3) (Strong 1)"
  by unfold_locales (simp_all add: linked_def pinned_edge_def registered_at_def)

lemmas restart_simps = renewed_stage_def joined_def register_source_def renewed_def fresh_cred_def
  dyn_defs demote_node_def stage_simps line_graph_def registered_at_def

lemma renewed_leads: "leads (joined fresh_cred (gpu_chain (demote_node dyn1) (demote_node dyn2) (demote_node dyn3)))
    (republish fresh_cred [Strong 1, Strong 2, Strong 3]) renewed_stage"
  by (simp add: run_simps restart_simps)
    (rule alike_trans[OF _ alike_closure], simp add: restart_simps alike_simps)

lemma renewed_settled: "settled renewed_stage i"
  by (simp add: restart_simps settled_simps)

lemma renewed_clean: "clean_inv renewed_stage"
  unfolding renewed_stage_def
  by (rule gpu_renewed.clean) (simp add: numbered_def renewed_def dyn_defs gpu_node_def with_gens_def make_node_def)

lemma renewed_readiness: "readiness renewed_stage (Strong 3) = RS_READY"
  by (simp add: readiness_def restart_simps)

lemma scenario_e_passes:
  assumes "good_device F cu mem room" and "idle mem room B h" and "iteration_ok it"
  obtains h' where "scenario_e it F cu h = Some h'" "idle mem room B h'"
    "ho_out h' = ho_out h @ [[], ''=== Scenario E: recovery requires revalidation ==='',
       ''  after coordinator restart, exec=REVALIDATION_REQUIRED (must be REVALIDATION_REQUIRED, not READY)''] @ ran B @
       [''  Scenario E: PASS (revalidated evidence restored CUDA)'']"
proof -
  obtain g where g: "build_chain it 1 1 False registered = Some g" "reachable clean it g"
    "alike (chain_stage False) g" "\<And>i. readiness g i = readiness (chain_stage False) i"
    by (rule chain_built[OF assms(3)]) blast
  have "storable g"
    using reachable_clean[OF g(2)] by (intro storable_alike[OF g(3) chain_stage_storable _ g(4)]) (simp add: clean_inv_def)
  then obtain bs g2 where bs: "save it g = Some bs"
    and g2: "load it bs (Some empty_graph) = Some (OC_ACCEPTED, [], Some g2)"
    "alike (gpu_chain (demote_node dyn1) (demote_node dyn2) (demote_node dyn3)) g2"
    "clean_inv g2" "\<forall>j. settled g2 j" "readiness g2 (Strong 3) = RS_REVALIDATION_REQUIRED"
    by (rule gpu.reloads[OF assms(3) dyn_numbered dyn_dynamic g(3)[unfolded chain_stage_dyn]])
  have auth: "authority_ok (joined fresh_cred g2) (cr_source fresh_cred) (cr_boot fresh_cred) (cr_epoch fresh_cred) = None"
    unfolding alike_authority[OF joined_alike[OF g2(2)]] by (simp add: authority_ok_def restart_simps)
  obtain g3 where g3: "run_acts submit (republish fresh_cred [Strong 1, Strong 2, Strong 3]) (joined fresh_cred g2) = Some g3"
    "same_view renewed_stage g3 (Strong 3)"
    by (rule gpu.revalidates[OF demoted_numbered[OF dyn_numbered] g2(2-4) auth renewed_leads renewed_clean])
      (use renewed_settled in blast)+
  have r3: "readiness g3 (Strong 3) = RS_READY"
    using readiness_view[OF g3(2)[unfolded same_view_def]] renewed_readiness by simp
  have rev: "revalidate g2 = Some g3" using g3(1) by (simp add: revalidate_def joined_def fresh_cred_def)
  let ?h1 = "say ''  after coordinator restart, exec=REVALIDATION_REQUIRED (must be REVALIDATION_REQUIRED, not READY)''
    (heading ''=== Scenario E: recovery requires revalidation ==='' h)"
  obtain job' h2 where r: "cuda_run F cu g3 (gate_job F ''4.0f'') ?h1 = Some (True, job', h2)"
    "idle mem room B h2" "ho_out h2 = ho_out ?h1 @ ran B"
    by (rule job_runs[OF assms(1) _ r3 alphas(4), where h = ?h1]) (use assms(2) in \<open>simp_all add: heading_def\<close>)
  have "scenario_e it F cu h = Some (say ''  Scenario E: PASS (revalidated evidence restored CUDA)'' h2)"
    using r(1) by (simp add: scenario_e_def g(1) serialize_def bs g2(1,5) rev r3 verdict_def Let_def)
  then show thesis by (rule that) (use r(2,3) in \<open>simp_all add: heading_def\<close>)
qed

section \<open>The whole program\<close>

definition transcript :: "device_prop \<Rightarrow> u64 \<Rightarrow> string list" where
  "transcript prop B =
     (let v = dp_major prop * 10 + dp_minor prop in
      device_lines prop @
      [[], ''=== Scenario A: valid dependency chain gates CUDA ===''] @ ran B @ [''  Scenario A: PASS''] @
      [[], ''=== Scenario B: stale generation blocks CUDA launch ==='',
       ''  after model gen2: kernel=STALE exec=BLOCKED'', gate_line (Strong 3) RS_BLOCKED,
       ''  Scenario B: launch correctly rejected (state=BLOCKED)''] @ ran B @
      [''  Scenario B: PASS (fresh dependent generations republished)''] @
      [[], ''=== Scenario C: segmented CUDA workflow with invalidation ===''] @ ran B @
      [''  segment 1: RUN'', ''  after invalidation: exec=BLOCKED (must be BLOCKED)'',
       gate_line (Strong 3) RS_BLOCKED, ''  segment 2 (during invalidation): CORRECTLY BLOCKED''] @ ran B @
      [''  Scenario C: PASS (segmented workflow gated and resumed)''] @
      [[], ''=== Scenario D: resource/capability dependency (real sm_120) ==='',
       ''  resource capability '' @ CHR 0x27 # c_str (sm_of v) @ CHR 0x27 # '' claimed on real device; kernel=READY exec=READY''] @
      ran B @ [''  Scenario D (compatible real capability): PASS'',
       ''  SYNTHETIC incompatible capability '' @ CHR 0x27 # c_str (sm_of (Suc v)) @ CHR 0x27 # '' -> kernel=BLOCKED (must NOT be READY)'',
       ''  Scenario D (incompatible capability blocked): PASS''] @
      [[], ''=== Scenario E: recovery requires revalidation ==='',
       ''  after coordinator restart, exec=REVALIDATION_REQUIRED (must be REVALIDATION_REQUIRED, not READY)''] @ ran B @
      [''  Scenario E: PASS (revalidated evidence restored CUDA)'', [], ''All CUDA scenarios complete.''])"

lemma fold_say: "ho_out (fold say ls h) = ho_out h @ ls" "idle mem room B (fold say ls h) = idle mem room B h"
  by (induction ls arbitrary: h) simp_all

lemma cuda_main_prints:
  assumes good: "good_device F cu mem room" and it: "iteration_ok it" and "mem d = Map.empty"
  obtains pr d' h where "cu_properties cu d = (Some pr, d')" "cuda_main it F cu d = Some h"
    "ho_out h = transcript pr (room d)"
proof -
  have dev: "faithful_device cu (N * 4) mem room" using good by (simp add: good_device_def)
  obtain pr d' where p: "cu_properties cu d = (Some pr, d')" "mem d' = Map.empty"
    using device_properties[OF dev] assms(3) by metis
  let ?h0 = "fold say (device_lines pr) \<lparr>ho_device = d', ho_out = []\<rparr>"
  have i0: "idle mem room (room d) ?h0"
    unfolding fold_say(2) using p(2) assms(3) device_same[OF dev, of d' d] by (simp add: idle_def)
  obtain h1 where h1: "scenario_a it F cu ?h0 = Some h1" "idle mem room (room d) h1"
    "ho_out h1 = ho_out ?h0 @ [[], ''=== Scenario A: valid dependency chain gates CUDA ===''] @ ran (room d) @
      [''  Scenario A: PASS'']"
    by (rule scenario_a_passes[OF good i0 it])
  obtain h2 where h2: "scenario_b it F cu h1 = Some h2" "idle mem room (room d) h2"
    "ho_out h2 = ho_out h1 @ [[], ''=== Scenario B: stale generation blocks CUDA launch ==='',
       ''  after model gen2: kernel=STALE exec=BLOCKED'', gate_line (Strong 3) RS_BLOCKED,
       ''  Scenario B: launch correctly rejected (state=BLOCKED)''] @ ran (room d) @
       [''  Scenario B: PASS (fresh dependent generations republished)'']"
    by (rule scenario_b_passes[OF good h1(2) it])
  obtain h3 where h3: "scenario_c it F cu h2 = Some h3" "idle mem room (room d) h3"
    "ho_out h3 = ho_out h2 @ [[], ''=== Scenario C: segmented CUDA workflow with invalidation ===''] @ ran (room d) @
       [''  segment 1: RUN'', ''  after invalidation: exec=BLOCKED (must be BLOCKED)'',
        gate_line (Strong 3) RS_BLOCKED, ''  segment 2 (during invalidation): CORRECTLY BLOCKED''] @ ran (room d) @
       [''  Scenario C: PASS (segmented workflow gated and resumed)'']"
    by (rule scenario_c_passes[OF good h2(2) it])
  obtain h4 where h4: "scenario_d it F cu pr h3 = Some h4" "idle mem room (room d) h4"
    and o4: "ho_out h4 = ho_out h3 @ [[], ''=== Scenario D: resource/capability dependency (real sm_120) ==='',
       ''  resource capability '' @ CHR 0x27 # c_str (sm_of (dp_major pr * 10 + dp_minor pr)) @ CHR 0x27 # '' claimed on real device; kernel=READY exec=READY''] @
       ran (room d) @ [''  Scenario D (compatible real capability): PASS'',
       ''  SYNTHETIC incompatible capability '' @ CHR 0x27 # c_str (sm_of (Suc (dp_major pr * 10 + dp_minor pr))) @ CHR 0x27 # '' -> kernel=BLOCKED (must NOT be READY)'',
       ''  Scenario D (incompatible capability blocked): PASS'']"
    by (rule scenario_d_passes[OF good h3(2) it refl])
  obtain h5 where h5: "scenario_e it F cu h4 = Some h5" "idle mem room (room d) h5"
    "ho_out h5 = ho_out h4 @ [[], ''=== Scenario E: recovery requires revalidation ==='',
       ''  after coordinator restart, exec=REVALIDATION_REQUIRED (must be REVALIDATION_REQUIRED, not READY)''] @ ran (room d) @
       [''  Scenario E: PASS (revalidated evidence restored CUDA)'']"
    by (rule scenario_e_passes[OF good h4(2) it])
  obtain d6 where d6: "cu_reset cu (ho_device h5) = (Some (), d6)" using device_reset[OF dev] by metis
  let ?h = "heading ''All CUDA scenarios complete.'' (h5\<lparr>ho_device := d6\<rparr>)"
  have "cuda_main it F cu d = Some ?h"
    by (simp add: cuda_main_def cuda_check_def p(1) h1(1) h2(1) h3(1) h4(1) h5(1) d6)
  moreover have "ho_out ?h = transcript pr (room d)"
    by (simp add: heading_def h5(3) o4 h3(3) h2(3) h1(3) fold_say transcript_def Let_def)
  ultimately show thesis by (rule that[OF p(1)])
qed

end
