(* ===== verification/Sockets.thy ===== *)
theory Sockets
  imports Cli
begin

text \<open>
  The life of a socket: \<open>NetStream::connect\<close>, \<open>listen\<close>, \<open>accept\<close>, \<open>close\<close> and \<open>find_free_port\<close> of
  \<open>src/src/protocol/framing.cpp\<close>, on both platforms. What happens on an open stream - the loops
  over \<open>send\<close> and \<open>recv\<close> - is in \<open>Wire\<close>.

  The operating system is a parameter (\<open>socket_api\<close>): a call may change its state and answer as the
  manual pages say. A \<open>NetStream\<close> owns the descriptor in \<open>fd_\<close>; the lemmas are about that ownership.
\<close>

section \<open>The operating system\<close>

datatype platform = Posix | Winsock

record 'o socket_api =
  sk_startup :: "'o \<Rightarrow> bool \<times> 'o"
  sk_socket :: "'o \<Rightarrow> int \<times> 'o"
  sk_connect :: "int \<Rightarrow> u32 \<Rightarrow> u16 \<Rightarrow> 'o \<Rightarrow> int \<times> 'o"
  sk_reuse :: "int \<Rightarrow> 'o \<Rightarrow> 'o"
  sk_bind :: "int \<Rightarrow> u32 \<Rightarrow> u16 \<Rightarrow> 'o \<Rightarrow> int \<times> 'o"
  sk_listen :: "int \<Rightarrow> nat \<Rightarrow> 'o \<Rightarrow> int \<times> 'o"
  sk_name :: "int \<Rightarrow> 'o \<Rightarrow> u16 option \<times> 'o"
  sk_accept :: "int \<Rightarrow> 'o \<Rightarrow> int \<times> u16 \<times> 'o"
  sk_close :: "int \<Rightarrow> 'o \<Rightarrow> 'o"
  sk_pton :: "string \<Rightarrow> u32 option"
  sk_error :: "'o \<Rightarrow> nat"

text \<open>\<open>g_winsock_ready\<close> and the state of the system.\<close>

record 'o net =
  nt_ready :: bool
  nt_os :: 'o

definition no_socket :: "platform \<Rightarrow> int \<Rightarrow> bool" where
  "no_socket p s = (case p of Posix \<Rightarrow> s < 0 | Winsock \<Rightarrow> s = -1)"

definition call_failed :: "platform \<Rightarrow> int \<Rightarrow> bool" where
  "call_failed p r = (case p of Posix \<Rightarrow> r \<noteq> 0 | Winsock \<Rightarrow> r = -1)"

definition ensure_winsock :: "'o socket_api \<Rightarrow> 'o net \<Rightarrow> bool \<times> 'o net" where
  "ensure_winsock api net =
     (if nt_ready net then (True, net)
      else case sk_startup api (nt_os net) of
        (False, os) \<Rightarrow> (False, net\<lparr>nt_os := os\<rparr>)
      | (True, os) \<Rightarrow> (True, net\<lparr>nt_os := os, nt_ready := True\<rparr>))"

definition last_error_str :: "'o socket_api \<Rightarrow> 'o \<Rightarrow> string" where
  "last_error_str api os = ''Winsock error '' @ to_string_nat (sk_error api os)"

definition error_text :: "platform \<Rightarrow> 'o socket_api \<Rightarrow> string \<Rightarrow> 'o \<Rightarrow> string" where
  "error_text p api msg os = (case p of Posix \<Rightarrow> msg | Winsock \<Rightarrow> last_error_str api os)"

section \<open>Streams\<close>

record net_stream =
  ns_fd :: int
  ns_port :: u16

definition new_stream :: net_stream where
  "new_stream = \<lparr>ns_fd = -1, ns_port = 0\<rparr>"

definition stream_ok :: "net_stream \<Rightarrow> bool" where
  "stream_ok st \<longleftrightarrow> 0 \<le> ns_fd st"

text \<open>The destructor closes, too.\<close>

definition net_close :: "'o socket_api \<Rightarrow> net_stream \<Rightarrow> 'o net \<Rightarrow> net_stream \<times> 'o net" where
  "net_close api st net =
     (if ns_fd st < 0 then (st, net)
      else (st\<lparr>ns_fd := -1\<rparr>, net\<lparr>nt_os := sk_close api (ns_fd st) (nt_os net)\<rparr>))"

text \<open>How \<open>connect\<close> and \<open>listen\<close> begin, and how they give up on a socket.\<close>

definition open_socket :: "platform \<Rightarrow> 'o socket_api \<Rightarrow> 'o net \<Rightarrow> (string + int) \<times> 'o net" where
  "open_socket p api net =
     (case (case p of Posix \<Rightarrow> (True, net) | Winsock \<Rightarrow> ensure_winsock api net) of
        (False, n1) \<Rightarrow> (Inl ''WSAStartup failed'', n1)
      | (True, n1) \<Rightarrow>
        (case sk_socket api (nt_os n1) of (s, os) \<Rightarrow>
           (if no_socket p s then Inl (error_text p api ''socket failed'' os) else Inr s, n1\<lparr>nt_os := os\<rparr>)))"

definition give_up :: "platform \<Rightarrow> 'o socket_api \<Rightarrow> int \<Rightarrow> string \<Rightarrow> net_stream \<Rightarrow> 'o net \<Rightarrow>
    (string + unit) \<times> net_stream \<times> 'o net" where
  "give_up p api s msg st net =
     (Inl (error_text p api msg (nt_os net)), st, net\<lparr>nt_os := sk_close api s (nt_os net)\<rparr>)"

text \<open>The result of \<open>inet_pton\<close> is not looked at: the zeroed address stays if it fails.\<close>

definition net_connect :: "platform \<Rightarrow> 'o socket_api \<Rightarrow> string \<Rightarrow> u16 \<Rightarrow> net_stream \<Rightarrow> 'o net \<Rightarrow>
    (string + unit) \<times> net_stream \<times> 'o net" where
  "net_connect p api host port st net =
     (case open_socket p api net of
        (Inl e, n1) \<Rightarrow> (Inl e, st, n1)
      | (Inr s, n1) \<Rightarrow>
          let addr = (case sk_pton api (c_str host) of None \<Rightarrow> 0 | Some a \<Rightarrow> a);
              (r, os) = sk_connect api s addr port (nt_os n1);
              n2 = n1\<lparr>nt_os := os\<rparr>
          in if call_failed p r then give_up p api s ''connect failed'' st n2
             else (Inr (), \<lparr>ns_fd = s, ns_port = port\<rparr>, n2))"

definition loopback :: u32 where
  "loopback = 0x7F000001"

definition net_listen :: "platform \<Rightarrow> 'o socket_api \<Rightarrow> u16 \<Rightarrow> net_stream \<Rightarrow> 'o net \<Rightarrow>
    (string + unit) \<times> net_stream \<times> 'o net" where
  "net_listen p api port st net =
     (case open_socket p api net of
        (Inl e, n1) \<Rightarrow> (Inl e, st, n1)
      | (Inr s, n1) \<Rightarrow>
          let (r, os) = sk_bind api s loopback port (sk_reuse api s (nt_os n1));
              n2 = n1\<lparr>nt_os := os\<rparr>
          in if call_failed p r then give_up p api s ''bind failed'' st n2
             else let (r, os) = sk_listen api s 8 (nt_os n2); n3 = n2\<lparr>nt_os := os\<rparr>
                  in if call_failed p r then give_up p api s ''listen failed'' st n3
                     else let (bound, os) = sk_name api s (nt_os n3)
                          in (Inr (), \<lparr>ns_fd = s, ns_port = (case bound of None \<Rightarrow> 0 | Some b \<Rightarrow> b)\<rparr>,
                              n3\<lparr>nt_os := os\<rparr>))"

definition net_accept :: "platform \<Rightarrow> 'o socket_api \<Rightarrow> net_stream \<Rightarrow> net_stream \<Rightarrow> 'o net \<Rightarrow>
    (string + unit) \<times> net_stream \<times> 'o net" where
  "net_accept p api st out net =
     (case sk_accept api (ns_fd st) (nt_os net) of (c, port, os) \<Rightarrow>
        let n1 = net\<lparr>nt_os := os\<rparr> in
        if no_socket p c then (Inl (error_text p api ''accept failed'' os), out, n1)
        else (Inr (), \<lparr>ns_fd = c, ns_port = port\<rparr>, n1))"

definition find_free_port :: "platform \<Rightarrow> 'o socket_api \<Rightarrow> 'o net \<Rightarrow> u16 \<times> 'o net" where
  "find_free_port p api net =
     (case net_listen p api 0 new_stream net of (r, st, n1) \<Rightarrow>
        (case r of Inl e \<Rightarrow> 0 | Inr u \<Rightarrow> ns_port st, snd (net_close api st n1)))"

section \<open>Processes\<close>

text \<open>The streams of a process, by name, and what it does with them; \<open>Drop\<close> is the destructor.\<close>

record 'o process =
  pc_streams :: "nat \<Rightarrow> net_stream"
  pc_net :: "'o net"

datatype socket_op = Connect nat string u16 | Listen nat u16 | Accept nat nat | Close nat | Drop nat

definition store :: "nat \<Rightarrow> 'o process \<Rightarrow> 'a \<times> net_stream \<times> 'o net \<Rightarrow> 'a \<times> 'o process" where
  "store i pc out = (case out of (r, st, net) \<Rightarrow> (r, \<lparr>pc_streams = (pc_streams pc)(i := st), pc_net = net\<rparr>))"

fun do_op :: "platform \<Rightarrow> 'o socket_api \<Rightarrow> socket_op \<Rightarrow> 'o process \<Rightarrow> (string + unit) \<times> 'o process" where
  "do_op p api (Connect i host port) pc = store i pc (net_connect p api host port (pc_streams pc i) (pc_net pc))"
| "do_op p api (Listen i port) pc = store i pc (net_listen p api port (pc_streams pc i) (pc_net pc))"
| "do_op p api (Accept i j) pc =
     store j pc (net_accept p api (pc_streams pc i) (pc_streams pc j) (pc_net pc))"
| "do_op p api (Close i) pc = store i pc (Inr (), net_close api (pc_streams pc i) (pc_net pc))"
| "do_op p api (Drop i) pc = store i pc (Inr (), new_stream, snd (net_close api (pc_streams pc i) (pc_net pc)))"

fun do_ops :: "platform \<Rightarrow> 'o socket_api \<Rightarrow> socket_op list \<Rightarrow> 'o process \<Rightarrow> 'o process" where
  "do_ops p api [] pc = pc"
| "do_ops p api (x # xs) pc = do_ops p api xs (snd (do_op p api x pc))"

text \<open>
  The accept loop of \<open>Coordinator::serve\<close>: a client is a local object of an iteration; \<open>session\<close> is the
  traffic on its descriptor. \<open>rounds\<close> is how often the stop flag lets the loop begin.
\<close>

fun accept_rounds :: "platform \<Rightarrow> 'o socket_api \<Rightarrow> (int \<Rightarrow> 'o \<Rightarrow> 'o) \<Rightarrow> nat \<Rightarrow> 'o process \<Rightarrow> 'o process" where
  "accept_rounds p api session 0 pc = pc"
| "accept_rounds p api session (Suc k) pc =
     (case do_op p api (Accept 0 1) pc of
        (Inl e, pc1) \<Rightarrow> accept_rounds p api session k (do_ops p api [Drop 1] pc1)
      | (Inr u, pc1) \<Rightarrow>
          let net = pc_net pc1;
              pc2 = pc1\<lparr>pc_net := net\<lparr>nt_os := session (ns_fd (pc_streams pc1 1)) (nt_os net)\<rparr>\<rparr>
          in accept_rounds p api session k (do_ops p api [Close 1, Drop 1] pc2))"

definition serve_sockets :: "platform \<Rightarrow> 'o socket_api \<Rightarrow> (int \<Rightarrow> 'o \<Rightarrow> 'o) \<Rightarrow> u16 \<Rightarrow> nat \<Rightarrow> 'o net \<Rightarrow> 'o process" where
  "serve_sockets p api session port rounds net =
     (case do_op p api (Listen 0 port) \<lparr>pc_streams = (\<lambda>i. new_stream), pc_net = net\<rparr> of
        (Inl e, pc) \<Rightarrow> do_ops p api [Drop 0] pc
      | (Inr u, pc) \<Rightarrow> do_ops p api [Close 0, Drop 0] (accept_rounds p api session rounds pc))"

section \<open>Descriptors are owned\<close>

text \<open>
  What the manual pages promise about the set of open descriptors: \<open>socket\<close> and \<open>accept\<close> hand out one
  that is not in use, or fail and leave the set alone; \<open>close\<close> gives one back; nothing else touches it.
\<close>

definition hands_out :: "platform \<Rightarrow> int \<Rightarrow> int set \<Rightarrow> int set \<Rightarrow> bool" where
  "hands_out p s D D' \<longleftrightarrow>
     (if no_socket p s then D' = D else 0 \<le> s \<and> s \<notin> D \<and> D' = insert s D)"

definition descriptor_laws :: "platform \<Rightarrow> 'o socket_api \<Rightarrow> ('o \<Rightarrow> int set) \<Rightarrow> bool" where
  "descriptor_laws p api fds \<longleftrightarrow>
     (\<forall>os. fds (snd (sk_startup api os)) = fds os) \<and>
     (\<forall>os. hands_out p (fst (sk_socket api os)) (fds os) (fds (snd (sk_socket api os)))) \<and>
     (\<forall>s a n os. fds (snd (sk_connect api s a n os)) = fds os) \<and>
     (\<forall>s os. fds (sk_reuse api s os) = fds os) \<and>
     (\<forall>s a n os. fds (snd (sk_bind api s a n os)) = fds os) \<and>
     (\<forall>s n os. fds (snd (sk_listen api s n os)) = fds os) \<and>
     (\<forall>s os. fds (snd (sk_name api s os)) = fds os) \<and>
     (\<forall>s os. hands_out p (fst (sk_accept api s os)) (fds os) (fds (snd (snd (sk_accept api s os))))) \<and>
     (\<forall>s os. fds (sk_close api s os) = fds os - {s})"

lemma laws_D:
  assumes "descriptor_laws p api fds"
  shows "sk_startup api os = (b, os') \<Longrightarrow> fds os' = fds os"
    "sk_socket api os = (s, os') \<Longrightarrow> hands_out p s (fds os) (fds os')"
    "sk_connect api s a n os = (r, os') \<Longrightarrow> fds os' = fds os"
    "fds (sk_reuse api s os) = fds os"
    "sk_bind api s a n os = (r, os') \<Longrightarrow> fds os' = fds os"
    "sk_listen api s k os = (r, os') \<Longrightarrow> fds os' = fds os"
    "sk_name api s os = (x, os') \<Longrightarrow> fds os' = fds os"
    "sk_accept api s os = (r, n, os') \<Longrightarrow> hands_out p r (fds os) (fds os')"
    "fds (sk_close api s os) = fds os - {s}"
  using assms unfolding descriptor_laws_def by (metis fst_conv snd_conv)+

text \<open>
  An operation that opens: it succeeds with a descriptor that was not in use, or fails and leaves the
  stream and the descriptors as they were.
\<close>

definition opens :: "('o \<Rightarrow> int set) \<Rightarrow> net_stream \<Rightarrow> 'o net \<Rightarrow> (string + unit) \<times> net_stream \<times> 'o net \<Rightarrow> bool" where
  "opens fds st net out \<longleftrightarrow>
     (case out of (r, st', net') \<Rightarrow>
        let D = fds (nt_os net); D' = fds (nt_os net') in
        case r of Inl e \<Rightarrow> st' = st \<and> D' = D
        | Inr u \<Rightarrow> stream_ok st' \<and> ns_fd st' \<notin> D \<and> D' = insert (ns_fd st') D)"

lemma open_socket_opens:
  assumes "descriptor_laws p api fds" and "open_socket p api net = (r, n1)"
  shows "case r of Inl e \<Rightarrow> fds (nt_os n1) = fds (nt_os net)
    | Inr s \<Rightarrow> 0 \<le> s \<and> s \<notin> fds (nt_os net) \<and> fds (nt_os n1) = insert s (fds (nt_os net))"
  using assms(2) laws_D(1,2)[OF assms(1)]
  by (fastforce simp: open_socket_def ensure_winsock_def hands_out_def
      split: prod.splits platform.splits if_splits bool.splits)

lemma net_connect_opens:
  assumes laws: "descriptor_laws p api fds"
  shows "opens fds st net (net_connect p api host port st net)"
proof -
  obtain r n1 where o: "open_socket p api net = (r, n1)" by fastforce
  show ?thesis
    using open_socket_opens[OF laws o] laws_D(3,9)[OF laws]
    by (cases r) (auto simp: net_connect_def o opens_def Let_def give_up_def stream_ok_def split: prod.split)
qed

lemma net_listen_opens:
  assumes laws: "descriptor_laws p api fds"
  shows "opens fds st net (net_listen p api port st net)"
proof -
  obtain r n1 where o: "open_socket p api net = (r, n1)" by fastforce
  show ?thesis
  proof (cases r)
    case (Inr s)
    obtain rb ob rl ol x on where calls: "sk_bind api s loopback port (sk_reuse api s (nt_os n1)) = (rb, ob)"
      "sk_listen api s 8 ob = (rl, ol)" "sk_name api s ol = (x, on)"
      by (meson surj_pair)
    have "fds ob = fds (nt_os n1)" "fds ol = fds ob" "fds on = fds ol"
      using laws_D(4)[OF laws] laws_D(5)[OF laws calls(1)] laws_D(6)[OF laws calls(2)] laws_D(7)[OF laws calls(3)]
      by simp_all
    then show ?thesis
      using open_socket_opens[OF laws o] laws_D(9)[OF laws] Inr
      by (auto simp: net_listen_def o opens_def Let_def give_up_def stream_ok_def calls)
  qed (use open_socket_opens[OF laws o] in \<open>simp add: net_listen_def o opens_def\<close>)
qed

lemma net_accept_opens:
  assumes laws: "descriptor_laws p api fds"
  shows "opens fds out net (net_accept p api st out net)"
proof -
  obtain c port os where a: "sk_accept api (ns_fd st) (nt_os net) = (c, port, os)" by (rule prod_cases3)
  show ?thesis
    using laws_D(8)[OF laws a] by (auto simp: net_accept_def a opens_def Let_def hands_out_def stream_ok_def)
qed

text \<open>Every open descriptor belongs to exactly one stream, and every open stream has one.\<close>

abbreviation open_streams :: "'o process \<Rightarrow> nat set" where
  "open_streams pc \<equiv> {i. stream_ok (pc_streams pc i)}"

definition owned :: "('o \<Rightarrow> int set) \<Rightarrow> 'o process \<Rightarrow> bool" where
  "owned fds pc \<longleftrightarrow>
     fds (nt_os (pc_net pc)) = (\<lambda>i. ns_fd (pc_streams pc i)) ` open_streams pc \<and>
     inj_on (\<lambda>i. ns_fd (pc_streams pc i)) (open_streams pc)"

text \<open>Nothing guards \<open>fd_\<close>: a stream that is opened must not be open.\<close>

fun into_closed :: "socket_op \<Rightarrow> 'o process \<Rightarrow> bool" where
  "into_closed (Connect i h n) pc = (\<not> stream_ok (pc_streams pc i))"
| "into_closed (Listen i n) pc = (\<not> stream_ok (pc_streams pc i))"
| "into_closed (Accept i j) pc = (\<not> stream_ok (pc_streams pc j))"
| "into_closed _ pc = True"

lemma owned_open:
  assumes "owned fds pc" and "\<not> stream_ok (pc_streams pc i)" and "opens fds (pc_streams pc i) (pc_net pc) out"
  shows "owned fds (snd (store i pc out))"
proof -
  obtain r st net where out: "out = (r, st, net)" by (rule prod_cases3)
  show ?thesis
  proof (cases r)
    case (Inl e)
    then show ?thesis using assms by (simp add: owned_def opens_def store_def out Let_def)
  next
    case (Inr u)
    let ?f = "(pc_streams pc)(i := st)" and ?A = "open_streams pc"
    have new: "stream_ok st" "ns_fd st \<notin> fds (nt_os (pc_net pc))"
      "fds (nt_os net) = insert (ns_fd st) (fds (nt_os (pc_net pc)))"
      using assms(3) Inr by (simp_all add: opens_def out Let_def)
    have A: "{j. stream_ok (?f j)} = insert i ?A" "i \<notin> ?A" using new(1) assms(2) by auto
    have "(\<lambda>j. ns_fd (?f j)) ` ?A = (\<lambda>j. ns_fd (pc_streams pc j)) ` ?A"
      using A(2) by (intro image_cong) auto
    moreover have "inj_on (\<lambda>j. ns_fd (?f j)) ?A = inj_on (\<lambda>j. ns_fd (pc_streams pc j)) ?A"
      using A(2) by (intro inj_on_cong) auto
    ultimately show ?thesis
      using assms(1) new(2,3) A by (simp add: owned_def store_def out)
  qed
qed

lemma owned_shut:
  assumes "owned fds pc" and "descriptor_laws p api fds" and "\<not> stream_ok st"
    and "net = snd (net_close api (pc_streams pc i) (pc_net pc))"
  shows "owned fds (snd (store i pc (r, st, net)))"
proof -
  let ?f = "(pc_streams pc)(i := st)" and ?A = "open_streams pc"
  have all: "fds (nt_os (pc_net pc)) = (\<lambda>j. ns_fd (pc_streams pc j)) ` ?A"
    and inj: "inj_on (\<lambda>j. ns_fd (pc_streams pc j)) ?A"
    using assms(1) by (simp_all add: owned_def)
  have A: "{j. stream_ok (?f j)} = ?A - {i}" using assms(3) by auto
  have "fds (nt_os net) = (\<lambda>j. ns_fd (pc_streams pc j)) ` (?A - {i})"
  proof (cases "i \<in> ?A")
    case True
    then show ?thesis
      using laws_D(9)[OF assms(2)] inj_on_image_set_diff[OF inj, of ?A "{i}"]
      by (simp add: assms(4) net_close_def all stream_ok_def)
  qed (simp add: assms(4) net_close_def all stream_ok_def)
  moreover have "(\<lambda>j. ns_fd (?f j)) ` (?A - {i}) = (\<lambda>j. ns_fd (pc_streams pc j)) ` (?A - {i})"
    by (intro image_cong) auto
  moreover have "inj_on (\<lambda>j. ns_fd (?f j)) (?A - {i})"
    using inj_on_subset[OF inj, of "?A - {i}"] by (subst inj_on_cong[of _ _ "\<lambda>j. ns_fd (pc_streams pc j)"]) auto
  ultimately show ?thesis using A by (simp add: owned_def store_def)
qed

lemma do_op_owned:
  assumes "descriptor_laws p api fds" and "owned fds pc" and "into_closed x pc"
  shows "owned fds (snd (do_op p api x pc))"
proof (cases x)
  case (Connect i h n)
  then show ?thesis using assms owned_open[OF assms(2) _ net_connect_opens[OF assms(1)]] by simp
next
  case (Listen i n)
  then show ?thesis using assms owned_open[OF assms(2) _ net_listen_opens[OF assms(1)]] by simp
next
  case (Accept i j)
  then show ?thesis using assms owned_open[OF assms(2) _ net_accept_opens[OF assms(1)]] by simp
next
  case (Close i)
  have "\<not> stream_ok (fst (net_close api (pc_streams pc i) (pc_net pc)))"
    by (simp add: net_close_def stream_ok_def)
  from owned_shut[OF assms(2,1) this refl, where r = "Inr ()" and i = i] Close show ?thesis by simp
next
  case (Drop i)
  have "\<not> stream_ok new_stream" by (simp add: new_stream_def stream_ok_def)
  from owned_shut[OF assms(2,1) this refl, where r = "Inr ()"] Drop show ?thesis by simp
qed

text \<open>Opening an open stream loses the descriptor it had: it stays open, and no stream owns it.\<close>

lemma reopening_leaks:
  assumes "descriptor_laws p api fds" and "owned fds pc" and "stream_ok (pc_streams pc i)"
    and "do_op p api (Listen i port) pc = (Inr (), pc')"
  shows "ns_fd (pc_streams pc i) \<in> fds (nt_os (pc_net pc'))"
    "ns_fd (pc_streams pc' j) \<noteq> ns_fd (pc_streams pc i)"
proof -
  let ?out = "net_listen p api port (pc_streams pc i) (pc_net pc)"
  have old: "ns_fd (pc_streams pc i) \<in> fds (nt_os (pc_net pc))" using assms(2,3) by (auto simp: owned_def)
  obtain st net where out: "?out = (Inr (), st, net)" "pc' = \<lparr>pc_streams = (pc_streams pc)(i := st), pc_net = net\<rparr>"
    using assms(4) by (auto simp: store_def split: prod.splits)
  have new: "ns_fd st \<notin> fds (nt_os (pc_net pc))" "fds (nt_os net) = insert (ns_fd st) (fds (nt_os (pc_net pc)))"
    using net_listen_opens[OF assms(1), of "pc_streams pc i" "pc_net pc" port]
    by (simp_all add: out(1) opens_def Let_def)
  show "ns_fd (pc_streams pc i) \<in> fds (nt_os (pc_net pc'))" using old new(2) by (simp add: out(2))
  show "ns_fd (pc_streams pc' j) \<noteq> ns_fd (pc_streams pc i)"
  proof (cases "j = i")
    case True
    then show ?thesis using old new(1) by (auto simp: out(2))
  next
    case False
    then show ?thesis
      using assms(2,3) by (auto simp: out(2) owned_def stream_ok_def inj_on_def)
  qed
qed

text \<open>Along a run, when every opening happens on a closed stream.\<close>

fun orderly :: "platform \<Rightarrow> 'o socket_api \<Rightarrow> socket_op list \<Rightarrow> 'o process \<Rightarrow> bool" where
  "orderly p api [] pc = True"
| "orderly p api (x # xs) pc \<longleftrightarrow> into_closed x pc \<and> orderly p api xs (snd (do_op p api x pc))"

lemma do_ops_owned:
  "descriptor_laws p api fds \<Longrightarrow> owned fds pc \<Longrightarrow> orderly p api xs pc \<Longrightarrow> owned fds (do_ops p api xs pc)"
  by (induction xs arbitrary: pc) (simp_all add: do_op_owned)

lemma do_ops_append: "do_ops p api (xs @ ys) pc = do_ops p api ys (do_ops p api xs pc)"
  by (induction xs arbitrary: pc) simp_all

lemma dropped: "j \<in> set is \<Longrightarrow> \<not> stream_ok (pc_streams (do_ops p api (map Drop is) pc) j)"
  and dropped_others: "j \<notin> set is \<Longrightarrow> pc_streams (do_ops p api (map Drop is) pc) j = pc_streams pc j"
  by (induction "is" arbitrary: pc rule: rev_induct)
    (auto simp: do_ops_append store_def new_stream_def stream_ok_def)

lemma orderly_drops: "orderly p api (map Drop is) pc"
  by (induction "is" arbitrary: pc) simp_all

text \<open>The streams that an operation does not open keep their descriptors.\<close>

lemma none_open:
  assumes "owned fds pc" and "\<And>i. \<not> stream_ok (pc_streams pc i)"
  shows "fds (nt_os (pc_net pc)) = {}"
  using assms by (simp add: owned_def)

lemma owned_start: "owned fds \<lparr>pc_streams = (\<lambda>i. new_stream), pc_net = net\<rparr> \<longleftrightarrow> fds (nt_os net) = {}"
  by (auto simp: owned_def new_stream_def stream_ok_def)

lemma find_free_port_returns_all:
  assumes laws: "descriptor_laws p api fds"
  shows "fds (nt_os (snd (find_free_port p api net))) = fds (nt_os net)"
proof -
  obtain r st n1 where l: "net_listen p api 0 new_stream net = (r, st, n1)" by (rule prod_cases3)
  then have "opens fds new_stream net (r, st, n1)" using net_listen_opens[OF laws] by metis
  then show ?thesis
    using laws_D(9)[OF laws]
    unfolding find_free_port_def l prod.case
    by (cases r) (auto simp: opens_def net_close_def new_stream_def stream_ok_def Let_def)
qed

text \<open>The accept loop keeps the listener and gives every client back.\<close>

lemma accept_rounds_owned:
  assumes laws: "descriptor_laws p api fds" and sess: "\<And>s os. fds (session s os) = fds os"
    and "owned fds pc" and "\<And>i. i \<noteq> 0 \<Longrightarrow> \<not> stream_ok (pc_streams pc i)"
  shows "owned fds (accept_rounds p api session k pc) \<and>
    (\<forall>i. i \<noteq> 0 \<longrightarrow> \<not> stream_ok (pc_streams (accept_rounds p api session k pc) i)) \<and>
    pc_streams (accept_rounds p api session k pc) 0 = pc_streams pc 0"
  using assms(3,4)
proof (induction k arbitrary: pc)
  case (Suc k)
  obtain r pc1 where a: "do_op p api (Accept 0 1) pc = (r, pc1)" by fastforce
  have own1: "owned fds pc1"
    using do_op_owned[OF laws Suc.prems(1), of "Accept 0 1"] Suc.prems(2)[of 1] a by simp
  have others: "i \<noteq> 1 \<Longrightarrow> pc_streams pc1 i = pc_streams pc i" for i
    using a by (auto simp: store_def split: prod.splits)
  define pc2 where "pc2 = (case r of Inl e \<Rightarrow> pc1 | Inr u \<Rightarrow>
    pc1\<lparr>pc_net := (pc_net pc1)\<lparr>nt_os := session (ns_fd (pc_streams pc1 1)) (nt_os (pc_net pc1))\<rparr>\<rparr>)"
  define xs where "xs = (case r of Inl e \<Rightarrow> [Drop 1] | Inr u \<Rightarrow> [Close 1, Drop 1])"
  have eq: "accept_rounds p api session (Suc k) pc = accept_rounds p api session k (do_ops p api xs pc2)"
    unfolding accept_rounds.simps a by (cases r) (simp_all only: prod.case sum.case pc2_def xs_def Let_def)
  have "owned fds pc2" using own1 sess by (simp add: pc2_def owned_def split: sum.split)
  moreover have "orderly p api xs pc2" by (simp add: xs_def split: sum.split)
  ultimately have own: "owned fds (do_ops p api xs pc2)" by (rule do_ops_owned[OF laws])
  have same: "pc_streams pc2 i = pc_streams pc1 i" for i by (simp add: pc2_def split: sum.split)
  have "i \<noteq> 1 \<Longrightarrow> pc_streams (do_ops p api xs pc2) i = pc_streams pc i"
    "\<not> stream_ok (pc_streams (do_ops p api xs pc2) 1)" for i
    by (auto simp: xs_def store_def others same new_stream_def stream_ok_def split: sum.split prod.split)
  note rest = this
  have "\<not> stream_ok (pc_streams (do_ops p api xs pc2) i)" if "i \<noteq> 0" for i
    using rest(1)[of i] rest(2) Suc.prems(2)[OF that] by (cases "i = 1") simp_all
  from Suc.IH[OF own this] show ?case unfolding eq rest(1)[of 0, OF zero_neq_one] by blast
qed simp

lemma serve_returns_all:
  assumes laws: "descriptor_laws p api fds" and sess: "\<And>s os. fds (session s os) = fds os"
    and "fds (nt_os net) = {}"
  shows "fds (nt_os (pc_net (serve_sockets p api session port rounds net))) = {}"
proof -
  let ?pc = "\<lparr>pc_streams = (\<lambda>i. new_stream), pc_net = net\<rparr>"
  obtain r pc1 where l: "do_op p api (Listen 0 port) ?pc = (r, pc1)" by fastforce
  have closed: "\<not> stream_ok (pc_streams ?pc i)" for i by (simp add: new_stream_def stream_ok_def)
  have own1: "owned fds pc1"
    using do_op_owned[OF laws, of ?pc "Listen 0 port"] assms(3) l closed by (simp add: owned_start)
  have others: "i \<noteq> 0 \<Longrightarrow> \<not> stream_ok (pc_streams pc1 i)" for i
    using l closed by (auto simp: store_def split: prod.splits)
  define pc2 where "pc2 = (case r of Inl e \<Rightarrow> pc1 | Inr u \<Rightarrow> accept_rounds p api session rounds pc1)"
  define xs where "xs = (case r of Inl e \<Rightarrow> [Drop 0] | Inr u \<Rightarrow> [Close 0, Drop 0])"
  have eq: "serve_sockets p api session port rounds net = do_ops p api xs pc2"
    unfolding serve_sockets_def l by (cases r) (simp_all only: prod.case sum.case pc2_def xs_def)
  have own2: "owned fds pc2" "\<And>i. i \<noteq> 0 \<Longrightarrow> \<not> stream_ok (pc_streams pc2 i)"
    using accept_rounds_owned[OF laws sess own1 others] own1 others
    by (auto simp: pc2_def split: sum.splits)
  have "orderly p api xs pc2" by (simp add: xs_def split: sum.split)
  then have "owned fds (do_ops p api xs pc2)" by (rule do_ops_owned[OF laws own2(1)])
  moreover have "\<not> stream_ok (pc_streams (do_ops p api xs pc2) i)" for i
    using own2(2)[of i]
    by (cases "i = 0") (auto simp: xs_def store_def new_stream_def stream_ok_def split: sum.split prod.split)
  ultimately show ?thesis unfolding eq by (rule none_open)
qed

end
