(* ===== verification/RuntimeProperties.thy ===== *)
theory RuntimeProperties
  imports CudaProgram Sockets
begin

text \<open>
  Properties of the runtime in use: recomputations are transparent, stale work is not run, the accelerator
  program prints what it promises, and sockets do not leak.
\<close>

section \<open>Recomputation\<close>

text \<open>C4: Recomputation is transparent. The mutations of a history answer the same with and without the
  recomputations that callers ask for on the way, and a full recomputation at the end gives every node
  the same readiness, whatever orders the hash maps are walked in.\<close>

theorem recomputation_transparent:
  assumes "reachable clean it g" and "clean_calls cs g" and "iteration_ok it'" and "iteration_ok it''"
  shows "\<exists>rs g1 g2 f1 f2. history cs g = Some (rs, g1) \<and> history (filter is_mutation cs) g = Some (rs, g2) \<and>
    recompute_all_readiness it' g1 = Some (OC_ACCEPTED, f1) \<and>
    recompute_all_readiness it'' g2 = Some (OC_ACCEPTED, f2) \<and> (\<forall>i. readiness f1 i = readiness f2 i)"
proof -
  have inv: "clean_inv g" by (rule reachable_clean[OF assms(1)])
  obtain rs g1 g2 where h: "history cs g = Some (rs, g1)" "history (filter is_mutation cs) g = Some (rs, g2)"
    "alike g1 g2" "clean_inv g1" "clean_inv g2"
    using history_transparent[OF alike_refl inv inv assms(2)] by blast
  obtain f1 f2 where f: "recompute_all_locked it' g1 = Some f1" "recompute_all_locked it'' g2 = Some f2"
    "\<And>i. map_option view (find_node f2 i) = map_option view (find_node f1 i)"
    by (rule recompute_all_confluent[OF h(3-5) assms(3,4)]) blast
  have "\<forall>i. readiness f1 i = readiness f2 i" using readiness_view[OF f(3)] by metis
  with h(1,2) f(1,2) show ?thesis by (simp add: recompute_all_readiness_def)
qed

theorem recomputation_transparent_witness:
  "\<exists>rs g1 g2 f1 f2.
    history [RecomputeOne (Strong 2), Mutate (sample_cred, PublishGeneration (Strong 1) (Strong 9)),
      RecomputeAll sample_it] built_graph = Some (rs, g1) \<and>
    history [Mutate (sample_cred, PublishGeneration (Strong 1) (Strong 9))] built_graph = Some (rs, g2) \<and>
    recompute_all_readiness sample_it g1 = Some (OC_ACCEPTED, f1) \<and>
    recompute_all_readiness sample_it g2 = Some (OC_ACCEPTED, f2) \<and> (\<forall>i. readiness f1 i = readiness f2 i)"
proof -
  have "clean_calls [RecomputeOne (Strong 2), Mutate (sample_cred, PublishGeneration (Strong 1) (Strong 9)),
      RecomputeAll sample_it] built_graph"
    by (auto simp: clean_def sample_it_ok split: option.split)
  from recomputation_transparent[OF built_reachable(1) this sample_it_ok sample_it_ok] show ?thesis by simp
qed

section \<open>Stale work\<close>

text \<open>\<open>b\<close> requires \<open>a\<close> to be READY, outside its dependency sets.\<close>

definition waits_for :: "graph \<Rightarrow> (node_id \<times> node_id) set" where
  "waits_for g = {(a, b). \<exists>e \<in> set (implicit_edges g b).
     ed_producer_id e = a \<and> pr_required_readiness (ed_predicate e) = RS_READY}"

lemma ready_upstream:
  assumes "\<And>i. settled g i" and "\<And>i. sets_in_range g i"
    and "(a, b) \<in> (waits_for g)\<^sup>*" and "readiness g b = RS_READY"
  shows "readiness g a = RS_READY"
  using assms(3,4)
proof (induction rule: converse_rtrancl_induct)
  case (step a c)
  then obtain n where n: "find_node g c = Some n" "nd_state n = RS_READY"
    by (auto simp: readiness_def split: option.splits)
  obtain e where e: "e \<in> set (implicit_edges g c)" "ed_producer_id e = a"
    "pr_required_readiness (ed_predicate e) = RS_READY"
    using step.hyps(1) by (auto simp: waits_for_def)
  have "edge_satisfied g e"
    using settled_ready(2)[OF assms(1) n assms(2)] e(1) by (simp add: list_all_iff)
  then obtain p where p: "find_node g a = Some p" "readiness_rank RS_READY \<le> readiness_rank (nd_state p)"
    using e(2,3) by (auto simp: edge_satisfied_def level_ok_def meets_readiness_constraint_def split: option.splits)
  then show ?case by (cases "nd_state p") (simp_all add: readiness_def)
qed

lemma publish_accepted:
  assumes "publish_generation i gen s b e g = (OC_ACCEPTED, g')"
  obtains n sup where "find_node g i = Some n"
    "g' = recompute_closure_locked [i] (put_node i (install_generation gen s b
      (n\<lparr>nd_superseded_generations := sup\<rparr>)) g)"
proof -
  obtain n where n: "find_node g i = Some n"
    using assms by (cases "find_node g i") (auto simp: publish_generation_def dest: authority_ok_refuses split: option.splits)
  show thesis
    by (rule that[OF n, of "nd_superseded_generations n @
        (if valid (nd_current_generation n) then [nd_current_generation n] else [])"])
      (use assms n in \<open>auto simp: publish_generation_def Let_def dest: authority_ok_refuses
        split: option.splits if_splits\<close>)
qed

text \<open>C5: Stale work is not run. After an accepted publication of a newer generation and a full
  recomputation, no node that waits for a consumer pinned to another generation - directly or through
  further nodes - is READY, and a run gated by such a node leaves the device untouched.\<close>

theorem stale_work_blocked:
  assumes "reachable clean it g" and "iteration_ok it" and "\<forall>i. sets_in_range g i"
    and pub: "submit (c, PublishGeneration p w) g = Some (OC_ACCEPTED, g1)"
    and "recompute_all_readiness it g1 = Some (r, g2)"
    and "e \<in> set (implicit_edges g b)" and "ed_producer_id e = p"
    and "pr_generation_kind (ed_predicate e) = GP_EXACT" and "pr_exact_generation (ed_predicate e) \<noteq> w"
    and "(b, cj_gate job) \<in> (waits_for g)\<^sup>*"
  shows "readiness g2 (cj_gate job) \<noteq> RS_READY \<and>
    (\<exists>h'. cuda_run F cu g2 job h = Some (False, job, h') \<and> ho_device h' = ho_device h)"
proof -
  have pg: "publish_generation p w (cr_source c) (cr_boot c) (cr_epoch c) g = (OC_ACCEPTED, g1)"
    using pub by (simp add: submit_def)
  obtain n sup where n: "find_node g p = Some n"
    and g1: "g1 = recompute_closure_locked [p] (put_node p (install_generation w (cr_source c) (cr_boot c)
      (n\<lparr>nd_superseded_generations := sup\<rparr>)) g)" (is "_ = recompute_closure_locked _ (put_node p ?n g)")
    by (rule publish_accepted[OF pg])
  have "clean_inv g1"
    by (rule clean_inv_step[OF fs_request[OF _ pub] reachable_clean[OF assms(1)]]) (simp add: clean_def)
  then obtain g2' where g2': "recompute_all_locked it g1 = Some g2'" "\<forall>i. settled g2' i" "same_frame g1 g2'"
    "\<And>j. map_option durable (find_node g2' j) = map_option durable (find_node g1 j)"
    by (rule clean_recomputes[OF _ assms(2)]) blast
  have "g2' = g2" using assms(5) g2'(1) by (simp add: recompute_all_readiness_def)
  note g2 = g2'(2-4)[unfolded this]
  have fr: "same_lookups g g2"
    using same_frame_lookups[OF g2(2)] by (simp add: same_lookups_def g1)
  note same = same_lookups_active[OF fr]
  have range: "sets_in_range g2 i" for i using assms(3) by (simp add: sets_in_range_def same)
  have wf: "waits_for g2 = waits_for g" by (simp add: waits_for_def same)
  have "map_option durable (find_node g2 p) = Some (durable ?n)"
    unfolding g2(3) g1 by (subst closure_put_durable) simp
  then obtain m where m: "find_node g2 p = Some m" "durable m = durable ?n" by auto
  then have cur: "nd_current_generation m = w"
    using facts_agree(5)[OF m(2)] by (simp add: install_generation_def)
  have "readiness g2 b \<noteq> RS_READY"
  proof
    assume "readiness g2 b = RS_READY"
    then obtain k where k: "find_node g2 b = Some k" "nd_state k = RS_READY"
      by (auto simp: readiness_def split: option.splits)
    have "e \<in> set (implicit_edges g2 b)" using assms(6) by (simp add: same)
    then have "edge_satisfied g2 e"
      using settled_ready(2)[OF g2(1)[rule_format] k range] by (simp add: list_all_iff)
    then show False using m(1) cur assms(7-9) by (simp add: edge_satisfied_def generation_ok_def Let_def)
  qed
  then have "readiness g2 (cj_gate job) \<noteq> RS_READY"
    using ready_upstream[OF g2(1)[rule_format] range, unfolded wf, OF assms(10)] by metis
  then show ?thesis by (simp add: run_blocked say_def)
qed

theorem stale_work_blocked_witness:
  "\<exists>g g1 r g2. build_chain sample_it 1 1 True registered = Some g \<and>
    submit (gpu_cred, PublishGeneration (Strong 1) (Strong 2)) g = Some (OC_ACCEPTED, g1) \<and>
    recompute_all_readiness sample_it g1 = Some (r, g2) \<and> readiness g2 (Strong 3) \<noteq> RS_READY"
proof -
  let ?c = "(gpu_cred, PublishGeneration (Strong 1) (Strong 2))"
  obtain g where g: "build_chain sample_it 1 1 True registered = Some g" "reachable clean sample_it g" "gr_sets g = []"
    "alike (chain_stage True) g"
    by (rule chain_built[OF sample_it_ok]) blast
  have "fst (the (submit ?c (chain_stage True))) = OC_ACCEPTED" "submit ?c (chain_stage True) \<noteq> None"
    by (simp_all add: run_simps gpu_cred_def chain_stage_def stage_simps)
  then obtain k1 where "submit ?c (chain_stage True) = Some (OC_ACCEPTED, k1)"
    by (cases "submit ?c (chain_stage True)") auto
  then obtain g1 where g1: "submit ?c g = Some (OC_ACCEPTED, g1)"
    by (rule submit_alike[OF g(4)])
  have "clean_inv g1"
    by (rule clean_inv_step[OF fs_request[OF _ g1] reachable_clean[OF g(2)]]) (simp add: clean_def)
  then obtain g2 where g2: "recompute_all_readiness sample_it g1 = Some (OC_ACCEPTED, g2)"
    by (rule clean_recomputes[OF _ sample_it_ok]) (simp add: recompute_all_readiness_def)
  have sets: "sets_in_range g i" for i
    using g(3) by (simp add: sets_in_range_def active_sets_def List.map_filter_def)
  have "pinned_edge (Strong 1) (Strong 1) (Strong 2) (Strong 1) \<in> set (implicit_edges (chain_stage True) (Strong 2))"
    "pinned_edge (Strong 2) (Strong 2) (Strong 3) (Strong 1) \<in> set (implicit_edges (chain_stage True) (Strong 3))"
    by (simp_all add: implicit_edges_def set_members_def active_sets_def in_active_def active_edges_def
      chain_stage_def stage_simps ix_at_def List.map_filter_simps)
  then have "pinned_edge (Strong 1) (Strong 1) (Strong 2) (Strong 1) \<in> set (implicit_edges g (Strong 2))"
    and e2: "pinned_edge (Strong 2) (Strong 2) (Strong 3) (Strong 1) \<in> set (implicit_edges g (Strong 3))"
    by (simp_all add: same_lookups_active(5)[OF alike_same_lookups[OF g(4)]])
  moreover have "(Strong 2, Strong 3) \<in> waits_for g"
    unfolding waits_for_def mem_Collect_eq prod.case by (rule bexI[OF _ e2]) (simp add: pinned_edge_def)
  ultimately show ?thesis
    using stale_work_blocked[OF g(2) sample_it_ok _ g1 g2, of "pinned_edge (Strong 1) (Strong 1) (Strong 2) (Strong 1)"
        "Strong 2" "\<lparr>cj_gate = Strong 3, cj_n = 0, cj_a = 0, cj_x = [], cj_y_host = [], cj_y_ref = []\<rparr>"] sets g(1) g1 g2
    by (auto simp: pinned_edge_def)
qed

section \<open>Gated work\<close>

text \<open>C32: However the device schedules the threads of a grid - with other threads running between the
  read and the write of each - the kernel leaves in \<open>y\<close> what the loop on the host computes with the
  device's arithmetic; threads beyond \<open>n\<close> write nothing.\<close>

theorem kernel_any_schedule:
  assumes "complete_schedule threads s" and "n \<le> threads" and "n \<le> length y"
  shows "snd (run_grid F threads n a s x y) = cpu_reference (F\<lparr>fl_axpy_host := fl_axpy_device F\<rparr>) n a x y \<and>
    drop n (snd (run_grid F threads n a s x y)) = drop n y"
proof -
  note k = kernel_computes[OF assms, of F a x]
  have "drop n (cpu_reference G n a x y) = drop n y" for G :: "'a float_ops"
    using cpu_reference_nth[of G n a x y] by (auto intro!: nth_equalityI)
  with k show ?thesis by simp
qed

text \<open>Exact arithmetic, and a device that keeps its blocks in a map and runs each thread twice in turn.\<close>

definition exact_ops :: "int float_ops" where
  "exact_ops = \<lparr>fl_of_int = id, fl_literal = (\<lambda>s. if s = ''1e-4f'' then 0 else int (length s)),
     fl_mul = (*), fl_sub = (-), fl_abs = abs, fl_greater = (>),
     fl_axpy_host = (\<lambda>a x y. a * x + y), fl_axpy_device = (\<lambda>a x y. a * x + y)\<rparr>"

theorem kernel_any_schedule_witness:
  "snd (run_grid exact_ops 4 3 2 [3, 0, 1, 1, 2, 0, 3, 2] [1, 2, 3] [10, 20, 30, 40]) = [12, 24, 36, 40] \<and>
   cpu_reference exact_ops 3 2 [1, 2, 3] [10, 20, 30, 40] = [12, 24, 36, 40]"
proof -
  have "complete_schedule 4 [3, 0, 1, 1, 2, 0, 3, 2]"
    by (simp add: complete_schedule_def All_less_Suc numeral_eq_Suc)
  from kernel_any_schedule[OF this, of 3 "[10, 20, 30, 40]" exact_ops 2 "[1, 2, 3]"]
  show ?thesis by (simp add: cpu_reference_def exact_ops_def upt_rec)
qed

definition first_free :: "(u64 \<Rightarrow> 'f list option) \<Rightarrow> u64" where
  "first_free m = (if m 1 = None then 1 else if m 2 = None then 2 else 3)"

definition toy_device :: "(int, u64 \<Rightarrow> int list option) cuda_api" where
  "toy_device =
     \<lparr>cu_properties = (\<lambda>m. (Some \<lparr>dp_name = ''toy'', dp_major = 12, dp_minor = 0\<rparr>, m)),
      cu_mem_free = (\<lambda>m. (Some 4096, m)),
      cu_malloc = (\<lambda>k m. (Some (first_free m), m(first_free m \<mapsto> replicate (k div 4) 0))),
      cu_to_device = (\<lambda>p xs m. (Some (), m(p \<mapsto> xs))),
      cu_launch = (\<lambda>blocks threads k px py m.
        m(py \<mapsto> k ([0..<blocks * threads] @ [0..<blocks * threads]) (the (m px)) (the (m py)))),
      cu_synchronize = Pair (Some ()),
      cu_from_device = (\<lambda>p n m. (m p, m)),
      cu_release = (\<lambda>p m. (Some (), m(p := None))),
      cu_reset = (\<lambda>m. (Some (), Map.empty))\<rparr>"

lemma first_free_free:
  fixes m :: "u64 \<Rightarrow> 'f list option"
  assumes "card (dom m) < 2"
  shows "m (first_free m) = None"
proof (rule ccontr)
  assume "m (first_free m) \<noteq> None"
  then have "{1, 2, 3} \<subseteq> dom m" by (auto simp: first_free_def split: if_splits)
  then have "card {1 :: u64, 2, 3} \<le> card (dom m)" by (intro card_mono) simp_all
  then show False using assms by simp
qed

lemma count_upt: "count_list [0..<n] i = (if i < n then 1 else 0)"
  by (induction n) auto

lemma toy_faithful: "faithful_device toy_device limit id (\<lambda>m. 4096)"
  unfolding faithful_device_def
proof (intro conjI allI impI)
  fix m :: "u64 \<Rightarrow> int list option" and k
  assume "k * 4 \<le> limit \<and> card (dom (id m)) < 2"
  then show "\<exists>p m' b. cu_malloc toy_device (k * 4) m = (Some p, m') \<and> id m p = None \<and> length b = k \<and>
      id m' = (id m)(p \<mapsto> b)"
    by (intro exI[of _ "first_free m"] exI[of _ "m(first_free m \<mapsto> replicate k 0)"] exI[of _ "replicate k 0"])
      (simp add: toy_device_def first_free_free)
next
  fix m :: "u64 \<Rightarrow> int list option" and px py x y blocks threads K
  assume "id m px = Some x \<and> id m py = Some y"
  moreover have "complete_schedule (blocks * threads) ([0..<blocks * threads] @ [0..<blocks * threads])"
    by (simp add: complete_schedule_def count_upt)
  ultimately show "\<exists>s m'. complete_schedule (blocks * threads) s \<and>
      cu_synchronize toy_device (cu_launch toy_device blocks threads K px py m) = (Some (), m') \<and>
      id m' = (id m)(py \<mapsto> K s x y)"
    by (auto simp: toy_device_def)
qed (simp_all add: toy_device_def)

lemma exact_accurate: "accurate exact_ops (gate_job exact_ops alpha)"
proof -
  have same: "exact_ops\<lparr>fl_axpy_host := fl_axpy_device exact_ops\<rparr> = exact_ops" by (simp add: exact_ops_def)
  have "all_close exact_ops xs xs" for xs
    by (induction xs) (simp_all add: all_close_def exact_ops_def)
  then show ?thesis by (simp add: accurate_def same gate_job_def cuda_job_of_def Let_def)
qed

text \<open>C31: The accelerator program. On a device that behaves as its runtime documents, serves two buffers of
  \<open>N\<close> floats and computes accurately, all five scenarios pass: READY chains run and agree with the host,
  a stale, an invalidated and a recovered chain are refused until fresh evidence is published, a
  capability the device lacks blocks; free memory is the same before and after every run.\<close>

theorem cuda_program_passes:
  assumes "good_device F cu mem room" and "iteration_ok it" and "mem d = Map.empty"
  shows "\<exists>pr d' h. cu_properties cu d = (Some pr, d') \<and> cuda_main it F cu d = Some h \<and>
    ho_out h = transcript pr (room d)"
  by (rule cuda_main_prints[OF assms]) blast

theorem cuda_program_passes_witness:
  "\<exists>pr d' h. cu_properties toy_device Map.empty = (Some pr, d') \<and>
    cuda_main sample_it exact_ops toy_device Map.empty = Some h \<and> ho_out h = transcript pr 4096"
proof -
  have "good_device exact_ops toy_device id (\<lambda>m. 4096)"
    by (simp add: good_device_def toy_faithful exact_accurate)
  from cuda_program_passes[OF this sample_it_ok, of Map.empty] show ?thesis by simp
qed

section \<open>Sockets\<close>

text \<open>C33: Sockets do not leak. As long as connections are opened, listened on and accepted into closed
  streams, the open descriptors are exactly those of the open streams, one each, and dropping the streams
  gives them all back; looking for a free port and serving clients leave no descriptor behind, whatever
  calls fail.\<close>

theorem descriptors_owned:
  assumes laws: "descriptor_laws p api fds" and "fds (nt_os net) = {}"
    and "orderly p api xs \<lparr>pc_streams = (\<lambda>i. new_stream), pc_net = net\<rparr>"
    and sess: "\<And>s os. fds (session s os) = fds os"
  shows "(let pc = do_ops p api xs \<lparr>pc_streams = (\<lambda>i. new_stream), pc_net = net\<rparr> in
     fds (nt_os (pc_net pc)) = (\<lambda>i. ns_fd (pc_streams pc i)) ` open_streams pc \<and>
     inj_on (\<lambda>i. ns_fd (pc_streams pc i)) (open_streams pc) \<and>
     (\<forall>is. open_streams pc \<subseteq> set is \<longrightarrow> fds (nt_os (pc_net (do_ops p api (map Drop is) pc))) = {})) \<and>
   fds (nt_os (snd (find_free_port p api net))) = {} \<and>
   fds (nt_os (pc_net (serve_sockets p api session port rounds net))) = {}"
proof -
  define pc where "pc = do_ops p api xs \<lparr>pc_streams = (\<lambda>i. new_stream), pc_net = net\<rparr>"
  have own: "owned fds pc"
    unfolding pc_def by (rule do_ops_owned[OF laws _ assms(3)]) (simp add: owned_start assms(2))
  have "fds (nt_os (pc_net (do_ops p api (map Drop is) pc))) = {}" if "open_streams pc \<subseteq> set is" for "is"
  proof (rule none_open[OF do_ops_owned[OF laws own orderly_drops]])
    fix i show "\<not> stream_ok (pc_streams (do_ops p api (map Drop is) pc) i)"
      using that by (cases "i \<in> set is") (auto simp: dropped dropped_others)
  qed
  then show ?thesis
    using own find_free_port_returns_all[OF laws, of net] serve_returns_all[OF laws sess assms(2)] assms(2)
    unfolding pc_def[symmetric] by (simp add: owned_def)
qed

text \<open>A system that numbers its descriptors and lets every call succeed.\<close>

definition toy_sockets :: "(nat \<times> int set) socket_api" where
  "toy_sockets =
     \<lparr>sk_startup = Pair True, sk_socket = (\<lambda>(n, D). (int n, (Suc n, insert (int n) D))),
      sk_connect = (\<lambda>s a k os. (0, os)), sk_reuse = (\<lambda>s os. os), sk_bind = (\<lambda>s a k os. (0, os)),
      sk_listen = (\<lambda>s k os. (0, os)), sk_name = (\<lambda>s os. (Some 4000, os)),
      sk_accept = (\<lambda>s (n, D). (int n, 5000, (Suc n, insert (int n) D))),
      sk_close = (\<lambda>s (n, D). (n, D - {s})), sk_pton = (\<lambda>host. None), sk_error = (\<lambda>os. 0)\<rparr>"

definition toy_fds :: "nat \<times> int set \<Rightarrow> int set" where
  "toy_fds os = {s \<in> snd os. 0 \<le> s \<and> s < int (fst os)}"

lemma toy_laws: "descriptor_laws Posix toy_sockets toy_fds"
  by (auto simp: descriptor_laws_def toy_sockets_def toy_fds_def hands_out_def no_socket_def)

theorem descriptors_owned_witness:
  "(let pc = do_ops Posix toy_sockets [Listen 0 80, Accept 0 1, Accept 0 2, Close 1, Connect 1 ''127.0.0.1'' 80]
      \<lparr>pc_streams = (\<lambda>i. new_stream), pc_net = \<lparr>nt_ready = False, nt_os = (3, {})\<rparr>\<rparr> in
    toy_fds (nt_os (pc_net pc)) = (\<lambda>i. ns_fd (pc_streams pc i)) ` open_streams pc \<and>
    toy_fds (nt_os (pc_net (do_ops Posix toy_sockets (map Drop [0, 1, 2]) pc))) = {}) \<and>
   toy_fds (nt_os (pc_net (serve_sockets Posix toy_sockets (\<lambda>s os. os) 80 5
     \<lparr>nt_ready = False, nt_os = (3, {})\<rparr>))) = {}"
proof -
  let ?xs = "[Listen 0 80, Accept 0 1, Accept 0 2, Close 1, Connect 1 ''127.0.0.1'' 80]"
    and ?net = "\<lparr>nt_ready = False, nt_os = (3, {})\<rparr> :: (nat \<times> int set) net"
  have "orderly Posix toy_sockets ?xs \<lparr>pc_streams = (\<lambda>i. new_stream), pc_net = ?net\<rparr>"
    by (simp add: toy_sockets_def net_listen_def net_accept_def net_connect_def net_close_def open_socket_def
      no_socket_def call_failed_def store_def new_stream_def stream_ok_def Let_def)
  moreover have "open_streams (do_ops Posix toy_sockets ?xs \<lparr>pc_streams = (\<lambda>i. new_stream), pc_net = ?net\<rparr>)
      \<subseteq> set [0, 1, 2]"
    by (auto simp: toy_sockets_def net_listen_def net_accept_def net_connect_def net_close_def open_socket_def
      no_socket_def call_failed_def store_def new_stream_def stream_ok_def Let_def split: if_splits)
  moreover have "toy_fds (nt_os ?net) = {}" by (simp add: toy_fds_def)
  ultimately show ?thesis
    using descriptors_owned[OF toy_laws, of ?net ?xs "\<lambda>s os. os" 80 5] unfolding Let_def by blast
qed

end
