(* ===== verification/Misled.thy ===== *)
theory Misled
  imports Execution Samples
begin

text \<open>
  A graph that the runtime reaches and that \<open>Graph::acyclic\<close> takes for acyclic although it has a cycle.
\<close>

text \<open>
  A graph of three nodes in which 2 and 3 depend on each other. The edge from 1 to 2 was added inactive and
  activated, so that the out-vector of 1 lists it twice; the edge from 3 to 2 was switched off while
  the edge from 2 to 3 was added.
\<close>

definition misled_calls :: "command list" where
  "misled_calls =
     map (\<lambda>i. DeclareNode (Strong i) NK_ARTIFACT [] True) [1, 2, 3] @
     [AddEdge ((sample_edge (Strong 11) (Strong 1) (Strong 2))\<lparr>ed_active := False\<rparr>), SetEdgeActive (Strong 11) True,
      AddEdge (sample_edge (Strong 13) (Strong 3) (Strong 2)), SetEdgeActive (Strong 13) False,
      AddEdge (sample_edge (Strong 12) (Strong 2) (Strong 3)), SetEdgeActive (Strong 13) True]"

definition misled_graph :: graph where
  "misled_graph = the (run_acts submit (map (Pair sample_cred) misled_calls) registered_graph)"

lemma run_reachable:
  assumes "reachable (\<lambda>_ _. True) it g"
  shows "\<exists>g'. run_acts submit rqs g = Some g' \<and> reachable (\<lambda>_ _. True) it g'"
  using assms
proof (induction rqs arbitrary: g)
  case (Cons rq rqs)
  obtain r h where h: "submit rq g = Some (r, h)" using requests.returns[OF reachable_core_inv[OF Cons.prems], of rq] by auto
  then have "reachable (\<lambda>_ _. True) it h" by (intro re_step[OF Cons.prems] fs_request) auto
  with Cons.IH h show ?case by simp
qed simp

lemma misled_reachable: "reachable (\<lambda>_ _. True) it misled_graph"
  using run_reachable[OF registered_reachable[where P = "\<lambda>_ _. True" and it = it],
      of "map (Pair sample_cred) misled_calls"]
  by (auto simp: misled_graph_def)

lemma misled_eval:
  "\<exists>n1 n2 n3. misled_graph =
     \<lparr>gr_nodes = [(Strong 1, n1), (Strong 2, n2), (Strong 3, n3)],
      gr_edges = [(Strong 11, sample_edge (Strong 11) (Strong 1) (Strong 2)),
        (Strong 13, sample_edge (Strong 13) (Strong 3) (Strong 2)), (Strong 12, sample_edge (Strong 12) (Strong 2) (Strong 3))],
      gr_sets = [], gr_sources = gr_sources registered_graph,
      gr_out_edges = [(Strong 1, [Strong 11, Strong 11]), (Strong 3, [Strong 13]), (Strong 2, [Strong 12])],
      gr_in_edges = [(Strong 2, [Strong 11, Strong 11, Strong 13]), (Strong 3, [Strong 12])],
      gr_node_sets = [], gr_epoch = Strong 1, gr_adapter = None\<rparr>"
  by (simp add: misled_graph_def misled_calls_def exec_simps switch_edge_def registered_graph_def register_source_def empty_graph_def
     sample_cred_def sample_edge_def default_predicate_def)

lemma misled_edges:
  "find_edge misled_graph i =
     (if i = Strong 11 then Some (sample_edge i (Strong 1) (Strong 2))
      else if i = Strong 12 then Some (sample_edge i (Strong 2) (Strong 3))
      else if i = Strong 13 then Some (sample_edge i (Strong 3) (Strong 2)) else None)"
  "out_at misled_graph v = (if v = Strong 1 then [Strong 11, Strong 11] else if v = Strong 2 then [Strong 12]
     else if v = Strong 3 then [Strong 13] else [])"
  "set (um_keys (gr_nodes misled_graph)) = {Strong 1, Strong 2, Strong 3}" "um_size (gr_nodes misled_graph) = 3"
proof -
  obtain n1 n2 n3 where parts: "gr_nodes misled_graph = [(Strong 1, n1), (Strong 2, n2), (Strong 3, n3)]"
    "gr_edges misled_graph = [(Strong 11, sample_edge (Strong 11) (Strong 1) (Strong 2)),
       (Strong 13, sample_edge (Strong 13) (Strong 3) (Strong 2)), (Strong 12, sample_edge (Strong 12) (Strong 2) (Strong 3))]"
    "gr_out_edges misled_graph = [(Strong 1, [Strong 11, Strong 11]), (Strong 3, [Strong 13]), (Strong 2, [Strong 12])]"
    using misled_eval by (metis graph.select_convs)
  show "find_edge misled_graph i =
     (if i = Strong 11 then Some (sample_edge i (Strong 1) (Strong 2))
      else if i = Strong 12 then Some (sample_edge i (Strong 2) (Strong 3))
      else if i = Strong 13 then Some (sample_edge i (Strong 3) (Strong 2)) else None)"
    "out_at misled_graph v = (if v = Strong 1 then [Strong 11, Strong 11] else if v = Strong 2 then [Strong 12]
     else if v = Strong 3 then [Strong 13] else [])"
    "set (um_keys (gr_nodes misled_graph)) = {Strong 1, Strong 2, Strong 3}" "um_size (gr_nodes misled_graph) = 3"
    by (simp_all add: parts ix_at_def um_keys_def um_size_def)
qed

lemma misled_cyclic: "\<not> acyclic_graph misled_graph"
proof -
  have "(Strong 2, Strong 3) \<in> dep_rel misled_graph" "(Strong 3, Strong 2) \<in> dep_rel misled_graph"
    unfolding dep_rel_def misled_edges by (auto split: if_splits)
      (rule exI[of _ "Strong 12"] exI[of _ "Strong 13"], simp)+
  then show ?thesis by (auto simp: acyclic_graph_def acyclic_def dest: trancl_into_trancl[OF r_into_trancl])
qed

text \<open>Node 2 waits for two edges; taking the edge from 1 twice frees it before 3 is visited.\<close>

lemma misled_query:
  assumes "iteration_ok it"
  shows "acyclic_query it misled_graph = Some True"
proof -
  let ?m = "init_indeg it misled_graph"
  have wf: "graph_wf misled_graph"
    using reachable_core_inv[OF misled_reachable[of it]] by (simp add: core_inv_def)
  note spec = init_indeg_spec[OF wf assms]
  have pend: "pending misled_graph {} {} c =
      (if c = Strong 2 then {Strong 11, Strong 13} else if c = Strong 3 then {Strong 12} else {})" for c
    by (auto simp: pending_def misled_edges split: if_splits)
  have deg: "indeg_at (Strong 1) ?m = 0" "indeg_at (Strong 2) ?m = 2" "indeg_at (Strong 3) ?m = 1"
    by (simp_all add: spec(1) pend)
  have order: "is_order (it_nodes it)" using assms by (simp add: iteration_ok_def)
  have "set (kahn_roots it ?m) = {Strong 1}"
  proof -
    have "c \<in> set (kahn_roots it ?m) \<longleftrightarrow> um_find c ?m = Some 0" for c
      by (auto simp: kahn_roots_def um_iter_mem[OF order] image_iff)
    moreover have "um_find c ?m = Some 0 \<longleftrightarrow> c = Strong 1" for c
      using um.keys_find[of c ?m] spec(1)[of c] by (auto simp: spec(2) misled_edges pend indeg_at_def split: option.splits if_splits)
    ultimately show ?thesis by auto
  qed
  moreover have "distinct (kahn_roots it ?m)"
    using um_iter_distinct[OF order, of ?m] spec(3)
    by (simp add: kahn_roots_def distinct_map_filter)
  ultimately have roots: "kahn_roots it ?m = [Strong 1]"
    by (cases "kahn_roots it ?m" rule: remdups_adj.cases) auto
  have "\<exists>m. kahn misled_graph (?m, [Strong 1], []) = Some (m, [], [Strong 1, Strong 2, Strong 3])"
    using deg unfolding kahn_def
    by (simp add: while_option_unfold out_active_def active_edges_def List.map_filter_simps misled_edges kahn_edge_def Let_def
        indeg_at_def)
  then show ?thesis by (auto simp: acyclic_query_def roots misled_edges)
qed

end
