(* ===== verification/GraphProperties.thy ===== *)
theory GraphProperties
  imports Misled
begin

text \<open>
  The properties of the graph runtime, each with an instance at a concrete graph. They are stated
  over the model of the code; the lemmas that carry them are in the component theories.
\<close>

section \<open>Readiness\<close>

text \<open>C1: After a full recomputation of any graph reached by clean requests, a READY node has every
  required prerequisite satisfied: each inbound edge outside its active sets passes its generation,
  level and evidence constraints against the producer's current state, each active set passes its
  operator, the node's own generation exists where its kind needs one, and no revalidation gate is
  pending. The recomputation always returns, for every iteration order of the hash maps.\<close>

theorem ready_is_sound:
  assumes "reachable clean it g" and "iteration_ok it" and "\<forall>i. sets_in_range g i"
  shows "\<exists>g'. recompute_all_readiness it g = Some (OC_ACCEPTED, g') \<and>
    (\<forall>i n. find_node g' i = Some n \<and> nd_state n = RS_READY \<longrightarrow>
       \<not> gated n \<and> list_all (edge_satisfied g') (implicit_edges g' i) \<and>
       list_all (set_ok g') (active_sets g' i) \<and>
       (requires_own_generation (nd_kind n) \<longrightarrow> valid (nd_current_generation n)))"
proof -
  obtain g' where r: "recompute_all_locked it g = Some g'" "\<forall>i. settled g' i" and fr: "same_frame g g'"
    by (rule clean_recomputes[OF reachable_clean[OF assms(1)] assms(2)])
  have "sets_in_range g' i" for i
    using assms(3) fr by (simp add: sets_in_range_def active_sets_def same_frame_def)
  then show ?thesis
    using r settled_ready by (simp add: recompute_all_readiness_def) blast
qed

theorem ready_is_sound_witness:
  "\<exists>g'. recompute_all_readiness sample_it built_graph = Some (OC_ACCEPTED, g') \<and>
    (\<forall>i n. find_node g' i = Some n \<and> nd_state n = RS_READY \<longrightarrow>
       \<not> gated n \<and> list_all (edge_satisfied g') (implicit_edges g' i) \<and>
       list_all (set_ok g') (active_sets g' i) \<and>
       (requires_own_generation (nd_kind n) \<longrightarrow> valid (nd_current_generation n)))"
  by (rule ready_is_sound[OF built_reachable(1) sample_it_ok]) (simp add: built_sets_in_range)

text \<open>C2: On a well-formed, acyclic graph whose indexes list every active edge once and whose set members are
  edges of the owner (as in every graph reached by clean requests), the full recomputation returns and gives
  every node the state its prerequisites demand: a node that was in an escape state or INVALIDATED keeps
  exactly that state, recovered dynamic evidence waits in REVALIDATION_REQUIRED, and every other node gets the
  verdict of its edges and sets evaluated in the final graph. Nothing but states and readiness counters of
  nodes changes.\<close>

theorem recompute_all_verdicts:
  assumes "graph_wf g" and "index_exact g" and "acyclic_graph g" and "members_local g"
    and "iteration_ok it" and "\<forall>i. sets_in_range g i"
  shows "\<exists>g'. recompute_all_locked it g = Some g' \<and>
    um_keys (gr_nodes g') = um_keys (gr_nodes g) \<and> gr_edges g' = gr_edges g \<and> gr_sets g' = gr_sets g \<and>
    gr_sources g' = gr_sources g \<and> gr_out_edges g' = gr_out_edges g \<and> gr_in_edges g' = gr_in_edges g \<and>
    gr_node_sets g' = gr_node_sets g \<and> gr_epoch g' = gr_epoch g \<and> gr_adapter g' = gr_adapter g \<and>
    (\<forall>i n. find_node g i = Some n \<longrightarrow> (\<exists>n'. find_node g' i = Some n' \<and> durable n' = durable n \<and>
       nd_state n' = (if escape_state (nd_state n) \<or> nd_state n = RS_INVALIDATED then nd_state n
                      else if gated n then RS_REVALIDATION_REQUIRED else node_verdict g' i n')))"
proof (rule recompute_all_settles[OF assms(1,2,5,3,4)])
  fix g'
  assume r: "recompute_all_locked it g = Some g'" "\<forall>i. settled g' i" and fr: "same_frame g g'"
    and k: "um_keys (gr_nodes g') = um_keys (gr_nodes g)"
    and d: "\<And>j. map_option durable (find_node g' j) = map_option durable (find_node g j)"
  obtain "is" where "is": "g' = recompute_nodes is g" using recompute_all_form[OF r(1)] by blast
  have range: "sets_in_range g' i" for i
    using assms(6) fr by (simp add: sets_in_range_def active_sets_def same_frame_def)
  have "\<exists>n'. find_node g' i = Some n' \<and> durable n' = durable n \<and>
      nd_state n' = (if escape_state (nd_state n) \<or> nd_state n = RS_INVALIDATED then nd_state n
                     else if gated n then RS_REVALIDATION_REQUIRED else node_verdict g' i n')"
    if n: "find_node g i = Some n" for i n
  proof -
    obtain n' where n': "find_node g' i = Some n'" "durable n' = durable n"
      using d[of i] n by (cases "find_node g' i") auto
    have st: "recomputed_state g' i n' = nd_state n'" using r(2) n'(1) by (auto simp: settled_def split: option.splits)
    have gate: "gated n' = gated n" by (subst durable_gated[symmetric]) (simp add: n'(2) durable_gated)
    show ?thesis
    proof (cases "escape_state (nd_state n) \<or> nd_state n = RS_INVALIDATED")
      case True
      then have "sticky n" by (auto simp: sticky_def)
      from recompute_nodes_sticky[OF n this, of "is"] n' True show ?thesis by (auto simp: "is")
    next
      case False
      then have "\<not> escape_state (nd_state n') \<and> nd_state n' \<noteq> RS_INVALIDATED"
        using recompute_nodes_awake[OF n, of "is"] n'(1) by (auto simp: "is")
      with st n' False gate show ?thesis
        by (auto simp: recomputed_state_def derived_state_verdict[OF range] split: if_splits)
    qed
  qed
  moreover have "gr_edges g' = gr_edges g" "gr_sets g' = gr_sets g" "gr_sources g' = gr_sources g"
    "gr_out_edges g' = gr_out_edges g" "gr_in_edges g' = gr_in_edges g" "gr_node_sets g' = gr_node_sets g"
    "gr_epoch g' = gr_epoch g" "gr_adapter g' = gr_adapter g"
    by (simp_all add: "is")
  ultimately show ?thesis using r(1) k by (intro exI[of _ g'] conjI allI impI) assumption+
qed

theorem recompute_all_verdicts_witness:
  "\<exists>g'. recompute_all_locked sample_it (chain_with RS_FAILED) = Some g' \<and>
    gr_out_edges g' = gr_out_edges (chain_with RS_FAILED) \<and>
    readiness g' (Strong 1) = RS_FAILED \<and> readiness g' (Strong 4) = RS_UNKNOWN \<and>
    (\<exists>n'. find_node g' (Strong 2) = Some n' \<and> nd_state n' = node_verdict g' (Strong 2) n')"
proof -
  obtain g' where r: "recompute_all_locked sample_it (chain_with RS_FAILED) = Some g'"
    "um_keys (gr_nodes g') = um_keys (gr_nodes (chain_with RS_FAILED))"
    "gr_out_edges g' = gr_out_edges (chain_with RS_FAILED)"
    and st: "\<And>i n. find_node (chain_with RS_FAILED) i = Some n \<Longrightarrow> \<exists>n'. find_node g' i = Some n' \<and> durable n' = durable n \<and>
       nd_state n' = (if escape_state (nd_state n) \<or> nd_state n = RS_INVALIDATED then nd_state n
                      else if gated n then RS_REVALIDATION_REQUIRED else node_verdict g' i n')"
    using recompute_all_verdicts[of "chain_with RS_FAILED" sample_it] chain_clean[of RS_FAILED]
    by (auto simp: clean_inv_def core_inv_def sets_local_members chain_sets_in_range)
  have "find_node g' (Strong 4) = None"
    using um.keys_find[of "Strong 4" "gr_nodes g'"] um.keys_find[of "Strong 4" "gr_nodes (chain_with RS_FAILED)"]
    by (simp add: r(2))
  moreover have "\<exists>n'. find_node g' (Strong 1) = Some n' \<and> nd_state n' = RS_FAILED"
    using st[of "Strong 1"] by (auto simp: escape_state_def)
  moreover have "\<exists>n'. find_node g' (Strong 2) = Some n' \<and> nd_state n' = node_verdict g' (Strong 2) n'"
    using st[of "Strong 2"] by (auto simp: escape_state_def gated_def)
  ultimately show ?thesis using r(1,3) by (auto simp: readiness_def)
qed

text \<open>C3: The accumulating evaluation of a node (sets first, then the inbound edges outside the active
  sets, flags and blockers threaded through) computes the declarative verdict: BLOCKED if something
  fails hard, else STALE (BLOCKED for gates) if a lineage is superseded, else DEGRADED if something
  optional falls short, else DECLARED without an own generation, else READY.\<close>

theorem evaluation_refines_verdict:
  assumes "sets_in_range g i"
  shows "derived_state n (eval_node g i) = node_verdict g i n"
  by (rule derived_state_verdict[OF assms])

theorem evaluation_refines_verdict_witness:
  "derived_state (chain_node (Strong 3) NK_SERVICE RS_READY) (eval_node chain_graph (Strong 3)) =
   node_verdict chain_graph (Strong 3) (chain_node (Strong 3) NK_SERVICE RS_READY)"
  unfolding chain_graph_def by (rule evaluation_refines_verdict[OF chain_sets_in_range])

text \<open>C6: Evaluated on fresh flags, an edge is READY when its producer exists and meets the generation, level and
  evidence constraints; and a required edge is also READY, with the stale flag raised, when only the level
  is missed and the producer is STALE or SUPERSEDED. An optional edge that falls short is DEGRADED. A required
  one is BLOCKED when its producer is missing, when the generation is not met and not merely advanced past the
  pinned one, when the level is missed by a producer that is not of a superseded lineage, or when evidence is
  missing; a pinned generation that the producer has advanced past is DEGRADED and stale. The edge is satisfied
  exactly when the outcome is READY and the stale flag is down.\<close>

theorem edge_outcome:
  "fst (eval_edge_locked g e empty_acc) =
     (case find_node g (ed_producer_id e) of
        None \<Rightarrow> if edge_required e then OC_BLOCKED else OC_DEGRADED
      | Some p \<Rightarrow>
          if generation_ok e p \<and> level_ok e p \<and> evidence_ok g e p then OC_READY
          else if \<not> edge_required e then OC_DEGRADED
          else if \<not> generation_ok e p \<and> \<not> generation_advanced e p \<or> \<not> level_ok e p \<and> \<not> lineage_stale p \<or>
             \<not> evidence_ok g e p then OC_BLOCKED
          else if \<not> generation_ok e p then OC_DEGRADED
          else OC_READY) \<and>
   ea_stale (snd (eval_edge_locked g e empty_acc)) =
     (case find_node g (ed_producer_id e) of
        None \<Rightarrow> False
      | Some p \<Rightarrow> \<not> generation_ok e p \<and> generation_advanced e p \<or>
          edge_required e \<and> \<not> level_ok e p \<and> lineage_stale p) \<and>
   (edge_satisfied g e \<longleftrightarrow> fst (eval_edge_locked g e empty_acc) = OC_READY \<and>
     \<not> ea_stale (snd (eval_edge_locked g e empty_acc)))"
proof (cases "find_node g (ed_producer_id e)")
  case None
  then show ?thesis
    by (simp add: eval_edge_outcome eval_edge_flags empty_acc_def edge_hard_def edge_soft_def edge_stale_def edge_satisfied_def)
next
  case (Some p)
  have "fst (eval_edge_locked g e empty_acc) =
      (if edge_hard g e then OC_BLOCKED else if edge_soft g e then OC_DEGRADED else OC_READY)"
    using edge_hard_required[of g e] by (auto simp: eval_edge_outcome eval_edge_flags empty_acc_def)
  moreover have "ea_stale (snd (eval_edge_locked g e empty_acc)) = edge_stale g e"
    by (simp add: eval_edge_flags empty_acc_def)
  ultimately show ?thesis
    using Some by (auto simp: edge_satisfied_def edge_hard_def edge_soft_def edge_stale_def)
qed

theorem edge_outcome_witness:
  "fst (eval_edge_locked (chain_with RS_STALE) (sample_edge (Strong 10) (Strong 1) (Strong 2)) empty_acc) = OC_READY \<and>
   ea_stale (snd (eval_edge_locked (chain_with RS_STALE) (sample_edge (Strong 10) (Strong 1) (Strong 2)) empty_acc)) \<and>
   \<not> edge_satisfied (chain_with RS_STALE) (sample_edge (Strong 10) (Strong 1) (Strong 2))"
  using edge_outcome[of "chain_with RS_STALE" "sample_edge (Strong 10) (Strong 1) (Strong 2)"]
  by (simp add: generation_ok_def level_ok_def evidence_ok_def lineage_stale_def edge_required_def
      meets_readiness_constraint_def default_predicate_def Let_def)

text \<open>C7: A dependency set is READY exactly when its operator holds of its active members: ALL_OF of all of
  them, ANY_OF of at least one, AT_LEAST_N of at least n, OPTIONAL_GROUP always; a failing set blocks the
  consumer, and a satisfied one leaves no blocker behind. Two comments of the code say otherwise and the code
  does not do it: an optional member that falls short fails ALL_OF (the comment excepts "a pure optional
  degrade"), and \<open>at_least_n\<close> has no effect on any operator but AT_LEAST_N (its comment names ANY_OF too).\<close>

theorem set_outcome:
  assumes "set_in_range s"
  shows "fst (eval_set_locked g s acc) = (if set_ok g s then OC_READY else OC_BLOCKED) \<and>
    ea_blocked (fst (snd (eval_set_locked g s acc))) = (ea_blocked acc \<or> \<not> set_ok g s) \<and>
    ea_stale (fst (snd (eval_set_locked g s acc))) = (ea_stale acc \<or> set_stale g s) \<and>
    (set_ok g s \<longrightarrow> ea_blockers (fst (snd (eval_set_locked g s acc))) = ea_blockers acc) \<and>
    (ds_op s = SO_ALL_OF \<and> (\<exists>e \<in> set (member_edges g s). \<not> edge_required e \<and> edge_soft g e) \<longrightarrow>
       fst (eval_set_locked g s acc) = OC_BLOCKED) \<and>
    (ds_op s \<noteq> SO_AT_LEAST_N \<longrightarrow> eval_set_locked g (s\<lparr>ds_at_least_n := k\<rparr>) acc = eval_set_locked g s acc)"
proof -
  have "\<not> set_ok g s"
    if "ds_op s = SO_ALL_OF" "e \<in> set (member_edges g s)" "\<not> edge_required e" "edge_soft g e" for e
    using that by (auto simp: set_ok_def member_ok_def list_all_iff)
  moreover have "eval_set_locked g (s\<lparr>ds_at_least_n := k\<rparr>) acc = eval_set_locked g s acc" if "ds_op s \<noteq> SO_AT_LEAST_N"
    using that by (cases "ds_op s") (simp_all add: eval_set_locked_def set_satisfied_def Let_def)
  ultimately show ?thesis using eval_set_flags[OF assms] eval_set_blockers[OF assms] by auto
qed

theorem set_outcome_witness:
  "fst (eval_set_locked chain_graph chain_set empty_acc) = OC_READY \<and>
    \<not> ea_blocked (fst (snd (eval_set_locked chain_graph chain_set empty_acc))) \<and>
    ea_blockers (fst (snd (eval_set_locked chain_graph chain_set empty_acc))) = []"
proof -
  have "set_ok chain_graph chain_set"
    by (simp add: set_ok_def member_edges_def List.map_filter_simps chain_graph_def member_ok_def
        edge_hard_def edge_soft_def generation_ok_def level_ok_def evidence_ok_def default_predicate_def
        meets_readiness_constraint_def edge_required_def Let_def)
  then show ?thesis
    using set_outcome[of chain_set chain_graph empty_acc] by (simp add: set_in_range_def empty_acc_def)
qed

text \<open>C8: A recomputation, in whatever order, never leaves RETIRED, MISSING, FAILED, RECOVERING or
  INVALIDATED, and never opens the revalidation gate of recovered dynamic evidence.\<close>

theorem recompute_never_revives:
  assumes "find_node g i = Some n"
    and "escape_state (nd_state n) \<or> nd_state n = RS_INVALIDATED \<or>
         (gated n \<and> nd_state n = RS_REVALIDATION_REQUIRED)"
  shows "\<exists>m. find_node (recompute_nodes is g) i = Some m \<and> nd_state m = nd_state n"
  using recompute_nodes_sticky[OF assms(1), of "is"] assms(2) by (auto simp: sticky_def)

theorem recompute_never_revives_witness:
  "\<exists>m. find_node (recompute_nodes [Strong 1, Strong 2, Strong 1] (chain_with RS_RETIRED)) (Strong 1) = Some m \<and>
     nd_state m = nd_state (chain_node (Strong 1) NK_ARTIFACT RS_RETIRED)"
  by (rule recompute_never_revives) (simp_all add: escape_state_def)

section \<open>Structure\<close>

text \<open>C9: The reachability test of \<open>add_edge\<close> is exact: on a soundly indexed graph it reports a cycle
  if and only if the producer already depends, directly or transitively, on the consumer (or is it).\<close>

theorem cycle_test_exact:
  assumes "index_sound g"
  shows "would_create_cycle_locked g producer consumer \<longleftrightarrow> (consumer, producer) \<in> (dep_rel g)\<^sup>*"
  by (rule would_create_cycle_iff[OF assms])

theorem cycle_test_exact_witness:
  "would_create_cycle_locked chain_graph (Strong 3) (Strong 1) \<longleftrightarrow>
     (Strong 1, Strong 3) \<in> (dep_rel chain_graph)\<^sup>*"
  unfolding chain_graph_def by (rule cycle_test_exact[OF chain_sound])

text \<open>C10: As long as no edge is re-activated, every reachable graph is acyclic, whatever the
  interleaving of requests, registrations, epoch changes, recomputations and adapter changes.\<close>

theorem reachable_graphs_acyclic:
  assumes "reachable no_reactivation it g"
  shows "acyclic_graph g"
  by (rule reachable_acyclic[OF assms])

theorem reachable_graphs_acyclic_witness:
  "acyclic_graph (snd (the (submit (sample_cred, DeclareNode (Strong 1) NK_DATA ''d'' False) registered_graph)))"
proof (rule reachable_graphs_acyclic)
  show "reachable no_reactivation sample_it
      (snd (the (submit (sample_cred, DeclareNode (Strong 1) NK_DATA ''d'' False) registered_graph)))"
    by (rule re_step[OF registered_reachable],
        rule fs_request[where rq = "(sample_cred, DeclareNode (Strong 1) NK_DATA ''d'' False)"])
      (simp_all add: no_reactivation_def submit_def prod_eq_iff)
qed

text \<open>C11: Every reachable graph is well formed: map keys are the ids of their values and valid, edges
  join two distinct nodes of the graph, set owners exist, the size caps hold, the out-, in- and
  set-indexes list only what is there and every active edge and every set is listed.\<close>

theorem reachable_graphs_wf:
  assumes "reachable P it g"
  shows "core_inv g"
  by (rule reachable_core_inv[OF assms])

theorem reachable_graphs_wf_witness: "core_inv built_graph"
  by (rule reachable_graphs_wf[OF built_reachable(1)])

text \<open>C12: \<open>Graph::acyclic\<close> is right on every well-formed graph whose indexes list each active edge once: the
  in-degree loop ends, and visits every node if and only if the dependency relation is acyclic. So it answers
  true on every graph reached by clean requests. The hypothesis on the indexes is needed: an edge that is added
  inactive and activated later is listed twice, and requests of that kind reach a graph that is cyclic and of
  which the query says, in every iteration order, that it is acyclic.\<close>

theorem acyclic_query_exact:
  assumes "iteration_ok it"
  shows "(graph_wf g \<and> index_exact g \<longrightarrow> acyclic_query it g = Some (acyclic_graph g)) \<and>
    (reachable clean it' g \<longrightarrow> acyclic_query it g = Some True) \<and>
    (\<exists>h. reachable (\<lambda>_ _. True) it h \<and> acyclic_query it h = Some True \<and> \<not> acyclic_graph h)"
proof -
  have "graph_wf g \<and> index_exact g \<and> acyclic_graph g" if "reachable clean it' g"
    using reachable_clean[OF that] by (simp add: clean_inv_def core_inv_def)
  then show ?thesis
    using acyclic_query_decides[OF _ _ assms, of g] misled_reachable misled_query[OF assms] misled_cyclic by metis
qed

theorem acyclic_query_exact_witness:
  "acyclic_query sample_it chain_graph = Some (acyclic_graph chain_graph) \<and>
   acyclic_query sample_it built_graph = Some True"
  using acyclic_query_exact[OF sample_it_ok, of chain_graph] acyclic_query_exact[OF sample_it_ok, of built_graph]
    built_reachable(1) chain_core[of RS_READY] chain_exact[of RS_READY]
  by (auto simp: chain_graph_def core_inv_def)

text \<open>C13: The closure recomputation recomputes exactly the nodes downstream of its valid roots, each
  once, and leaves every other node of the graph, and everything that is not a node, untouched.\<close>

theorem closure_scope:
  assumes "index_sound g"
  shows "\<exists>order. recompute_closure_locked roots g = recompute_nodes order g \<and> distinct order \<and>
    set order = (dep_rel g)\<^sup>* `` {r \<in> set roots. valid r} \<and>
    (\<forall>j. j \<notin> set order \<longrightarrow> find_node (recompute_closure_locked roots g) j = find_node g j) \<and>
    same_frame g (recompute_closure_locked roots g)"
proof (intro exI conjI)
  show "recompute_closure_locked roots g = recompute_nodes (topology_order_locked g roots) g"
    by (rule recompute_closure_alt)
  show "distinct (topology_order_locked g roots)" by (rule topology_order_spec(2))
  show set: "set (topology_order_locked g roots) = (dep_rel g)\<^sup>* `` {r \<in> set roots. valid r}"
    by (simp add: topology_order_spec succ_rel_dep_rel[OF assms])
  show "\<forall>j. j \<notin> set (topology_order_locked g roots) \<longrightarrow>
      find_node (recompute_closure_locked roots g) j = find_node g j"
    using recompute_closure_other[of _ g roots] by (simp add: topology_order_spec)
  show "same_frame g (recompute_closure_locked roots g)" by (simp add: same_frame_def)
qed

theorem closure_scope_witness:
  "\<exists>order. recompute_closure_locked [Strong 2] chain_graph = recompute_nodes order chain_graph \<and>
    distinct order \<and>
    set order = (dep_rel chain_graph)\<^sup>* `` {r \<in> set [Strong 2]. valid r} \<and>
    (\<forall>j. j \<notin> set order \<longrightarrow>
       find_node (recompute_closure_locked [Strong 2] chain_graph) j = find_node chain_graph j) \<and>
    same_frame chain_graph (recompute_closure_locked [Strong 2] chain_graph)"
  unfolding chain_graph_def by (rule closure_scope[OF chain_sound])

section \<open>Authority\<close>

text \<open>C14: Requests whose credentials the graph does not accept leave no trace: running an interleaving
  of requests gives the same graph as running only the authorised ones, and the run always returns.\<close>

theorem stale_requests_leave_no_trace:
  assumes "core_inv g"
  shows "run_acts submit (filter (\<lambda>rq. authorised rq g) rqs) g = run_acts submit rqs g \<and>
    run_acts submit rqs g \<noteq> None"
  using requests.run_filter[OF assms] requests.run_returns[OF assms, of rqs] by auto

theorem stale_requests_leave_no_trace_witness:
  "run_acts submit (filter (\<lambda>rq. authorised rq chain_graph)
       [(sample_cred\<lparr>cr_boot := Strong 9\<rparr>, RetireNode (Strong 1)), (sample_cred, MarkMissing (Strong 2))])
       chain_graph =
   run_acts submit
       [(sample_cred\<lparr>cr_boot := Strong 9\<rparr>, RetireNode (Strong 1)), (sample_cred, MarkMissing (Strong 2))]
       chain_graph \<and>
   run_acts submit
       [(sample_cred\<lparr>cr_boot := Strong 9\<rparr>, RetireNode (Strong 1)), (sample_cred, MarkMissing (Strong 2))]
       chain_graph \<noteq> None"
  by (rule stale_requests_leave_no_trace) (simp add: chain_graph_def chain_core)

lemma epoch_advance_fences:
  assumes "reachable P it g" and "advance_epoch new_epoch g = (OC_ACCEPTED, g')"
  shows "\<not> authorised rq g'"
proof -
  have inv: "authority_inv g" by (rule reachable_authority_inv[OF assms(1)])
  have g': "gr_sources g' = gr_sources g" "gr_epoch g' = new_epoch" "gr_epoch g < new_epoch"
    using assms(2) by (auto simp: advance_epoch_def less_strong_def split: if_splits)
  have "sr_epoch r < new_epoch" if "um_find s (gr_sources g) = Some r" for s r
    using inv that g'(3) unfolding authority_inv_def by (meson le_less_trans)
  then show ?thesis
    unfolding authorised_def authority_ok_def g' by (fastforce split: option.splits if_splits)
qed

lemma new_boot_fences_old:
  assumes "register_source s b e g = (OC_ACCEPTED, g')" and "cr_source (fst rq) = s" and "cr_boot (fst rq) \<noteq> b"
  shows "\<not> authorised rq g'"
proof -
  have "\<exists>r. um_find s (gr_sources g') = Some r \<and> sr_boot r = b"
    using assms(1) by (auto simp: register_source_def split: if_splits option.splits)
  then show ?thesis using assms(2,3) by (auto simp: authorised_def authority_ok_def)
qed

text \<open>C15: Epochs and boots fence. After an accepted epoch advance every request of every source is
  refused, whatever credentials it presents, until the source registers again. After an accepted
  registration of a source with a boot, every request that presents another boot of it is refused.
  A refused request changes nothing.\<close>

theorem authority_fences:
  assumes "reachable P it g"
  shows "(\<forall>epoch g' rq. advance_epoch epoch g = (OC_ACCEPTED, g') \<longrightarrow>
       (\<exists>r. r \<noteq> OC_ACCEPTED \<and> submit rq g' = Some (r, g'))) \<and>
    (\<forall>s b e g' rq. register_source s b e g = (OC_ACCEPTED, g') \<and> cr_source (fst rq) = s \<and>
       cr_boot (fst rq) \<noteq> b \<longrightarrow> (\<exists>r. r \<noteq> OC_ACCEPTED \<and> submit rq g' = Some (r, g')))"
  using epoch_advance_fences[OF assms] new_boot_fences_old requests.refuses by blast

theorem authority_fences_witness:
  "(\<exists>r. r \<noteq> OC_ACCEPTED \<and> submit (sample_cred, RetireNode (Strong 1)) (registered_graph\<lparr>gr_epoch := Strong 5\<rparr>) =
      Some (r, registered_graph\<lparr>gr_epoch := Strong 5\<rparr>)) \<and>
   (\<exists>r. r \<noteq> OC_ACCEPTED \<and> submit (sample_cred, RetireNode (Strong 1))
        (snd (register_source (Strong 7) (Strong 9) (Strong 1) registered_graph)) =
      Some (r, snd (register_source (Strong 7) (Strong 9) (Strong 1) registered_graph)))"
proof -
  have "advance_epoch (Strong 5) registered_graph = (OC_ACCEPTED, registered_graph\<lparr>gr_epoch := Strong 5\<rparr>)"
    by (simp add: advance_epoch_def registered_graph_def register_source_def empty_graph_def word_le_nat_alt)
  moreover have "register_source (Strong 7) (Strong 9) (Strong 1) registered_graph =
      (OC_ACCEPTED, snd (register_source (Strong 7) (Strong 9) (Strong 1) registered_graph))"
    by (simp add: register_source_def registered_graph_def empty_graph_def)
  moreover have "cr_source (fst (sample_cred, RetireNode (Strong 1))) = Strong 7"
    "cr_boot (fst (sample_cred, RetireNode (Strong 1))) \<noteq> Strong 9"
    by (simp_all add: sample_cred_def)
  ultimately show ?thesis
    using authority_fences[OF registered_reachable[where P = clean and it = sample_it]] by blast
qed

text \<open>C16: Every mutation is atomic and keeps the invariant: it returns, a refusal leaves the graph as
  it was, and an accepted mutation made with accepted credentials leads to a well-formed graph with
  the same sources and epoch.\<close>

theorem mutations_atomic:
  assumes "core_inv g"
  shows "\<exists>r g'. perform c s b e g = Some (r, g') \<and> core_inv g' \<and> (r \<noteq> OC_ACCEPTED \<longrightarrow> g' = g) \<and>
    (r = OC_ACCEPTED \<longrightarrow> authority_ok g s b e = None) \<and>
    gr_sources g' = gr_sources g \<and> gr_epoch g' = gr_epoch g"
proof -
  obtain r g' where p: "perform c s b e g = Some (r, g')" using perform_returns[OF assms] by fastforce
  have "(r \<noteq> OC_ACCEPTED \<longrightarrow> g' = g) \<and> (r = OC_ACCEPTED \<longrightarrow> authority_ok g s b e = None)"
    using p by (cases rule: perform_cases) auto
  with p perform_core_inv[OF p assms] perform_authority[OF p] show ?thesis by blast
qed

theorem mutations_atomic_witness:
  "\<exists>r g'. perform (RemoveEdge (Strong 11)) (Strong 7) (Strong 8) (Strong 1) chain_graph = Some (r, g') \<and>
    core_inv g' \<and> (r \<noteq> OC_ACCEPTED \<longrightarrow> g' = chain_graph) \<and>
    (r = OC_ACCEPTED \<longrightarrow> authority_ok chain_graph (Strong 7) (Strong 8) (Strong 1) = None) \<and>
    gr_sources g' = gr_sources chain_graph \<and> gr_epoch g' = gr_epoch chain_graph"
  by (rule mutations_atomic) (simp add: chain_graph_def chain_core)

section \<open>Generations and evidence\<close>

text \<open>An authorised \<open>publish_generation\<close> of a newer generation is accepted and installs it: it
  becomes current and the last of the history, the previous current generation (if any) becomes
  superseded, provenance and evidence are refreshed; the durable facts of all other nodes are kept.\<close>

theorem publish_generation_installs:
  assumes "authority_ok g s b e = None" and "find_node g i = Some n" and "valid gen"
    and "\<not> (valid (nd_current_generation n) \<and> gen \<le> nd_current_generation n)"
    and "length (nd_generation_history n) < kMaxGraphNodes"
  shows "\<exists>g' n'. publish_generation i gen s b e g = (OC_ACCEPTED, g') \<and> find_node g' i = Some n' \<and>
    nd_current_generation n' = gen \<and> nd_generation_history n' = nd_generation_history n @ [gen] \<and>
    nd_superseded_generations n' = nd_superseded_generations n @
      (if valid (nd_current_generation n) then [nd_current_generation n] else []) \<and>
    nd_origin_source n' = s \<and> nd_origin_boot n' = b \<and>
    nd_recovered_evidence n' = DE_FRESH \<and> \<not> nd_ever_invalidated n' \<and>
    (\<forall>j. j \<noteq> i \<longrightarrow> map_option durable (find_node g' j) = map_option durable (find_node g j))"
proof -
  let ?n = "install_generation gen s b (n\<lparr>nd_superseded_generations := nd_superseded_generations n @
      (if valid (nd_current_generation n) then [nd_current_generation n] else [])\<rparr>)"
  let ?g' = "recompute_closure_locked [i] (put_node i ?n g)"
  have p: "publish_generation i gen s b e g = (OC_ACCEPTED, ?g')"
    using assms by (auto simp: publish_generation_def Let_def less_eq_strong_def)
  have d: "map_option durable (find_node ?g' j) =
      (if j = i then Some (durable ?n) else map_option durable (find_node g j))" for j
    by (rule closure_put_durable)
  then obtain n' where n': "find_node ?g' i = Some n'" "durable n' = durable ?n"
    using d[of i] by (cases "find_node ?g' i") auto
  have f: "nd_current_generation n' = nd_current_generation ?n"
    "nd_generation_history n' = nd_generation_history ?n"
    "nd_superseded_generations n' = nd_superseded_generations ?n"
    "nd_origin_source n' = nd_origin_source ?n" "nd_origin_boot n' = nd_origin_boot ?n"
    "nd_recovered_evidence n' = nd_recovered_evidence ?n" "nd_ever_invalidated n' = nd_ever_invalidated ?n"
    using n'(2) by (cases n'; cases ?n; simp add: durable_def)+
  show ?thesis
    by (rule exI[of _ ?g'], rule exI[of _ n']) (use p n'(1) f d in \<open>simp add: install_generation_def\<close>)
qed

theorem publish_generation_installs_witness:
  "\<exists>g' n'. publish_generation (Strong 1) (Strong 4) (Strong 7) (Strong 8) (Strong 1) chain_graph =
      (OC_ACCEPTED, g') \<and> find_node g' (Strong 1) = Some n' \<and>
    nd_current_generation n' = Strong 4 \<and>
    nd_generation_history n' = nd_generation_history (chain_node (Strong 1) NK_ARTIFACT RS_READY) @ [Strong 4] \<and>
    nd_superseded_generations n' = nd_superseded_generations (chain_node (Strong 1) NK_ARTIFACT RS_READY) @
      (if valid (nd_current_generation (chain_node (Strong 1) NK_ARTIFACT RS_READY))
       then [nd_current_generation (chain_node (Strong 1) NK_ARTIFACT RS_READY)] else []) \<and>
    nd_origin_source n' = Strong 7 \<and> nd_origin_boot n' = Strong 8 \<and>
    nd_recovered_evidence n' = DE_FRESH \<and> \<not> nd_ever_invalidated n' \<and>
    (\<forall>j. j \<noteq> Strong 1 \<longrightarrow>
       map_option durable (find_node g' j) = map_option durable (find_node chain_graph j))"
  by (rule publish_generation_installs)
    (simp_all add: chain_graph_def strong_le_iff word_le_nat_alt kMaxGraphNodes_def)

text \<open>Publishing generations never moves a node backward: whatever is published by whomever, the
  history of every node stays strictly increasing with the current generation at its end.\<close>

theorem publish_generation_monotone:
  assumes "histories_ok g" and "publish_generation i gen s b e g = (r, g')"
  shows "histories_ok g'"
proof (cases "r = OC_ACCEPTED")
  case False
  then have "g' = g" using assms(2)
    by (auto simp: publish_generation_def Let_def split: option.splits if_splits)
  then show ?thesis using assms(1) by simp
next
  case True
  let ?sup = "\<lambda>n. if valid (nd_current_generation n)
      then nd_superseded_generations n @ [nd_current_generation n] else nd_superseded_generations n"
  from True obtain n where n: "find_node g i = Some n" "valid gen"
    and newer: "\<not> (valid (nd_current_generation n) \<and> gen \<le> nd_current_generation n)"
    and g': "g' = recompute_closure_locked [i] (put_node i
        (install_generation gen s b (n\<lparr>nd_superseded_generations := ?sup n\<rparr>)) g)"
    using assms(2) authority_ok_refuses[of g s b e]
    by (auto simp: publish_generation_def Let_def less_eq_strong_def split: option.splits if_splits)
  have old: "history_ok n" using assms(1) n(1) by (simp add: histories_ok_def)
  have "sorted_wrt (<) (nd_generation_history n @ [gen])"
  proof (cases "nd_generation_history n = []")
    case False
    with old have "nd_current_generation n = last (nd_generation_history n)" "valid (nd_current_generation n)"
      unfolding history_ok_def by (metis)+
    with newer have "last (nd_generation_history n) < gen" by (metis not_le)
    with old False show ?thesis by (intro sorted_wrt_snoc_last) (simp_all add: history_ok_def)
  qed simp
  then have new: "history_ok (install_generation gen s b (n\<lparr>nd_superseded_generations := ?sup n\<rparr>))"
    using n(2) by (simp add: history_ok_def install_generation_def)
  have "histories_ok (put_node i (install_generation gen s b (n\<lparr>nd_superseded_generations := ?sup n\<rparr>)) g)"
    using assms(1) new by (auto simp: histories_ok_def)
  then show ?thesis unfolding g' by (rule histories_ok_durable[OF recompute_closure_durable])
qed

theorem publish_generation_monotone_witness:
  "histories_ok (snd (publish_generation (Strong 1) (Strong 4) (Strong 7) (Strong 8) (Strong 1) chain_graph))"
  by (rule publish_generation_monotone[where g = chain_graph, OF _ prod.collapse[symmetric]])
    (auto simp: histories_ok_def history_ok_def chain_graph_def split: if_splits)

text \<open>Recovery never silently revalidates dynamic evidence: after an accepted \<open>mark_recovered\<close> a
  node with dynamic evidence is in REVALIDATION_REQUIRED, and no recomputation of whatever nodes in
  whatever order gets it out of there.\<close>

lemma recovery_keeps_gate:
  assumes "authority_ok g s b e = None" and "find_node g i = Some n" and "nd_dynamic_evidence n"
  shows "\<exists>g'. mark_recovered i s b e g = (OC_ACCEPTED, g') \<and>
    (\<forall>is. \<exists>m. find_node (recompute_nodes is g') i = Some m \<and> nd_state m = RS_REVALIDATION_REQUIRED)"
proof -
  let ?n = "n\<lparr>nd_ever_invalidated := False, nd_recovered_evidence := DE_REVALIDATION_REQUIRED,
              nd_state := RS_REVALIDATION_REQUIRED\<rparr>"
  let ?h = "put_node i ?n g"
  let ?g' = "recompute_closure_locked [i] ?h"
  have "mark_recovered i s b e g = (OC_ACCEPTED, ?g')"
    using assms by (simp add: mark_recovered_def Let_def)
  moreover have "\<exists>m. find_node (recompute_nodes is ?g') i = Some m \<and> nd_state m = RS_REVALIDATION_REQUIRED" for "is"
  proof -
    have "sticky ?n" using assms(3) by (simp add: sticky_def gated_def)
    moreover have "find_node ?h i = Some ?n" by simp
    ultimately obtain m where "find_node (recompute_nodes (topology_order_locked ?h [i] @ is) ?h) i = Some m"
      "nd_state m = nd_state ?n"
      using recompute_nodes_sticky by blast
    then show ?thesis by (simp add: recompute_closure_alt recompute_nodes_append)
  qed
  ultimately show ?thesis by blast
qed

section \<open>Invalidation\<close>

text \<open>C17: An authorised invalidation puts the seed into INVALIDATED and writes the invalidation facts
  (flag, reason, bumped generation) of the seed and of exactly the nodes in the scope of the event: none for
  DIRECT, the nodes within the depth limit for BOUNDED (for limits whose successor does not wrap), all nodes
  downstream otherwise, along edges that are not optional unless the policy says so. The durable facts of all
  other nodes are kept. Two comments of the policy say otherwise: \<open>max_depth\<close> 0 does not mean unlimited for
  BOUNDED but 4096 steps, and \<open>degrade_optional_dependents\<close> and \<open>cascade_blocked\<close> have no effect.\<close>

theorem invalidation_scope_exact:
  assumes "index_sound g" and "bounded_in_range policy"
    and "authority_ok g s b e = None" and "find_node g i = Some n"
  shows "\<exists>g'. invalidate_node i reason policy s b e g = (OC_ACCEPTED, g') \<and>
    (\<exists>m. find_node g' i = Some m \<and> nd_state m = RS_INVALIDATED) \<and>
    (\<forall>j. map_option durable (find_node g' j) =
       (if j = i \<or> j \<in> event_scope g policy i
        then map_option (durable \<circ> mark_invalidated reason) (find_node g j)
        else map_option durable (find_node g j))) \<and>
    (ip_mode policy = IM_BOUNDED \<and> ip_max_depth policy = 0 \<longrightarrow>
       event_scope g policy i = ball (event_rel g policy) i 4096 - {i}) \<and>
    invalidate_node i reason (policy\<lparr>ip_degrade_optional_dependents := x, ip_cascade_blocked := y\<rparr>) s b e g =
      (OC_ACCEPTED, g')"
proof -
  let ?h = "invalidate_seed i n reason policy g"
  let ?g' = "recompute_closure_locked [i] ?h"
  note find = invalidate_seed_find[OF assms(1,2,4), where reason = reason]
  have acc: "invalidate_node i reason policy s b e g = (OC_ACCEPTED, ?g')"
    using assms by (simp add: invalidate_node_def)
  moreover have "\<exists>m. find_node ?g' i = Some m \<and> nd_state m = RS_INVALIDATED"
    using recompute_nodes_sticky[of i ?h "mark_invalidated reason (n\<lparr>nd_state := RS_INVALIDATED\<rparr>)"
        "topology_order_locked ?h [i]"] find[where j = i]
    by (auto simp: recompute_closure_alt sticky_def mark_invalidated_def)
  moreover have "map_option durable (find_node ?g' j) =
       (if j = i \<or> j \<in> event_scope g policy i
        then map_option (durable \<circ> mark_invalidated reason) (find_node g j)
        else map_option durable (find_node g j))" for j
    using assms(4) by (simp add: recompute_closure_durable find option.map_comp)
      (simp add: durable_def mark_invalidated_def)
  moreover have "event_scope g policy i = ball (event_rel g policy) i 4096 - {i}"
    if "ip_mode policy = IM_BOUNDED" "ip_max_depth policy = 0"
    using that by (simp add: event_scope_def policy_depth_def kDefaultMaxTraversalDepth_def)
  ultimately show ?thesis
    by (intro exI[of _ ?g']) (simp add: invalidate_unread_flags)
qed

theorem invalidation_scope_exact_witness:
  "\<exists>g'. invalidate_node (Strong 1) IR_EXPLICIT
      \<lparr>ip_mode = IM_BOUNDED, ip_max_depth = 0, ip_propagate_through_optional = False,
       ip_degrade_optional_dependents = False, ip_cascade_blocked = False\<rparr>
      (Strong 7) (Strong 8) (Strong 1) chain_graph = (OC_ACCEPTED, g') \<and>
    (\<exists>m. find_node g' (Strong 1) = Some m \<and> nd_state m = RS_INVALIDATED)"
  using invalidation_scope_exact[of chain_graph "\<lparr>ip_mode = IM_BOUNDED, ip_max_depth = 0,
      ip_propagate_through_optional = False, ip_degrade_optional_dependents = False, ip_cascade_blocked = False\<rparr>"
      "Strong 7" "Strong 8" "Strong 1" "Strong 1" "chain_node (Strong 1) NK_ARTIFACT RS_READY" IR_EXPLICIT True True]
  by (auto simp: chain_graph_def chain_sound bounded_in_range_def policy_depth_def kDefaultMaxTraversalDepth_def)

end
