(* ===== verification/QueryProperties.thy ===== *)
theory QueryProperties
  imports Samples
begin

text \<open>
  The properties of the read-only queries: dependents and prerequisites, the affected closure, the
  recovery set, plan and frontier, explanations, and the names of the enumerations.
\<close>

section \<open>Walks\<close>

text \<open>C18: \<open>dependents\<close> and \<open>prerequisites\<close> return, without repetition, exactly the nodes that the
  node reaches along active edges forward, respectively backward: one step when not transitive, any
  positive number of steps otherwise, and never the node itself. The affected closure of a node lists,
  without repetition, exactly the nodes within the depth limit (4096 when the caller gives 0) along active
  edges, and only active edges that join two of them; the breadth-first walk meets each node by a shortest
  path, so the limit counts true distances.\<close>

theorem traversals_exact:
  assumes "index_sound g" and "find_node g i \<noteq> None"
  shows "set (dependents g i True) = (dep_rel g)\<^sup>* `` {i} - {i} \<and>
    set (dependents g i False) = dep_rel g `` {i} - {i} \<and>
    set (prerequisites g i True) = ((dep_rel g)\<inverse>)\<^sup>* `` {i} - {i} \<and>
    set (prerequisites g i False) = (dep_rel g)\<inverse> `` {i} - {i} \<and>
    distinct (dependents g i t) \<and> distinct (prerequisites g i t) \<and>
    set (ac_nodes (affected_closure_query g i d)) = ball (dep_rel g) i (unat (closure_cap d)) \<and>
    distinct (ac_nodes (affected_closure_query g i d)) \<and>
    distinct (ac_edges (affected_closure_query g i d)) \<and>
    (\<forall>j \<in> set (ac_edges (affected_closure_query g i d)).
       \<exists>e. find_edge g j = Some e \<and> ed_active e \<and>
         ed_producer_id e \<in> set (ac_nodes (affected_closure_query g i d)) \<and>
         ed_consumer_id e \<in> set (ac_nodes (affected_closure_query g i d)))"
proof -
  have "distinct (dependents g i t) \<and> distinct (prerequisites g i t)"
    using descendants_transitive[OF assms(1), of i True] descendants_direct[OF assms(1), of i True]
      ancestors_transitive[OF assms(1), of i True] ancestors_direct[OF assms(1), of i True]
    by (cases t) (simp_all add: dependents_def prerequisites_def)
  then show ?thesis
    using descendants_transitive[OF assms(1), of i True] descendants_direct[OF assms(1), of i True]
      ancestors_transitive[OF assms(1), of i True] ancestors_direct[OF assms(1), of i True]
      affected_closure_spec[OF assms, of d]
    by (simp add: dependents_def prerequisites_def affected_closure_query_def)
qed

theorem traversals_exact_witness:
  "set (dependents chain_graph (Strong 1) True) = (dep_rel chain_graph)\<^sup>* `` {Strong 1} - {Strong 1} \<and>
    set (prerequisites chain_graph (Strong 1) False) = (dep_rel chain_graph)\<inverse> `` {Strong 1} - {Strong 1} \<and>
    distinct (dependents chain_graph (Strong 1) True) \<and> distinct (prerequisites chain_graph (Strong 1) True) \<and>
    set (ac_nodes (affected_closure_query chain_graph (Strong 1) 1)) =
      ball (dep_rel chain_graph) (Strong 1) (unat (closure_cap 1)) \<and>
    set (ac_edges (affected_closure_query chain_graph (Strong 1) 1)) \<subseteq> {Strong 10, Strong 11}"
proof -
  have "index_sound chain_graph" "find_node chain_graph (Strong 1) \<noteq> None"
    using chain_sound by (simp_all add: chain_graph_def)
  note c = traversals_exact[OF this, of True 1]
  have "\<forall>j \<in> set (ac_edges (affected_closure_query chain_graph (Strong 1) 1)). \<exists>e. find_edge chain_graph j = Some e \<and>
      ed_active e \<and> ed_producer_id e \<in> set (ac_nodes (affected_closure_query chain_graph (Strong 1) 1)) \<and>
      ed_consumer_id e \<in> set (ac_nodes (affected_closure_query chain_graph (Strong 1) 1))"
    using c by (elim conjE) assumption
  then have "set (ac_edges (affected_closure_query chain_graph (Strong 1) 1)) \<subseteq> {Strong 10, Strong 11}"
    by (auto simp: chain_graph_def split: if_splits)
  then show ?thesis using c by (elim conjE, intro conjI) assumption+
qed

section \<open>Recovery\<close>

text \<open>C19: The recovery set and the recovery plan of a valid, existing seed both cover exactly the
  nodes downstream of the seed (itself included) whose state needs recovery, each once; every intent
  of the plan carries the node's kind, its invalidation reason, the action its state and kind call
  for, and the runtime that owns the kind.\<close>

theorem recovery_complete:
  assumes "index_sound g" and "find_node g seed \<noteq> None" and "valid seed"
  shows "set (recovery_set g seed) = {i. (seed, i) \<in> (dep_rel g)\<^sup>* \<and> needs_recovery_node g i} \<and>
    distinct (recovery_set g seed) \<and>
    set (map ri_node (recovery_plan g seed)) = set (recovery_set g seed) \<and>
    distinct (map ri_node (recovery_plan g seed)) \<and>
    (\<forall>r \<in> set (recovery_plan g seed). \<exists>n. find_node g (ri_node r) = Some n \<and>
       r = intent_for g (ri_node r) n)"
  using recovery_set_spec[OF assms] recovery_plan_spec[OF assms(1,3)] by simp

theorem recovery_complete_witness:
  "set (recovery_set (chain_with RS_MISSING) (Strong 1)) =
      {i. (Strong 1, i) \<in> (dep_rel (chain_with RS_MISSING))\<^sup>* \<and> needs_recovery_node (chain_with RS_MISSING) i} \<and>
    distinct (recovery_set (chain_with RS_MISSING) (Strong 1)) \<and>
    set (map ri_node (recovery_plan (chain_with RS_MISSING) (Strong 1))) =
      set (recovery_set (chain_with RS_MISSING) (Strong 1)) \<and>
    distinct (map ri_node (recovery_plan (chain_with RS_MISSING) (Strong 1))) \<and>
    set (recovery_plan (chain_with RS_MISSING) (Strong 1)) \<subseteq>
      {r. \<exists>n. find_node (chain_with RS_MISSING) (ri_node r) = Some n \<and>
       r = intent_for (chain_with RS_MISSING) (ri_node r) n}"
proof -
  have "find_node (chain_with RS_MISSING) (Strong 1) \<noteq> None" "valid (Strong 1 :: node_id)" by simp_all
  note r = recovery_complete[OF chain_sound this]
  from r have "set (recovery_plan (chain_with RS_MISSING) (Strong 1)) \<subseteq>
      {r. \<exists>n. find_node (chain_with RS_MISSING) (ri_node r) = Some n \<and>
       r = intent_for (chain_with RS_MISSING) (ri_node r) n}" by blast
  with r show ?thesis by blast
qed

text \<open>The recomputation frontier is enough to restart from: on an acyclic graph every affected node
  that is not READY is downstream of (or is) a frontier node, and frontier nodes are not READY.\<close>

theorem frontier_suffices:
  assumes "index_sound g" and "acyclic_graph g"
    and "i \<in> set (ac_nodes (affected_closure_locked g seed 0))" and "nonready g i"
  shows "\<exists>f \<in> set (recompute_frontier g seed). nonready g f \<and> (f, i) \<in> (dep_rel g)\<^sup>*"
  using frontier_covers[OF assms] frontier_nonready by blast

theorem frontier_suffices_witness:
  "\<exists>f \<in> set (recompute_frontier (chain_with RS_BLOCKED) (Strong 1)).
     nonready (chain_with RS_BLOCKED) f \<and> (f, Strong 1) \<in> (dep_rel (chain_with RS_BLOCKED))\<^sup>*"
proof (rule frontier_suffices[OF chain_sound chain_acyclic])
  show "Strong 1 \<in> set (ac_nodes (affected_closure_locked (chain_with RS_BLOCKED) (Strong 1) 0))"
    using affected_closure_spec(1)[OF chain_sound[of RS_BLOCKED], of "Strong 1" 0] ball_start by simp
qed (simp add: nonready_def)

section \<open>Explanations\<close>

text \<open>C20: A settled READY node is explained without blockers, and every required inbound edge outside
  the active sets that holds a node back (its constraint fails hard or its lineage is stale) is named
  in the explanation by its edge id and producer.\<close>

theorem explanation_faithful:
  assumes "find_node g i = Some n"
  shows "(settled g i \<and> nd_state n = RS_READY \<and> sets_in_range g i \<longrightarrow> ex_blockers (explain g i) = []) \<and>
    (\<forall>e \<in> set (implicit_edges g i). holds_back g e \<longrightarrow>
       (\<exists>b \<in> set (ex_blockers (explain g i)). about_edge e b)) \<and>
    ex_state (explain g i) = nd_state n \<and> ex_outcome (explain g i) = outcome_for_state (nd_state n)"
  using ready_explained[OF _ assms] explain_complete[OF assms] assms by (simp add: explain_def)

theorem explanation_faithful_witness:
  "(\<exists>b \<in> set (ex_blockers (explain (chain_with RS_BLOCKED) (Strong 2))).
      about_edge (sample_edge (Strong 10) (Strong 1) (Strong 2)) b) \<and>
    ex_state (explain (chain_with RS_BLOCKED) (Strong 2)) = RS_READY \<and>
    ex_outcome (explain (chain_with RS_BLOCKED) (Strong 2)) = OC_READY"
proof -
  let ?g = "chain_with RS_BLOCKED" and ?e = "sample_edge (Strong 10) (Strong 1) (Strong 2)"
  have "?e \<in> set (implicit_edges ?g (Strong 2))"
    by (simp add: implicit_edges_def in_active_def set_members_def active_sets_def List.map_filter_simps)
  moreover have "holds_back ?g ?e"
    by (simp add: holds_back_def edge_hard_def level_ok_def lineage_stale_def default_predicate_def
        meets_readiness_constraint_def edge_required_def)
  ultimately show ?thesis
    using explanation_faithful[of "Strong 2" ?g "chain_node (Strong 2) NK_MODEL RS_READY"] by simp
qed

section \<open>Names and codes\<close>

text \<open>Every parser of an enumeration accepts exactly the names the printer gives its enumerators
  and returns the enumerator so named; a name that no enumerator has is refused. The byte a message
  or a file carries is the code of the value read from it, also when no enumerator has that byte.\<close>

theorem enum_names_and_codes:
  "(node_kind_from_name s = Some nk \<longleftrightarrow> node_kind_enumerator nk \<and> s = node_kind_name nk) \<and>
    (edge_kind_from_name s = Some ek \<longleftrightarrow> edge_kind_enumerator ek \<and> s = edge_kind_name ek) \<and>
    (readiness_state_from_name s = Some rs \<longleftrightarrow>
       readiness_state_enumerator rs \<and> s = readiness_state_name rs) \<and>
    (outcome_from_name s = Some oc \<longleftrightarrow> outcome_enumerator oc \<and> s = outcome_name oc) \<and>
    (recovery_action_from_name s = Some ra \<longleftrightarrow> s = recovery_action_name ra) \<and>
    (invalidation_reason_from_name s = Some ir \<longleftrightarrow>
       invalidation_reason_enumerator ir \<and> s = invalidation_reason_name ir) \<and>
    (set_operator_from_name s = Some so \<longleftrightarrow> s = set_operator_name so) \<and>
    (generation_predicate_from_name s = Some gp \<longleftrightarrow>
       generation_predicate_kind_enumerator gp \<and> s = generation_predicate_kind_name gp) \<and>
    node_kind_code (node_kind_of_code b) = b \<and> edge_kind_code (edge_kind_of_code b) = b \<and>
    readiness_state_code (readiness_state_of_code b) = b \<and> outcome_code (outcome_of_code b) = b"
  by (simp add: node_kind_from_name_iff edge_kind_from_name_iff readiness_state_from_name_iff
      outcome_from_name_iff recovery_action_from_name_iff invalidation_reason_from_name_iff
      set_operator_from_name_iff generation_predicate_from_name_iff)

end
