(* ===== verification/Divergences.thy ===== *)
theory Divergences
  imports Samples
begin

text \<open>
  Behaviours of the graph runtime that part from its documentation: an operation whose effect is
  lost, checks that one entry point has and another has not, and an order that the comment on it
  does not describe. Each is stated as what the code does.
\<close>

section \<open>The recomputed state of the root of a closure\<close>

text \<open>
  The root of a closure recomputation is recomputed once, and nothing it reads is recomputed at all:
  its producers are not downstream of it.
\<close>

lemma closure_root:
  assumes ix: "index_sound g" and ac: "acyclic_graph g" and ml: "members_local g"
    and v: "valid i" and n: "find_node g i = Some n"
  shows "find_node (recompute_closure_locked [i] g) i = Some (recomputed_node g i n)"
proof -
  let ?order = "topology_order_locked g [i]"
  have set: "set ?order = (dep_rel g)\<^sup>* `` {i}"
    using v by (simp add: topology_order_spec succ_rel_dep_rel[OF ix]) (auto simp: Image_def)
  then obtain js ks where split: "?order = js @ i # ks" by (metis Image_singleton_iff in_set_conv_decomp rtrancl.rtrancl_refl)
  have i: "i \<notin> set js" "i \<notin> set ks" using topology_order_spec(2)[of g "[i]"] by (auto simp: split)
  let ?h = "recompute_nodes js g"
  have fr: "same_frame g ?h" by (simp add: same_frame_def)
  have "same_view g ?h p" if "p \<in> reads g i" for p
  proof -
    have "(p, i) \<in> dep_rel g" by (rule reads_dep_rel[OF ix ml that])
    then have "(i, p) \<notin> (dep_rel g)\<^sup>*"
      using ac by (metis acyclic_def acyclic_graph_def rtrancl_into_trancl1)
    then have "p \<notin> set js" using set by (auto simp: split)
    then show ?thesis by (simp add: same_view_def recompute_nodes_other)
  qed
  then have "recomputed_state ?h i n = recomputed_state g i n"
    by (intro recomputed_state_cong[OF same_frame_lookups[OF fr]]) auto
  then have "recomputed_node ?h i n = recomputed_node g i n" by (simp add: recomputed_node_def)
  moreover have "find_node ?h i = Some n" using n i(1) by (simp add: recompute_nodes_other)
  ultimately show ?thesis
    using i(2) by (simp add: recompute_closure_alt split recompute_nodes_append recompute_nodes_other recompute_find)
qed

section \<open>Marking a node stale\<close>

text \<open>An accepted \<open>mark_stale\<close> does not leave the node STALE: the recomputation that ends it
  derives the state anew from the prerequisites, so a settled node without a pending gate keeps the
  state it had; only the recorded evidence says STALE.\<close>

theorem mark_stale_rederived:
  assumes "core_inv g" and "acyclic_graph g" and "sets_local g"
    and "authority_ok g s b e = None" and "find_node g i = Some n"
    and "settled g i" and "\<not> gated n" and "\<not> escape_state (nd_state n)" and "nd_state n \<noteq> RS_INVALIDATED"
  shows "\<exists>g' m. mark_stale i s b e g = (OC_ACCEPTED, g') \<and> find_node g' i = Some m \<and>
    nd_state m = nd_state n \<and> nd_recovered_evidence m = DE_STALE"
proof -
  let ?n = "n\<lparr>nd_state := RS_STALE, nd_recovered_evidence := DE_STALE\<rparr>"
  let ?h = "put_node i ?n g"
  have st: "same_structure g ?h" by (rule same_structure_put) (simp add: assms(5))
  have sound: "index_sound g" and ml: "members_local g" and v: "valid i"
    using assms(1,3,5) by (auto simp: core_inv_def sets_local_members keys_ok_def)
  have self: "(i, i) \<notin> dep_rel g" using assms(2) by (auto simp: acyclic_graph_def acyclic_def)
  have "eval_node ?h i = eval_node g i"
    by (rule eval_node_cong) (use reads_dep_rel[OF sound ml] self in \<open>auto simp: same_lookups_def same_view_def\<close>)
  then have "recomputed_state ?h i ?n = recomputed_state g i n"
    using assms(7-9) by (simp add: recomputed_state_def gated_def escape_state_def derived_state_def)
  also have "\<dots> = nd_state n" using assms(5,6) by (simp add: settled_def)
  finally have "nd_state (recomputed_node ?h i ?n) = nd_state n"
    by (auto simp: recomputed_node_def touch_def)
  moreover have "find_node (recompute_closure_locked [i] ?h) i = Some (recomputed_node ?h i ?n)"
    by (rule closure_root)
      (use sound ml v assms(2) in \<open>simp_all add: same_structure_facts[OF st] acyclic_graph_def\<close>)
  moreover have "nd_recovered_evidence (recomputed_node ?h i ?n) = DE_STALE"
    by (simp add: recomputed_node_def touch_def)
  ultimately show ?thesis using assms(4,5) by (auto simp: mark_stale_def)
qed

lemma chain_settled: "settled (chain_with RS_READY) (Strong 1)"
  by (simp add: settled_def recomputed_state_def gated_def derived_state_verdict[OF chain_sets_in_range])
    (simp add: node_verdict_def node_hard_def node_stale_def node_soft_def active_sets_def
      implicit_edges_def in_active_def List.map_filter_simps escape_state_def)

theorem mark_stale_rederived_witness:
  "\<exists>g' m. mark_stale (Strong 1) (Strong 7) (Strong 8) (Strong 1) chain_graph = (OC_ACCEPTED, g') \<and>
    find_node g' (Strong 1) = Some m \<and>
    nd_state m = nd_state (chain_node (Strong 1) NK_ARTIFACT RS_READY) \<and>
    nd_recovered_evidence m = DE_STALE"
  by (rule mark_stale_rederived)
    (use chain_settled chain_core[of RS_READY] chain_acyclic[of RS_READY] chain_clean[of RS_READY] in
      \<open>simp_all add: chain_graph_def clean_inv_def gated_def escape_state_def\<close>)

section \<open>Switching an edge on\<close>

text \<open>C21: \<open>set_edge_active\<close> switches an inactive edge on without the cycle test of \<open>add_edge\<close>: the
  request is always accepted, and the graph it leaves is acyclic only if the graph before was and the
  consumer of the edge did not reach its producer.\<close>

theorem activation_unchecked:
  assumes "authority_ok g s b e = None" and "find_edge g i = Some x" and "\<not> ed_active x"
  shows "\<exists>g'. set_edge_active i True s b e g = (OC_ACCEPTED, g') \<and>
    (acyclic_graph g' \<longleftrightarrow> acyclic_graph g \<and> (ed_consumer_id x, ed_producer_id x) \<notin> (dep_rel g)\<^sup>*)"
proof -
  let ?g' = "recompute_closure_locked [ed_consumer_id x] (switch_edge i x True g)"
  have "dep_rel ?g' = insert (ed_producer_id x, ed_consumer_id x) (dep_rel g)"
    using same_structure_dep_rel[OF same_structure_closure] dep_rel_switch_on[OF assms(2,3)] by metis
  then have "acyclic_graph ?g' \<longleftrightarrow> acyclic_graph g \<and> (ed_consumer_id x, ed_producer_id x) \<notin> (dep_rel g)\<^sup>*"
    by (simp add: acyclic_graph_def acyclic_insert)
  then show ?thesis using assms by (auto simp: set_edge_active_def)
qed

definition back_edge_graph :: graph where
  "back_edge_graph = chain_graph\<lparr>gr_edges := um_put (Strong 12)
     ((sample_edge (Strong 12) (Strong 3) (Strong 1))\<lparr>ed_active := False\<rparr>) (gr_edges chain_graph)\<rparr>"

lemma back_edge_find:
  "find_edge back_edge_graph (Strong 12) = Some ((sample_edge (Strong 12) (Strong 3) (Strong 1))\<lparr>ed_active := False\<rparr>)"
  by (simp add: back_edge_graph_def)

lemma back_edge_authority: "authority_ok back_edge_graph (Strong 7) (Strong 8) (Strong 1) = None"
  by (simp add: back_edge_graph_def chain_graph_def authority_ok_def)

theorem activation_unchecked_witness:
  "\<exists>g'. set_edge_active (Strong 12) True (Strong 7) (Strong 8) (Strong 1) back_edge_graph = (OC_ACCEPTED, g') \<and>
    \<not> acyclic_graph g'"
proof -
  have "find_edge back_edge_graph i = (if i = Strong 12
      then Some ((sample_edge (Strong 12) (Strong 3) (Strong 1))\<lparr>ed_active := False\<rparr>)
      else find_edge chain_graph i)" for i
    by (simp add: back_edge_graph_def)
  then have "arc back_edge_graph = arc chain_graph"
    by (auto simp: arc_def chain_graph_def fun_eq_iff)
  then have "dep_rel back_edge_graph = {(Strong 1, Strong 2), (Strong 2, Strong 3)}"
    by (simp add: dep_rel_ran) (simp add: dep_rel_ran[symmetric] chain_graph_def chain_dep_rel)
  then have "(Strong 1, Strong 3) \<in> (dep_rel back_edge_graph)\<^sup>*"
    by (auto intro: rtrancl_into_rtrancl[of _ "Strong 2"])
  then show ?thesis
    using activation_unchecked[OF back_edge_authority back_edge_find] by simp
qed

section \<open>Superseding a historical generation\<close>

text \<open>\<open>supersede_generation\<close> of a generation that is not both current and highest installs the new
  generation as current whenever it is newer than the superseded one: it is not compared with the
  current generation, so a node can move back to an older current generation and its history stops
  being increasing.\<close>

theorem supersede_installs_unordered:
  assumes "authority_ok g s b e = None" and "find_node g i = Some n"
    and "valid old_gen" and "valid new_gen" and "old_gen < new_gen" and "has_generation n old_gen"
    and "nd_current_generation n \<noteq> old_gen"
  shows "\<exists>g' n'. supersede_generation i old_gen new_gen s b e g = (OC_ACCEPTED, g') \<and>
    find_node g' i = Some n' \<and> nd_current_generation n' = new_gen \<and>
    nd_generation_history n' = nd_generation_history n @ [new_gen] \<and>
    (new_gen < nd_current_generation n \<and> nd_current_generation n \<in> set (nd_generation_history n)
     \<longrightarrow> \<not> history_ok n')"
proof -
  let ?n = "install_generation new_gen s b
      (n\<lparr>nd_superseded_generations := nd_superseded_generations n @ [old_gen]\<rparr>)"
  let ?g' = "recompute_closure_locked [i] (put_node i ?n g)"
  have "supersede_generation i old_gen new_gen s b e g = (OC_ACCEPTED, ?g')"
    using assms by (auto simp: supersede_generation_def less_eq_strong_def[symmetric])
  moreover have "map_option durable (find_node ?g' i) = Some (durable ?n)"
    by (simp add: closure_put_durable)
  then obtain n' where n': "find_node ?g' i = Some n'" "durable n' = durable ?n"
    by (cases "find_node ?g' i") auto
  have f: "nd_current_generation n' = nd_current_generation ?n"
    "nd_generation_history n' = nd_generation_history ?n"
    using n'(2) by (cases n'; cases ?n; simp add: durable_def)+
  moreover have "\<not> history_ok n'" if "new_gen < nd_current_generation n"
    "nd_current_generation n \<in> set (nd_generation_history n)"
    using that f less_asym[of new_gen "nd_current_generation n"]
    by (auto simp: history_ok_def install_generation_def sorted_wrt_append)
  ultimately show ?thesis using n'(1) by (auto simp: install_generation_def)
qed

theorem supersede_installs_unordered_witness:
  "\<exists>g' n'. supersede_generation (Strong 1) (Strong 1) (Strong 3) (Strong 7) (Strong 8) (Strong 1)
       (put_node (Strong 1) ((chain_node (Strong 1) NK_ARTIFACT RS_READY)
          \<lparr>nd_generation_history := [Strong 1, Strong 5], nd_current_generation := Strong 5\<rparr>) chain_graph) =
      (OC_ACCEPTED, g') \<and>
    find_node g' (Strong 1) = Some n' \<and> nd_current_generation n' = Strong 3 \<and>
    nd_generation_history n' = [Strong 1, Strong 5, Strong 3] \<and> \<not> history_ok n'"
proof -
  let ?n = "(chain_node (Strong 1) NK_ARTIFACT RS_READY)
      \<lparr>nd_generation_history := [Strong 1, Strong 5], nd_current_generation := Strong 5\<rparr>"
  have "authority_ok (put_node (Strong 1) ?n chain_graph) (Strong 7) (Strong 8) (Strong 1) = None"
    by (simp add: chain_graph_def authority_ok_def)
  moreover have "find_node (put_node (Strong 1) ?n chain_graph) (Strong 1) = Some ?n" by simp
  ultimately show ?thesis
    using supersede_installs_unordered[of "put_node (Strong 1) ?n chain_graph" "Strong 7" "Strong 8" "Strong 1"
        "Strong 1" ?n "Strong 1" "Strong 3"]
    by (simp add: strong_less_iff has_generation_def)
qed

lemma recomputed_verdict:
  assumes "\<not> escape_state (nd_state n)" "nd_state n \<noteq> RS_INVALIDATED" "\<not> gated n" "sets_in_range g i"
  shows "nd_state (recomputed_node g i n) = node_verdict g i n"
  using assms by (auto simp: recomputed_node_def recomputed_state_def touch_def derived_state_verdict)

section \<open>The order of a closure recomputation\<close>

text \<open>
  Three nodes, all READY: 2 requires 1, 3 requires 2, and 3 depends optionally on 1 by an edge that
  node 1 lists first.
\<close>

definition triangle_graph :: graph where
  "triangle_graph = chain_graph
     \<lparr>gr_edges := um_put (Strong 12) ((sample_edge (Strong 12) (Strong 1) (Strong 3))\<lparr>ed_kind := EK_OPTIONAL\<rparr>)
        (gr_edges chain_graph),
      gr_sets := [], gr_node_sets := [],
      gr_out_edges := [(Strong 1, [Strong 12, Strong 10]), (Strong 2, [Strong 11])],
      gr_in_edges := [(Strong 2, [Strong 10]), (Strong 3, [Strong 12, Strong 11])]\<rparr>"

lemma triangle_find [simp]:
  "find_node triangle_graph i = find_node chain_graph i"
  "find_edge triangle_graph j =
     (if j = Strong 12 then Some ((sample_edge j (Strong 1) (Strong 3))\<lparr>ed_kind := EK_OPTIONAL\<rparr>)
      else find_edge chain_graph j)"
  "out_at triangle_graph i =
     (if i = Strong 1 then [Strong 12, Strong 10] else if i = Strong 2 then [Strong 11] else [])"
  "in_at triangle_graph i =
     (if i = Strong 2 then [Strong 10] else if i = Strong 3 then [Strong 12, Strong 11] else [])"
  "gr_node_sets triangle_graph = []" "gr_adapter triangle_graph = None"
  "gr_sources triangle_graph = gr_sources chain_graph" "gr_epoch triangle_graph = gr_epoch chain_graph"
  by (simp_all add: triangle_graph_def ix_at_def chain_graph_def)

lemma triangle_edges:
  assumes "gr_edges h = gr_edges triangle_graph" "gr_in_edges h = gr_in_edges triangle_graph"
    "gr_out_edges h = gr_out_edges triangle_graph" "gr_node_sets h = gr_node_sets triangle_graph"
  shows "active_sets h i = []"
    "implicit_edges h (Strong 2) = [sample_edge (Strong 10) (Strong 1) (Strong 2)]"
    "implicit_edges h (Strong 3) =
       [(sample_edge (Strong 12) (Strong 1) (Strong 3))\<lparr>ed_kind := EK_OPTIONAL\<rparr>,
        sample_edge (Strong 11) (Strong 2) (Strong 3)]"
    "succs h (Strong 1) = [Strong 3, Strong 2]" "succs h (Strong 2) = [Strong 3]" "succs h (Strong 3) = []"
  using assms
  by (simp_all add: active_sets_def implicit_edges_def set_members_def in_active_def succs_def
      out_active_def chain_graph_def List.map_filter_simps)

lemma closure_run [simp]:
  "search (closure_search h) ([], vis, a) = ([], vis, a)"
  "search (closure_search h) (i # q, vis, a) =
     search (closure_search h) (search_scan (closure_search h) (succs h i) (q, vis, a @ [i]))"
  by (subst search_unfold, simp add: search_running_def closure_search_def)+

lemma closure_fields [simp]:
  "s_key (closure_search h) c = c" "s_item (closure_search h) c = [c]"
  "s_note (closure_search h) f c a = a" "\<not> s_stop (closure_search h) a"
  by (simp_all add: closure_search_def)

lemma triangle_order:
  assumes "gr_edges h = gr_edges triangle_graph" "gr_in_edges h = gr_in_edges triangle_graph"
    "gr_out_edges h = gr_out_edges triangle_graph" "gr_node_sets h = gr_node_sets triangle_graph"
  shows "topology_order_locked h [Strong 1] = [Strong 1, Strong 3, Strong 2]"
  by (simp add: topology_order_locked_def start_queue_def search_result_def triangle_edges[OF assms])

lemma triangle_verdicts:
  assumes h: "gr_edges h = gr_edges triangle_graph" "gr_in_edges h = gr_in_edges triangle_graph"
    "gr_out_edges h = gr_out_edges triangle_graph" "gr_node_sets h = gr_node_sets triangle_graph"
    and a: "gr_adapter h = None"
    and n1: "find_node h (Strong 1) = Some n1" "nd_state n1 = RS_INVALIDATED"
    and n2: "find_node h (Strong 2) = Some n2"
  shows "node_verdict h (Strong 2) n = RS_BLOCKED"
    "nd_state n2 = RS_READY \<Longrightarrow> node_verdict h (Strong 3) n = RS_DEGRADED"
    "nd_state n2 = RS_BLOCKED \<Longrightarrow> node_verdict h (Strong 3) n = RS_BLOCKED"
  using n1 n2 a
  by (simp_all add: node_verdict_def node_hard_def node_stale_def node_soft_def triangle_edges[OF h]
      edge_hard_def edge_stale_def edge_soft_def generation_ok_def generation_advanced_def level_ok_def
      evidence_ok_def lineage_stale_def meets_readiness_constraint_def edge_required_def
      default_predicate_def Let_def)

text \<open>The closure recomputation visits nodes in breadth-first order, which need not be an order in
  which producers come before their consumers: after a direct invalidation of node 1 of the triangle,
  node 3 has been evaluated before node 2, so it is left DEGRADED although its required producer is
  BLOCKED and its own prerequisites demand BLOCKED.\<close>

theorem closure_order_breadth_first:
  "\<exists>g' n2 n3. invalidate_node (Strong 1) IR_EXPLICIT
      \<lparr>ip_mode = IM_DIRECT, ip_max_depth = 0, ip_propagate_through_optional = False,
       ip_degrade_optional_dependents = False, ip_cascade_blocked = False\<rparr>
      (Strong 7) (Strong 8) (Strong 1) triangle_graph = (OC_ACCEPTED, g') \<and>
    find_node g' (Strong 2) = Some n2 \<and> nd_state n2 = RS_BLOCKED \<and>
    find_node g' (Strong 3) = Some n3 \<and> nd_state n3 = RS_DEGRADED \<and>
    node_verdict g' (Strong 3) n3 = RS_BLOCKED"
proof -
  define m where "m = mark_invalidated IR_EXPLICIT ((chain_node (Strong 1) NK_ARTIFACT RS_READY)\<lparr>nd_state := RS_INVALIDATED\<rparr>)"
  define h where "h = put_node (Strong 1) m triangle_graph"
  define h1 where "h1 = snd (recompute_node_locked h (Strong 1))"
  define h2 where "h2 = snd (recompute_node_locked h1 (Strong 3))"
  define h3 where "h3 = snd (recompute_node_locked h2 (Strong 2))"
  have frame: "gr_edges h = gr_edges triangle_graph" "gr_in_edges h = gr_in_edges triangle_graph"
    "gr_out_edges h = gr_out_edges triangle_graph" "gr_node_sets h = gr_node_sets triangle_graph"
    by (simp_all add: h_def)
  obtain m1 where m1: "\<And>x. x \<in> {h1, h2, h3} \<Longrightarrow> find_node x (Strong 1) = Some m1" "nd_state m1 = RS_INVALIDATED"
    by (rule that[of "recomputed_node h (Strong 1) m"])
      (auto simp: h1_def h2_def h3_def h_def recompute_find recomputed_node_def recomputed_state_def
        touch_def m_def mark_invalidated_def)
  have fr: "gr_edges x = gr_edges triangle_graph" "gr_in_edges x = gr_in_edges triangle_graph"
    "gr_out_edges x = gr_out_edges triangle_graph" "gr_node_sets x = gr_node_sets triangle_graph"
    "gr_adapter x = None" if "x \<in> {h1, h2, h3}" for x
    using that by (auto simp: h1_def h2_def h3_def h_def)
  note verdicts = triangle_verdicts[OF fr m1]
  have h1: "find_node h1 (Strong 2) = Some (chain_node (Strong 2) NK_MODEL RS_READY)"
    "find_node h1 (Strong 3) = Some (chain_node (Strong 3) NK_SERVICE RS_READY)"
    by (simp_all add: h1_def h_def recompute_find chain_graph_def)
  have "node_verdict h1 (Strong 3) n = RS_DEGRADED" for n
    by (rule verdicts(2)[of h1, OF _ _ _ _ _ _ h1(1)]) simp_all
  then obtain n3 where h2: "find_node h2 (Strong 3) = Some n3" "nd_state n3 = RS_DEGRADED"
    "find_node h2 (Strong 2) = Some (chain_node (Strong 2) NK_MODEL RS_READY)"
    using h1 recomputed_verdict[of "chain_node (Strong 3) NK_SERVICE RS_READY" h1 "Strong 3"]
    by (simp add: h2_def recompute_find sets_in_range_def triangle_edges[OF fr(1-4)] escape_state_def gated_def)
  have "node_verdict h2 (Strong 2) n = RS_BLOCKED" for n
    by (rule verdicts(1)[of h2, OF _ _ _ _ _ _ h2(3)]) simp_all
  then obtain n2 where h3: "find_node h3 (Strong 2) = Some n2" "nd_state n2 = RS_BLOCKED"
    "find_node h3 (Strong 3) = Some n3"
    using h2 recomputed_verdict[of "chain_node (Strong 2) NK_MODEL RS_READY" h2 "Strong 2"]
    by (simp add: h3_def recompute_find sets_in_range_def triangle_edges[OF fr(1-4)] escape_state_def gated_def)
  moreover have "node_verdict h3 (Strong 3) n3 = RS_BLOCKED"
    by (rule verdicts(3)[of h3, OF _ _ _ _ _ _ h3(1)]) (simp_all add: h3(2))
  moreover have "invalidate_node (Strong 1) IR_EXPLICIT
      \<lparr>ip_mode = IM_DIRECT, ip_max_depth = 0, ip_propagate_through_optional = False,
       ip_degrade_optional_dependents = False, ip_cascade_blocked = False\<rparr>
      (Strong 7) (Strong 8) (Strong 1) triangle_graph = (OC_ACCEPTED, h3)"
    by (simp add: invalidate_node_def invalidate_seed_def authority_ok_def recompute_closure_alt
        h_def[unfolded m_def, symmetric] chain_graph_def triangle_order[OF frame] h1_def[symmetric]
        h2_def[symmetric] h3_def[symmetric])
  ultimately show ?thesis using h2(2) by blast
qed

end
