(* ===== verification/Adapters.thy ===== *)
theory Adapters
  imports Scheduling
begin

text \<open>
  The adapters of \<open>adapters.hpp\<close> and \<open>src/adapters/reference.cpp\<close>: \<open>NullAdapter\<close>, which knows
  nothing, and \<open>ReferenceAdapter\<close>, an in-memory store of facts. Each becomes a record of the queries
  that the graph consults (\<open>dependency_adapter\<close> of \<open>GraphTypes\<close>).
\<close>

section \<open>The two adapters\<close>

definition owning_runtime :: "node_kind \<Rightarrow> string" where
  "owning_runtime k =
     (case k of
        NK_ARTIFACT \<Rightarrow> ''ArtifactFabric'' | NK_MODEL \<Rightarrow> ''ModelRegistry''
      | NK_ADAPTER \<Rightarrow> ''AdapterFabric'' | NK_KERNEL \<Rightarrow> ''KernelFabric''
      | NK_EXECUTION_GRAPH \<Rightarrow> ''ExecutionGraphStore''
      | NK_CHECKPOINT \<Rightarrow> ''CheckpointStore'' | NK_KV_STATE \<Rightarrow> ''CheckpointStore''
      | NK_DATA \<Rightarrow> ''DataStore'' | NK_TENSOR \<Rightarrow> ''DataStore''
      | NK_RESOURCE \<Rightarrow> ''ResourceBroker''
      | NK_SERVICE \<Rightarrow> ''WorkloadFabric'' | NK_WORKLOAD_PHASE \<Rightarrow> ''WorkloadFabric''
      | NK_CAPABILITY \<Rightarrow> ''CompatibilityRegistry'' | NK_EXECUTION_RESULT \<Rightarrow> ''ExecutionFabric''
      | NK_POLICY \<Rightarrow> ''PolicyStore'' | NK_TOPOLOGY \<Rightarrow> ''TopologyRegistry''
      | _ \<Rightarrow> ''DependencyFabric'')"

definition null_adapter :: dependency_adapter where
  "null_adapter =
     \<lparr>ad_current_artifact_generation = (\<lambda>i. None), ad_current_state_generation = (\<lambda>i. None),
      ad_current_resource_generation = (\<lambda>i. None), ad_resource_available = (\<lambda>i. False),
      ad_capability_claimed = (\<lambda>i cap. False), ad_integrity_ok = (\<lambda>i. False),
      ad_freshness_ok = (\<lambda>i. False), ad_provenance_confidence = (\<lambda>i. 0),
      ad_completion_state = (\<lambda>i. []), ad_owning_runtime = owning_runtime\<rparr>"

record reference_adapter =
  rf_artifact :: "(node_id, artifact_generation) umap"
  rf_state :: "(node_id, state_generation) umap"
  rf_resource :: "(node_id, resource_generation) umap"
  rf_resource_avail :: "(node_id, bool) umap"
  rf_capabilities :: "(node_id, (string, bool) umap) umap"
  rf_integrity :: "(node_id, bool) umap"
  rf_freshness :: "(node_id, bool) umap"
  rf_provenance :: "(node_id, u64) umap"
  rf_completion :: "(node_id, string) umap"

definition empty_reference :: reference_adapter where
  "empty_reference = \<lparr>rf_artifact = [], rf_state = [], rf_resource = [], rf_resource_avail = [],
     rf_capabilities = [], rf_integrity = [], rf_freshness = [], rf_provenance = [], rf_completion = []\<rparr>"

definition set_artifact_generation :: "node_id \<Rightarrow> artifact_generation \<Rightarrow> reference_adapter \<Rightarrow> reference_adapter" where
  "set_artifact_generation i v r = r\<lparr>rf_artifact := um_put i v (rf_artifact r)\<rparr>"

definition set_state_generation :: "node_id \<Rightarrow> state_generation \<Rightarrow> reference_adapter \<Rightarrow> reference_adapter" where
  "set_state_generation i v r = r\<lparr>rf_state := um_put i v (rf_state r)\<rparr>"

definition set_resource_generation :: "node_id \<Rightarrow> resource_generation \<Rightarrow> reference_adapter \<Rightarrow> reference_adapter" where
  "set_resource_generation i v r = r\<lparr>rf_resource := um_put i v (rf_resource r)\<rparr>"

definition set_resource_available :: "node_id \<Rightarrow> bool \<Rightarrow> reference_adapter \<Rightarrow> reference_adapter" where
  "set_resource_available i v r = r\<lparr>rf_resource_avail := um_put i v (rf_resource_avail r)\<rparr>"

definition claim_capability :: "node_id \<Rightarrow> string \<Rightarrow> reference_adapter \<Rightarrow> reference_adapter" where
  "claim_capability i cap r =
     (let caps = (case um_find i (rf_capabilities r) of None \<Rightarrow> [] | Some m \<Rightarrow> m)
      in r\<lparr>rf_capabilities := um_put i (um_put cap True caps) (rf_capabilities r)\<rparr>)"

definition set_integrity :: "node_id \<Rightarrow> bool \<Rightarrow> reference_adapter \<Rightarrow> reference_adapter" where
  "set_integrity i v r = r\<lparr>rf_integrity := um_put i v (rf_integrity r)\<rparr>"

definition set_freshness :: "node_id \<Rightarrow> bool \<Rightarrow> reference_adapter \<Rightarrow> reference_adapter" where
  "set_freshness i v r = r\<lparr>rf_freshness := um_put i v (rf_freshness r)\<rparr>"

definition set_provenance :: "node_id \<Rightarrow> u64 \<Rightarrow> reference_adapter \<Rightarrow> reference_adapter" where
  "set_provenance i v r = r\<lparr>rf_provenance := um_put i v (rf_provenance r)\<rparr>"

definition set_completion :: "node_id \<Rightarrow> string \<Rightarrow> reference_adapter \<Rightarrow> reference_adapter" where
  "set_completion i v r = r\<lparr>rf_completion := um_put i v (rf_completion r)\<rparr>"

definition fact_get :: "'v \<Rightarrow> (node_id, 'v) umap \<Rightarrow> node_id \<Rightarrow> 'v" where
  "fact_get unknown m i = (case um_find i m of None \<Rightarrow> unknown | Some v \<Rightarrow> v)"

definition reference_queries :: "reference_adapter \<Rightarrow> dependency_adapter" where
  "reference_queries r =
     \<lparr>ad_current_artifact_generation = (\<lambda>i. um_find i (rf_artifact r)),
      ad_current_state_generation = (\<lambda>i. um_find i (rf_state r)),
      ad_current_resource_generation = (\<lambda>i. um_find i (rf_resource r)),
      ad_resource_available = fact_get False (rf_resource_avail r),
      ad_capability_claimed = (\<lambda>i cap. case um_find i (rf_capabilities r) of None \<Rightarrow> False
        | Some m \<Rightarrow> um_find cap m \<noteq> None),
      ad_integrity_ok = fact_get False (rf_integrity r),
      ad_freshness_ok = fact_get False (rf_freshness r),
      ad_provenance_confidence = fact_get 0 (rf_provenance r),
      ad_completion_state = fact_get [] (rf_completion r),
      ad_owning_runtime = owning_runtime\<rparr>"

section \<open>A store of facts\<close>

text \<open>
  The contract of one fact of the store: what is set is read, for this node only, and a sequence of
  updates leaves the last one.
\<close>

locale fact_store =
  fixes set_fact :: "node_id \<Rightarrow> 'v \<Rightarrow> reference_adapter \<Rightarrow> reference_adapter"
    and get_fact :: "dependency_adapter \<Rightarrow> node_id \<Rightarrow> 'w" and fact_of :: "'v \<Rightarrow> 'w"
  assumes get_set: "get_fact (reference_queries (set_fact i v r)) j =
      (if j = i then fact_of v else get_fact (reference_queries r) j)"
begin

lemma last_write: "get_fact (reference_queries (set_fact i v (set_fact i w r))) i = fact_of v"
  by (simp add: get_set)

lemma writes_commute:
  "i \<noteq> j \<Longrightarrow> get_fact (reference_queries (set_fact i v (set_fact j w r))) k =
     get_fact (reference_queries (set_fact j w (set_fact i v r))) k"
  by (simp add: get_set)

lemma folded:
  "get_fact (reference_queries (fold (\<lambda>(i, v). set_fact i v) us r)) j =
     (case map_of (rev us) j of None \<Rightarrow> get_fact (reference_queries r) j | Some v \<Rightarrow> fact_of v)"
  by (induction us arbitrary: r) (auto simp: get_set split: option.split)

end

lemma fact_get_put [simp]: "fact_get u (um_put i v m) j = (if j = i then v else fact_get u m j)"
  by (simp add: fact_get_def)

interpretation artifact_facts: fact_store set_artifact_generation ad_current_artifact_generation Some
  by unfold_locales (simp add: set_artifact_generation_def reference_queries_def)

interpretation state_facts: fact_store set_state_generation ad_current_state_generation Some
  by unfold_locales (simp add: set_state_generation_def reference_queries_def)

interpretation resource_facts: fact_store set_resource_generation ad_current_resource_generation Some
  by unfold_locales (simp add: set_resource_generation_def reference_queries_def)

interpretation availability_facts: fact_store set_resource_available ad_resource_available "\<lambda>v. v"
  by unfold_locales (simp add: set_resource_available_def reference_queries_def)

interpretation integrity_facts: fact_store set_integrity ad_integrity_ok "\<lambda>v. v"
  by unfold_locales (simp add: set_integrity_def reference_queries_def)

interpretation freshness_facts: fact_store set_freshness ad_freshness_ok "\<lambda>v. v"
  by unfold_locales (simp add: set_freshness_def reference_queries_def)

interpretation provenance_facts: fact_store set_provenance ad_provenance_confidence "\<lambda>v. v"
  by unfold_locales (simp add: set_provenance_def reference_queries_def)

interpretation completion_facts: fact_store set_completion ad_completion_state "\<lambda>v. v"
  by unfold_locales (simp add: set_completion_def reference_queries_def)

lemma claimed_after_claim:
  "ad_capability_claimed (reference_queries (claim_capability i cap r)) j c \<longleftrightarrow>
     (j = i \<and> c = cap) \<or> ad_capability_claimed (reference_queries r) j c"
  by (auto simp: claim_capability_def reference_queries_def Let_def split: option.split)

section \<open>What an adapter means for readiness\<close>

text \<open>
  An attached adapter is the only source of evidence: with the null adapter no edge that asks for a
  resource, a capability, freshness or integrity is satisfied, whatever the node has recorded.
\<close>

lemma null_adapter_unsatisfied:
  assumes "gr_adapter g = Some null_adapter"
    and "pr_requires_resource_available (ed_predicate e) \<or> pr_required_capability (ed_predicate e) \<noteq> [] \<or>
      pr_requires_fresh (ed_predicate e) \<or> pr_requires_integrity (ed_predicate e)"
  shows "\<not> edge_satisfied g e"
  using assms
  by (auto simp: edge_satisfied_def resource_fact_def capability_fact_def freshness_fact_def
      integrity_fact_def evidence_ok_def null_adapter_def Let_def split: option.splits)

end
