(* ===== verification/ServiceProperties.thy ===== *)
theory ServiceProperties
  imports Coordinator Adapters Samples
begin

text \<open>
  The properties of the wire protocol, the coordinator and the snapshot format, each with an instance
  on concrete messages, scripts and graphs.
\<close>

section \<open>Samples\<close>

definition sample_fs :: file_system where
  "sample_fs = \<lparr>fs_can_open = \<lambda>_. True, fs_can_write = \<lambda>_. True, fs_end = \<lambda>_. None, fs_bytes = \<lambda>_. []\<rparr>"

definition hello_bytes :: "u8 list" where
  "hello_bytes = wire_bytes [hello_req, bye]"

lemma length_hello [simp]: "length hello_bytes = 32"
  by (simp add: hello_bytes_def wire_bytes_def hello_req_def bye_def kHeaderBytes_def)

section \<open>Frames and connections\<close>

text \<open>C22: \<open>decode_frame\<close> accepts a buffer exactly when it is the encoding of the frame it returns: magic,
  version, type, length and checksum all agree, nothing is missing and nothing follows. Encoding and
  decoding are inverse on the frames within the size cap.
\<close>

theorem decode_frame_exact:
  "decode_frame bs = Some f \<longleftrightarrow> frame_ok f \<and> encode_frame f = Some bs"
  by (rule decode_frame_iff)

text \<open>C23: Every request is answered, in order. However the bytes of a conversation are split into the
  chunks that \<open>recv\<close> delivers and \<open>send\<close> accepts, the server reads the messages the client wrote and
  sends exactly the replies that answering them one by one produces, ending with the same graph and
  file writes.
\<close>

theorem conversation_answered:
  assumes "arrivals_ok as" and "arrived as = wire_bytes (map frame_of ms)"
    and "list_all message_ok ms" and "list_all (\<lambda>m. fits_frame (frame_of m)) ms"
    and "converse fs it ms g = Some (rs, ws, g')"
    and "list_all fits_frame rs" and "sends_ok ks (length (wire_bytes rs))"
  shows "serve_client fs it as ks g = Some (wire_bytes rs, ws, g')"
  using assms by (rule serve_conversation)

theorem conversation_answered_witness:
  "serve_client sample_fs sample_it [Bytes (take 5 hello_bytes), Bytes (drop 5 hello_bytes)]
     (replicate 24 1) empty_graph =
   Some (wire_bytes [\<lparr>fr_type = FT_HELLO_RESP, fr_body = enc_id (Strong 1 :: coordinator_epoch)\<rparr>], [], empty_graph)"
proof (rule conversation_answered[where ms = "[Hello, Bye]"])
  have "hello_bytes \<noteq> []" using length_hello by (metis list.size(3) zero_neq_numeral)
  then have "take 5 hello_bytes \<noteq> []" "drop 5 hello_bytes \<noteq> []" by simp_all
  then show "arrivals_ok [Bytes (take 5 hello_bytes), Bytes (drop 5 hello_bytes)]"
    by (simp add: arrivals_ok_def)
qed (simp_all add: hello_bytes_def fits_frame_def hello_req_def bye_def empty_graph_def sends_ok_def
    wire_bytes_def kHeaderBytes_def kMaxBodyBytes_def list_all_iff)

text \<open>C24: The request handler implements the message contract: handling the frame a builder makes for a
  message is the graph operation, query or file write that the message asks for, with the same
  outcome, reply and next graph. Mutations are the requests of \<open>Runs\<close>, submitted with the credentials
  the message carries.
\<close>

theorem handle_refines_messages:
  assumes "message_ok m"
  shows "handle fs it (frame_of m) g = answer fs it m g"
  using assms by (rule handle_answers)

theorem handle_refines_messages_witness:
  "handle sample_fs sample_it (publish_node_req (Strong 9) NK_MODEL ''m'' (Strong 7) (Strong 8) (Strong 1))
     registered_graph =
   acked (submit (sample_cred, DeclareNode (Strong 9) NK_MODEL ''m'' False) registered_graph)"
  using handle_refines_messages[of "PublishNode (Strong 9) NK_MODEL ''m'' sample_cred" sample_fs sample_it registered_graph]
  by (simp add: wire_string_def kMaxBodyBytes_def sample_cred_def node_kind_of_code_def)

text \<open>C25: Serving returns for every sequence of clients, whatever bytes they send, wherever connections
  break and however writes fail; the graph it leaves is reached by steps of the runtime, so it is well
  formed and its epoch has not gone back.
\<close>

theorem serve_safe:
  assumes "core_inv g"
  shows "\<exists>sents ws g'. serve fs it cs g = Some (sents, ws, g') \<and>
     (fabric_step any_command it)\<^sup>*\<^sup>* g g' \<and> core_inv g' \<and> gr_epoch g \<le> gr_epoch g'"
proof -
  obtain sents ws g' where s: "serve fs it cs g = Some (sents, ws, g')" "(fabric_step any_command it)\<^sup>*\<^sup>* g g'"
    using serve_steps[OF assms] by blast
  from s(2) have "gr_epoch g \<le> gr_epoch g'"
    by (induction rule: rtranclp_induct) (auto dest: step_epoch_mono)
  with s steps_core_inv[OF s(2) assms] show ?thesis by blast
qed

theorem serve_safe_witness:
  "\<exists>sents ws g'. serve sample_fs sample_it [([Bytes [1, 2, 3]], []), ([Broken], [5])] registered_graph =
     Some (sents, ws, g') \<and> (fabric_step any_command sample_it)\<^sup>*\<^sup>* registered_graph g' \<and> core_inv g' \<and>
     gr_epoch registered_graph \<le> gr_epoch g'"
  by (rule serve_safe) (rule reachable_core_inv[OF registered_reachable[where P = clean and it = sample_it]])

text \<open>C26: A truncated request is refused. When the body of any message is cut short the handler answers
  with an ERROR frame - it does not drop the connection, as its comment announces - and leaves the graph alone.
  The one exception is an INVALIDATE message cut to eight bytes: the handler takes the node id that is left
  for an epoch, advances the epoch of the graph to it if it is newer, without any credentials, and
  acknowledges that.
\<close>

theorem truncated_request_refused:
  assumes "message_ok m" and "fr_body (frame_of m) = p @ q" and "q \<noteq> []"
  shows "handle fs it \<lparr>fr_type = fr_type (frame_of m), fr_body = p\<rparr> g =
    (case m of
       InvalidateMsg n _ _ _ _ _ _ \<Rightarrow>
         if length p = 8 then (case advance_epoch (Strong (strong_value n)) g of (oc, g') \<Rightarrow> Some (Some (ack oc), g', []))
         else Some (Some error_frame, g, [])
     | _ \<Rightarrow> Some (Some error_frame, g, []))"
proof (cases "fr_type (frame_of m) = FT_INVALIDATE_REQ \<and> length p = 8")
  case False
  with truncated_refused[OF assms False, of fs it g] show ?thesis
    by (cases m) (simp_all add: invalidate_req_def)
next
  case True
  then obtain n r md d t dg c where m: "m = InvalidateMsg n r md d t dg c"
    using assms(2,3) by (cases m) (auto simp: hello_req_def register_req_def publish_node_req_def publish_gen_req_def
        query_req_def add_edge_req_def advance_epoch_req_def mark_recovered_req_def remove_edge_req_def persist_req_def
        publish_readiness_req_def bye_def dest!: arg_cong[where f = length])
  show ?thesis
    using cut_to_epoch[of n r md d t dg c p q fs it g] assms(2) True
    by (simp add: m acked_def invalidate_req_def split: prod.split)
qed

theorem truncated_request_refused_witness:
  "handle sample_fs sample_it \<lparr>fr_type = FT_REGISTER_REQ, fr_body = enc_id (Strong 7 :: source_id) @ enc_id (Strong 8 :: source_boot_id)\<rparr>
     registered_graph = Some (Some error_frame, registered_graph, []) \<and>
   handle sample_fs sample_it \<lparr>fr_type = FT_INVALIDATE_REQ, fr_body = enc_id (Strong 9 :: node_id)\<rparr> registered_graph =
     Some (Some (ack OC_ACCEPTED), registered_graph\<lparr>gr_epoch := Strong 9\<rparr>, [])"
proof
  show "handle sample_fs sample_it \<lparr>fr_type = FT_REGISTER_REQ, fr_body = enc_id (Strong 7 :: source_id) @ enc_id (Strong 8 :: source_boot_id)\<rparr>
      registered_graph = Some (Some error_frame, registered_graph, [])"
    using truncated_request_refused[of "Register sample_cred" "enc_id (Strong 7 :: source_id) @ enc_id (Strong 8 :: source_boot_id)"
        "enc_id (Strong 1 :: coordinator_epoch)" sample_fs sample_it registered_graph]
    by (simp add: register_req_def sample_cred_def enc_id_def enc_u64_def)
  have "advance_epoch (Strong 9) registered_graph = (OC_ACCEPTED, registered_graph\<lparr>gr_epoch := Strong 9\<rparr>)"
    by (simp add: advance_epoch_def registered_graph_def register_source_def empty_graph_def word_le_nat_alt)
  then show "handle sample_fs sample_it \<lparr>fr_type = FT_INVALIDATE_REQ, fr_body = enc_id (Strong 9 :: node_id)\<rparr> registered_graph =
      Some (Some (ack OC_ACCEPTED), registered_graph\<lparr>gr_epoch := Strong 9\<rparr>, [])"
    using truncated_request_refused[of "InvalidateMsg (Strong 9) IR_EXPLICIT IM_DIRECT 0 False False sample_cred"
        "enc_id (Strong 9 :: node_id)" "enc_u8 0 @ enc_u8 0 @ enc_u32 0 @ enc_bool False @ enc_bool False @
          enc_id (Strong 7 :: source_id) @ enc_id (Strong 8 :: source_boot_id) @ enc_id (Strong 1 :: coordinator_epoch)"
        sample_fs sample_it registered_graph]
    by (simp add: invalidate_req_def sample_cred_def invalidation_reason_of_code_def invalidation_mode_of_code_def enc_bool_def enc_u8_def)
qed

section \<open>Snapshots\<close>

lemma chain_storable: "storable (chain_with RS_READY)"
  unfolding storable_def
proof (intro conjI allI impI)
  show "core_inv (chain_with RS_READY)" "acyclic_graph (chain_with RS_READY)" by (rule chain_facts)+
  show "um_size (gr_sources (chain_with RS_READY)) \<le> 2 ^ 24" "um_size (gr_edges (chain_with RS_READY)) \<le> 2 ^ 24"
    "um_size (gr_sets (chain_with RS_READY)) \<le> 2 ^ 24"
    by (simp_all add: chain_with_def um_size_def)
qed (auto split: if_splits simp: storable_node_def admitted_node_def lineage_ok_def short_string_def chain_node_def
    make_node_def node_kind_enumerator_def readiness_state_enumerator_def invalidation_reason_enumerator_def
    kMaxStringBytes_def storable_edge_def admitted_edge_def edge_kind_enumerator_def default_predicate_def
    generation_predicate_kind_enumerator_def storable_set_def admitted_set_def)

text \<open>C27: A snapshot restores the graph. Every storable graph is saved, and loading the bytes into any
  graph - in whatever order the maps are walked when saving and when loading - succeeds and yields the
  epoch, sources, edges and sets of the saved graph and its nodes with the restart of dynamic evidence
  applied, up to the readiness that loading recomputes. The adapter of the target graph stays.
\<close>

theorem snapshot_restores:
  assumes "storable g" and "iteration_ok it" and "iteration_ok it'"
  shows "\<exists>bs g'. save it g = Some bs \<and> load it' bs (Some g0) = Some (OC_ACCEPTED, [], Some g') \<and>
     reloaded g g' \<and> gr_adapter g' = gr_adapter g0"
proof -
  obtain bs where "save it g = Some bs" by (simp add: save_def Let_def)
  with load_saved[OF assms this] show ?thesis by blast
qed

theorem snapshot_restores_witness:
  "\<exists>bs g'. save sample_it (chain_with RS_READY) = Some bs \<and>
     load sample_it bs (Some built_graph) = Some (OC_ACCEPTED, [], Some g') \<and>
     reloaded (chain_with RS_READY) g' \<and> gr_adapter g' = gr_adapter built_graph"
  by (rule snapshot_restores[OF chain_storable sample_it_ok sample_it_ok])

text \<open>C28: \<open>load\<close> returns for every byte string. It either refuses, leaving the target graph as it was, or
  commits a graph that is well formed: identities and endpoints resolve, the indexes are exact, there
  is no cycle, every node's history increases and ends in its current generation; it is within all
  limits of the format, so it can be saved and loaded again; and when the members of its sets point at
  their owners every node is settled, so its state is the one its prerequisites demand.
\<close>

theorem load_validates:
  assumes "iteration_ok it"
  shows "\<exists>oc msg g'. load it bs (Some g) = Some (oc, msg, Some g') \<and>
     (oc = OC_REJECT_MALFORMED \<and> g' = g \<or>
      oc = OC_ACCEPTED \<and> core_inv g' \<and> index_exact g' \<and> acyclic_graph g' \<and> storable g' \<and>
        (\<forall>i n. find_node g' i = Some n \<longrightarrow> lineage_ok n) \<and> (sets_local g' \<longrightarrow> (\<forall>i. settled g' i)))"
proof (rule load_cases[OF assms, of bs g])
  fix g' assume l: "load it bs (Some g) = Some (OC_ACCEPTED, [], Some g')"
  then show ?thesis
    using loaded_structure[OF assms l] loaded_node(1)[OF assms l] loaded_settled[OF assms l]
      loaded_storable[OF assms l] by auto
qed auto

theorem load_validates_witness:
  "\<exists>oc msg g'. load sample_it (replicate 40 65) (Some built_graph) = Some (oc, msg, Some g') \<and>
     (oc = OC_REJECT_MALFORMED \<and> g' = built_graph \<or> oc = OC_ACCEPTED \<and> core_inv g' \<and> acyclic_graph g')"
  using load_validates[OF sample_it_ok, of "replicate 40 65" built_graph] by blast

text \<open>C29: Corruption is detected. Of a file that loads, no copy with one changed byte loads, unless the
  byte is one of the two flag bytes, which nothing checks; no truncated copy loads, and none with
  bytes appended.
\<close>

theorem corruption_refused:
  assumes "load it bs (Some g) = Some (OC_ACCEPTED, msg, Some g')"
    and "i < length bs" and "i \<noteq> 6" and "i \<noteq> 7" and "b \<noteq> bs ! i" and "k < length bs" and "xs \<noteq> []"
  shows "(\<exists>m. load it' (bs[i := b]) (Some h) = Some (OC_REJECT_MALFORMED, m, Some h)) \<and>
    (\<exists>m. load it' (take k bs) (Some h) = Some (OC_REJECT_MALFORMED, m, Some h)) \<and>
    (\<exists>m. load it' (bs @ xs) (Some h) = Some (OC_REJECT_MALFORMED, m, Some h))"
proof -
  obtain body where o: "open_snapshot bs = Inr body" using load_opened[OF assms(1)] by blast
  then have "open_snapshot (take k bs @ drop k bs) = Inr body" "drop k bs \<noteq> []" using assms(6) by simp_all
  then show ?thesis
    using open_snapshot_detects[OF o assms(2-5)] open_snapshot_prefix open_snapshot_extended[OF o assms(7)]
    by (meson load_unopened)
qed

theorem corruption_refused_witness:
  "\<exists>bs m. save sample_it (chain_with RS_READY) = Some bs \<and>
     load sample_it (bs[8 := bs ! 8 + 1]) (Some built_graph) = Some (OC_REJECT_MALFORMED, m, Some built_graph) \<and>
     (\<exists>m. load sample_it (take 5 bs) (Some built_graph) = Some (OC_REJECT_MALFORMED, m, Some built_graph)) \<and>
     (\<exists>m. load sample_it (bs @ [0]) (Some built_graph) = Some (OC_REJECT_MALFORMED, m, Some built_graph))"
proof -
  obtain bs where bs: "save sample_it (chain_with RS_READY) = Some bs" by (simp add: save_def Let_def)
  obtain g' where "load sample_it bs (Some empty_graph) = Some (OC_ACCEPTED, [], Some g')"
    using load_saved[OF chain_storable sample_it_ok sample_it_ok bs] by blast
  moreover have "32 \<le> length bs"
    using open_saved[OF chain_storable sample_it_ok bs] unfolding open_snapshot_iff by auto
  ultimately show ?thesis
    using corruption_refused[of sample_it bs empty_graph "[]" g' 8 "bs ! 8 + 1" 5 "[0]" sample_it built_graph] bs
    by auto
qed

section \<open>Restart\<close>

text \<open>C30: The restart gate. After a load every node of dynamic evidence is in REVALIDATION_REQUIRED with
  its evidence marked for revalidation, whatever state the file claims for it, and no recomputation of
  the graph, in any order and as often as one likes, brings it out of that state.
\<close>

theorem restart_gate:
  assumes "iteration_ok it" and "load it bs (Some g) = Some (OC_ACCEPTED, msg, Some g')"
    and "find_node g' i = Some n" and "nd_dynamic_evidence n"
  shows "nd_state n = RS_REVALIDATION_REQUIRED \<and> nd_recovered_evidence n = DE_REVALIDATION_REQUIRED \<and>
    readiness (recompute_nodes order g') i = RS_REVALIDATION_REQUIRED"
proof -
  have n: "sticky n" "nd_state n = RS_REVALIDATION_REQUIRED" "nd_recovered_evidence n = DE_REVALIDATION_REQUIRED"
    using loaded_node(2)[OF assms] by auto
  with recompute_nodes_sticky[OF assms(3) n(1), of order] show ?thesis by (auto simp: readiness_def)
qed

text \<open>A graph with one live service.\<close>

definition live_node :: node where
  "live_node = (chain_node (Strong 1) NK_SERVICE RS_READY)\<lparr>nd_static_durable_fact := False, nd_dynamic_evidence := True\<rparr>"

definition live_graph :: graph where
  "live_graph = empty_graph\<lparr>gr_nodes := [(Strong 1, live_node)]\<rparr>"

lemma live_storable: "storable live_graph"
proof -
  have "core_inv live_graph"
    by (auto simp: live_graph_def core_inv_def graph_wf_def index_sound_def keys_ok_def set_index_ok_def
        empty_graph_def um_size_def kMaxGraphNodes_def live_node_def split: if_splits)
  moreover have "acyclic_graph live_graph"
    by (simp add: acyclic_graph_def dep_rel_def live_graph_def empty_graph_def acyclic_def)
  ultimately show ?thesis
    by (auto simp: storable_def live_graph_def empty_graph_def um_size_def storable_node_def admitted_node_def
        lineage_ok_def short_string_def live_node_def chain_node_def make_node_def node_kind_enumerator_def
        readiness_state_enumerator_def invalidation_reason_enumerator_def kMaxStringBytes_def split: if_splits)
qed

theorem restart_gate_witness:
  "\<exists>bs g'. save sample_it live_graph = Some bs \<and>
     load sample_it bs (Some empty_graph) = Some (OC_ACCEPTED, [], Some g') \<and>
     readiness live_graph (Strong 1) = RS_READY \<and>
     readiness (recompute_nodes [Strong 1, Strong 1] g') (Strong 1) = RS_REVALIDATION_REQUIRED"
proof -
  obtain bs where bs: "save sample_it live_graph = Some bs" by (simp add: save_def Let_def)
  obtain g' where g': "load sample_it bs (Some empty_graph) = Some (OC_ACCEPTED, [], Some g')" "reloaded live_graph g'"
    using load_saved[OF live_storable sample_it_ok sample_it_ok bs] by blast
  have live: "find_node live_graph (Strong 1) = Some live_node" by (simp add: live_graph_def)
  then have "map_option durable (find_node g' (Strong 1)) = Some (durable (demote_node live_node))"
    using g'(2) by (simp add: reloaded_def)
  then obtain n where n: "find_node g' (Strong 1) = Some n" "durable n = durable (demote_node live_node)" by auto
  then have "nd_dynamic_evidence n = nd_dynamic_evidence (demote_node live_node)" by (metis durable_fields(3))
  then have "nd_dynamic_evidence n" by (simp add: demote_node_def live_node_def)
  then have "readiness (recompute_nodes [Strong 1, Strong 1] g') (Strong 1) = RS_REVALIDATION_REQUIRED"
    using restart_gate[OF sample_it_ok g'(1) n(1)] by blast
  then show ?thesis using bs g'(1) live by (auto simp: readiness_def live_node_def)
qed

section \<open>Queries over the wire\<close>

text \<open>What a client parses from the answer to a query is what the graph says: the node's state, its
  current generation, and each of its blockers with the edge, the producer, the kind, whether it is
  optional, and the reason; provided only that the answer fits a frame.
\<close>

theorem query_over_wire:
  assumes "fits_frame (query_frame (readiness g n) (current_authority g n) (blockers g n))"
    and "readiness_state_enumerator (readiness g n)"
    and "list_all (\<lambda>b. edge_kind_enumerator (bd_kind b)) (blockers g n)"
  shows "\<exists>resp. handle fs it (query_req n) g = Some (Some resp, g, []) \<and>
    parse_query_resp resp = Some (readiness g n, current_authority g n, map wire_view (blockers g n))"
proof -
  have "handle fs it (query_req n) g =
      Some (Some (query_frame (readiness g n) (current_authority g n) (blockers g n)), g, [])"
    using handle_answers[of "Query n" fs it g] by simp
  then show ?thesis using query_parsed[OF assms(1,2)] assms(3) by (simp add: list_all_iff)
qed

definition blocked_by_artifact :: blocking_dependency where
  "blocked_by_artifact = \<lparr>bd_edge_id = Strong 10, bd_edge_generation = null_strong, bd_producer = Strong 1,
     bd_producer_kind = NK_UNKNOWN, bd_kind = EK_REQUIRES_READY, bd_optional = False,
     bd_is_set_member = False, bd_set_label = [], bd_constraint_kind = GP_NONE,
     bd_required_generation = null_strong, bd_actual_generation = null_strong,
     bd_reason = ''producer readiness BLOCKED does not meet required READY''\<rparr>"

lemma chain_blockers:
  "blockers (chain_with RS_BLOCKED) (Strong 2) =
     [blocked_by_artifact\<lparr>bd_edge_generation := Strong 1, bd_producer_kind := NK_ARTIFACT\<rparr>]"
  by (simp add: blockers_def set_blockers_def edge_blockers_def listed_members_def eval_edge_locked_def Let_def
      check_generation_def check_readiness_def check_resource_def check_capability_def check_freshness_def
      check_integrity_def check_provenance_def check_completion_def default_predicate_def add_blocker_def
      empty_acc_def meets_generation_constraint_def meets_readiness_constraint_def edge_required_def
      blocked_by_artifact_def) (simp add: sample_edge_def)

theorem query_over_wire_witness:
  "\<exists>resp. handle sample_fs sample_it (query_req (Strong 2)) (chain_with RS_BLOCKED) =
     Some (Some resp, chain_with RS_BLOCKED, []) \<and>
   parse_query_resp resp = Some (RS_READY, Strong 1, [blocked_by_artifact])"
proof -
  have r: "readiness (chain_with RS_BLOCKED) (Strong 2) = RS_READY"
    "current_authority (chain_with RS_BLOCKED) (Strong 2) = Strong 1"
    by (simp_all add: readiness_def current_authority_def)
  have "map wire_view (blockers (chain_with RS_BLOCKED) (Strong 2)) = [blocked_by_artifact]"
    by (simp add: chain_blockers wire_view_def) (simp add: blocked_by_artifact_def)
  then show ?thesis
    using query_over_wire[of "chain_with RS_BLOCKED" "Strong 2" sample_fs sample_it, unfolded r]
    by (simp add: chain_blockers fits_frame_def query_frame_def readiness_state_enumerator_def enc_blocker_def
        edge_kind_enumerator_def blocked_by_artifact_def kMaxBodyBytes_def)
qed

end
