(* ===== verification/Roles.thy ===== *)
theory Roles
  imports Coordinator
begin

text \<open>
  \<open>src/tools/df_app_main.cpp\<close>: the processes of the multi-process demonstration - a coordinator,
  workers, a consumer, a client that replays an old message - and the orchestrator that starts them
  and judges what they report.

  A process runs in the state monad over the \<open>world\<close>: the graph in the memory of the coordinator, the
  files, and the connection of the one client the coordinator reads from. What the operating system
  does is a script of \<open>fates\<close>, one for each connect, exchange and start of a process: an exchange may
  lose the request or the reply. The coordinator answers through \<open>handle\<close>; that frames reach it and
  come back unchanged over split reads and writes is shown in \<open>Coordinator\<close>. A started process runs
  to its end before the orchestrator goes on, as it waits for the file the process writes last. Local
  variables that the code leaves uninitialised are parameters.
\<close>

section \<open>The world of a process\<close>

datatype fate = Delivered | Request_lost | Reply_lost

record world =
  wo_graph :: graph
  wo_alive :: bool
  wo_open :: bool
  wo_fs :: file_system
  wo_fates :: "fate list"

type_synonym 'a process = "(world, 'a) state"

text \<open>An exhausted script is a network without faults.\<close>

definition next_fate :: "fate process" where
  "next_fate = State (\<lambda>w. case wo_fates w of [] \<Rightarrow> (Delivered, w) | f # fs \<Rightarrow> (f, w\<lparr>wo_fates := fs\<rparr>))"

definition put_file :: "string \<Rightarrow> u8 list \<Rightarrow> file_system \<Rightarrow> file_system" where
  "put_file path bs fs = fs\<lparr>fs_end := (fs_end fs)(path := Some (int (length bs))),
     fs_bytes := (fs_bytes fs)(path := bs)\<rparr>"

definition write_file :: "string \<Rightarrow> string \<Rightarrow> unit process" where
  "write_file path content = State (\<lambda>w. ((),
     if fs_can_open (wo_fs w) path
     then w\<lparr>wo_fs := put_file path (if fs_can_write (wo_fs w) path then string_bytes content else []) (wo_fs w)\<rparr>
     else w))"

definition file_exists :: "string \<Rightarrow> bool process" where
  "file_exists path = State (\<lambda>w. (fs_end (wo_fs w) path \<noteq> None, w))"

definition read_file :: "string \<Rightarrow> string process" where
  "read_file path = State (\<lambda>w. (case fs_end (wo_fs w) path of None \<Rightarrow> []
     | Some stop \<Rightarrow> map char_of_byte (take (nat stop) (fs_bytes (wo_fs w) path)), w))"

definition remove_file :: "string \<Rightarrow> unit process" where
  "remove_file path = State (\<lambda>w. ((), w\<lparr>wo_fs := (wo_fs w)\<lparr>fs_end := (fs_end (wo_fs w))(path := None)\<rparr>\<rparr>))"

definition marker_file :: "string \<Rightarrow> string \<Rightarrow> string" where
  "marker_file dir name = dir @ ''/'' @ name"

section \<open>Talking to the coordinator\<close>

definition connect :: "bool process" where
  "connect = do {
     f \<leftarrow> next_fate;
     State (\<lambda>w. if f = Delivered \<and> wo_alive w then (True, w\<lparr>wo_open := True\<rparr>)
                else (False, w\<lparr>wo_open := False\<rparr>)) }"

definition hang_up :: "unit process" where
  "hang_up = State (\<lambda>w. ((), w\<lparr>wo_open := False\<rparr>))"

text \<open>One turn of the loop in \<open>serve\<close>: no response, or one that cannot be sent, ends the connection.\<close>

definition serve_request :: "iteration \<Rightarrow> frame \<Rightarrow> world \<Rightarrow> frame option \<times> world" where
  "serve_request it req w =
     (case handle (wo_fs w) it req (wo_graph w) of
        None \<Rightarrow> (None, w\<lparr>wo_alive := False, wo_open := False\<rparr>)
      | Some (resp, g', ws) \<Rightarrow>
          let w' = w\<lparr>wo_graph := g', wo_fs := fold (\<lambda>(path, bs). put_file path bs) ws (wo_fs w)\<rparr> in
          (case resp of
             None \<Rightarrow> (None, w'\<lparr>wo_open := False\<rparr>)
           | Some f \<Rightarrow> if fits_frame f then (Some f, w') else (None, w'\<lparr>wo_open := False\<rparr>)))"

text \<open>\<open>rpc\<close> leaves the response variable as it was when the exchange fails.\<close>

definition rpc :: "iteration \<Rightarrow> frame \<Rightarrow> frame \<Rightarrow> frame process" where
  "rpc it req resp = do {
     f \<leftarrow> next_fate;
     State (\<lambda>w.
       if \<not> fits_frame req \<or> f = Request_lost \<or> \<not> wo_open w then (resp, w)
       else case serve_request it req w of
         (None, w') \<Rightarrow> (resp, w')
       | (Some r, w') \<Rightarrow> (if f = Reply_lost then resp else r, w')) }"

text \<open>What the parsers leave in their out-parameters, also when they return false.\<close>

definition parsed_outcome :: "frame \<Rightarrow> outcome \<Rightarrow> outcome" where
  "parsed_outcome f out =
     (if fr_type f = FT_ACK \<or> fr_type f = FT_NACK
      then outcome_of_code (fst (run_state dec_u8 (new_decoder (fr_body f)))) else out)"

definition parsed_state :: "frame \<Rightarrow> readiness_state \<Rightarrow> readiness_state" where
  "parsed_state f st =
     (if fr_type f = FT_QUERY_RESP
      then readiness_state_of_code (fst (run_state dec_u8 (new_decoder (fr_body f)))) else st)"

definition parsed_generation :: "frame \<Rightarrow> node_generation \<Rightarrow> node_generation" where
  "parsed_generation f gen =
     (if fr_type f = FT_QUERY_RESP
      then fst (run_state (do { _ \<leftarrow> dec_u8; dec_id }) (new_decoder (fr_body f))) else gen)"

definition parsed_persist :: "frame \<Rightarrow> outcome \<Rightarrow> outcome" where
  "parsed_persist f out =
     (if fr_type f = FT_PERSIST_RESP
      then outcome_of_code (fst (run_state dec_u8 (new_decoder (fr_body f)))) else out)"

text \<open>\<open>proto::Frame resp;\<close>\<close>

definition no_frame :: frame where
  "no_frame = \<lparr>fr_type = FT_ERROR, fr_body = []\<rparr>"

text \<open>When the exchange fails \<open>rpc_outcome\<close> does not parse; the empty ERROR frame parses to nothing.\<close>

definition rpc_outcome :: "iteration \<Rightarrow> frame \<Rightarrow> outcome \<Rightarrow> outcome process" where
  "rpc_outcome it req out = do { r \<leftarrow> rpc it req no_frame; State_Monad.return (parsed_outcome r out) }"

section \<open>The roles\<close>

definition SRC_A :: source_id where "SRC_A = Strong 1"
definition SRC_B :: source_id where "SRC_B = Strong 2"
definition SRC_C :: source_id where "SRC_C = Strong 3"
definition SRC_ORCH :: source_id where "SRC_ORCH = Strong 4"
definition BOOT_1 :: source_boot_id where "BOOT_1 = Strong 1"
definition BOOT_2 :: source_boot_id where "BOOT_2 = Strong 2"
definition EPOCH_1 :: coordinator_epoch where "EPOCH_1 = Strong 1"
definition EPOCH_2 :: coordinator_epoch where "EPOCH_2 = Strong 2"

definition make_edge :: "edge_id \<Rightarrow> node_id \<Rightarrow> node_id \<Rightarrow> node_generation \<Rightarrow> edge" where
  "make_edge i producer consumer pinned =
     \<lparr>ed_id = i, ed_generation = Strong 1, ed_kind = EK_REQUIRES_GENERATION, ed_producer_id = producer,
      ed_consumer_id = consumer, ed_bound_producer_generation = null_strong,
      ed_bound_consumer_generation = null_strong,
      ed_predicate = default_predicate\<lparr>pr_generation_kind := GP_EXACT, pr_exact_generation := pinned,
        pr_is_required := True\<rparr>,
      ed_active = True\<rparr>"

text \<open>The exit code of a process; \<open>None\<close> is a process that sleeps until it is killed.\<close>

definition run_worker_a :: "iteration \<Rightarrow> string \<Rightarrow> outcome \<Rightarrow> int option process" where
  "run_worker_a it dir o0 = do {
     ok \<leftarrow> connect;
     if \<not> ok then State_Monad.return (Some 1) else do {
       _ \<leftarrow> rpc it hello_req no_frame;
       o1 \<leftarrow> rpc_outcome it (register_req SRC_A BOOT_1 EPOCH_1) o0;
       o2 \<leftarrow> rpc_outcome it (publish_node_req (Strong 1) NK_MODEL ''model'' SRC_A BOOT_1 EPOCH_1) o1;
       o3 \<leftarrow> rpc_outcome it (publish_gen_req (Strong 1) (Strong 1) SRC_A BOOT_1 EPOCH_1) o2;
       _ \<leftarrow> rpc it bye no_frame;
       hang_up;
       write_file (marker_file dir ''a_published.flag'') ''A1'';
       State_Monad.return None }}"

definition run_worker_b :: "iteration \<Rightarrow> string \<Rightarrow> outcome \<Rightarrow> int option process" where
  "run_worker_b it dir o0 = do {
     ok \<leftarrow> connect;
     if \<not> ok then State_Monad.return (Some 1) else do {
       _ \<leftarrow> rpc it hello_req no_frame;
       o1 \<leftarrow> rpc_outcome it (register_req SRC_B BOOT_1 EPOCH_1) o0;
       o2 \<leftarrow> rpc_outcome it (publish_node_req (Strong 2) NK_ARTIFACT ''artifact'' SRC_B BOOT_1 EPOCH_1) o1;
       o3 \<leftarrow> rpc_outcome it (publish_gen_req (Strong 2) (Strong 1) SRC_B BOOT_1 EPOCH_1) o2;
       o4 \<leftarrow> rpc_outcome it (add_edge_req (make_edge (Strong 1) (Strong 1) (Strong 2) (Strong 1))
               SRC_B BOOT_1 EPOCH_1) o3;
       _ \<leftarrow> rpc it bye no_frame;
       hang_up;
       write_file (marker_file dir ''b_published.flag'') ''B1'';
       State_Monad.return (Some 0) }}"

definition run_consumer :: "iteration \<Rightarrow> string \<Rightarrow> outcome \<Rightarrow> int option process" where
  "run_consumer it dir o0 = do {
     ok \<leftarrow> connect;
     if \<not> ok then State_Monad.return (Some 1) else do {
       _ \<leftarrow> rpc it hello_req no_frame;
       o1 \<leftarrow> rpc_outcome it (register_req SRC_C BOOT_1 EPOCH_1) o0;
       o2 \<leftarrow> rpc_outcome it (publish_node_req (Strong 3) NK_WORKLOAD_PHASE ''phase'' SRC_C BOOT_1 EPOCH_1) o1;
       o3 \<leftarrow> rpc_outcome it (add_edge_req (make_edge (Strong 2) (Strong 2) (Strong 3) (Strong 1))
               SRC_C BOOT_1 EPOCH_1) o2;
       q \<leftarrow> rpc it (query_req (Strong 3)) no_frame;
       write_file (marker_file dir ''consumer_result.txt'')
         (case parse_query_resp q of Some (st, gen, bl) \<Rightarrow> readiness_state_name st | None \<Rightarrow> ''ERR'');
       _ \<leftarrow> rpc it bye no_frame;
       hang_up;
       State_Monad.return (Some 0) }}"

definition run_worker_a2 :: "iteration \<Rightarrow> string \<Rightarrow> outcome \<Rightarrow> outcome \<Rightarrow> int option process" where
  "run_worker_a2 it dir reg0 pub0 = do {
     ok \<leftarrow> connect;
     if \<not> ok then State_Monad.return (Some 1) else do {
       _ \<leftarrow> rpc it hello_req no_frame;
       reg \<leftarrow> rpc_outcome it (register_req SRC_A BOOT_2 EPOCH_2) reg0;
       pub \<leftarrow> rpc_outcome it (publish_gen_req (Strong 1) (Strong 2) SRC_A BOOT_2 EPOCH_2) pub0;
       q \<leftarrow> rpc it (query_req (Strong 1)) no_frame;
       _ \<leftarrow> rpc it bye no_frame;
       hang_up;
       write_file (marker_file dir ''a2_published.flag'')
         (''reg='' @ outcome_name reg @ '':pub='' @ outcome_name pub @ '':qgen='' @
          (case parse_query_resp q of Some (st, gen, bl) \<Rightarrow> strong_to_string gen | None \<Rightarrow> ''ERR''));
       State_Monad.return (Some 0) }}"

definition run_replay :: "iteration \<Rightarrow> string \<Rightarrow> outcome \<Rightarrow> int option process" where
  "run_replay it dir o0 = do {
     ok \<leftarrow> connect;
     if \<not> ok then State_Monad.return (Some 1) else do {
       _ \<leftarrow> rpc it hello_req no_frame;
       oc \<leftarrow> rpc_outcome it (publish_gen_req (Strong 1) (Strong 999) SRC_A BOOT_1 EPOCH_1) o0;
       write_file (marker_file dir ''replay_outcome.txt'') (outcome_name oc);
       _ \<leftarrow> rpc it bye no_frame;
       hang_up;
       State_Monad.return (Some 0) }}"

text \<open>
  The coordinator: a failed load is only logged. The ready file is written before \<open>serve\<close> listens; when
  listening fails the process ends.
\<close>

definition run_coordinator :: "iteration \<Rightarrow> string \<Rightarrow> string \<Rightarrow> unit process" where
  "run_coordinator it ready path = do {
     State (\<lambda>w. ((), w\<lparr>wo_graph :=
       (if path = [] then empty_graph
        else case load_file (wo_fs w) it path (Some empty_graph) of
          Some (oc, err, Some g) \<Rightarrow> g
        | _ \<Rightarrow> empty_graph), wo_open := False\<rparr>));
     write_file ready ''ready'';
     f \<leftarrow> next_fate;
     State (\<lambda>w. ((), w\<lparr>wo_alive := (f = Delivered)\<rparr>)) }"

section \<open>The orchestrator\<close>

definition spawn :: "'a process \<Rightarrow> bool process" where
  "spawn p = do {
     f \<leftarrow> next_fate;
     if f = Delivered then do { _ \<leftarrow> p; State_Monad.return True } else State_Monad.return False }"

definition kill_coordinator :: "unit process" where
  "kill_coordinator = State (\<lambda>w. ((), w\<lparr>wo_alive := False, wo_open := False\<rparr>))"

definition marker_names :: "string list" where
  "marker_names = [''coord.ready'', ''a_published.flag'', ''b_published.flag'', ''consumer_result.txt'',
     ''a2_published.flag'', ''replay_outcome.txt'', ''graph.bin'', ''proof_result.txt'']"

fun remove_markers :: "string \<Rightarrow> string list \<Rightarrow> unit process" where
  "remove_markers dir [] = State_Monad.return ()"
| "remove_markers dir (m # ms) = do { remove_file (marker_file dir m); remove_markers dir ms }"

text \<open>\<open>write_file(proof_result.txt, msg); return code;\<close>\<close>

definition conclude :: "string \<Rightarrow> string \<Rightarrow> int \<Rightarrow> int process" where
  "conclude dir msg code = do { write_file (marker_file dir ''proof_result.txt'') msg; State_Monad.return code }"

text \<open>Steps 12 to 14, with the file of the persisted graph, after the coordinator was killed.\<close>

definition restart_and_revalidate :: "iteration \<Rightarrow> string \<Rightarrow> outcome \<Rightarrow> readiness_state \<Rightarrow> frame \<Rightarrow> int process" where
  "restart_and_revalidate it dir o0 st0 resp = do {
     remove_file (marker_file dir ''coord.ready'');
     _ \<leftarrow> spawn (run_coordinator it (marker_file dir ''coord.ready'') (marker_file dir ''graph.bin''));
     ready \<leftarrow> file_exists (marker_file dir ''coord.ready'');
     if \<not> ready then conclude dir ''STEP12_RESTART_NOT_READY'' 1 else do {
     ok \<leftarrow> connect;
     if \<not> ok then conclude dir ''STEP13_OPEN_FAIL'' 1 else do {
     r0 \<leftarrow> rpc it hello_req resp;
     r1 \<leftarrow> rpc it (query_req (Strong 3)) r0;
     let st = parsed_state r1 st0;
     if st \<noteq> RS_REVALIDATION_REQUIRED
     then conclude dir (''STEP13_NOT_CONSERVATIVE:'' @ readiness_state_name st) 1 else do {
     o1 \<leftarrow> rpc_outcome it (register_req SRC_ORCH BOOT_1 EPOCH_2) o0;
     o2 \<leftarrow> rpc_outcome it (publish_readiness_req (Strong 1) SRC_ORCH BOOT_1 EPOCH_2) o1;
     o3 \<leftarrow> rpc_outcome it (publish_readiness_req (Strong 2) SRC_ORCH BOOT_1 EPOCH_2) o2;
     o4 \<leftarrow> rpc_outcome it (publish_readiness_req (Strong 3) SRC_ORCH BOOT_1 EPOCH_2) o3;
     r2 \<leftarrow> rpc it (query_req (Strong 3)) r1;
     let stv = parsed_state r2 st0;
     if stv \<noteq> RS_READY then conclude dir (''STEP14_NOT_READY:'' @ readiness_state_name stv) 1 else do {
     hang_up;
     kill_coordinator;
     conclude dir ''PASS'' 0 }}}}}"

text \<open>Steps 9 to 11 on one connection, then the restart.\<close>

definition rebuild_and_persist :: "iteration \<Rightarrow> string \<Rightarrow> outcome \<Rightarrow> readiness_state \<Rightarrow> node_generation \<Rightarrow>
    int process" where
  "rebuild_and_persist it dir o0 st0 gen0 = do {
     ok \<leftarrow> connect;
     if \<not> ok then State_Monad.return 1 else do {
     r0 \<leftarrow> rpc it hello_req no_frame;
     r1 \<leftarrow> rpc it (query_req (Strong 2)) r0;
     r2 \<leftarrow> rpc it (query_req (Strong 3)) r1;
     r3 \<leftarrow> rpc it (query_req (Strong 1)) r2;
     let st = parsed_state r1 st0;
     let st3 = parsed_state r2 st0;
     if st \<noteq> RS_STALE \<or> st3 \<noteq> RS_BLOCKED
     then conclude dir (''STEP9_FAIL:'' @ readiness_state_name st @ '':'' @ readiness_state_name st3 @
       '':modelgen='' @ strong_to_string (parsed_generation r3 gen0) @ '':modelstate='' @
       readiness_state_name (parsed_state r3 st0)) 1
     else do {
     o1 \<leftarrow> rpc_outcome it (register_req SRC_ORCH BOOT_1 EPOCH_2) o0;
     o2 \<leftarrow> rpc_outcome it (remove_edge_req (Strong 1) SRC_ORCH BOOT_1 EPOCH_2) o1;
     o3 \<leftarrow> rpc_outcome it (add_edge_req (make_edge (Strong 5) (Strong 1) (Strong 2) (Strong 2))
             SRC_ORCH BOOT_1 EPOCH_2) o2;
     o4 \<leftarrow> rpc_outcome it (publish_gen_req (Strong 2) (Strong 2) SRC_ORCH BOOT_1 EPOCH_2) o3;
     o5 \<leftarrow> rpc_outcome it (remove_edge_req (Strong 2) SRC_ORCH BOOT_1 EPOCH_2) o4;
     o6 \<leftarrow> rpc_outcome it (add_edge_req (make_edge (Strong 6) (Strong 2) (Strong 3) (Strong 2))
             SRC_ORCH BOOT_1 EPOCH_2) o5;
     r4 \<leftarrow> rpc it (query_req (Strong 3)) r3;
     let stc = parsed_state r4 st0;
     if stc \<noteq> RS_READY then conclude dir (''STEP10_NOT_READY:'' @ readiness_state_name stc) 1 else do {
     r5 \<leftarrow> rpc it (persist_req (marker_file dir ''graph.bin'')) r4;
     if parsed_persist r5 o0 \<noteq> OC_ACCEPTED then conclude dir ''STEP11_PERSIST_FAIL'' 1 else do {
     hang_up;
     kill_coordinator;
     restart_and_revalidate it dir o0 st0 r5 }}}}}"

definition run_orchestrator :: "iteration \<Rightarrow> string \<Rightarrow> outcome \<Rightarrow> readiness_state \<Rightarrow> node_generation \<Rightarrow> int process" where
  "run_orchestrator it dir o0 st0 gen0 = do {
     remove_markers dir marker_names;
     started \<leftarrow> spawn (run_coordinator it (marker_file dir ''coord.ready'') []);
     if \<not> started then conclude dir ''SPAWN_COORDINATOR_FAIL'' 1 else do {
     ready \<leftarrow> file_exists (marker_file dir ''coord.ready'');
     if \<not> ready then conclude dir ''COORD_NOT_READY'' 1 else do {
     _ \<leftarrow> spawn (run_worker_a it dir o0);
     _ \<leftarrow> spawn (run_worker_b it dir o0);
     _ \<leftarrow> spawn (run_consumer it dir o0);
     consumer1 \<leftarrow> read_file (marker_file dir ''consumer_result.txt'');
     if consumer1 \<noteq> ''READY'' then conclude dir (''STEP4_CONSUMER_NOT_READY:'' @ consumer1) 1 else do {
     ok \<leftarrow> connect;
     if \<not> ok then conclude dir ''CLIENT_OPEN_FAIL'' 1 else do {
     _ \<leftarrow> rpc it hello_req no_frame;
     oc \<leftarrow> rpc_outcome it (advance_epoch_req EPOCH_2) o0;
     if oc \<noteq> OC_ACCEPTED then conclude dir ''ADVANCE_EPOCH_FAIL'' 1 else do {
     hang_up;
     remove_file (marker_file dir ''replay_outcome.txt'');
     _ \<leftarrow> spawn (run_replay it dir o0);
     replay \<leftarrow> read_file (marker_file dir ''replay_outcome.txt'');
     if replay \<noteq> ''REJECT_STALE_EPOCH'' \<and> replay \<noteq> ''REJECT_STALE_BOOT''
     then conclude dir (''STEP7_STALE_NOT_REJECTED:'' @ replay) 1 else do {
     _ \<leftarrow> spawn (run_worker_a2 it dir o0 o0);
     rebuild_and_persist it dir o0 st0 gen0 }}}}}}}"

section \<open>What a process does to the coordinator\<close>

text \<open>
  The contract: a relation between the world before and after, which holds when the coordinator is left
  alone and over successive actions, holds of every process if it holds of the requests it may send.
\<close>

definition always :: "(world \<Rightarrow> world \<Rightarrow> bool) \<Rightarrow> 'a process \<Rightarrow> bool" where
  "always R p \<longleftrightarrow> (\<forall>w. R w (snd (run_state p w)))"

definition same_coordinator :: "world \<Rightarrow> world \<Rightarrow> bool" where
  "same_coordinator w w' \<longleftrightarrow> wo_graph w' = wo_graph w \<and> wo_alive w' = wo_alive w"

named_theorems always_rules \<open>processes that keep a relation between worlds\<close>

lemma always_quiet:
  "always same_coordinator next_fate" "always same_coordinator connect" "always same_coordinator hang_up"
  "always same_coordinator (write_file path content)" "always same_coordinator (remove_file path)"
  "always same_coordinator (file_exists path)" "always same_coordinator (read_file path)"
  by (auto simp: always_def same_coordinator_def next_fate_def connect_def hang_up_def write_file_def
      remove_file_def file_exists_def read_file_def split: list.split)

locale world_relation =
  fixes R :: "world \<Rightarrow> world \<Rightarrow> bool"
  assumes left_alone: "same_coordinator w w' \<Longrightarrow> R w w'"
    and successive: "R u v \<Longrightarrow> R v w \<Longrightarrow> R u w"
begin

lemma always_same: "always same_coordinator p \<Longrightarrow> always R p"
  by (simp add: always_def left_alone)

lemma always_return: "always R (State_Monad.return x)"
  by (simp add: always_def left_alone same_coordinator_def)

lemma always_bind: "always R p \<Longrightarrow> (\<And>x. always R (f x)) \<Longrightarrow> always R (State_Monad.bind p f)"
  unfolding always_def by (auto split: prod.splits) (metis snd_conv successive)

lemma always_if: "(c \<Longrightarrow> always R p) \<Longrightarrow> (\<not> c \<Longrightarrow> always R q) \<Longrightarrow> always R (if c then p else q)"
  by simp

lemma always_let: "(\<And>x. always R (f x)) \<Longrightarrow> always R (Let a f)"
  by simp

lemmas always_basic = always_quiet[THEN always_same] always_return always_bind always_if always_let

lemma always_spawn: "always R p \<Longrightarrow> always R (spawn p)"
  unfolding spawn_def by (intro always_basic)

lemma always_conclude: "always R (conclude dir msg code)"
  unfolding conclude_def by (intro always_basic)

lemma always_markers: "always R (remove_markers dir ms)"
  by (induction ms) (auto intro!: always_basic)

end

locale request_relation = world_relation R for R +
  fixes it :: iteration and allowed :: "frame \<Rightarrow> bool"
  assumes served: "allowed req \<Longrightarrow> R w (snd (serve_request it req w))"
begin

lemma always_rpc: "allowed req \<Longrightarrow> always R (rpc it req resp)"
  unfolding rpc_def
proof (intro always_basic)
  fix f
  assume "allowed req"
  then have "R w (snd (serve_request it req w))" and "R w w" for w
    by (simp_all add: served left_alone same_coordinator_def)
  then show "always R (State (\<lambda>w. if \<not> fits_frame req \<or> f = Request_lost \<or> \<not> wo_open w then (resp, w)
      else case serve_request it req w of (None, w') \<Rightarrow> (resp, w')
        | (Some r, w') \<Rightarrow> (if f = Reply_lost then resp else r, w')))"
    by (auto simp: always_def split: prod.splits option.splits) (metis snd_conv)+
qed

lemma always_rpc_outcome: "allowed req \<Longrightarrow> always R (rpc_outcome it req out)"
  unfolding rpc_outcome_def by (intro always_basic always_rpc)

lemmas always_talk = always_rpc always_rpc_outcome always_basic

lemma always_replay:
  assumes "allowed hello_req" "allowed bye"
    and "allowed (publish_gen_req (Strong 1) (Strong 999) SRC_A BOOT_1 EPOCH_1)"
  shows "always R (run_replay it dir o0)"
  unfolding run_replay_def by (intro always_talk assms)

lemma always_roles:
  assumes "\<And>req. allowed req"
  shows "always R (run_worker_a it dir o0)" "always R (run_worker_b it dir o0)"
    "always R (run_consumer it dir o0)" "always R (run_worker_a2 it dir o0 p0)" "always R (run_replay it dir o0)"
  unfolding run_worker_a_def run_worker_b_def run_consumer_def run_worker_a2_def run_replay_def
  by (intro always_talk assms)+

lemma always_orchestrator:
  assumes "\<And>req. allowed req" and "\<And>ready path. always R (run_coordinator it ready path)"
    and "always R kill_coordinator"
  shows "always R (run_orchestrator it dir o0 st0 gen0)"
  unfolding run_orchestrator_def rebuild_and_persist_def restart_and_revalidate_def
  by (intro always_spawn always_conclude always_markers always_talk always_roles assms)

end

section \<open>Instances\<close>

text \<open>A well-formed graph takes steps of the runtime only, and the coordinator does not crash.\<close>

definition runtime_safe :: "iteration \<Rightarrow> world \<Rightarrow> world \<Rightarrow> bool" where
  "runtime_safe it w w' \<longleftrightarrow> (core_inv (wo_graph w) \<longrightarrow>
     (fabric_step any_command it)\<^sup>*\<^sup>* (wo_graph w) (wo_graph w') \<and> (wo_alive w \<longrightarrow> wo_alive w'))"

lemma served_step:
  assumes "core_inv (wo_graph w)"
  shows "(fabric_step any_command it)\<^sup>*\<^sup>* (wo_graph w) (wo_graph (snd (serve_request it req w)))"
    "wo_alive (snd (serve_request it req w)) = wo_alive w"
proof -
  obtain r g' ws where h: "handle (wo_fs w) it req (wo_graph w) = Some (r, g', ws)"
    using handle_returns[OF assms, of "wo_fs w" it req] by auto
  then have "g' = wo_graph w \<or> fabric_step any_command it (wo_graph w) g'" by (rule handle_step)
  with h show "(fabric_step any_command it)\<^sup>*\<^sup>* (wo_graph w) (wo_graph (snd (serve_request it req w)))"
    "wo_alive (snd (serve_request it req w)) = wo_alive w"
    by (auto simp: serve_request_def Let_def split: option.split)
qed

interpretation live: request_relation "runtime_safe it" it "\<lambda>_. True" for it
proof
  fix u v w :: world and req
  show "same_coordinator u v \<Longrightarrow> runtime_safe it u v"
    by (simp add: same_coordinator_def runtime_safe_def)
  show "runtime_safe it u v \<Longrightarrow> runtime_safe it v w \<Longrightarrow> runtime_safe it u w"
    unfolding runtime_safe_def by (meson rtranclp_trans steps_core_inv)
  show "runtime_safe it w (snd (serve_request it req w))"
    by (simp add: runtime_safe_def served_step)
qed

text \<open>The graph of the coordinator is well formed, also across its restarts.\<close>

definition well_formed_world :: "world \<Rightarrow> world \<Rightarrow> bool" where
  "well_formed_world w w' \<longleftrightarrow> (core_inv (wo_graph w) \<longrightarrow> core_inv (wo_graph w'))"

interpretation formed: request_relation well_formed_world it "\<lambda>_. True" for it
proof
  fix u v w :: world and req
  show "same_coordinator u v \<Longrightarrow> well_formed_world u v"
    by (simp add: same_coordinator_def well_formed_world_def)
  show "well_formed_world u v \<Longrightarrow> well_formed_world v w \<Longrightarrow> well_formed_world u w"
    by (simp add: well_formed_world_def)
  show "well_formed_world w (snd (serve_request it req w))"
    using steps_core_inv[OF served_step(1)] by (auto simp: well_formed_world_def)
qed

lemma empty_core: "core_inv empty_graph"
  using reachable_core_inv[OF re_start] by simp

text \<open>What a coordinator starts from: the empty graph, or a graph that \<open>load\<close> accepted.\<close>

lemma started_graph:
  assumes "iteration_ok it"
  shows "wo_graph (snd (run_state (run_coordinator it ready path) w)) = empty_graph \<or>
    (\<exists>bs. load it bs (Some empty_graph) =
       Some (OC_ACCEPTED, [], Some (wo_graph (snd (run_state (run_coordinator it ready path) w)))))"
proof -
  let ?g = "if path = [] then empty_graph else case load_file (wo_fs w) it path (Some empty_graph) of
    Some (oc, err, Some g) \<Rightarrow> g | _ \<Rightarrow> empty_graph"
  have "wo_graph (snd (run_state (run_coordinator it ready path) w)) = ?g"
    by (simp add: run_coordinator_def write_file_def next_fate_def split: prod.splits list.splits)
  moreover have "?g = empty_graph \<or> (\<exists>bs. load it bs (Some empty_graph) = Some (OC_ACCEPTED, [], Some ?g))"
    by (rule load_file_cases[OF assms, of "wo_fs w" path empty_graph]) auto
  ultimately show ?thesis by simp
qed

lemma coordinator_formed: "iteration_ok it \<Longrightarrow> always well_formed_world (run_coordinator it ready path)"
  unfolding always_def well_formed_world_def
  using started_graph loaded_structure(1) empty_core by metis

lemma kill_formed: "always well_formed_world kill_coordinator"
  by (simp add: always_def well_formed_world_def kill_coordinator_def)

text \<open>A fenced source leaves no trace.\<close>

definition fenced :: "world \<Rightarrow> world \<Rightarrow> bool" where
  "fenced w w' \<longleftrightarrow> (authority_ok (wo_graph w) SRC_A BOOT_1 EPOCH_1 \<noteq> None \<longrightarrow> wo_graph w' = wo_graph w)"

definition replayed :: "frame \<Rightarrow> bool" where
  "replayed req \<longleftrightarrow> req = hello_req \<or> req = bye \<or>
     req = publish_gen_req (Strong 1) (Strong 999) SRC_A BOOT_1 EPOCH_1"

lemma replay_handled:
  "handle fs it hello_req g = Some (Some \<lparr>fr_type = FT_HELLO_RESP, fr_body = enc_id (gr_epoch g)\<rparr>, g, [])"
  "handle fs it bye g = Some (None, g, [])"
  "authority_ok g SRC_A BOOT_1 EPOCH_1 = Some rej \<Longrightarrow>
     handle fs it (publish_gen_req (Strong 1) (Strong 999) SRC_A BOOT_1 EPOCH_1) g = Some (Some (ack rej), g, [])"
  using handle_answers[of Hello fs it g] handle_answers[of Bye fs it g]
    handle_answers[of "PublishGen (Strong 1) (Strong 999)
      \<lparr>cr_source = SRC_A, cr_boot = BOOT_1, cr_epoch = EPOCH_1\<rparr>" fs it g]
  by (simp_all add: submit_def publish_generation_def acked_def)

interpretation old: request_relation fenced it replayed for it
proof
  fix u v w :: world and req
  show "same_coordinator u v \<Longrightarrow> fenced u v" by (simp add: same_coordinator_def fenced_def)
  show "fenced u v \<Longrightarrow> fenced v w \<Longrightarrow> fenced u w" by (auto simp: fenced_def)
  show "replayed req \<Longrightarrow> fenced w (snd (serve_request it req w))"
    by (auto simp: fenced_def replayed_def serve_request_def replay_handled)
qed

lemma authority_rejections:
  "authority_ok g s b e = Some rej \<Longrightarrow> rej = OC_REJECT_STALE_EPOCH \<or> rej = OC_REJECT_STALE_BOOT"
  by (auto simp: authority_ok_def split: if_splits option.splits)

lemma parsed_ack:
  "outcome_enumerator oc \<Longrightarrow> parsed_outcome (ack oc) out = oc"
  by (simp add: parsed_outcome_def ack_def enc_u8_def new_decoder_def dec_u8_def outcome_of_code_code)

text \<open>Without faults the replay reports the rejection.\<close>

lemma replay_delivered:
  assumes rej: "authority_ok (wo_graph w) SRC_A BOOT_1 EPOCH_1 = Some rej" and "wo_fates w = []" and "wo_alive w"
  shows "run_state (run_replay it dir o0) w =
    (Some 0, (snd (run_state (write_file (marker_file dir ''replay_outcome.txt'') (outcome_name rej)) w))
       \<lparr>wo_open := False\<rparr>)"
proof -
  have fits: "fits_frame hello_req" "fits_frame bye"
    "fits_frame (publish_gen_req (Strong 1) (Strong 999) SRC_A BOOT_1 EPOCH_1)" "fits_frame (ack rej)"
    "fits_frame \<lparr>fr_type = FT_HELLO_RESP, fr_body = enc_id (gr_epoch (wo_graph w))\<rparr>"
    by (simp_all add: fits_frame_def hello_req_def bye_def publish_gen_req_def ack_def kMaxBodyBytes_def enc_u8_def)
  have oc: "parsed_outcome (ack rej) o0 = rej"
    using authority_rejections[OF rej] by (auto intro!: parsed_ack simp: outcome_enumerator_def)
  show ?thesis
    using assms fits oc
    by (simp add: run_replay_def connect_def next_fate_def rpc_outcome_def rpc_def serve_request_def
        replay_handled write_file_def hang_up_def)
qed

lemma file_written:
  assumes "fs_can_open (wo_fs w) path" and "fs_can_write (wo_fs w) path"
  shows "fst (run_state (read_file path) (snd (run_state (write_file path content) w))) = content"
  using assms by (simp add: read_file_def write_file_def put_file_def comp_def string_bytes_def)

lemma read_file_open: "fst (run_state (read_file path) (w\<lparr>wo_open := b\<rparr>)) = fst (run_state (read_file path) w)"
  by (simp add: read_file_def split: option.split)

section \<open>What the orchestrator reports\<close>

text \<open>What holds of the result of a process and the world it leaves, whatever world it starts in.\<close>

definition ends :: "('a \<Rightarrow> world \<Rightarrow> bool) \<Rightarrow> 'a process \<Rightarrow> bool" where
  "ends Q p \<longleftrightarrow> (\<forall>w. Q (fst (run_state p w)) (snd (run_state p w)))"

lemma ends_bind: "(\<And>x. ends Q (f x)) \<Longrightarrow> ends Q (State_Monad.bind p f)"
  by (auto simp: ends_def split: prod.splits)

lemma ends_if: "(c \<Longrightarrow> ends Q p) \<Longrightarrow> (\<not> c \<Longrightarrow> ends Q q) \<Longrightarrow> ends Q (if c then p else q)"
  by simp

lemma ends_let: "(\<And>x. ends Q (f x)) \<Longrightarrow> ends Q (Let a f)"
  by simp

lemma ends_return: "(\<And>w. Q x w) \<Longrightarrow> ends Q (State_Monad.return x)"
  by (simp add: ends_def)

text \<open>The verdict file and the exit code agree.\<close>

definition honest :: "string \<Rightarrow> int \<Rightarrow> world \<Rightarrow> bool" where
  "honest dir code w \<longleftrightarrow> code = 1 \<or> code = 0 \<and>
     (let f = marker_file dir ''proof_result.txt'' in
      fs_can_open (wo_fs w) f \<and> fs_can_write (wo_fs w) f \<longrightarrow> fst (run_state (read_file f) w) = ''PASS'')"

lemma honest_conclude: "code = 1 \<or> code = 0 \<and> msg = ''PASS'' \<Longrightarrow> ends (honest dir) (conclude dir msg code)"
  using file_written
  by (auto simp: ends_def honest_def conclude_def Let_def write_file_def put_file_def split: prod.splits)

lemma orchestrator_honest: "ends (honest dir) (run_orchestrator it dir o0 st0 gen0)"
  unfolding run_orchestrator_def rebuild_and_persist_def restart_and_revalidate_def
  by (intro honest_conclude ends_bind ends_if ends_let ends_return) (simp_all add: honest_def)

end
