(* ===== verification/ToolProperties.thy ===== *)
theory ToolProperties
  imports ServiceProperties Cli Roles
begin

text \<open>
  The properties of the command-line tools: the report of \<open>df_cli\<close> and the processes of \<open>df_app\<close>, each
  with an instance.
\<close>

section \<open>The inspection tool\<close>

text \<open>C34: The inspection tool ends for all arguments and all file systems. When the arguments ask for help it
  prints the usage line and exits with 0. Otherwise it exits with 1 and prints nothing on the standard output
  exactly when no path was given or the file does not load; and else it exits with 0 and prints the summary
  of the loaded graph, which it always finds acyclic, and in full mode it lists every node and every edge of the
  graph once. When the members of the sets in the file point at their owners, which loading does not check, a
  READY node is listed without blockers.\<close>

theorem cli_truthful:
  assumes "iteration_ok it"
  shows "\<exists>r. df_cli fs it args = Some r \<and>
    (case parse_args [] ''summary'' args of
       Usage \<Rightarrow> cl_exit r = 0 \<and> cl_out r = [usage_line] \<and> cl_err r = []
     | Inspect path mode \<Rightarrow>
         (cl_exit r = 1 \<and> cl_out r = [] \<and> cl_err r \<noteq> [] \<and>
           (path = [] \<or> (\<exists>msg. load_file fs it path (Some empty_graph) = Some (OC_REJECT_MALFORMED, msg, Some empty_graph))) \<or>
         cl_exit r = 0 \<and> cl_err r = [] \<and> path \<noteq> [] \<and>
           (\<exists>g. load_file fs it path (Some empty_graph) = Some (OC_ACCEPTED, [], Some g) \<and>
              cl_out r = summary_lines it path g True @ (if mode = ''full'' then full_report it g else []) \<and>
              distinct (all_nodes it g) \<and> set (all_nodes it g) = {i. find_node g i \<noteq> None} \<and>
              distinct (all_edges it g) \<and> set (all_edges it g) = {i. find_edge g i \<noteq> None} \<and>
              (sets_local g \<longrightarrow> (\<forall>i n. find_node g i = Some n \<and> nd_state n = RS_READY \<longrightarrow>
                 node_report g i = [node_line g i n])))))"
proof (cases "parse_args [] ''summary'' args")
  case Usage
  then show ?thesis by (simp add: df_cli_def)
next
  case (Inspect path mode)
  show ?thesis
  proof (cases "path = []")
    case True
    with Inspect show ?thesis by (simp add: df_cli_def)
  next
    case False
    show ?thesis
    proof (rule load_file_cases[OF assms, of fs path empty_graph])
      fix msg assume "load_file fs it path (Some empty_graph) = Some (OC_REJECT_MALFORMED, msg, Some empty_graph)"
      with False Inspect show ?thesis by (simp add: df_cli_def)
    next
      fix bs g assume f: "load_file fs it path (Some empty_graph) = Some (OC_ACCEPTED, [], Some g)"
        and l: "load it bs (Some empty_graph) = Some (OC_ACCEPTED, [], Some g)"
      show ?thesis
        using False Inspect f inspect_loaded[OF assms l, of path mode] loaded_ready_report[OF assms l]
          listings[OF assms loaded_structure(1)[OF assms l]]
        by (intro exI[of _ "\<lparr>cl_exit = 0, cl_out = summary_lines it path g True @
            (if mode \<noteq> ''full'' then [] else full_report it g), cl_err = []\<rparr>"]) (simp add: df_cli_def)
    qed
  qed
qed

theorem cli_truthful_witness:
  "\<exists>bs g r. save sample_it live_graph = Some bs \<and>
     df_cli (put_file ''g.bin'' bs sample_fs) sample_it [''--mode'', ''full'', ''--load'', ''g.bin''] = Some r \<and>
     cl_exit r = 0 \<and> cl_out r = summary_lines sample_it ''g.bin'' g True @ full_report sample_it g \<and>
     all_nodes sample_it g = [Strong 1]"
proof -
  let ?args = "[''--mode'', ''full'', ''--load'', ''g.bin'']"
  obtain bs where bs: "save sample_it live_graph = Some bs" by (simp add: save_def Let_def)
  let ?fs = "put_file ''g.bin'' bs sample_fs"
  obtain g where g: "load sample_it bs (Some empty_graph) = Some (OC_ACCEPTED, [], Some g)" "reloaded live_graph g"
    using load_saved[OF live_storable sample_it_ok sample_it_ok bs] by blast
  have "32 \<le> length bs"
    using open_saved[OF live_storable sample_it_ok bs] unfolding open_snapshot_iff by auto
  then have "bs \<noteq> []" by auto
  then have l: "load_file ?fs sample_it ''g.bin'' (Some empty_graph) = Some (OC_ACCEPTED, [], Some g)"
    using g(1) by (simp add: load_file_def put_file_def)
  have "find_node live_graph i \<noteq> None \<longleftrightarrow> i = Strong 1" for i by (simp add: live_graph_def)
  then have "find_node g i \<noteq> None \<longleftrightarrow> i = Strong 1" for i
    using g(2) unfolding reloaded_def by (metis option.map_disc_iff)
  then have nodes: "{i. find_node g i \<noteq> None} = {Strong 1}" by blast
  obtain r where r: "df_cli ?fs sample_it ?args = Some r" "cl_exit r = 0"
    "cl_out r = summary_lines sample_it ''g.bin'' g True @ full_report sample_it g"
    "distinct (all_nodes sample_it g)" "set (all_nodes sample_it g) = {Strong 1}"
    using cli_truthful[OF sample_it_ok, of ?fs ?args] l nodes by auto
  then have "length (all_nodes sample_it g) = 1" using distinct_card[OF r(4)] by simp
  with r(5) have "all_nodes sample_it g = [Strong 1]" by (auto simp: length_Suc_conv)
  with bs r(1-3) show ?thesis by blast
qed

section \<open>The processes of the demonstration\<close>

text \<open>C35: A replayed message leaves no trace. While the coordinator does not accept the credentials of
  the first boot of source A - because its epoch has moved on, or the source has registered a new boot -
  the replaying process changes nothing in the graph, whatever the network does to its messages; and
  when they are delivered it reports REJECT_STALE_EPOCH or REJECT_STALE_BOOT.\<close>

theorem replay_refused:
  assumes "authority_ok (wo_graph w) SRC_A BOOT_1 EPOCH_1 = Some rej"
  shows "wo_graph (snd (run_state (run_replay it dir o0) w)) = wo_graph w \<and>
    (wo_fates w = [] \<and> wo_alive w \<and> fs_can_open (wo_fs w) (marker_file dir ''replay_outcome.txt'') \<and>
       fs_can_write (wo_fs w) (marker_file dir ''replay_outcome.txt'') \<longrightarrow>
     fst (run_state (do { _ \<leftarrow> run_replay it dir o0; read_file (marker_file dir ''replay_outcome.txt'') }) w)
       \<in> {''REJECT_STALE_EPOCH'', ''REJECT_STALE_BOOT''})"
proof (intro conjI impI)
  have "always fenced (run_replay it dir o0)"
    by (rule old.always_replay) (simp_all add: replayed_def)
  with assms show "wo_graph (snd (run_state (run_replay it dir o0) w)) = wo_graph w"
    by (simp add: always_def fenced_def)
next
  let ?f = "marker_file dir ''replay_outcome.txt''"
  assume a: "wo_fates w = [] \<and> wo_alive w \<and> fs_can_open (wo_fs w) ?f \<and> fs_can_write (wo_fs w) ?f"
  then have "fst (run_state (read_file ?f) (snd (run_state (write_file ?f (outcome_name rej)) w))) = outcome_name rej"
    by (intro file_written) simp_all
  then have "fst (run_state (do { _ \<leftarrow> run_replay it dir o0; read_file ?f }) w) = outcome_name rej"
    using a replay_delivered[OF assms, of it dir o0] by (simp add: read_file_open split: prod.splits)
  then show "fst (run_state (do { _ \<leftarrow> run_replay it dir o0; read_file ?f }) w)
      \<in> {''REJECT_STALE_EPOCH'', ''REJECT_STALE_BOOT''}"
    using authority_rejections[OF assms] by auto
qed

definition sample_world :: "fate list \<Rightarrow> world" where
  "sample_world fates = \<lparr>wo_graph = snd (advance_epoch EPOCH_2 empty_graph), wo_alive = True, wo_open = False,
     wo_fs = sample_fs, wo_fates = fates\<rparr>"

theorem replay_refused_witness:
  "wo_graph (snd (run_state (run_replay sample_it ''d'' OC_ACCEPTED) (sample_world [Delivered, Request_lost]))) =
     wo_graph (sample_world [Delivered, Request_lost]) \<and>
   fst (run_state (do { _ \<leftarrow> run_replay sample_it ''d'' OC_ACCEPTED;
       read_file (marker_file ''d'' ''replay_outcome.txt'') }) (sample_world []))
     \<in> {''REJECT_STALE_EPOCH'', ''REJECT_STALE_BOOT''}"
proof -
  have a: "authority_ok (wo_graph (sample_world fates)) SRC_A BOOT_1 EPOCH_1 = Some OC_REJECT_STALE_EPOCH" for fates
    by (simp add: sample_world_def advance_epoch_def empty_graph_def authority_ok_def EPOCH_1_def EPOCH_2_def
        word_le_nat_alt)
  show ?thesis
    using replay_refused[OF a, of sample_it "''d''" OC_ACCEPTED "[Delivered, Request_lost]"]
      replay_refused[OF a, of sample_it "''d''" OC_ACCEPTED "[]"]
    by (simp add: sample_world_def sample_fs_def)
qed

text \<open>C36: The processes are safe on every network. Whatever connects, requests and replies are lost, each
  role only takes steps of the runtime on the coordinator's graph and does not crash it; the
  orchestrated run, with its kills and restarts, always ends with exit code 0 or 1, keeps the graph of
  the coordinator well formed, and exits with 0 only with the verdict PASS in its result file.\<close>

theorem processes_safe:
  assumes "iteration_ok it" and "core_inv (wo_graph w)"
  shows "(\<forall>p \<in> {run_worker_a it dir o0, run_worker_b it dir o0, run_consumer it dir o0,
       run_worker_a2 it dir o0 p0, run_replay it dir o0}.
       (fabric_step any_command it)\<^sup>*\<^sup>* (wo_graph w) (wo_graph (snd (run_state p w))) \<and>
       (wo_alive w \<longrightarrow> wo_alive (snd (run_state p w)))) \<and>
    core_inv (wo_graph (snd (run_state (run_orchestrator it dir o0 st0 gen0) w))) \<and>
    honest dir (fst (run_state (run_orchestrator it dir o0 st0 gen0) w))
      (snd (run_state (run_orchestrator it dir o0 st0 gen0) w))"
proof (intro conjI)
  show "\<forall>p \<in> {run_worker_a it dir o0, run_worker_b it dir o0, run_consumer it dir o0,
       run_worker_a2 it dir o0 p0, run_replay it dir o0}.
       (fabric_step any_command it)\<^sup>*\<^sup>* (wo_graph w) (wo_graph (snd (run_state p w))) \<and>
       (wo_alive w \<longrightarrow> wo_alive (snd (run_state p w)))"
    using live.always_roles[of it] assms(2) by (auto simp: always_def runtime_safe_def)
  have "always well_formed_world (run_orchestrator it dir o0 st0 gen0)"
    by (rule formed.always_orchestrator) (simp_all add: coordinator_formed[OF assms(1)] kill_formed)
  then show "core_inv (wo_graph (snd (run_state (run_orchestrator it dir o0 st0 gen0) w)))"
    using assms(2) by (simp add: always_def well_formed_world_def)
  show "honest dir (fst (run_state (run_orchestrator it dir o0 st0 gen0) w))
      (snd (run_state (run_orchestrator it dir o0 st0 gen0) w))"
    using orchestrator_honest by (simp add: ends_def)
qed

theorem processes_safe_witness:
  "(fabric_step any_command sample_it)\<^sup>*\<^sup>* (wo_graph (sample_world [Delivered, Reply_lost]))
      (wo_graph (snd (run_state (run_worker_a sample_it ''d'' OC_ACCEPTED) (sample_world [Delivered, Reply_lost])))) \<and>
   core_inv (wo_graph (snd (run_state (run_orchestrator sample_it ''d'' OC_ACCEPTED RS_READY null_strong)
      (sample_world [Request_lost]))))"
proof -
  have c: "core_inv (wo_graph (sample_world fates))" for fates
    unfolding sample_world_def world.simps
    by (rule core_inv_step[OF fs_advance[OF prod.collapse[symmetric]] empty_core])
  show ?thesis
    using processes_safe[OF sample_it_ok c[of "[Delivered, Reply_lost]"], of "''d''" OC_ACCEPTED]
      processes_safe[OF sample_it_ok c[of "[Request_lost]"], of "''d''" OC_ACCEPTED]
    by blast
qed

end
