(* ===== verification/Examples.thy ===== *)
theory Examples
  imports Execution Coordinator Cli Samples
begin

text \<open>
  \<open>src/examples/basic.cpp\<close>, \<open>cascade.cpp\<close> and \<open>src/cmake/consumer/main.cpp\<close>: three programs on one graph
  each, as functions to their output.
\<close>

definition main_cred :: credentials where
  "main_cred = \<lparr>cr_source = Strong 1, cr_boot = Strong 1, cr_epoch = Strong 1\<rparr>"

definition one_source :: graph where
  "one_source = snd (register_source (Strong 1) (Strong 1) (Strong 1) empty_graph)"

definition main_calls :: "command list \<Rightarrow> graph \<Rightarrow> graph option" where
  "main_calls cs = run_acts submit (map (Pair main_cred) cs)"

abbreviation state_of :: "graph \<Rightarrow> u64 \<Rightarrow> string" where
  "state_of g i \<equiv> readiness_state_name (readiness g (Strong i))"

section \<open>\<open>basic.cpp\<close>\<close>

definition e_ma :: edge where
  "e_ma = \<lparr>ed_id = Strong 1, ed_generation = Strong 1, ed_kind = EK_REQUIRES_GENERATION,
     ed_producer_id = Strong 1, ed_consumer_id = Strong 2, ed_bound_producer_generation = null_strong,
     ed_bound_consumer_generation = null_strong,
     ed_predicate = default_predicate\<lparr>pr_generation_kind := GP_EXACT, pr_exact_generation := Strong 1,
       pr_required_readiness := RS_READY, pr_is_required := True\<rparr>,
     ed_active = True\<rparr>"

definition ready_edge :: "edge_id \<Rightarrow> node_id \<Rightarrow> node_id \<Rightarrow> edge" where
  "ready_edge i producer consumer = \<lparr>ed_id = i, ed_generation = Strong 1, ed_kind = EK_REQUIRES_READY,
     ed_producer_id = producer, ed_consumer_id = consumer, ed_bound_producer_generation = null_strong,
     ed_bound_consumer_generation = null_strong,
     ed_predicate = default_predicate\<lparr>pr_required_readiness := RS_READY, pr_is_required := True\<rparr>,
     ed_active = True\<rparr>"

definition basic_calls :: "command list" where
  "basic_calls =
     [DeclareNode (Strong 1) NK_MODEL ''llama-70b'' False, DeclareNode (Strong 2) NK_ARTIFACT ''adapter-v1'' False,
      DeclareNode (Strong 3) NK_WORKLOAD_PHASE ''inference'' False,
      PublishGeneration (Strong 1) (Strong 1), PublishGeneration (Strong 2) (Strong 1),
      AddEdge e_ma, AddEdge (ready_edge (Strong 2) (Strong 2) (Strong 3))]"

definition basic_main :: "iteration \<Rightarrow> string list option" where
  "basic_main it = do {
     g1 \<leftarrow> main_calls basic_calls one_source;
     g2 \<leftarrow> map_option snd (recompute_all_readiness it g1);
     g3 \<leftarrow> main_calls [PublishGeneration (Strong 1) (Strong 2)] g2;
     let ex = explain g3 (Strong 3);
     Some ([''phase readiness: '' @ state_of g2 3,
        ''after model gen2 -> artifact='' @ state_of g3 2 @ '' phase='' @ state_of g3 3,
        ''why: '' @ c_str (ex_summary ex)] @
        map (\<lambda>b. ''  blocker: '' @ c_str (bd_reason b)) (ex_blockers ex)) }"

section \<open>\<open>cascade.cpp\<close>\<close>

definition cascade_calls :: "command list" where
  "cascade_calls =
     concat (map (\<lambda>(i, name). [DeclareNode (Strong i) NK_MODEL name True, PublishGeneration (Strong i) (Strong 1)])
       (zip [1, 2, 3, 4, 5] [''model'', ''adapter'', ''execution_graph'', ''kernel'', ''phase''])) @
     map (\<lambda>i. AddEdge (ready_edge (Strong i) (Strong i) (Strong (i + 1)))) [1, 2, 3, 4]"

definition intent_line :: "recovery_intent \<Rightarrow> string" where
  "intent_line r = ''recover node '' @ strong_to_string (ri_node r) @ '' ('' @ node_kind_name (ri_kind r) @
     '') -> '' @ recovery_action_name (ri_action r) @ '' by '' @ c_str (ri_owner_runtime r)"

definition cascade_main :: "iteration \<Rightarrow> string list option" where
  "cascade_main it = do {
     g1 \<leftarrow> main_calls cascade_calls one_source;
     g2 \<leftarrow> map_option snd (recompute_all_readiness it g1);
     g3 \<leftarrow> main_calls [InvalidateNode (Strong 2) IR_COMPATIBILITY_CHANGED
       (default_policy\<lparr>ip_mode := IM_RECURSIVE\<rparr>)] g2;
     Some ([''phase='' @ state_of g2 5,
        ''after adapter invalidation -> adapter='' @ state_of g3 2 @ '' graph='' @ state_of g3 3 @
          '' kernel='' @ state_of g3 4 @ '' phase='' @ state_of g3 5] @
        map intent_line (recovery_plan g3 (Strong 2))) }"

section \<open>\<open>consumer/main.cpp\<close>\<close>

text \<open>The exit code and the output; each refused call ends the program.\<close>

definition consumer_main :: "iteration \<Rightarrow> (int \<times> string list) option" where
  "consumer_main it =
     (case register_source (Strong 1) (Strong 1) (Strong 1) empty_graph of (oc0, g0) \<Rightarrow>
        if oc0 \<noteq> OC_ACCEPTED then Some (1, []) else do {
        (oc1, g1) \<leftarrow> submit (main_cred, DeclareNode (Strong 1) NK_MODEL ''m'' False) g0;
        if oc1 \<noteq> OC_ACCEPTED then Some (1, []) else do {
        (oc2, g2) \<leftarrow> submit (main_cred, PublishGeneration (Strong 1) (Strong 1)) g1;
        if oc2 \<noteq> OC_ACCEPTED then Some (1, []) else do {
        (oc3, g3) \<leftarrow> recompute_all_readiness it g2;
        if readiness g3 (Strong 1) \<noteq> RS_READY then Some (1, [])
        else Some (0, [''find_package consumer OK: model READY, digest='' @ show_u64 (digest it g3)]) }}})"

section \<open>Evaluated\<close>

lemmas example_simps = exec_simps main_calls_def one_source_def register_source_def empty_graph_def main_cred_def ready_edge_def
  e_ma_def default_predicate_def

abbreviation one_registered :: "node list \<Rightarrow> edge list \<Rightarrow> graph" where
  "one_registered \<equiv> line_graph [registered_at (Strong 1) (Strong 1) (Strong 1)] (Strong 1)"

definition basic_graph :: "node_generation list \<Rightarrow> u64 \<Rightarrow> u64 \<Rightarrow> u64 \<Rightarrow> readiness_state \<Rightarrow> readiness_state \<Rightarrow> graph" where
  "basic_graph gens c1 c2 c3 st2 st3 = one_registered
     [published gens (Strong c1) RS_READY (declared (Strong 1) NK_MODEL ''llama-70b'' False (Strong 1) (Strong 1)),
      published [Strong 1] (Strong c2) st2 (declared (Strong 2) NK_ARTIFACT ''adapter-v1'' False (Strong 1) (Strong 1)),
      published [] (Strong c3) st3 (declared (Strong 3) NK_WORKLOAD_PHASE ''inference'' False (Strong 1) (Strong 1))]
     [e_ma, ready_edge (Strong 2) (Strong 2) (Strong 3)]"

lemma basic_built: "main_calls basic_calls one_source = Some (basic_graph [Strong 1] 1 1 1 RS_READY RS_READY)"
  by (simp add: basic_calls_def example_simps basic_graph_def line_simps)

lemma basic_advanced: "main_calls [PublishGeneration (Strong 1) (Strong 2)]
   (basic_graph [Strong 1] 1 1 1 RS_READY RS_READY) = Some (basic_graph [Strong 1, Strong 2] 2 2 2 RS_STALE RS_BLOCKED)"
  by (simp add: example_simps basic_graph_def line_simps)

lemma basic_settled: "settled (basic_graph [Strong 1] 1 1 1 RS_READY RS_READY) i"
  by (simp add: settled_simps basic_graph_def line_simps e_ma_def ready_edge_def)

lemmas explain_simps = explain_def set_blockers_def edge_blockers_def eval_edge_locked_def check_generation_def
  check_readiness_def check_resource_def check_capability_def check_freshness_def check_integrity_def
  check_provenance_def check_completion_def empty_acc_def add_blocker_def unmet_def meets_generation_constraint_def
  generation_advanced_def meets_readiness_constraint_def edge_required_def set_members_def active_sets_def ix_at_def
  List.map_filter_simps Let_def

lemma digits_eval: "to_string_nat 2 = ''2''" "to_string_nat 3 = ''3''" "to_string_nat 4 = ''4''" "to_string_nat 5 = ''5''"
  by (simp_all add: to_string_nat.simps digit_char_def char_of_def bit_0)

lemma basic_explained:
  "explain (basic_graph [Strong 1, Strong 2] 2 2 2 RS_STALE RS_BLOCKED) (Strong 3) =
     \<lparr>ex_node = Strong 3, ex_kind = NK_WORKLOAD_PHASE, ex_outcome = OC_BLOCKED, ex_state = RS_BLOCKED,
       ex_current_generation = null_strong, ex_origin_source = Strong 1, ex_origin_boot = Strong 1,
       ex_summary = ''node 3 (WORKLOAD_PHASE) is BLOCKED'',
       ex_blockers = [\<lparr>bd_edge_id = Strong 2, bd_edge_generation = Strong 1, bd_producer = Strong 2,
         bd_producer_kind = NK_ARTIFACT, bd_kind = EK_REQUIRES_READY, bd_optional = False,
         bd_is_set_member = False, bd_set_label = [], bd_constraint_kind = GP_NONE,
         bd_required_generation = null_strong, bd_actual_generation = null_strong,
         bd_reason = ''producer readiness STALE does not meet required READY''\<rparr>],
       ex_upstream_invalidation_notes = [], ex_changes_since_ready = [],
       ex_required_actions = required_actions_for RS_BLOCKED\<rparr>"
  by (simp add: explain_simps basic_graph_def line_simps e_ma_def ready_edge_def digits_eval)

definition chained :: "(node \<Rightarrow> node) list \<Rightarrow> graph" where
  "chained fs = one_registered
     (map2 (\<lambda>f (i, name). f (declared (Strong i) NK_MODEL name True (Strong 1) (Strong 1))) fs
       (zip [1, 2, 3, 4, 5] [''model'', ''adapter'', ''execution_graph'', ''kernel'', ''phase'']))
     (map (\<lambda>i. ready_edge (Strong i) (Strong i) (Strong (i + 1))) [1, 2, 3, 4])"

definition cascade_graph :: graph where
  "cascade_graph = (let f = published [Strong 1] (Strong 1) RS_READY in chained [f, f, f, f, f])"

lemma cascade_built: "main_calls cascade_calls one_source = Some cascade_graph"
  by (simp add: cascade_calls_def example_simps cascade_graph_def chained_def Let_def line_simps)

lemma cascade_settled: "settled cascade_graph i"
  by (simp add: settled_simps cascade_graph_def chained_def Let_def line_simps ready_edge_def)

definition cascade_invalid :: graph where
  "cascade_invalid = chained
     [published [Strong 1] (Strong 1) RS_READY,
      \<lambda>n. (published [Strong 1] (Strong 2) RS_INVALIDATED n)\<lparr>nd_invalidation_generation := Strong 1,
        nd_last_invalidation_reason := IR_COMPATIBILITY_CHANGED, nd_ever_invalidated := True\<rparr>,
      \<lambda>n. (published [Strong 1] (Strong 2) RS_BLOCKED n)\<lparr>nd_invalidation_generation := Strong 1,
        nd_last_invalidation_reason := IR_COMPATIBILITY_CHANGED, nd_ever_invalidated := True\<rparr>,
      \<lambda>n. (published [Strong 1] (Strong 2) RS_BLOCKED n)\<lparr>nd_invalidation_generation := Strong 1,
        nd_last_invalidation_reason := IR_COMPATIBILITY_CHANGED, nd_ever_invalidated := True\<rparr>,
      \<lambda>n. (published [Strong 1] (Strong 2) RS_BLOCKED n)\<lparr>nd_invalidation_generation := Strong 1,
        nd_last_invalidation_reason := IR_COMPATIBILITY_CHANGED, nd_ever_invalidated := True\<rparr>]"

lemma cascade_invalidated: "main_calls [InvalidateNode (Strong 2) IR_COMPATIBILITY_CHANGED
       (default_policy\<lparr>ip_mode := IM_RECURSIVE\<rparr>)] cascade_graph = Some cascade_invalid"
  by (simp add: example_simps cascade_graph_def cascade_invalid_def chained_def line_simps default_policy_def)

lemma cascade_plan: "map intent_line (recovery_plan cascade_invalid (Strong 2)) =
     [''recover node 2 (MODEL) -> RECOMPUTATION by ModelRegistry'',
      ''recover node 3 (MODEL) -> REVALIDATION by ModelRegistry'',
      ''recover node 4 (MODEL) -> REVALIDATION by ModelRegistry'',
      ''recover node 5 (MODEL) -> REVALIDATION by ModelRegistry'']"
  by (simp add: recovery_plan_def intent_for_def topology_order_locked_def start_queue_def closure_search_def
    needs_recovery_def action_for_state_def owner_for_kind_def intent_line_def c_str_def digits_eval strong_to_string_def
    example_simps cascade_invalid_def chained_def line_simps List.map_filter_simps)

section \<open>What they print\<close>

lemma one_source_reachable: "reachable clean it one_source" "gr_sets one_source = []"
proof -
  show "reachable clean it one_source"
    unfolding one_source_def by (rule re_step[OF re_start fs_register[OF prod.collapse[symmetric]]])
qed (simp add: one_source_def register_source_def empty_graph_def)

lemma built_clean:
  assumes "main_calls cs one_source = Some g" and "\<forall>c \<in> set cs. plain c"
  shows "clean_inv g"
proof -
  have "\<forall>c \<in> set (map snd (map (Pair main_cred) cs)). plain c" using assms(2) by auto
  from run_plain[OF one_source_reachable this, of sample_it] assms(1) show ?thesis
    by (auto simp: main_calls_def intro: reachable_clean)
qed

theorem basic_prints:
  assumes "iteration_ok it"
  shows "basic_main it = Some
    [''phase readiness: READY'', ''after model gen2 -> artifact=STALE phase=BLOCKED'',
     ''why: node 3 (WORKLOAD_PHASE) is BLOCKED'',
     ''  blocker: producer readiness STALE does not meet required READY'']"
proof -
  let ?g = "basic_graph [Strong 1] 1 1 1 RS_READY RS_READY"
  have "clean_inv ?g" by (rule built_clean[OF basic_built]) (simp add: basic_calls_def plain_def e_ma_def ready_edge_def)
  moreover have "readiness ?g i \<noteq> RS_INVALIDATED \<and> \<not> escape_state (readiness ?g i)" for i
    by (simp add: readiness_def basic_graph_def line_simps settled_simps escape_state_def)
  ultimately have "recompute_all_readiness it ?g = Some (OC_ACCEPTED, ?g)"
    by (rule recompute_all_settled[OF _ assms basic_settled])
  moreover have "state_of ?g 3 = ''READY''"
    "state_of (basic_graph [Strong 1, Strong 2] 2 2 2 RS_STALE RS_BLOCKED) 2 = ''STALE''"
    "state_of (basic_graph [Strong 1, Strong 2] 2 2 2 RS_STALE RS_BLOCKED) 3 = ''BLOCKED''"
    by (simp_all add: readiness_def basic_graph_def line_simps settled_simps)
  ultimately show ?thesis
    by (simp add: basic_main_def basic_built basic_advanced basic_explained c_str_def Let_def)
qed

theorem cascade_prints:
  assumes "iteration_ok it"
  shows "cascade_main it = Some
    [''phase=READY'',
     ''after adapter invalidation -> adapter=INVALIDATED graph=BLOCKED kernel=BLOCKED phase=BLOCKED'',
     ''recover node 2 (MODEL) -> RECOMPUTATION by ModelRegistry'',
     ''recover node 3 (MODEL) -> REVALIDATION by ModelRegistry'',
     ''recover node 4 (MODEL) -> REVALIDATION by ModelRegistry'',
     ''recover node 5 (MODEL) -> REVALIDATION by ModelRegistry'']"
proof -
  let ?g = cascade_graph
  have "clean_inv ?g" by (rule built_clean[OF cascade_built]) (simp add: cascade_calls_def plain_def ready_edge_def)
  moreover have "readiness ?g i \<noteq> RS_INVALIDATED \<and> \<not> escape_state (readiness ?g i)" for i
    by (simp add: readiness_def cascade_graph_def chained_def Let_def line_simps settled_simps escape_state_def)
  ultimately have "recompute_all_readiness it ?g = Some (OC_ACCEPTED, ?g)"
    by (rule recompute_all_settled[OF _ assms cascade_settled])
  moreover have "state_of ?g 5 = ''READY''" "state_of cascade_invalid 2 = ''INVALIDATED''"
    "state_of cascade_invalid 3 = ''BLOCKED''" "state_of cascade_invalid 4 = ''BLOCKED''"
    "state_of cascade_invalid 5 = ''BLOCKED''"
    by (simp_all add: readiness_def cascade_graph_def cascade_invalid_def chained_def line_simps settled_simps)
  moreover note cascade_plan
  ultimately show ?thesis
    by (simp add: cascade_main_def cascade_built cascade_invalidated Let_def)
qed

definition consumer_graph :: graph where
  "consumer_graph = one_registered
     [published [Strong 1] (Strong 1) RS_READY (declared (Strong 1) NK_MODEL ''m'' False (Strong 1) (Strong 1))] []"

lemma consumer_built: "main_calls [DeclareNode (Strong 1) NK_MODEL ''m'' False, PublishGeneration (Strong 1) (Strong 1)]
    one_source = Some consumer_graph"
  by (simp add: example_simps consumer_graph_def line_simps)

lemma consumer_settled: "settled consumer_graph i"
  by (simp add: settled_simps consumer_graph_def line_simps)

theorem consumer_prints:
  assumes "iteration_ok it"
  shows "consumer_main it = Some (0, [''find_package consumer OK: model READY, digest='' @
    show_u64 (digest it consumer_graph)])"
proof -
  have "clean_inv consumer_graph" by (rule built_clean[OF consumer_built]) (simp add: plain_def)
  moreover have "readiness consumer_graph i \<noteq> RS_INVALIDATED \<and> \<not> escape_state (readiness consumer_graph i)" for i
    by (simp add: readiness_def consumer_graph_def line_simps settled_simps escape_state_def)
  ultimately have r: "recompute_all_readiness it consumer_graph = Some (OC_ACCEPTED, consumer_graph)"
    by (rule recompute_all_settled[OF _ assms consumer_settled])
  have st: "readiness consumer_graph (Strong 1) = RS_READY"
    by (simp add: readiness_def consumer_graph_def line_simps settled_simps)
  obtain g1 where d: "submit (main_cred, DeclareNode (Strong 1) NK_MODEL ''m'' False) one_source = Some (OC_ACCEPTED, g1)"
    and p: "submit (main_cred, PublishGeneration (Strong 1) (Strong 1)) g1 = Some (OC_ACCEPTED, consumer_graph)"
    by (simp add: example_simps consumer_graph_def line_simps)
  have "register_source (Strong 1) (Strong 1) (Strong 1) empty_graph = (OC_ACCEPTED, one_source)"
    by (simp add: one_source_def register_source_def empty_graph_def)
  with d p r st show ?thesis by (simp add: consumer_main_def)
qed

end
