(* ===== verification/DemoStages.thy ===== *)
theory DemoStages
  imports Roles Chains
begin

text \<open>
  The graphs of the multi-process demonstration (\<open>src/tools/df_app_main.cpp\<close>), written out: after each worker,
  after the new epoch, after the second incarnation of the model's owner, after the rebuild, and after
  the restart. What a query about each of them answers.
\<close>

section \<open>Stages\<close>

definition as_source :: "source_id \<Rightarrow> source_boot_id \<Rightarrow> coordinator_epoch \<Rightarrow> credentials" where
  "as_source s b e = \<lparr>cr_source = s, cr_boot = b, cr_epoch = e\<rparr>"

lemmas demo_ids = SRC_A_def SRC_B_def SRC_C_def SRC_ORCH_def BOOT_1_def BOOT_2_def EPOCH_1_def EPOCH_2_def

lemmas demo_simps = exec_simps joined_def register_source_def empty_graph_def as_source_def make_edge_def
  default_predicate_def demo_ids

definition model_node :: "source_boot_id \<Rightarrow> node_generation list \<Rightarrow> u64 \<Rightarrow> readiness_state \<Rightarrow> node" where
  "model_node b gens changes st = published gens (Strong changes) st
     (declared (Strong 1) NK_MODEL ''model'' False SRC_A b)"

definition artifact_node :: "source_id \<Rightarrow> node_generation list \<Rightarrow> u64 \<Rightarrow> readiness_state \<Rightarrow> node" where
  "artifact_node s gens changes st = published gens (Strong changes) st
     (declared (Strong 2) NK_ARTIFACT ''artifact'' False s BOOT_1)"

definition phase_node :: "u64 \<Rightarrow> readiness_state \<Rightarrow> node" where
  "phase_node changes st = published [] (Strong changes) st
     (declared (Strong 3) NK_WORKLOAD_PHASE ''phase'' False SRC_C BOOT_1)"

definition stage_a :: graph where
  "stage_a = line_graph [registered_at SRC_A BOOT_1 EPOCH_1] EPOCH_1 [model_node BOOT_1 [Strong 1] 1 RS_READY] []"

definition stage_b :: graph where
  "stage_b = line_graph [registered_at SRC_A BOOT_1 EPOCH_1, registered_at SRC_B BOOT_1 EPOCH_1] EPOCH_1
     [model_node BOOT_1 [Strong 1] 1 RS_READY, artifact_node SRC_B [Strong 1] 1 RS_READY]
     [make_edge (Strong 1) (Strong 1) (Strong 2) (Strong 1)]"

definition stage_c :: graph where
  "stage_c = line_graph [registered_at SRC_A BOOT_1 EPOCH_1, registered_at SRC_B BOOT_1 EPOCH_1,
       registered_at SRC_C BOOT_1 EPOCH_1] EPOCH_1
     [model_node BOOT_1 [Strong 1] 1 RS_READY, artifact_node SRC_B [Strong 1] 1 RS_READY, phase_node 1 RS_READY]
     [make_edge (Strong 1) (Strong 1) (Strong 2) (Strong 1), make_edge (Strong 2) (Strong 2) (Strong 3) (Strong 1)]"

definition stage_epoch :: graph where
  "stage_epoch = stage_c\<lparr>gr_epoch := EPOCH_2\<rparr>"

definition stage_a2 :: graph where
  "stage_a2 = line_graph [registered_at SRC_A BOOT_2 EPOCH_2, registered_at SRC_B BOOT_1 EPOCH_1,
       registered_at SRC_C BOOT_1 EPOCH_1] EPOCH_2
     [model_node BOOT_2 [Strong 1, Strong 2] 2 RS_READY, artifact_node SRC_B [Strong 1] 2 RS_STALE, phase_node 2 RS_BLOCKED]
     [make_edge (Strong 1) (Strong 1) (Strong 2) (Strong 1), make_edge (Strong 2) (Strong 2) (Strong 3) (Strong 1)]"

definition stage_rebuilt :: graph where
  "stage_rebuilt = line_graph [registered_at SRC_A BOOT_2 EPOCH_2, registered_at SRC_B BOOT_1 EPOCH_1,
       registered_at SRC_C BOOT_1 EPOCH_1, registered_at SRC_ORCH BOOT_1 EPOCH_2] EPOCH_2
     [model_node BOOT_2 [Strong 1, Strong 2] 2 RS_READY, artifact_node SRC_ORCH [Strong 1, Strong 2] 4 RS_READY,
      phase_node 5 RS_READY]
     [make_edge (Strong 5) (Strong 1) (Strong 2) (Strong 2), make_edge (Strong 6) (Strong 2) (Strong 3) (Strong 2)]"

lemmas demo_stages = stage_a_def stage_b_def stage_c_def stage_epoch_def stage_a2_def stage_rebuilt_def
  model_node_def artifact_node_def phase_node_def line_simps

abbreviation "cred_a \<equiv> as_source SRC_A BOOT_1 EPOCH_1"
abbreviation "cred_b \<equiv> as_source SRC_B BOOT_1 EPOCH_1"
abbreviation "cred_c \<equiv> as_source SRC_C BOOT_1 EPOCH_1"
abbreviation "cred_a2 \<equiv> as_source SRC_A BOOT_2 EPOCH_2"
abbreviation "cred_orch \<equiv> as_source SRC_ORCH BOOT_1 EPOCH_2"

lemma built_a: "run_acts submit [(cred_a, DeclareNode (Strong 1) NK_MODEL ''model'' False),
    (cred_a, PublishGeneration (Strong 1) (Strong 1))] (joined cred_a empty_graph) = Some stage_a"
  by (simp add: demo_simps demo_stages)

lemma built_b: "run_acts submit [(cred_b, DeclareNode (Strong 2) NK_ARTIFACT ''artifact'' False),
    (cred_b, PublishGeneration (Strong 2) (Strong 1)),
    (cred_b, AddEdge (make_edge (Strong 1) (Strong 1) (Strong 2) (Strong 1)))] (joined cred_b stage_a) = Some stage_b"
  by (simp add: demo_simps demo_stages)

lemma built_c: "run_acts submit [(cred_c, DeclareNode (Strong 3) NK_WORKLOAD_PHASE ''phase'' False),
    (cred_c, AddEdge (make_edge (Strong 2) (Strong 2) (Strong 3) (Strong 1)))] (joined cred_c stage_b) = Some stage_c"
  by (simp add: demo_simps demo_stages)

lemma epoch_advanced: "advance_epoch EPOCH_2 stage_c = (OC_ACCEPTED, stage_epoch)"
  by (simp add: advance_epoch_def demo_simps demo_stages)

lemma built_a2: "submit (cred_a2, PublishGeneration (Strong 1) (Strong 2)) (joined cred_a2 stage_epoch) =
    Some (OC_ACCEPTED, stage_a2)"
  by (simp add: demo_simps demo_stages)

lemma rebuilt: "run_acts submit [(cred_orch, RemoveEdge (Strong 1)),
     (cred_orch, AddEdge (make_edge (Strong 5) (Strong 1) (Strong 2) (Strong 2))),
     (cred_orch, PublishGeneration (Strong 2) (Strong 2)), (cred_orch, RemoveEdge (Strong 2)),
     (cred_orch, AddEdge (make_edge (Strong 6) (Strong 2) (Strong 3) (Strong 2)))] (joined cred_orch stage_a2) =
   Some stage_rebuilt"
  by (simp add: demo_simps demo_stages)

section \<open>The restart\<close>

abbreviation known_sources :: "source_registration list" where
  "known_sources \<equiv> [registered_at SRC_A BOOT_2 EPOCH_2, registered_at SRC_B BOOT_1 EPOCH_1,
     registered_at SRC_C BOOT_1 EPOCH_1, registered_at SRC_ORCH BOOT_1 EPOCH_2]"

abbreviation demo_chain :: "node \<Rightarrow> node \<Rightarrow> node \<Rightarrow> graph" where
  "demo_chain \<equiv> chain_of known_sources EPOCH_2 (make_edge (Strong 5) (Strong 1) (Strong 2) (Strong 2))
     (make_edge (Strong 6) (Strong 2) (Strong 3) (Strong 2))"

interpretation demo: chained known_sources EPOCH_2 "make_edge (Strong 5) (Strong 1) (Strong 2) (Strong 2)"
    "make_edge (Strong 6) (Strong 2) (Strong 3) (Strong 2)"
  by unfold_locales (simp_all add: linked_def make_edge_def registered_at_def demo_ids)

definition last1 :: node where "last1 = model_node BOOT_2 [Strong 1, Strong 2] 2 RS_READY"
definition last2 :: node where "last2 = artifact_node SRC_ORCH [Strong 1, Strong 2] 4 RS_READY"
definition last3 :: node where "last3 = phase_node 5 RS_READY"

lemmas last_nodes = last1_def last2_def last3_def

lemma rebuilt_chain: "stage_rebuilt = demo_chain last1 last2 last3"
  by (simp add: stage_rebuilt_def last_nodes)

lemma last_numbered: "numbered last1 last2 last3"
  by (simp add: numbered_def last_nodes demo_stages)

lemma last_dynamic: "\<forall>n \<in> {last1, last2, last3}. nd_dynamic_evidence n"
  by (simp add: last_nodes demo_stages)

lemma rebuilt_storable: "storable stage_rebuilt"
  unfolding rebuilt_chain
  by (rule demo.storable_chain[OF last_numbered])
    (simp_all add: storable_node_def admitted_node_def lineage_ok_def short_string_def last_nodes demo_stages
      node_kind_enumerator_def readiness_state_enumerator_def demo_ids make_edge_def
      invalidation_reason_enumerator_def kMaxStringBytes_def storable_edge_def admitted_edge_def
      edge_kind_enumerator_def generation_predicate_kind_enumerator_def less_strong_def)

definition stage_restarted :: graph where
  "stage_restarted = demo_chain (demote_node last1) (demote_node last2) (demote_node last3)"

definition stage_renewed :: graph where
  "stage_renewed = demo_chain (renewed last1) (renewed last2) (renewed last3)"

lemmas last_stages = stage_restarted_def stage_renewed_def last_nodes demote_node_def renewed_def

lemma demo_renewed_leads: "leads (joined cred_orch stage_restarted) (republish cred_orch [Strong 1, Strong 2, Strong 3])
    stage_renewed"
  by (simp add: demo_simps last_stages demo_stages leads_def alike_simps)

lemma stage_settled: "settled stage_restarted i" "settled stage_renewed i"
  by (simp_all add: last_stages demo_stages demo_simps)

lemma stage_clean: "clean_inv stage_restarted" "clean_inv stage_renewed"
  unfolding stage_restarted_def stage_renewed_def
  by (rule demo.clean; simp add: numbered_def last_nodes renewed_def demote_node_def demo_stages)+

section \<open>Queries\<close>

definition response :: "graph \<Rightarrow> node_id \<Rightarrow> frame" where
  "response g i = query_frame (readiness g i) (current_authority g i) (blockers g i)"

lemma blockers_cong:
  assumes "same_lookups g h" and "\<And>i. same_view g h i"
  shows "blockers h i = blockers g i"
proof -
  have edge: "eval_edge_locked h e a = eval_edge_locked g e a" for e a
    by (rule eval_edge_cong) (use assms in \<open>simp_all add: same_lookups_def\<close>)
  have set: "eval_set_locked h s a = eval_set_locked g s a" for s a
    by (rule eval_set_cong[OF assms(1)]) (rule assms(2))
  have sets: "set_blockers h is = set_blockers g is" for "is"
    using assms(1) unfolding set_blockers_def set by (simp add: same_lookups_def)
  have edges: "edge_blockers h ms is = edge_blockers g ms is" for ms "is"
    using assms(1) unfolding edge_blockers_def edge by (simp add: same_lookups_def cong: if_cong)
  have "find_node h i = None \<longleftrightarrow> find_node g i = None"
    using assms(2)[of i] unfolding same_view_def by (metis option.map_disc_iff)
  moreover have "listed_members h is = listed_members g is" for "is"
    using assms(1) by (simp add: listed_members_def same_lookups_def)
  ultimately show ?thesis
    using assms(1) by (auto simp: blockers_def sets edges same_lookups_def Let_def split: option.split)
qed

lemma authority_view:
  "map_option view (find_node h i) = map_option view (find_node g i) \<Longrightarrow> current_authority h i = current_authority g i"
  by (auto simp: current_authority_def dest: view_fields split: option.splits)

lemma response_cong:
  assumes "same_lookups g h" and "\<And>i. same_view g h i"
  shows "response h i = response g i"
proof -
  have v: "map_option view (find_node h i) = map_option view (find_node g i)"
    using assms(2)[of i] by (simp add: same_view_def)
  show ?thesis by (simp add: response_def readiness_view[OF v] authority_view[OF v] blockers_cong[OF assms])
qed

text \<open>What the stages answer.\<close>

lemmas response_simps = response_def query_frame_def enc_blocker_def blockers_def set_blockers_def edge_blockers_def
  listed_members_def eval_edge_locked_def check_generation_def check_readiness_def check_resource_def
  check_capability_def check_freshness_def check_integrity_def check_provenance_def check_completion_def
  empty_acc_def add_blocker_def unmet_def meets_generation_constraint_def generation_advanced_def
  meets_readiness_constraint_def edge_required_def ix_at_def fits_frame_def kMaxBodyBytes_def current_authority_def
  readiness_def make_edge_def demo_ids

lemma stage_responses:
  "fits_frame (response stage_c (Strong 3))"
  "fits_frame (response stage_a2 (Strong 1))" "fits_frame (response stage_a2 (Strong 2))"
  "fits_frame (response stage_a2 (Strong 3))" "fits_frame (response stage_rebuilt (Strong 3))"
  "fits_frame (response stage_restarted (Strong 3))" "fits_frame (response stage_renewed (Strong 3))"
  by (simp_all add: response_simps demo_stages last_stages)

lemma stage_readings:
  "readiness stage_c (Strong 3) = RS_READY" "current_authority stage_a2 (Strong 1) = Strong 2"
  "readiness stage_a2 (Strong 1) = RS_READY" "readiness stage_a2 (Strong 2) = RS_STALE"
  "readiness stage_a2 (Strong 3) = RS_BLOCKED" "readiness stage_rebuilt (Strong 3) = RS_READY"
  "readiness stage_restarted (Strong 3) = RS_REVALIDATION_REQUIRED" "readiness stage_renewed (Strong 3) = RS_READY"
  by (simp_all add: readiness_def current_authority_def demo_stages last_stages)

lemma unblocked: "blockers stage_c (Strong 3) = []" "blockers stage_a2 (Strong 1) = []"
  by (simp_all add: response_simps demo_stages)

end
