(* ===== verification/Demonstration.thy ===== *)
theory Demonstration
  imports DemoStages
begin

text \<open>
  The whole demonstration without faults: every exchange is delivered, the marker files can be written,
  and the coordinator is alone on its connection. Each role is followed to the graph and the files it
  leaves; the orchestrator ends with \<open>PASS\<close>.
\<close>

section \<open>Exchanges\<close>

abbreviation coord :: "graph \<Rightarrow> bool \<Rightarrow> file_system \<Rightarrow> world" where
  "coord g opened fs \<equiv> \<lparr>wo_graph = g, wo_alive = True, wo_open = opened, wo_fs = fs, wo_fates = []\<rparr>"

lemma connects [simp]: "run_state connect (coord g b fs) = (True, coord g True fs)"
  by (simp add: connect_def next_fate_def)

lemma hangs_up [simp]: "run_state hang_up (coord g b fs) = ((), coord g False fs)"
  by (simp add: hang_up_def)

lemma spawned [simp]: "run_state (spawn p) (coord g b fs) = (True, snd (run_state p (coord g b fs)))"
  by (simp add: spawn_def next_fate_def split: prod.split)

lemma answered:
  assumes "message_ok m" and "fits_frame (frame_of m)" and "fits_frame f"
    and "answer fs it m g = Some (Some f, g', ws)"
  shows "run_state (rpc it (frame_of m) r) (coord g True fs) =
    (f, coord g' True (fold (\<lambda>(path, bs). put_file path bs) ws fs))"
  using assms by (simp add: rpc_def next_fate_def serve_request_def handle_answers)

lemma ack_fits [simp]: "fits_frame (ack oc)"
  by (simp add: fits_frame_def ack_def kMaxBodyBytes_def enc_u8_def)

lemma said_hello [simp]: "run_state (rpc it hello_req r) (coord g True fs) =
    (\<lparr>fr_type = FT_HELLO_RESP, fr_body = enc_id (gr_epoch g)\<rparr>, coord g True fs)"
  using answered[of Hello "\<lparr>fr_type = FT_HELLO_RESP, fr_body = enc_id (gr_epoch g)\<rparr>" fs it g g "[]" r]
  by (simp add: fits_frame_def hello_req_def kMaxBodyBytes_def)

lemma said_bye [simp]: "run_state (rpc it bye r) (coord g True fs) = (r, coord g False fs)"
  by (simp add: rpc_def next_fate_def serve_request_def replay_handled(2)) (simp add: fits_frame_def bye_def)

text \<open>A request that the graph answers with an outcome.\<close>

lemma acked_exchange:
  assumes "message_ok m" and "fits_frame (frame_of m)" and "answer fs it m g = acked (Some (oc, g'))"
  shows "run_state (rpc_outcome it (frame_of m) o0) (coord g True fs) = (parsed_outcome (ack oc) o0, coord g' True fs)"
  using answered[OF assms(1,2) ack_fits, of fs it g oc g' "[]" no_frame] assms(3)
  by (simp add: rpc_outcome_def acked_def)

lemmas request_sizes = fits_frame_def kMaxBodyBytes_def register_req_def publish_node_req_def publish_gen_req_def
  add_edge_req_def query_req_def advance_epoch_req_def remove_edge_req_def publish_readiness_req_def persist_req_def
  enc_u8_def

lemma registers [simp]:
  "run_state (rpc_outcome it (register_req s b e) o0) (coord g True fs) =
     (parsed_outcome (ack (fst (register_source s b e g))) o0, coord (joined (as_source s b e) g) True fs)"
  using acked_exchange[of "Register (as_source s b e)" fs it g "fst (register_source s b e g)"
      "joined (as_source s b e) g" o0]
  by (simp add: request_sizes joined_def as_source_def)

lemma advances [simp]:
  "run_state (rpc_outcome it (advance_epoch_req e) o0) (coord g True fs) =
     (parsed_outcome (ack (fst (advance_epoch e g))) o0, coord (snd (advance_epoch e g)) True fs)"
  using acked_exchange[of "AdvanceEpoch e" fs it g "fst (advance_epoch e g)" "snd (advance_epoch e g)" o0]
  by (simp add: request_sizes)

lemma make_edge_wire: "wire_edge (make_edge j p c gen)" "fits_frame (add_edge_req (make_edge j p c gen) s b e)"
  by (simp_all add: wire_edge_def make_edge_def default_predicate_def wire_string_def request_sizes
      edge_kind_of_code_def generation_predicate_kind_of_code_def readiness_state_of_code_def)

lemma submits:
  "submit (as_source s b e, DeclareNode i k d False) g = Some (oc, g') \<Longrightarrow>
     node_kind_enumerator k \<Longrightarrow> length d \<le> 100 \<Longrightarrow>
     run_state (rpc_outcome it (publish_node_req i k d s b e) o0) (coord g True fs) =
       (parsed_outcome (ack oc) o0, coord g' True fs)"
  "submit (as_source s b e, PublishGeneration i gen) g = Some (oc, g') \<Longrightarrow>
     run_state (rpc_outcome it (publish_gen_req i gen s b e) o0) (coord g True fs) =
       (parsed_outcome (ack oc) o0, coord g' True fs)"
  "submit (as_source s b e, RemoveEdge j) g = Some (oc, g') \<Longrightarrow>
     run_state (rpc_outcome it (remove_edge_req j s b e) o0) (coord g True fs) =
       (parsed_outcome (ack oc) o0, coord g' True fs)"
  "submit (as_source s b e, PublishReadiness i RS_READY) g = Some (oc, g') \<Longrightarrow>
     run_state (rpc_outcome it (publish_readiness_req i s b e) o0) (coord g True fs) =
       (parsed_outcome (ack oc) o0, coord g' True fs)"
  using acked_exchange[of "PublishNode i k d (as_source s b e)" fs it g oc g' o0]
    acked_exchange[of "PublishGen i gen (as_source s b e)" fs it g oc g' o0]
    acked_exchange[of "RemoveEdgeMsg j (as_source s b e)" fs it g oc g' o0]
    acked_exchange[of "PublishReadinessMsg i (as_source s b e)" fs it g oc g' o0]
  by (simp_all add: request_sizes as_source_def wire_string_def node_kind_of_code_code)

lemma adds_edge:
  "submit (as_source s b e, AddEdge (make_edge j p c gen)) g = Some (oc, g') \<Longrightarrow>
     run_state (rpc_outcome it (add_edge_req (make_edge j p c gen) s b e) o0) (coord g True fs) =
       (parsed_outcome (ack oc) o0, coord g' True fs)"
  using acked_exchange[of "AddEdgeMsg (make_edge j p c gen) (as_source s b e)" fs it g oc g' o0]
  by (simp add: make_edge_wire as_source_def)

lemmas said = submits adds_edge

lemma queries:
  assumes "fits_frame (response g i)"
  shows "run_state (rpc it (query_req i) r) (coord g True fs) = (response g i, coord g True fs)"
  using answered[of "Query i" "response g i" fs it g g "[]" r] assms
  by (simp add: request_sizes response_def)

lemma parsed_response:
  assumes "readiness_state_enumerator (readiness g i)"
  shows "parsed_state (response g i) st0 = readiness g i" "parsed_generation (response g i) gen0 = current_authority g i"
  using assms by (simp_all add: parsed_state_def parsed_generation_def response_def query_frame_def new_decoder_def
      request_back codes_back)

section \<open>Files\<close>

definition demo_disk :: "string \<Rightarrow> file_system \<Rightarrow> bool" where
  "demo_disk dir fs \<longleftrightarrow>
     (\<forall>m \<in> set marker_names. fs_can_open fs (marker_file dir m) \<and> fs_can_write fs (marker_file dir m))"

lemma demo_disk_kept [simp]:
  "demo_disk dir (put_file p bs fs) = demo_disk dir fs" "demo_disk dir (fs\<lparr>fs_end := stops\<rparr>) = demo_disk dir fs"
  by (simp_all add: demo_disk_def put_file_def)

lemma marker_file_inj [simp]: "marker_file dir m = marker_file dir m' \<longleftrightarrow> m = m'"
  by (simp add: marker_file_def)

lemma writes:
  assumes "demo_disk dir fs" and "m \<in> set marker_names"
  shows "run_state (write_file (marker_file dir m) c) (coord g b fs) =
    ((), coord g b (put_file (marker_file dir m) (string_bytes c) fs))"
  using assms by (simp add: write_file_def demo_disk_def)

lemma reads [simp]: "run_state (read_file p) (coord g b (put_file p (string_bytes c) fs)) =
    (c, coord g b (put_file p (string_bytes c) fs))"
  by (simp add: read_file_def put_file_def comp_def string_bytes_def)

lemma removes [simp]: "run_state (remove_file p) (coord g b fs) = ((), coord g b (fs\<lparr>fs_end := (fs_end fs)(p := None)\<rparr>))"
  by (simp add: remove_file_def)

section \<open>The roles\<close>

lemma run_acts_Cons_Some:
  "run_acts f (x # xs) g = Some k \<longleftrightarrow> (\<exists>r h. f x g = Some (r, h) \<and> run_acts f xs h = Some k)"
  by (auto split: option.splits)

lemma worker_a_runs:
  assumes "demo_disk dir fs"
  shows "run_state (run_worker_a it dir o0) (coord empty_graph b fs) =
    (None, coord stage_a False (put_file (marker_file dir ''a_published.flag'') (string_bytes ''A1'') fs))"
proof -
  obtain r1 h1 r2 where h: "submit (cred_a, DeclareNode (Strong 1) NK_MODEL ''model'' False) (joined cred_a empty_graph) = Some (r1, h1)"
    "submit (cred_a, PublishGeneration (Strong 1) (Strong 1)) h1 = Some (r2, stage_a)"
    using built_a by (auto simp: run_acts_Cons_Some simp del: run_acts.simps(2))
  show ?thesis
    by (simp add: run_worker_a_def said(1)[OF h(1)] said(2)[OF h(2)] writes[OF assms] marker_names_def node_kind_enumerator_def)
qed

lemma worker_b_runs:
  assumes "demo_disk dir fs"
  shows "run_state (run_worker_b it dir o0) (coord stage_a b fs) =
    (Some 0, coord stage_b False (put_file (marker_file dir ''b_published.flag'') (string_bytes ''B1'') fs))"
proof -
  obtain r1 h1 r2 h2 r3 where h: "submit (cred_b, DeclareNode (Strong 2) NK_ARTIFACT ''artifact'' False) (joined cred_b stage_a) = Some (r1, h1)"
    "submit (cred_b, PublishGeneration (Strong 2) (Strong 1)) h1 = Some (r2, h2)"
    "submit (cred_b, AddEdge (make_edge (Strong 1) (Strong 1) (Strong 2) (Strong 1))) h2 = Some (r3, stage_b)"
    using built_b by (auto simp: run_acts_Cons_Some simp del: run_acts.simps(2))
  show ?thesis
    by (simp add: run_worker_b_def said(1)[OF h(1)] said(2)[OF h(2)] said(5)[OF h(3)] writes[OF assms] marker_names_def node_kind_enumerator_def)
qed

lemma consumer_runs:
  assumes "demo_disk dir fs"
  shows "run_state (run_consumer it dir o0) (coord stage_b b fs) =
    (Some 0, coord stage_c False (put_file (marker_file dir ''consumer_result.txt'') (string_bytes ''READY'') fs))"
proof -
  obtain r1 h1 r2 where h: "submit (cred_c, DeclareNode (Strong 3) NK_WORKLOAD_PHASE ''phase'' False) (joined cred_c stage_b) = Some (r1, h1)"
    "submit (cred_c, AddEdge (make_edge (Strong 2) (Strong 2) (Strong 3) (Strong 1))) h1 = Some (r2, stage_c)"
    using built_c by (auto simp: run_acts_Cons_Some simp del: run_acts.simps(2))
  have q: "parse_query_resp (response stage_c (Strong 3)) = Some (RS_READY, current_authority stage_c (Strong 3), [])"
    using query_parsed[OF stage_responses(1)[unfolded response_def]]
    by (simp add: stage_readings readiness_state_enumerator_def response_def unblocked)
  show ?thesis
    by (simp add: run_consumer_def said(1)[OF h(1)] said(5)[OF h(2)] queries[OF stage_responses(1)] q
        writes[OF assms] marker_names_def node_kind_enumerator_def)
qed

lemma worker_a2_runs:
  assumes "demo_disk dir fs"
  shows "run_state (run_worker_a2 it dir reg0 pub0) (coord stage_epoch b fs) =
    (Some 0, coord stage_a2 False (put_file (marker_file dir ''a2_published.flag'')
       (string_bytes ''reg=ACCEPTED:pub=ACCEPTED:qgen=2'') fs))"
proof -
  have q: "parse_query_resp (response stage_a2 (Strong 1)) = Some (RS_READY, Strong 2, [])"
    using query_parsed[OF stage_responses(2)[unfolded response_def]]
    by (simp add: stage_readings readiness_state_enumerator_def response_def unblocked)
  have r: "fst (register_source SRC_A BOOT_2 EPOCH_2 stage_epoch) = OC_ACCEPTED"
    by (simp add: register_source_def demo_stages demo_ids)
  show ?thesis
    by (simp add: run_worker_a2_def said(2)[OF built_a2] queries[OF stage_responses(2)] q r parsed_ack
        outcome_enumerator_def strong_to_string_def to_string_nat.simps digit_char_def char_of_def bit_0
        writes[OF assms] marker_names_def node_kind_enumerator_def)
qed

lemma replay_runs:
  assumes "demo_disk dir fs"
  shows "run_state (run_replay it dir o0) (coord stage_epoch b fs) =
    (Some 0, coord stage_epoch False (put_file (marker_file dir ''replay_outcome.txt'') (string_bytes ''REJECT_STALE_EPOCH'') fs))"
proof -
  have "authority_ok stage_epoch SRC_A BOOT_1 EPOCH_1 = Some OC_REJECT_STALE_EPOCH"
    by (simp add: authority_ok_def demo_stages demo_ids)
  then show ?thesis
    using replay_delivered[of "coord stage_epoch b fs" OC_REJECT_STALE_EPOCH it dir o0] writes[OF assms]
    by (simp add: marker_names_def)
qed

section \<open>The coordinator starts, saves and dies\<close>

abbreviation dead :: "graph \<Rightarrow> file_system \<Rightarrow> world" where
  "dead g fs \<equiv> \<lparr>wo_graph = g, wo_alive = False, wo_open = False, wo_fs = fs, wo_fates = []\<rparr>"

lemma killed [simp]: "run_state kill_coordinator (coord g b fs) = ((), dead g fs)"
  by (simp add: kill_coordinator_def)

lemma coordinator_starts:
  assumes "wo_fates w = []" and "demo_disk dir (wo_fs w)"
  shows "run_state (run_coordinator it (marker_file dir ''coord.ready'') []) w =
    ((), coord empty_graph False (put_file (marker_file dir ''coord.ready'') (string_bytes ''ready'') (wo_fs w)))"
  using assms by (simp add: run_coordinator_def write_file_def next_fate_def demo_disk_def marker_names_def)

definition holds_snapshot :: "u8 list \<Rightarrow> string \<Rightarrow> file_system \<Rightarrow> bool" where
  "holds_snapshot bs path fs \<longleftrightarrow> bs \<noteq> [] \<and> fs_end fs path = Some (int (length bs)) \<and> fs_bytes fs path = bs"

lemma marker_file_nonempty [simp]: "marker_file dir m \<noteq> []"
  by (simp add: marker_file_def)

lemma coordinator_restarts:
  assumes "wo_fates w = []" and "demo_disk dir (wo_fs w)"
    and "holds_snapshot bs (marker_file dir ''graph.bin'') (wo_fs w)"
    and "load it bs (Some empty_graph) = Some (OC_ACCEPTED, [], Some h)"
  shows "run_state (run_coordinator it (marker_file dir ''coord.ready'') (marker_file dir ''graph.bin'')) w =
    ((), coord h False (put_file (marker_file dir ''coord.ready'') (string_bytes ''ready'') (wo_fs w)))"
  using assms
  by (simp add: run_coordinator_def write_file_def next_fate_def demo_disk_def marker_names_def load_file_def
      holds_snapshot_def)

lemma persists:
  assumes "demo_disk dir fs" and "save it g = Some bs" and "length dir \<le> 2 ^ 20"
  obtains f where "run_state (rpc it (persist_req (marker_file dir ''graph.bin'')) r) (coord g True fs) =
      (f, coord g True (put_file (marker_file dir ''graph.bin'') bs fs))"
    "parsed_persist f o0 = OC_ACCEPTED"
proof
  let ?f = "\<lparr>fr_type = FT_PERSIST_RESP, fr_body = enc_u8 (outcome_code OC_ACCEPTED) @ enc_u64 (digest it g)\<rparr>"
  have "answer fs it (Persist (marker_file dir ''graph.bin'')) g =
      Some (Some ?f, g, [(marker_file dir ''graph.bin'', bs)])"
    using assms(1,2) by (simp add: persisted_def save_file_def demo_disk_def marker_names_def)
  then show "run_state (rpc it (persist_req (marker_file dir ''graph.bin'')) r) (coord g True fs) =
      (?f, coord g True (put_file (marker_file dir ''graph.bin'') bs fs))"
    using answered[of "Persist (marker_file dir ''graph.bin'')" ?f fs it g g "[(marker_file dir ''graph.bin'', bs)]" r]
      assms(3)
    by (simp add: wire_string_def marker_file_def request_sizes)
  show "parsed_persist ?f o0 = OC_ACCEPTED"
    by (simp add: parsed_persist_def new_decoder_def codes_back enc_u8_def dec_u8_def outcome_of_code_def)
qed

lemma save_nonempty: "save it g = Some bs \<Longrightarrow> bs \<noteq> []"
  by (auto simp: save_def Let_def enc_u32_def)

section \<open>The orchestrator\<close>

lemma publishes:
  assumes "run_acts submit (republish (as_source s b e) [Strong 1, Strong 2, Strong 3]) g = Some k"
  obtains g1 g2 r1 r2 r3 where
    "submit (as_source s b e, PublishReadiness (Strong 1) RS_READY) g = Some (r1, g1)"
    "submit (as_source s b e, PublishReadiness (Strong 2) RS_READY) g1 = Some (r2, g2)"
    "submit (as_source s b e, PublishReadiness (Strong 3) RS_READY) g2 = Some (r3, k)"
  using assms by (auto simp: run_acts_Cons_Some simp del: run_acts.simps(2))

lemma concludes:
  assumes "demo_disk dir (wo_fs w)"
  shows "fst (run_state (conclude dir msg code) w) = code"
    "fst (run_state (read_file (marker_file dir ''proof_result.txt'')) (snd (run_state (conclude dir msg code) w))) = msg"
  using assms file_written[of w "marker_file dir ''proof_result.txt''" msg]
  by (auto simp: conclude_def demo_disk_def marker_names_def split: prod.splits)

lemma restart_passes:
  assumes it: "iteration_ok it" and disk: "demo_disk dir fs" and bs: "save it stage_rebuilt = Some bs"
    and kept: "holds_snapshot bs (marker_file dir ''graph.bin'') fs"
  obtains w where "run_state (restart_and_revalidate it dir o0 st0 resp) (dead g fs) = (0, w)"
    "fst (run_state (read_file (marker_file dir ''proof_result.txt'')) w) = ''PASS''"
proof -
  obtain bs' h where h: "save it stage_rebuilt = Some bs'"
    "load it bs' (Some empty_graph) = Some (OC_ACCEPTED, [], Some h)" "alike stage_restarted h"
    "clean_inv h" "\<forall>j. settled h j"
    using demo.reloads[OF it last_numbered last_dynamic _ rebuilt_storable] unfolding rebuilt_chain stage_restarted_def
    by (metis alike_refl)
  have load: "load it bs (Some empty_graph) = Some (OC_ACCEPTED, [], Some h)" using h(1,2) bs by simp
  have view: "same_view stage_restarted h i" for i
    unfolding same_view_def
    by (rule settled_unique[OF h(3) _ _ _ _ h(5)])
      (use stage_clean(1) stage_settled(1) in \<open>simp_all add: clean_inv_def core_inv_def sets_local_members\<close>)
  have q1: "response h (Strong 3) = response stage_restarted (Strong 3)"
    by (rule response_cong[OF alike_same_lookups[OF h(3)] view])
  have auth: "authority_ok (joined cred_orch h) (cr_source cred_orch) (cr_boot cred_orch) (cr_epoch cred_orch) = None"
    unfolding alike_authority[OF joined_alike[OF h(3)]]
    by (simp add: authority_ok_def joined_def register_source_def as_source_def last_stages demo_stages demo_ids)
  obtain k where k: "run_acts submit (republish cred_orch [Strong 1, Strong 2, Strong 3]) (joined cred_orch h) = Some k"
    "alike stage_renewed k" "\<And>i. same_view stage_renewed k i"
    by (rule demo.revalidates[OF demoted_numbered[OF last_numbered] h(3)[unfolded stage_restarted_def] h(4,5) auth
        demo_renewed_leads[unfolded stage_restarted_def] stage_clean(2)]) (use stage_settled(2) in blast)+
  have q2: "response k (Strong 3) = response stage_renewed (Strong 3)"
    by (rule response_cong[OF alike_same_lookups[OF k(2)] k(3)])
  obtain g1 g2 r1 r2 r3 where p:
    "submit (cred_orch, PublishReadiness (Strong 1) RS_READY) (joined cred_orch h) = Some (r1, g1)"
    "submit (cred_orch, PublishReadiness (Strong 2) RS_READY) g1 = Some (r2, g2)"
    "submit (cred_orch, PublishReadiness (Strong 3) RS_READY) g2 = Some (r3, k)"
    by (rule publishes[OF k(1)])
  have parsed: "parsed_state (response stage_restarted (Strong 3)) st0 = RS_REVALIDATION_REQUIRED"
    "parsed_state (response stage_renewed (Strong 3)) st0 = RS_READY"
    using parsed_response(1)[of stage_restarted "Strong 3"] parsed_response(1)[of stage_renewed "Strong 3"]
    by (simp_all add: stage_readings readiness_state_enumerator_def)
  let ?fs1 = "fs\<lparr>fs_end := (fs_end fs)(marker_file dir ''coord.ready'' := None)\<rparr>"
  let ?fs2 = "put_file (marker_file dir ''coord.ready'') (string_bytes ''ready'') ?fs1"
  have kept1: "holds_snapshot bs (marker_file dir ''graph.bin'') ?fs1" using kept by (simp add: holds_snapshot_def)
  have start: "run_state (run_coordinator it (marker_file dir ''coord.ready'') (marker_file dir ''graph.bin'')) (dead g ?fs1) =
      ((), coord h False ?fs2)"
    using coordinator_restarts[of "dead g ?fs1" dir bs it h] disk kept1 load by simp
  have ready: "run_state (file_exists (marker_file dir ''coord.ready'')) (coord h False ?fs2) = (True, coord h False ?fs2)"
    by (simp add: file_exists_def put_file_def)
  have fits: "fits_frame (response h (Strong 3))" "fits_frame (response k (Strong 3))"
    using stage_responses(6,7) q1 q2 by simp_all
  have "run_state (restart_and_revalidate it dir o0 st0 resp) (dead g fs) =
      run_state (conclude dir ''PASS'' 0) (dead k ?fs2)"
    by (simp add: restart_and_revalidate_def remove_file_def spawn_def next_fate_def start ready
        queries[OF fits(1)] queries[OF fits(2)] q1 q2 parsed said(4)[OF p(1)] said(4)[OF p(2)] said(4)[OF p(3)] Let_def)
  moreover have "demo_disk dir (wo_fs (dead k ?fs2))" using disk by simp
  ultimately show thesis using concludes[of dir "dead k ?fs2"] that by (metis prod.collapse)
qed

lemma rebuild_passes:
  assumes it: "iteration_ok it" and disk: "demo_disk dir fs" and "length dir \<le> 2 ^ 20"
  obtains w where "run_state (rebuild_and_persist it dir o0 st0 gen0) (coord stage_a2 b fs) = (0, w)"
    "fst (run_state (read_file (marker_file dir ''proof_result.txt'')) w) = ''PASS''"
proof -
  obtain r1 h1 r2 h2 r3 h3 r4 h4 r5 where h:
    "submit (cred_orch, RemoveEdge (Strong 1)) (joined cred_orch stage_a2) = Some (r1, h1)"
    "submit (cred_orch, AddEdge (make_edge (Strong 5) (Strong 1) (Strong 2) (Strong 2))) h1 = Some (r2, h2)"
    "submit (cred_orch, PublishGeneration (Strong 2) (Strong 2)) h2 = Some (r3, h3)"
    "submit (cred_orch, RemoveEdge (Strong 2)) h3 = Some (r4, h4)"
    "submit (cred_orch, AddEdge (make_edge (Strong 6) (Strong 2) (Strong 3) (Strong 2))) h4 = Some (r5, stage_rebuilt)"
    using rebuilt by (auto simp: run_acts_Cons_Some simp del: run_acts.simps(2))
  have parsed: "parsed_state (response stage_a2 (Strong 2)) st0 = RS_STALE"
    "parsed_state (response stage_a2 (Strong 3)) st0 = RS_BLOCKED"
    "parsed_state (response stage_rebuilt (Strong 3)) st0 = RS_READY"
    using parsed_response(1)[of stage_a2 "Strong 2"] parsed_response(1)[of stage_a2 "Strong 3"]
      parsed_response(1)[of stage_rebuilt "Strong 3"]
    by (simp_all add: stage_readings readiness_state_enumerator_def)
  obtain bs where bs: "save it stage_rebuilt = Some bs" by (simp add: save_def Let_def)
  let ?p = "marker_file dir ''graph.bin''"
  obtain f where f: "run_state (rpc it (persist_req ?p) (response stage_rebuilt (Strong 3))) (coord stage_rebuilt True fs) =
      (f, coord stage_rebuilt True (put_file ?p bs fs))" "parsed_persist f o0 = OC_ACCEPTED"
    by (rule persists[OF disk bs assms(3)])
  have kept: "holds_snapshot bs ?p (put_file ?p bs fs)"
    using save_nonempty[OF bs] by (simp add: holds_snapshot_def put_file_def)
  obtain w where w: "run_state (restart_and_revalidate it dir o0 st0 f) (dead stage_rebuilt (put_file ?p bs fs)) = (0, w)"
    "fst (run_state (read_file (marker_file dir ''proof_result.txt'')) w) = ''PASS''"
    by (rule restart_passes[OF it _ bs kept]) (use disk in simp_all)
  have "run_state (rebuild_and_persist it dir o0 st0 gen0) (coord stage_a2 b fs) = (0, w)"
    by (simp add: rebuild_and_persist_def queries[OF stage_responses(2)] queries[OF stage_responses(3)]
        queries[OF stage_responses(4)] queries[OF stage_responses(5)] parsed f w(1)
        said(3)[OF h(1)] said(5)[OF h(2)] said(2)[OF h(3)] said(3)[OF h(4)] said(5)[OF h(5)] Let_def)
  then show thesis by (rule that) (rule w(2))
qed

lemma markers_removed:
  "\<exists>stops. run_state (remove_markers dir ms) w = ((), w\<lparr>wo_fs := (wo_fs w)\<lparr>fs_end := stops\<rparr>\<rparr>)"
proof (induction ms arbitrary: w)
  case Nil
  have "w = w\<lparr>wo_fs := (wo_fs w)\<lparr>fs_end := fs_end (wo_fs w)\<rparr>\<rparr>" by simp
  then show ?case by (metis State_Monad.run_state_return remove_markers.simps(1))
next
  case (Cons m ms)
  let ?w = "w\<lparr>wo_fs := (wo_fs w)\<lparr>fs_end := (fs_end (wo_fs w))(marker_file dir m := None)\<rparr>\<rparr>"
  obtain stops where "run_state (remove_markers dir ms) ?w = ((), ?w\<lparr>wo_fs := (wo_fs ?w)\<lparr>fs_end := stops\<rparr>\<rparr>)"
    using Cons.IH by blast
  then show ?case by (auto simp: remove_file_def)
qed

theorem orchestrator_passes:
  assumes it: "iteration_ok it" and net: "wo_fates w = []" and disk: "demo_disk dir (wo_fs w)"
    and dir: "length dir \<le> 2 ^ 20"
  shows "\<exists>w'. run_state (run_orchestrator it dir o0 st0 gen0) w = (0, w') \<and>
    fst (run_state (read_file (marker_file dir ''proof_result.txt'')) w') = ''PASS''"
proof -
  obtain fs0 where rm: "run_state (remove_markers dir marker_names) w = ((), w\<lparr>wo_fs := fs0\<rparr>)"
    and disk0: "demo_disk dir fs0"
    using markers_removed[of dir marker_names w] disk by auto
  let ?w0 = "w\<lparr>wo_fs := fs0\<rparr>"
  let ?put = "\<lambda>m c. put_file (marker_file dir m) (string_bytes c)"
  let ?fs1 = "?put ''coord.ready'' ''ready'' fs0"
  let ?fs2 = "?put ''consumer_result.txt'' ''READY'' (?put ''b_published.flag'' ''B1''
    (?put ''a_published.flag'' ''A1'' ?fs1))"
  let ?fs3 = "?fs2\<lparr>fs_end := (fs_end ?fs2)(marker_file dir ''replay_outcome.txt'' := None)\<rparr>"
  let ?fs4 = "?put ''replay_outcome.txt'' ''REJECT_STALE_EPOCH'' ?fs3"
  let ?fs5 = "?put ''a2_published.flag'' ''reg=ACCEPTED:pub=ACCEPTED:qgen=2'' ?fs4"
  have start: "run_state (spawn (run_coordinator it (marker_file dir ''coord.ready'') [])) ?w0 =
      (True, coord empty_graph False ?fs1)"
    using coordinator_starts[of ?w0 dir it] net disk0 by (simp add: spawn_def next_fate_def)
  have ready: "run_state (file_exists (marker_file dir ''coord.ready'')) (coord g b ?fs1) = (True, coord g b ?fs1)" for g b
    by (simp add: file_exists_def put_file_def)
  have d: "demo_disk dir ?fs1" "demo_disk dir (?put ''a_published.flag'' ''A1'' ?fs1)"
    "demo_disk dir (?put ''b_published.flag'' ''B1'' (?put ''a_published.flag'' ''A1'' ?fs1))"
    "demo_disk dir ?fs3" "demo_disk dir ?fs4" "demo_disk dir ?fs5"
    using disk0 by simp_all
  obtain w' where w': "run_state (rebuild_and_persist it dir o0 st0 gen0) (coord stage_a2 False ?fs5) = (0, w')"
    "fst (run_state (read_file (marker_file dir ''proof_result.txt'')) w') = ''PASS''"
    by (rule rebuild_passes[OF it d(6) dir])
  have "run_state (run_orchestrator it dir o0 st0 gen0) w = (0, w')"
    by (simp add: run_orchestrator_def rm start ready worker_a_runs[OF d(1)] worker_b_runs[OF d(2)]
        consumer_runs[OF d(3)] epoch_advanced parsed_ack outcome_enumerator_def replay_runs[OF d(4)]
        worker_a2_runs[OF d(5)] w'(1) del: fun_upd_apply)
  with w'(2) show ?thesis by blast
qed

end
