(* ===== verification/Launch.thy ===== *)
theory Launch
  imports Demonstration
begin

text \<open>
  \<open>main\<close> of \<open>src/tools/df_app_main.cpp\<close> and the command lines the orchestrator starts its processes with.
  How the C runtime cuts a command line into arguments is a parameter; the orchestrator relies on blanks
  separating arguments and on quotes keeping a path together.
\<close>

section \<open>Arguments\<close>

text \<open>
  \<open>std::stoi\<close>: blanks, an optional sign and at least one digit; what follows is ignored. It throws when there
  is no digit and when the number is not an \<open>int\<close>.
\<close>

definition is_blank :: "char \<Rightarrow> bool" where
  "is_blank c \<longleftrightarrow> c \<in> {CHR '' '', CHR 0x09, CHR 0x0A, CHR 0x0B, CHR 0x0C, CHR 0x0D}"

definition is_digit :: "char \<Rightarrow> bool" where
  "is_digit c \<longleftrightarrow> 48 \<le> (of_char c :: nat) \<and> (of_char c :: nat) \<le> 57"

definition digits_value :: "string \<Rightarrow> nat" where
  "digits_value ds = fold (\<lambda>c n. 10 * n + (of_char c - 48)) ds 0"

definition stoi :: "string \<Rightarrow> int option" where
  "stoi s =
     (let s1 = dropWhile is_blank s;
          (negative, s2) = (case s1 of [] \<Rightarrow> (False, [])
            | c # cs \<Rightarrow> if c = CHR ''-'' then (True, cs) else if c = CHR ''+'' then (False, cs) else (False, s1));
          ds = takeWhile is_digit s2;
          v = (if negative then - int (digits_value ds) else int (digits_value ds))
      in if ds = [] \<or> v < - (2 ^ 31) \<or> 2 ^ 31 \<le> v then None else Some v)"

record app_options =
  ao_role :: string
  ao_port :: u16
  ao_dir :: string
  ao_exe :: string
  ao_ready :: string
  ao_load :: string

definition default_options :: app_options where
  "default_options = \<lparr>ao_role = ''orchestrator'', ao_port = 0, ao_dir = ''.'', ao_exe = [],
     ao_ready = ''coord.ready'', ao_load = []\<rparr>"

text \<open>A flag without a value, and an argument that is no flag, are passed over.\<close>

fun parse_options :: "string list \<Rightarrow> app_options \<Rightarrow> app_options option" where
  "parse_options (a # v # rest) opt =
     (if a = ''--role'' then parse_options rest (opt\<lparr>ao_role := v\<rparr>)
      else if a = ''--port'' then
        (case stoi v of None \<Rightarrow> None | Some n \<Rightarrow> parse_options rest (opt\<lparr>ao_port := word_of_int n\<rparr>))
      else if a = ''--marker'' \<or> a = ''--dir'' then parse_options rest (opt\<lparr>ao_dir := v\<rparr>)
      else if a = ''--exe'' then parse_options rest (opt\<lparr>ao_exe := v\<rparr>)
      else if a = ''--ready'' then parse_options rest (opt\<lparr>ao_ready := v\<rparr>)
      else if a = ''--load'' then parse_options rest (opt\<lparr>ao_load := v\<rparr>)
      else parse_options (v # rest) opt)"
| "parse_options [a] opt = Some opt"
| "parse_options [] opt = Some opt"

text \<open>
  The process that \<open>main\<close> runs, with its exit code; \<open>None\<close> is an exception that leaves \<open>main\<close>. A coordinator
  returns when it cannot listen. \<open>windows\<close> is the platform the program was compiled for, and \<open>abs_path\<close> asks it
  for the directory of the orchestrator.
\<close>

definition orchestrator_elsewhere :: "int process" where
  "orchestrator_elsewhere = do { write_file ''proof_result.txt'' ''ORCHESTRATOR_REQUIRES_WINDOWS''; State_Monad.return 1 }"

definition app_main :: "bool \<Rightarrow> iteration \<Rightarrow> (string \<Rightarrow> string) \<Rightarrow> outcome \<Rightarrow> readiness_state \<Rightarrow> node_generation \<Rightarrow>
    string list \<Rightarrow> int option process option" where
  "app_main windows it abs_path o0 st0 gen0 args =
     (case parse_options args default_options of
        None \<Rightarrow> None
      | Some opt \<Rightarrow> Some (
          if ao_role opt = ''coordinator'' then
            do { run_coordinator it (ao_ready opt) (ao_load opt);
                 State (\<lambda>w. (if wo_alive w then None else Some 0, w)) }
          else if ao_role opt = ''worker-a'' then run_worker_a it (ao_dir opt) o0
          else if ao_role opt = ''worker-b'' then run_worker_b it (ao_dir opt) o0
          else if ao_role opt = ''consumer'' then run_consumer it (ao_dir opt) o0
          else if ao_role opt = ''worker-a2'' then run_worker_a2 it (ao_dir opt) o0 o0
          else if ao_role opt = ''replay'' then run_replay it (ao_dir opt) o0
          else if ao_role opt = ''orchestrator'' then
            do { code \<leftarrow> (if windows then run_orchestrator it (abs_path (ao_dir opt)) o0 st0 gen0 else orchestrator_elsewhere);
                 State_Monad.return (Some code) }
          else State_Monad.return (Some 1)))"

text \<open>A query for the state alone, which no role makes; a failed exchange leaves the state as it was.\<close>

definition query_readiness :: "iteration \<Rightarrow> node_id \<Rightarrow> readiness_state \<Rightarrow> (bool \<times> readiness_state) process" where
  "query_readiness it i st = do {
     q \<leftarrow> rpc it (query_req i) no_frame;
     State_Monad.return (parse_query_resp q \<noteq> None, parsed_state q st) }"

section \<open>Command lines\<close>

definition qstr :: "string \<Rightarrow> string" where
  "qstr s = CHR 0x22 # s @ [CHR 0x22]"

text \<open>What \<open>spawn\<close> hands to the operating system.\<close>

definition command_line :: "string \<Rightarrow> string \<Rightarrow> string" where
  "command_line exe args = qstr exe @ '' '' @ args"

definition coordinator_args :: "u16 \<Rightarrow> string \<Rightarrow> string option \<Rightarrow> string" where
  "coordinator_args port ready saved = ''--role coordinator --port '' @ to_string_nat (unat port) @ '' --ready '' @
     qstr ready @ (case saved of None \<Rightarrow> [] | Some path \<Rightarrow> '' --load '' @ qstr path)"

definition role_args :: "string \<Rightarrow> u16 \<Rightarrow> string \<Rightarrow> string" where
  "role_args role port dir = ''--role '' @ role @ '' --port '' @ to_string_nat (unat port) @ '' --marker '' @ qstr dir"

section \<open>Cut into arguments\<close>

text \<open>Words as they stand on a command line: quoted, or bare.\<close>

fun words :: "(bool \<times> string) list \<Rightarrow> string" where
  "words [] = []"
| "words ((quoted, w) # ws) = (if quoted then qstr w else w) @ (if ws = [] then [] else '' '' @ words ws)"

definition quotable :: "string \<Rightarrow> bool" where
  "quotable s \<longleftrightarrow> CHR 0x22 \<notin> set s \<and> (s = [] \<or> last s \<noteq> CHR 0x5C)"

definition bare :: "string \<Rightarrow> bool" where
  "bare w \<longleftrightarrow> w \<noteq> [] \<and> (\<forall>c \<in> set w. \<not> is_blank c \<and> c \<noteq> CHR 0x22)"

definition word_ok :: "bool \<times> string \<Rightarrow> bool" where
  "word_ok w \<longleftrightarrow> (if fst w then quotable (snd w) else bare (snd w))"

definition cuts_words :: "(string \<Rightarrow> string list) \<Rightarrow> bool" where
  "cuts_words argv_of \<longleftrightarrow> (\<forall>ws. list_all word_ok ws \<longrightarrow> argv_of (words ws) = map snd ws)"

lemma cuts: "cuts_words argv_of \<Longrightarrow> list_all word_ok ws \<Longrightarrow> argv_of (words ws) = map snd ws"
  by (simp add: cuts_words_def)

lemma digits_of: "c \<in> set (to_string_nat n) \<Longrightarrow> is_digit c"
proof (induction n rule: to_string_nat.induct)
  case (1 n)
  have "is_digit (digit_char m)" if "m < 10" for m
    using that by (simp add: is_digit_def digit_char_def)
  then show ?case using 1 by (subst (asm) (2) to_string_nat.simps) (auto split: if_splits)
qed

lemma digit_bare: "is_digit c \<Longrightarrow> \<not> is_blank c \<and> c \<noteq> CHR 0x22 \<and> c \<noteq> CHR ''-'' \<and> c \<noteq> CHR ''+''"
  by (auto simp: is_digit_def is_blank_def)

lemma number_bare: "bare (to_string_nat n)"
  using digits_of digit_bare by (auto simp: bare_def)

lemma digits_value_string: "digits_value (to_string_nat n) = n"
proof (induction n rule: to_string_nat.induct)
  case (1 n)
  have "of_char (digit_char m) = 48 + m" if "m < 10" for m
    using that by (simp add: digit_char_def)
  then show ?case using 1 by (subst to_string_nat.simps) (simp add: digits_value_def)
qed

lemma stoi_string:
  assumes "n < 2 ^ 31"
  shows "stoi (to_string_nat n) = Some (int n)"
proof -
  have "dropWhile is_blank (to_string_nat n) = to_string_nat n"
    using digits_of[of "hd (to_string_nat n)" n] digit_bare[of "hd (to_string_nat n)"]
    by (cases "to_string_nat n") auto
  moreover have "takeWhile is_digit (to_string_nat n) = to_string_nat n"
    using digits_of by (simp add: takeWhile_eq_all_conv)
  moreover obtain c cs where "to_string_nat n = c # cs" by (cases "to_string_nat n") auto
  moreover from this have "c \<noteq> CHR ''-'' \<and> c \<noteq> CHR ''+''" using digits_of[of c n] digit_bare by auto
  ultimately show ?thesis
    using assms digits_value_string[of n] by (simp add: stoi_def Let_def)
qed

section \<open>The orchestrator's commands reach the roles\<close>

lemma port_back: "word_of_int (int (unat (port :: u16))) = port"
  by simp

lemma port_read: "stoi (to_string_nat (unat (port :: u16))) = Some (int (unat port))"
proof -
  have "unat port < 2 ^ LENGTH(16)" by (rule unsigned_less)
  then show ?thesis by (intro stoi_string) simp
qed

lemma role_words:
  "command_line exe (role_args role port dir) = words [(True, exe), (False, ''--role''), (False, role),
     (False, ''--port''), (False, to_string_nat (unat port)), (False, ''--marker''), (True, dir)]"
  by (simp add: command_line_def role_args_def)

lemma coordinator_words:
  "command_line exe (coordinator_args port ready saved) = words ([(True, exe), (False, ''--role''), (False, ''coordinator''),
     (False, ''--port''), (False, to_string_nat (unat port)), (False, ''--ready''), (True, ready)] @
     (case saved of None \<Rightarrow> [] | Some path \<Rightarrow> [(False, ''--load''), (True, path)]))"
  by (simp add: command_line_def coordinator_args_def split: option.split)

lemma flags_bare: "bare ''--role''" "bare ''--port''" "bare ''--marker''" "bare ''--ready''" "bare ''--load''"
  "bare ''coordinator''" "bare ''worker-a''" "bare ''worker-b''" "bare ''consumer''" "bare ''replay''" "bare ''worker-a2''"
  by (simp_all add: bare_def is_blank_def)

lemma role_launched:
  assumes cut: "cuts_words argv_of" and "quotable exe" and "quotable dir" and "bare role"
  shows "parse_options (tl (argv_of (command_line exe (role_args role port dir)))) default_options =
    Some (default_options\<lparr>ao_role := role, ao_port := port, ao_dir := dir\<rparr>)"
proof -
  have "argv_of (command_line exe (role_args role port dir)) =
      [exe, ''--role'', role, ''--port'', to_string_nat (unat port), ''--marker'', dir]"
    unfolding role_words
    by (subst cuts[OF cut]) (use assms(2-) number_bare flags_bare in \<open>simp_all add: word_ok_def\<close>)
  then show ?thesis by (simp add: port_read)
qed

lemma coordinator_launched:
  assumes cut: "cuts_words argv_of" and "quotable exe" and "quotable ready" and "\<forall>path. saved = Some path \<longrightarrow> quotable path"
  shows "parse_options (tl (argv_of (command_line exe (coordinator_args port ready saved)))) default_options =
    Some (default_options\<lparr>ao_role := ''coordinator'', ao_port := port, ao_ready := ready,
      ao_load := (case saved of None \<Rightarrow> [] | Some path \<Rightarrow> path)\<rparr>)"
proof -
  have "argv_of (command_line exe (coordinator_args port ready saved)) =
      [exe, ''--role'', ''coordinator'', ''--port'', to_string_nat (unat port), ''--ready'', ready] @
      (case saved of None \<Rightarrow> [] | Some path \<Rightarrow> [''--load'', path])"
    unfolding coordinator_words
    by (subst cuts[OF cut]) (use assms(2-) number_bare flags_bare in \<open>simp_all add: word_ok_def split: option.split\<close>)
  then show ?thesis by (simp add: port_read default_options_def split: option.split)
qed

lemma quotable_marker: "quotable dir \<Longrightarrow> m \<in> set marker_names \<Longrightarrow> quotable (marker_file dir m)"
  by (auto simp: quotable_def marker_file_def marker_names_def)

lemma spawn_ends: "spawn (do { p; State (\<lambda>w. (f w, w)) }) = spawn p"
  by (rule state.expand) (auto simp: spawn_def fun_eq_iff next_fate_def split: prod.splits list.splits if_splits)

lemma roles_launched:
  assumes "cuts_words argv_of" and "quotable exe" and "quotable dir"
  shows "map (\<lambda>args. app_main windows it abs_path o0 st0 gen0 (tl (argv_of (command_line exe args))))
      [role_args ''worker-a'' port dir, role_args ''worker-b'' port dir, role_args ''consumer'' port dir,
       role_args ''replay'' port dir, role_args ''worker-a2'' port dir] =
    [Some (run_worker_a it dir o0), Some (run_worker_b it dir o0), Some (run_consumer it dir o0),
     Some (run_replay it dir o0), Some (run_worker_a2 it dir o0 o0)]"
  by (simp add: app_main_def role_launched[OF assms] flags_bare)

lemma coordinators_launched:
  assumes "cuts_words argv_of" and "quotable exe" and "quotable dir"
  shows "map (\<lambda>saved. map_option spawn (app_main windows it abs_path o0 st0 gen0 (tl (argv_of (command_line exe
        (coordinator_args port (marker_file dir ''coord.ready'') saved))))))
      [None, Some (marker_file dir ''graph.bin'')] =
    [Some (spawn (run_coordinator it (marker_file dir ''coord.ready'') [])),
     Some (spawn (run_coordinator it (marker_file dir ''coord.ready'') (marker_file dir ''graph.bin'')))]"
proof -
  have "quotable (marker_file dir ''coord.ready'')" "quotable (marker_file dir ''graph.bin'')"
    by (rule quotable_marker[OF assms(3)]; simp add: marker_names_def)+
  then show ?thesis by (simp add: app_main_def coordinator_launched[OF assms(1,2)] spawn_ends)
qed

section \<open>A splitter\<close>

text \<open>Blanks outside quotes end a word, quotes are dropped: a function that cuts as the orchestrator relies on.\<close>

fun cut_args :: "bool \<Rightarrow> string option \<Rightarrow> string \<Rightarrow> string list" where
  "cut_args inside cur [] = (case cur of None \<Rightarrow> [] | Some w \<Rightarrow> [w])"
| "cut_args inside cur (c # cs) =
     (let w = (case cur of None \<Rightarrow> [] | Some w \<Rightarrow> w) in
      if c = CHR 0x22 then cut_args (\<not> inside) (Some w) cs
      else if \<not> inside \<and> is_blank c then (if cur = None then [] else [w]) @ cut_args False None cs
      else cut_args inside (Some (w @ [c])) cs)"

lemma cut_plain:
  "\<forall>c \<in> set w. c \<noteq> CHR 0x22 \<and> (inside \<or> \<not> is_blank c) \<Longrightarrow>
     cut_args inside (Some u) (w @ cs) = cut_args inside (Some (u @ w)) cs"
  by (induction w arbitrary: u) (auto simp: Let_def)

lemma cut_word:
  assumes "word_ok (quoted, w)"
  shows "cut_args False None ((if quoted then qstr w else w) @ cs) = cut_args False (Some w) cs"
proof (cases quoted)
  case True
  then have "\<forall>c \<in> set w. c \<noteq> CHR 0x22" using assms by (auto simp: word_ok_def quotable_def)
  then have "cut_args True (Some []) (w @ CHR 0x22 # cs) = cut_args True (Some w) (CHR 0x22 # cs)"
    using cut_plain[of w True "[]"] by simp
  then show ?thesis using True by (simp add: qstr_def Let_def)
next
  case False
  then obtain c v where w: "w = c # v" "\<forall>c \<in> set w. c \<noteq> CHR 0x22 \<and> \<not> is_blank c"
    using assms by (cases w) (auto simp: word_ok_def bare_def)
  then show ?thesis using False cut_plain[of v False "[c]" cs] by (simp add: Let_def)
qed

lemma cut_args_words: "cuts_words (cut_args False None)"
  unfolding cuts_words_def
proof (intro allI impI)
  fix ws :: "(bool \<times> string) list"
  assume "list_all word_ok ws"
  then show "cut_args False None (words ws) = map snd ws"
  proof (induction ws)
    case (Cons w ws)
    obtain quoted v where w: "w = (quoted, v)" by fastforce
    then have "cut_args False None (words (w # ws)) =
        cut_args False (Some v) (if ws = [] then [] else '' '' @ words ws)"
      using Cons.prems cut_word[of quoted v] by simp
    then show ?case using Cons w by (simp add: Let_def is_blank_def)
  qed simp
qed

end
