(* ===== verification/Benchmark.thy ===== *)
theory Benchmark
  imports Examples Restarts
begin

text \<open>
  \<open>src/benchmarks/benchmark_main.cpp\<close>: the calls it times, on the graph it generates, and the sizes it
  prints. The durations and the density, which are printed floats, are left out; so are the queries
  whose results it drops (\<open>blockers\<close>, \<open>dependents\<close>, \<open>prerequisites\<close>, \<open>readiness\<close>), which do not change the
  graph, also when four threads ask them at once.
\<close>

section \<open>The program\<close>

definition seed_calls :: "nat \<Rightarrow> command list" where
  "seed_calls n = concat (map (\<lambda>i. [DeclareNode (Strong (of_nat i)) NK_MODEL [] False,
     PublishGeneration (Strong (of_nat i)) (Strong 1)]) [1..<n + 1])"

definition bench_edge :: "u64 \<Rightarrow> u64 \<Rightarrow> edge" where
  "bench_edge n i =
     (let prod = 1 + i mod (n - 1); span = n - prod; cons = prod + 1 + (i * 37) mod span
      in \<lparr>ed_id = Strong (i + 1), ed_generation = Strong 1, ed_kind = EK_REQUIRES_READY,
         ed_producer_id = Strong prod, ed_consumer_id = Strong cons, ed_bound_producer_generation = null_strong,
         ed_bound_consumer_generation = null_strong,
         ed_predicate = default_predicate\<lparr>pr_required_readiness := RS_READY, pr_is_required := True\<rparr>,
         ed_active = True\<rparr>)"

definition bench_edges :: "nat \<Rightarrow> nat \<Rightarrow> edge list" where
  "bench_edges n e = map (\<lambda>i. bench_edge (of_nat n) (of_nat i)) [0..<e]"

text \<open>The loop that counts the accepted edges.\<close>

fun register_edges :: "edge list \<Rightarrow> nat \<Rightarrow> graph \<Rightarrow> (nat \<times> graph) option" where
  "register_edges [] added g = Some (added, g)"
| "register_edges (e # es) added g =
     (case submit (main_cred, AddEdge e) g of None \<Rightarrow> None
      | Some (r, g') \<Rightarrow> register_edges es (if r = OC_ACCEPTED then Suc added else added) g')"

definition invalidate_first :: command where
  "invalidate_first = InvalidateNode (Strong 1) IR_EXPLICIT (default_policy\<lparr>ip_mode := IM_RECURSIVE\<rparr>)"

definition late_calls :: "nat \<Rightarrow> command list" where
  "late_calls n = MarkRecovered (Strong 1) #
     map (\<lambda>i. PublishGeneration (Strong (1 + of_nat (i mod n))) (Strong 2)) [0..<1000]"

text \<open>The case, and the operations with their counts, in the order they are printed.\<close>

record bench_report =
  br_nodes :: nat
  br_edges :: nat
  br_rows :: "(string \<times> nat) list"

definition bench_rows :: "nat \<Rightarrow> nat \<Rightarrow> nat \<Rightarrow> nat \<Rightarrow> (string \<times> nat) list" where
  "bench_rows n added saved loaded =
     [(''node registration (declare+publish)'', n), (''edge registration'', added),
      (''readiness evaluation (all nodes)'', n), (''blocker query'', 1000),
      (''descendant+ancestor traversal'', 200), (''recursive invalidation propagation'', 1),
      (''recovery/recompute after invalidation'', n), (''generation supersession'', 1000),
      (''persistence save'', saved), (''persistence recover'', loaded),
      (''concurrent read-heavy queries (4 threads)'', 4 * 2000)]"

definition run_case :: "iteration \<Rightarrow> nat \<Rightarrow> nat \<Rightarrow> bench_report option" where
  "run_case it n e = do {
     g1 \<leftarrow> main_calls (seed_calls n) one_source;
     (added, g2) \<leftarrow> register_edges (bench_edges n e) 0 g1;
     (_, g3) \<leftarrow> recompute_all_readiness it g2;
     g4 \<leftarrow> main_calls [invalidate_first] g3;
     (_, g5) \<leftarrow> recompute_all_readiness it g4;
     g6 \<leftarrow> main_calls (late_calls n) g5;
     bytes \<leftarrow> serialize it g6;
     (_, _, target) \<leftarrow> load it bytes (Some empty_graph);
     let g7 = (case target of None \<Rightarrow> empty_graph | Some g \<Rightarrow> g);
     Some \<lparr>br_nodes = n, br_edges = e, br_rows = bench_rows n added (node_count g6) (node_count g7)\<rparr> }"

definition benchmark_main :: "iteration \<Rightarrow> bench_report list option" where
  "benchmark_main it = do {
     r1 \<leftarrow> run_case it 1000 10000;
     r2 \<leftarrow> run_case it 10000 20000;
     r3 \<leftarrow> run_case it 20000 60000;
     Some [r1, r2, r3] }"

section \<open>What its nodes look like\<close>

definition modest :: "node \<Rightarrow> bool" where
  "modest n \<longleftrightarrow> nd_kind n = NK_MODEL \<and> readiness_state_enumerator (nd_state n) \<and>
     nd_last_invalidation_reason n = IR_EXPLICIT \<and> history_ok n \<and>
     set (nd_generation_history n) \<subseteq> {Strong 1, Strong 2} \<and>
     length (nd_superseded_generations n) \<le> length (nd_generation_history n) \<and>
     nd_claimed_capabilities n = [] \<and> nd_completion_state n = [] \<and> nd_descriptor n = []"

definition all_modest :: "graph \<Rightarrow> bool" where
  "all_modest g \<longleftrightarrow> (\<forall>i n. find_node g i = Some n \<longrightarrow> modest n)"

lemma modest_storable:
  assumes "modest n" and "valid (nd_id n)"
  shows "storable_node k n"
proof -
  let ?h = "nd_generation_history n"
  have h: "sorted_wrt (<) ?h" "set ?h \<subseteq> {Strong 1, Strong 2}"
    using assms(1) by (simp_all add: modest_def history_ok_def)
  have "length ?h = card (set ?h)"
    using strict_sorted_iff[of ?h] h(1) by (simp add: distinct_card)
  also have "\<dots> \<le> card {Strong 1 :: node_generation, Strong 2}" by (rule card_mono) (use h(2) in auto)
  finally have "length ?h \<le> 2" by (simp split: if_splits)
  with assms show ?thesis
    by (auto simp: modest_def storable_node_def admitted_node_def lineage_ok_def history_ok_def node_kind_enumerator_def
        invalidation_reason_enumerator_def short_string_def)
qed

lemma modest_recomputed [simp]: "modest n \<Longrightarrow> modest (recomputed_node g i n)"
  by (simp add: modest_def recomputed_enumerator)
    (auto simp: recomputed_node_def touch_def history_ok_def)

lemma modest_marked [simp]: "modest n \<Longrightarrow> modest (mark_invalidated IR_EXPLICIT n)"
  by (auto simp: modest_def mark_invalidated_def history_ok_def)

lemma modest_state:
  assumes "modest n" and "readiness_state_enumerator st"
  shows "modest (n\<lparr>nd_state := st\<rparr>)"
    "modest (n\<lparr>nd_ever_invalidated := x, nd_recovered_evidence := ev, nd_state := st\<rparr>)"
  using assms by (auto simp: modest_def history_ok_def)

lemma all_modest_find: "all_modest g \<Longrightarrow> find_node g i = Some n \<Longrightarrow> modest n"
  by (simp add: all_modest_def)

lemma all_modest_put: "all_modest g \<Longrightarrow> modest n \<Longrightarrow> all_modest (put_node i n g)"
  by (simp add: all_modest_def)

lemma all_modest_nodes: "all_modest g \<Longrightarrow> all_modest (recompute_nodes is g)"
proof (induction "is" arbitrary: g)
  case (Cons i js)
  have "all_modest (snd (recompute_node_locked g i))"
    using Cons.prems by (auto simp: all_modest_def recompute_find)
  then show ?case using Cons.IH by simp
qed simp

lemma all_modest_closure: "all_modest g \<Longrightarrow> all_modest (recompute_closure_locked roots g)"
  by (simp add: recompute_closure_alt all_modest_nodes)

lemma all_modest_marks: "all_modest g \<Longrightarrow> all_modest (fold (mark_node_invalidated IR_EXPLICIT) ks g)"
  by (rule fold_invariant[where Q = "\<lambda>_. True"])
    (auto simp: mark_node_invalidated_def all_modest_def split: option.split)

text \<open>The commands of the program; those that only change contents.\<close>

definition content_command :: "command \<Rightarrow> bool" where
  "content_command c \<longleftrightarrow> (case c of PublishGeneration i gen \<Rightarrow> gen \<in> {Strong 1, Strong 2}
     | InvalidateNode i r p \<Rightarrow> r = IR_EXPLICIT | MarkRecovered i \<Rightarrow> True | _ \<Rightarrow> False)"

definition bench_command :: "command \<Rightarrow> bool" where
  "bench_command c \<longleftrightarrow> content_command c \<or> (case c of
       DeclareNode i k d st \<Rightarrow> k = NK_MODEL \<and> d = [] | AddEdge e \<Rightarrow> ed_active e | _ \<Rightarrow> False)"

lemma modest_published:
  assumes "modest n" and "gen \<in> {Strong 1, Strong 2}" and "valid (nd_current_generation n) \<longrightarrow> nd_current_generation n < gen"
    and "length s \<le> Suc (length (nd_generation_history n))"
  shows "modest (install_generation gen src boot (n\<lparr>nd_superseded_generations := s\<rparr>))"
proof -
  have "sorted_wrt (<) (nd_generation_history n @ [gen])"
  proof (cases "nd_generation_history n = []")
    case False
    with assms(1,3) show ?thesis by (intro sorted_wrt_snoc_last) (auto simp: modest_def history_ok_def)
  qed simp
  then have "history_ok (install_generation gen src boot (n\<lparr>nd_superseded_generations := s\<rparr>))"
    using assms(2) by (auto simp: history_ok_def install_generation_def)
  then show ?thesis using assms by (auto simp: modest_def install_generation_def readiness_state_enumerator_def)
qed

lemma publish_modest:
  assumes "all_modest g" and "gen \<in> {Strong 1, Strong 2}"
  shows "all_modest (snd (publish_generation i gen s b e g))"
proof -
  have "all_modest (recompute_closure_locked [i] (put_node i
      (install_generation gen s b (n\<lparr>nd_superseded_generations := l\<rparr>)) g))"
    if "find_node g i = Some n" "\<not> (valid (nd_current_generation n) \<and> strong_value gen \<le> strong_value (nd_current_generation n))"
      "length l \<le> Suc (length (nd_superseded_generations n))" for n l
  proof (intro all_modest_closure all_modest_put[OF assms(1)] modest_published assms(2))
    show "modest n" using that(1) assms(1) by (simp add: all_modest_def)
    then show "length l \<le> Suc (length (nd_generation_history n))" using that(3) by (simp add: modest_def)
  qed (use that(2) in \<open>auto simp: less_strong_def not_le\<close>)
  then show ?thesis using assms(1) by (auto simp: publish_generation_def Let_def split: option.split)
qed

lemma mark_modest:
  assumes "all_modest g"
  shows "all_modest (snd (mark_recovered i s b e g))"
proof -
  have "modest (n\<lparr>nd_ever_invalidated := False, nd_recovered_evidence := ev, nd_state := st\<rparr>)"
    if "find_node g i = Some n" "readiness_state_enumerator st" for n ev st
    by (rule modest_state[OF all_modest_find[OF assms that(1)] that(2)])
  then show ?thesis
    using assms by (auto simp: mark_recovered_def Let_def readiness_state_enumerator_def
        intro!: all_modest_closure all_modest_put split: option.split)
qed

lemma invalidate_modest:
  assumes "all_modest g"
  shows "all_modest (snd (invalidate_node i IR_EXPLICIT p s b e g))"
proof -
  have "all_modest (invalidate_seed i n IR_EXPLICIT p g)" if n: "find_node g i = Some n" for n
  proof -
    let ?h = "put_node i (mark_invalidated IR_EXPLICIT (n\<lparr>nd_state := RS_INVALIDATED\<rparr>)) g"
    have "modest (n\<lparr>nd_state := RS_INVALIDATED\<rparr>)"
      by (rule modest_state[OF all_modest_find[OF assms n]]) (simp add: readiness_state_enumerator_def)
    then have h: "all_modest ?h" by (simp add: all_modest_put[OF assms])
    have "all_modest (propagate_invalidation_locked i p IR_EXPLICIT d ?h)" for d
      using propagate_frame[of i p IR_EXPLICIT d ?h] all_modest_marks[OF h] by auto
    with h show ?thesis by (simp add: invalidate_seed_def Let_def)
  qed
  then show ?thesis using assms by (auto simp: invalidate_node_def intro: all_modest_closure split: option.split)
qed

lemma perform_modest:
  assumes "perform c s b e g = Some (r, g')" and "bench_command c" and "all_modest g"
  shows "all_modest g'"
proof (cases c)
  case (DeclareNode i k d st)
  with assms show ?thesis
    by (auto simp: bench_command_def content_command_def declare_node_def make_node_def modest_def history_ok_def
        readiness_state_enumerator_def intro!: all_modest_put split: option.splits if_splits)
next
  case (AddEdge x)
  have "all_modest (insert_edge x g)" using assms(3) by (simp add: all_modest_def insert_edge_def)
  with assms(1,3) AddEdge show ?thesis
    by (auto simp: add_edge_def intro: all_modest_closure split: option.splits if_splits bool.splits)
next
  case (PublishGeneration i gen)
  with publish_modest[OF assms(3), of gen i s b e] assms(1,2) show ?thesis
    by (auto simp: bench_command_def content_command_def)
next
  case (InvalidateNode i x p)
  with invalidate_modest[OF assms(3), of i p s b e] assms(1,2) show ?thesis
    by (auto simp: bench_command_def content_command_def)
next
  case (MarkRecovered i)
  with mark_modest[OF assms(3), of i s b e] assms(1) show ?thesis by simp
qed (use assms in \<open>auto simp: bench_command_def content_command_def\<close>)

section \<open>The invariant of a run\<close>

definition bench_inv :: "graph \<Rightarrow> bool" where
  "bench_inv g \<longleftrightarrow> clean_inv g \<and> gr_sets g = [] \<and> all_modest g \<and>
     gr_sources g = gr_sources one_source \<and> gr_epoch g = gr_epoch one_source"

lemma one_source_inv: "bench_inv one_source"
  using reachable_clean[OF one_source_reachable(1)]
  by (simp add: bench_inv_def one_source_reachable(2))
    (simp add: all_modest_def one_source_def register_source_def empty_graph_def)

lemma bench_authority: "bench_inv g \<Longrightarrow> authority_ok g (Strong 1) (Strong 1) (Strong 1) = None"
  by (simp add: bench_inv_def one_source_def register_source_def empty_graph_def authority_ok_def)

lemma bench_submit:
  assumes "bench_inv g" and "bench_command c"
  obtains r g' where "submit (main_cred, c) g = Some (r, g')" "bench_inv g'"
    "content_command c \<longrightarrow> same_structure g g'"
proof -
  have core: "core_inv g" and sets: "gr_sets g = []" using assms(1) by (simp_all add: bench_inv_def clean_inv_def)
  obtain r g' where g': "submit (main_cred, c) g = Some (r, g')" using requests.returns[OF core] by fastforce
  then have p: "perform c (Strong 1) (Strong 1) (Strong 1) g = Some (r, g')" by (simp add: submit_def main_cred_def)
  have plain: "plain c" and clean: "clean g c" using assms(2) sets
    by (auto simp: bench_command_def content_command_def plain_def clean_def unlisted_def split: command.splits)
  have shape: "gr_sets g' = [] \<and> (content_command c \<longrightarrow> same_structure g g')"
    using p
  proof (cases rule: perform_cases)
    case (accepted g1)
    have "content_command c \<longrightarrow> content_only g g1"
      using accepted(3) by cases (auto simp: content_command_def)
    then show ?thesis using structural_sets[OF accepted(3) plain sets] content_structure[OF accepted(4)]
      by (auto simp: same_structure_def content_only_def)
  qed (use sets in simp)
  have "clean_inv g'" using clean_inv_step[OF fs_request[OF _ g']] clean assms(1) by (simp add: bench_inv_def)
  with shape perform_authority[OF p] perform_modest[OF p assms(2)] assms(1) have "bench_inv g'"
    by (simp add: bench_inv_def)
  with g' shape that show thesis by blast
qed

lemma bench_contents:
  assumes "bench_inv g" and "list_all content_command cs"
  obtains g' where "main_calls cs g = Some g'" "bench_inv g'" "same_structure g g'"
  using assms
proof (induction cs arbitrary: g thesis)
  case (Cons c cs)
  obtain r h where h: "submit (main_cred, c) g = Some (r, h)" "bench_inv h" "same_structure g h"
    using bench_submit[OF Cons.prems(2), of c] Cons.prems(3) by (auto simp: bench_command_def)
  obtain g' where "main_calls cs h = Some g'" "bench_inv g'" "same_structure h g'"
    by (rule Cons.IH[OF _ h(2)]) (use Cons.prems(3) in auto)
  with h Cons.prems(1)[of g'] show ?case by (auto simp: main_calls_def intro: same_structure_trans)
qed (simp add: main_calls_def)

lemma bench_recompute:
  assumes "bench_inv g" and "iteration_ok it"
  obtains g' where "recompute_all_readiness it g = Some (OC_ACCEPTED, g')" "bench_inv g'" "same_structure g g'"
proof -
  obtain g' where g': "recompute_all_locked it g = Some g'"
    using clean_recomputes[OF _ assms(2)] assms(1) by (metis bench_inv_def)
  then have all: "recompute_all_readiness it g = Some (OC_ACCEPTED, g')" by (simp add: recompute_all_readiness_def)
  obtain "is" where "is": "g' = recompute_nodes is g" using recompute_all_form[OF g'] by blast
  have "clean_inv g'" using clean_inv_step[OF fs_recompute_all[OF all]] assms(1) by (simp add: bench_inv_def)
  moreover have "all_modest g'" using assms(1) all_modest_nodes by (simp add: "is" bench_inv_def)
  ultimately have "bench_inv g'" using assms(1) by (simp add: bench_inv_def "is")
  moreover have "same_structure g g'" using content_structure[OF content_only_nodes] by (simp add: "is")
  ultimately show thesis using all that by blast
qed

section \<open>The nodes\<close>

lemma main_calls_append: "main_calls (cs @ ds) g = Option.bind (main_calls cs g) (main_calls ds)"
  by (induction cs arbitrary: g) (auto simp: main_calls_def split: option.split)

lemma id_inj:
  assumes "i < 2 ^ 64" and "j < 2 ^ 64"
  shows "(of_nat i :: u64) = of_nat j \<longleftrightarrow> i = j"
  using assms by (simp add: word_of_nat_eq_iff take_bit_nat_eq_self)

lemma seeded:
  assumes "n \<le> 2 ^ 24"
  obtains g where "main_calls (seed_calls n) one_source = Some g" "bench_inv g" "gr_edges g = []"
    "set (um_keys (gr_nodes g)) = (\<lambda>i. Strong (of_nat i)) ` {1..n}" "um_size (gr_nodes g) = n"
  using assms
proof (induction n arbitrary: thesis)
  case 0
  show ?case
    by (rule 0(1)[OF _ one_source_inv])
      (simp_all add: seed_calls_def main_calls_def one_source_def register_source_def empty_graph_def um_keys_def um_size_def)
next
  case (Suc n)
  obtain g where g: "main_calls (seed_calls n) one_source = Some g" "bench_inv g" "gr_edges g = []"
    "set (um_keys (gr_nodes g)) = (\<lambda>i. Strong (of_nat i)) ` {1..n}" "um_size (gr_nodes g) = n"
    using Suc.IH Suc.prems(2) by auto
  let ?i = "Strong (of_nat (Suc n)) :: node_id"
  let ?c = "DeclareNode ?i NK_MODEL [] False"
  let ?n = "(make_node ?i NK_MODEL [])\<lparr>nd_static_durable_fact := False, nd_dynamic_evidence := True,
     nd_origin_source := Strong 1, nd_origin_boot := Strong 1, nd_state := RS_DECLARED\<rparr>"
  have "?i \<notin> set (um_keys (gr_nodes g))" using Suc.prems(2) by (auto simp: g(4) id_inj simp del: of_nat_Suc)
  then have new: "find_node g ?i = None" by (simp add: um.keys_find)
  have "valid ?i" using id_inj[of "Suc n" 0] Suc.prems(2) by (simp add: valid_def null_strong_def del: of_nat_Suc)
  then have d: "submit (main_cred, ?c) g = Some (OC_ACCEPTED, put_node ?i ?n g)"
    using new g(5) Suc.prems(2) bench_authority[OF g(2)]
    by (simp add: submit_def main_cred_def declare_node_def kMaxGraphNodes_def del: of_nat_Suc)
  have "bench_command ?c" by (simp add: bench_command_def)
  from bench_submit[OF g(2) this] d have dinv: "bench_inv (put_node ?i ?n g)" by auto
  have "list_all content_command [PublishGeneration ?i (Strong 1)]" by (simp add: content_command_def)
  then obtain h where h: "main_calls [PublishGeneration ?i (Strong 1)] (put_node ?i ?n g) = Some h" "bench_inv h"
    "same_structure (put_node ?i ?n g) h"
    using bench_contents[OF dinv] by blast
  have "seed_calls (Suc n) = seed_calls n @ ?c # [PublishGeneration ?i (Strong 1)]" by (simp add: seed_calls_def)
  then have "main_calls (seed_calls (Suc n)) one_source = Some h"
    using g(1) d h(1) by (simp add: main_calls_append) (simp add: main_calls_def)
  moreover have "um_keys (gr_nodes h) = um_keys (um_put ?i ?n (gr_nodes g))" "gr_edges h = []"
    using h(3) g(3) by (simp_all add: same_structure_def)
  moreover have "set (um_keys (um_put ?i ?n (gr_nodes g))) = (\<lambda>i. Strong (of_nat i)) ` {1..Suc n}"
    by (simp add: um.set_keys_put g(4) atLeastAtMostSuc_conv del: of_nat_Suc)
  moreover have "um_size (gr_nodes h) = Suc n"
    using g(5) um_size_put_new[OF new] by (simp add: um_size_keys calculation(2))
  ultimately show ?case using Suc.prems(1)[OF _ h(2)] by simp
qed

section \<open>The edges\<close>

definition arc_of :: "edge \<Rightarrow> node_id \<times> node_id" where
  "arc_of x = (ed_producer_id x, ed_consumer_id x)"

definition bench_arcs :: "nat \<Rightarrow> nat \<Rightarrow> (node_id \<times> node_id) set" where
  "bench_arcs n e = set (map arc_of (bench_edges n e))"

definition case_ok :: "nat \<Rightarrow> nat \<Rightarrow> bool" where
  "case_ok n e \<longleftrightarrow> 2 \<le> n \<and> n \<le> 2 ^ 24 \<and> e \<le> 2 ^ 24"

lemma mod_u64:
  assumes "a < 2 ^ 64" and "b < 2 ^ 64"
  shows "(of_nat a :: u64) mod of_nat b = of_nat (a mod b)"
proof -
  have "a mod b < 2 ^ 64" using assms(1) le_less_trans[OF mod_less_eq_dividend] by blast
  with assms show ?thesis by (simp add: word_unat_eq_iff unat_mod unat_of_nat)
qed

lemma bench_ends:
  assumes "case_ok n e" and "j < e"
  obtains p c where "arc_of (bench_edge (of_nat n) (of_nat j)) = (Strong (of_nat p), Strong (of_nat c))"
    "p = 1 + j mod (n - 1)" "c = p + 1 + (j * 37) mod (n - p)" "1 \<le> p" "p < c" "c \<le> n"
proof -
  let ?p = "1 + j mod (n - 1)"
  let ?c = "?p + 1 + (j * 37) mod (n - ?p)"
  have n: "2 \<le> n" "n \<le> 2 ^ 24" "j < 2 ^ 24" using assms by (simp_all add: case_ok_def)
  have "j mod (n - 1) < n - 1" using n(1) by simp
  then have p: "?p < n" using n(1) by linarith
  then have "(j * 37) mod (n - ?p) < n - ?p" by simp
  then have c: "?c \<le> n" by linarith
  have "of_nat n - (1 :: u64) = of_nat (n - 1)" using n(1) by simp
  then have prod: "1 + of_nat j mod (of_nat n - 1) = (of_nat ?p :: u64)"
    using n mod_u64[of j "n - 1"] by simp
  have "(of_nat n :: u64) - of_nat ?p = of_nat (n - ?p)" using p by (simp add: of_nat_diff)
  moreover have "(of_nat j * 37 :: u64) mod of_nat (n - ?p) = of_nat ((j * 37) mod (n - ?p))"
    using mod_u64[of "j * 37" "n - ?p"] n by simp
  ultimately have cons: "of_nat ?p + 1 + of_nat j * 37 mod (of_nat n - of_nat ?p) = (of_nat ?c :: u64)" by simp
  show thesis
    by (rule that[of ?p ?c])
      (use c prod cons in \<open>simp_all add: arc_of_def bench_edge_def Let_def del: of_nat_add of_nat_Suc\<close>)
qed

lemma bench_edge_fields [simp]:
  "ed_id (bench_edge n i) = Strong (i + 1)" "ed_kind (bench_edge n i) = EK_REQUIRES_READY"
  "ed_active (bench_edge n i)" "storable_edge (bench_edge n i) = (valid (ed_id (bench_edge n i)) \<and>
     ed_producer_id (bench_edge n i) \<noteq> ed_consumer_id (bench_edge n i))"
  by (simp_all add: bench_edge_def Let_def storable_edge_def admitted_edge_def default_predicate_def
      edge_kind_enumerator_def generation_predicate_kind_enumerator_def readiness_state_enumerator_def short_string_def)

lemma bench_edges_mem: "x \<in> set (bench_edges n e) \<longleftrightarrow> (\<exists>j<e. x = bench_edge (of_nat n) (of_nat j))"
  by (auto simp: bench_edges_def)

lemma bench_arcs_Suc:
  "bench_arcs n (Suc k) = insert (arc_of (bench_edge (of_nat n) (of_nat k))) (bench_arcs n k)"
  by (simp add: bench_arcs_def bench_edges_def)

lemma card_bench_arcs: "card (bench_arcs n k) \<le> k"
  using card_length[of "map arc_of (bench_edges n k)"] by (simp add: bench_arcs_def bench_edges_def)

text \<open>The duplicate test on an exact index.\<close>

lemma equivalent_edge_iff:
  "\<forall>i \<in> set is. find_edge g i \<noteq> None \<Longrightarrow> equivalent_edge g x is = Some (\<exists>i \<in> set is. \<exists>y. find_edge g i = Some y \<and>
     ed_consumer_id y = ed_consumer_id x \<and> ed_kind y = ed_kind x \<and> ed_active y)"
  by (induction "is") auto

definition registered_upto :: "nat \<Rightarrow> nat \<Rightarrow> graph \<Rightarrow> bool" where
  "registered_upto n k g \<longleftrightarrow> (\<forall>i x. find_edge g i = Some x \<longrightarrow> x \<in> set (bench_edges n k)) \<and>
     {arc_of x |i x. find_edge g i = Some x} = bench_arcs n k \<and> um_size (gr_edges g) = card (bench_arcs n k) \<and>
     set (um_keys (gr_nodes g)) = (\<lambda>i. Strong (of_nat i)) ` {1..n}"

lemma registered_edge:
  assumes "registered_upto n k g" and "find_edge g i = Some x"
  obtains j where "j < k" "x = bench_edge (of_nat n) (of_nat j)"
proof -
  have "x \<in> set (bench_edges n k)" using assms unfolding registered_upto_def by blast
  then show thesis using that by (auto simp: bench_edges_mem)
qed

lemma registered_forward:
  assumes "registered_upto n k g" and "case_ok n e" and "k \<le> e"
  shows "dep_rel g \<subseteq> {(p, c). strong_value p < strong_value c}"
proof -
  have "strong_value (ed_producer_id x) < strong_value (ed_consumer_id x)" if x: "find_edge g i = Some x" for i x
  proof -
    obtain j where j: "j < k" "x = bench_edge (of_nat n) (of_nat j)" by (rule registered_edge[OF assms(1) x])
    have "j < e" using j(1) assms(3) by simp
    obtain p c where "arc_of x = (Strong (of_nat p), Strong (of_nat c))" "p < c" "c \<le> n"
      unfolding j(2) by (rule bench_ends[OF assms(2) \<open>j < e\<close>])
    then show ?thesis using assms(2) by (simp add: arc_of_def case_ok_def word_less_nat_alt unat_of_nat)
  qed
  then show ?thesis by (auto simp: dep_rel_def)
qed

lemma forward_path: "(a, b) \<in> r\<^sup>* \<Longrightarrow> r \<subseteq> {(p, c). strong_value p < strong_value c} \<Longrightarrow> strong_value a \<le> strong_value b"
  by (induction rule: rtrancl_induct) (auto dest: order_trans less_imp_le)

lemma duplicate_arc:
  assumes "index_exact g" and "registered_upto n k g" and "ed_kind x = EK_REQUIRES_READY"
  shows "equivalent_edge g x (out_at g (ed_producer_id x)) = Some (arc_of x \<in> bench_arcs n k)"
proof -
  have out: "i \<in> set (out_at g v) \<longleftrightarrow> (\<exists>y. find_edge g i = Some y \<and> ed_active y \<and> ed_producer_id y = v)" for i v
    using assms(1) by (simp add: index_exact_def)
  have "equivalent_edge g x (out_at g (ed_producer_id x)) = Some (arc_of x \<in> {arc_of y |i y. find_edge g i = Some y})"
  proof (subst equivalent_edge_iff)
    have "ed_active y \<and> ed_kind y = ed_kind x" if "find_edge g i = Some y" for i y
      by (rule registered_edge[OF assms(2) that]) (simp add: assms(3))
    note same = this
    have "(\<exists>i \<in> set (out_at g (ed_producer_id x)). \<exists>y. find_edge g i = Some y \<and>
        ed_consumer_id y = ed_consumer_id x \<and> ed_kind y = ed_kind x \<and> ed_active y) \<longleftrightarrow>
      (\<exists>i y. find_edge g i = Some y \<and> ed_producer_id y = ed_producer_id x \<and> ed_consumer_id y = ed_consumer_id x)"
      unfolding out Bex_def using same by (metis option.inject)
    also have "\<dots> \<longleftrightarrow> arc_of x \<in> {arc_of y |i y. find_edge g i = Some y}"
      unfolding arc_of_def mem_Collect_eq prod.inject by metis
    finally show "Some (\<exists>i \<in> set (out_at g (ed_producer_id x)). \<exists>y. find_edge g i = Some y \<and>
        ed_consumer_id y = ed_consumer_id x \<and> ed_kind y = ed_kind x \<and> ed_active y) =
      Some (arc_of x \<in> {arc_of y |i y. find_edge g i = Some y})"
      by (rule arg_cong)
  qed (auto simp: out)
  also have "{arc_of y |i y. find_edge g i = Some y} = bench_arcs n k" using assms(2) by (simp add: registered_upto_def)
  finally show ?thesis .
qed

lemma registers_edge:
  assumes inv: "bench_inv g" and reg: "registered_upto n k g" and ok: "case_ok n e" and k: "k < e"
  defines "x \<equiv> bench_edge (of_nat n) (of_nat k)"
  shows "submit (main_cred, AddEdge x) g = Some (if arc_of x \<in> bench_arcs n k then (OC_REJECT_DUPLICATE_ID, g)
    else (OC_ACCEPTED, recompute_closure_locked [ed_consumer_id x] (insert_edge x g)))" and "find_edge g (ed_id x) = None"
proof -
  have clean: "clean_inv g" and core: "core_inv g" using inv by (simp_all add: bench_inv_def clean_inv_def)
  obtain p c where a: "arc_of x = (Strong (of_nat p), Strong (of_nat c))" and pc: "1 \<le> p" "p < c" "c \<le> n"
    unfolding x_def by (rule bench_ends[OF ok k])
  have small: "c < 2 ^ 64" "p < 2 ^ 64" "Suc k < 2 ^ 64" using pc ok k by (auto simp: case_ok_def)
  have ends: "ed_producer_id x = Strong (of_nat p)" "ed_consumer_id x = Strong (of_nat c)"
    using a by (simp_all add: arc_of_def)
  have id: "ed_id x = Strong (of_nat (Suc k))" by (simp add: x_def add.commute)
  have present: "find_node g (Strong (of_nat q)) \<noteq> None" if "1 \<le> q" "q \<le> n" for q
    using reg that unfolding registered_upto_def by (subst um.keys_find[symmetric]) simp
  have nodes: "find_node g (ed_producer_id x) \<noteq> None" "find_node g (ed_consumer_id x) \<noteq> None"
    using present[of p] present[of c] pc by (simp_all add: ends)
  have ne: "(of_nat p :: u64) \<noteq> 0" "(of_nat c :: u64) \<noteq> 0" "(of_nat (Suc k) :: u64) \<noteq> 0" "(of_nat p :: u64) \<noteq> of_nat c"
    using id_inj[of p 0] id_inj[of c 0] id_inj[of "Suc k" 0] id_inj[of p c] small pc by (simp_all del: of_nat_Suc)
  show new: "find_edge g (ed_id x) = None"
  proof (rule ccontr)
    assume "find_edge g (ed_id x) \<noteq> None"
    then obtain y where y: "find_edge g (ed_id x) = Some y" by auto
    obtain j where j: "j < k" "y = bench_edge (of_nat n) (of_nat j)" by (rule registered_edge[OF reg y])
    have "ed_id y = ed_id x" using y core by (simp add: core_inv_def keys_ok_def)
    then have "(of_nat (Suc j) :: u64) = of_nat (Suc k)" by (simp add: j(2) x_def)
    with j(1) small(3) id_inj[of "Suc j" "Suc k"] show False by simp
  qed
  have dup: "equivalent_edge g x (out_at g (ed_producer_id x)) = Some (arc_of x \<in> bench_arcs n k)"
    by (rule duplicate_arc[OF _ reg]) (use clean in \<open>simp_all add: clean_inv_def x_def\<close>)
  have "strong_value (ed_producer_id x) < strong_value (ed_consumer_id x)"
    using pc small by (simp add: ends word_less_nat_alt unat_of_nat)
  then have nocycle: "\<not> would_create_cycle_locked g (ed_producer_id x) (ed_consumer_id x)"
    using would_create_cycle_iff[of g] forward_path[OF _ registered_forward[OF reg ok]] k core
    by (meson core_inv_def leD less_imp_le)
  have "um_size (gr_edges g) < kMaxGraphEdges"
    using card_bench_arcs[of n k] reg k ok by (simp add: registered_upto_def case_ok_def kMaxGraphEdges_def)
  then show "submit (main_cred, AddEdge x) g = Some (if arc_of x \<in> bench_arcs n k then (OC_REJECT_DUPLICATE_ID, g)
      else (OC_ACCEPTED, recompute_closure_locked [ed_consumer_id x] (insert_edge x g)))"
    using bench_authority[OF inv] nodes new dup nocycle ne id ends
    by (auto simp: submit_def main_cred_def add_edge_def valid_def null_strong_def simp del: of_nat_Suc split: bool.split)
qed

lemma image_put:
  assumes "\<And>i. f' i = (if i = k then Some v else f i)" and "f k = None"
  shows "{h x |i x. f' i = Some x} = insert (h v) {h x |i x. f i = Some x}"
proof -
  have "f' = f(k \<mapsto> v)" using assms(1) by (auto simp: fun_eq_iff)
  then have "ran f' = insert v (ran f)" using assms(2) by simp
  moreover have "{h x |i x. m i = Some x} = h ` ran m" for m :: "'a \<Rightarrow> 'b option"
    by (auto simp: ran_def)
  ultimately show ?thesis by simp
qed

lemma registers_step:
  assumes inv: "bench_inv g" and reg: "registered_upto n k g" and ok: "case_ok n e" and k: "k < e"
  obtains r g' where "submit (main_cred, AddEdge (bench_edge (of_nat n) (of_nat k))) g = Some (r, g')"
    "bench_inv g'" "registered_upto n (Suc k) g'"
    "(if r = OC_ACCEPTED then Suc (card (bench_arcs n k)) else card (bench_arcs n k)) = card (bench_arcs n (Suc k))"
proof -
  let ?x = "bench_edge (of_nat n) (of_nat k)"
  note step = registers_edge[OF assms]
  have "bench_command (AddEdge ?x)" by (simp add: bench_command_def)
  then obtain r g' where g': "submit (main_cred, AddEdge ?x) g = Some (r, g')" "bench_inv g'"
    by (rule bench_submit[OF inv])
  have edges: "bench_edges n (Suc k) = bench_edges n k @ [?x]" by (simp add: bench_edges_def)
  have fin: "finite (bench_arcs n k)" by (simp add: bench_arcs_def)
  show thesis
  proof (cases "arc_of ?x \<in> bench_arcs n k")
    case True
    then have "bench_arcs n (Suc k) = bench_arcs n k" by (simp add: bench_arcs_Suc insert_absorb)
    with True step(1) g' reg show thesis by (intro that[OF g']) (auto simp: registered_upto_def edges)
  next
    case False
    then have acc: "r = OC_ACCEPTED" "g' = recompute_closure_locked [ed_consumer_id ?x] (insert_edge ?x g)"
      using step(1) g'(1) by simp_all
    have find: "find_edge g' i = (if i = ed_id ?x then Some ?x else find_edge g i)" for i
      by (simp add: acc(2) recompute_closure_alt insert_edge_def del: bench_edge_fields)
    have "\<forall>i y. find_edge g' i = Some y \<longrightarrow> y \<in> set (bench_edges n (Suc k))"
      using reg unfolding registered_upto_def find edges by simp
    moreover have "{arc_of y |i y. find_edge g' i = Some y} = insert (arc_of ?x) (bench_arcs n k)"
      using image_put[where h = arc_of, OF find step(2)] reg unfolding registered_upto_def by metis
    moreover have "um_size (gr_edges g') = Suc (um_size (gr_edges g))"
      using step(2) by (simp add: acc(2) recompute_closure_alt insert_edge_def del: bench_edge_fields)
    moreover have "um_keys (gr_nodes g') = um_keys (gr_nodes g)"
      using content_structure[OF content_only_closure, of "insert_edge ?x g"]
      by (simp add: acc(2) same_structure_def insert_edge_def)
    ultimately have "registered_upto n (Suc k) g'"
      using reg False fin by (simp add: registered_upto_def bench_arcs_Suc)
    with False acc fin show thesis by (intro that[OF g']) (simp_all add: bench_arcs_Suc)
  qed
qed

lemma registers_all:
  assumes "bench_inv g" and "registered_upto n k g" and "case_ok n (k + d)"
  obtains g' where "register_edges (map (\<lambda>i. bench_edge (of_nat n) (of_nat i)) [k..<k + d]) (card (bench_arcs n k)) g =
      Some (card (bench_arcs n (k + d)), g')"
    "bench_inv g'" "registered_upto n (k + d) g'"
  using assms
proof (induction d arbitrary: g k thesis)
  case (Suc d)
  obtain r h where h: "submit (main_cred, AddEdge (bench_edge (of_nat n) (of_nat k))) g = Some (r, h)" "bench_inv h"
      "registered_upto n (Suc k) h"
    and r: "(if r = OC_ACCEPTED then Suc (card (bench_arcs n k)) else card (bench_arcs n k)) = card (bench_arcs n (Suc k))"
    by (rule registers_step[OF Suc.prems(2-4)]) simp
  obtain g' where "register_edges (map (\<lambda>i. bench_edge (of_nat n) (of_nat i)) [Suc k..<Suc k + d])
      (card (bench_arcs n (Suc k))) h = Some (card (bench_arcs n (Suc k + d)), g')"
    "bench_inv g'" "registered_upto n (Suc k + d) g'"
    by (rule Suc.IH[OF _ h(2,3)]) (use Suc.prems(4) in simp_all)
  moreover have "[k..<k + Suc d] = k # [Suc k..<Suc k + d]" by (simp add: upt_conv_Cons)
  ultimately show ?case using h(1) r by (intro Suc.prems(1)[of g']) simp_all
qed simp

section \<open>The run\<close>

lemma registered_same: "registered_upto n e g \<Longrightarrow> same_structure g g' \<Longrightarrow> registered_upto n e g'"
  by (simp add: registered_upto_def same_structure_def)

lemma registered_none:
  assumes "gr_edges g = []" and "set (um_keys (gr_nodes g)) = (\<lambda>i. Strong (of_nat i)) ` {1..n}"
  shows "registered_upto n 0 g"
  using assms by (simp add: registered_upto_def bench_arcs_def bench_edges_def um_size_def)

lemma registered_nodes:
  assumes "bench_inv g" and "registered_upto n e g" and "case_ok n e"
  shows "node_count g = n"
proof -
  have "inj_on (\<lambda>i. Strong (of_nat i) :: node_id) {1..n}"
    using assms(3) by (auto simp: inj_on_def case_ok_def id_inj)
  then have "card (set (um_keys (gr_nodes g))) = n"
    using assms(2) by (simp add: registered_upto_def card_image)
  then show ?thesis
    using assms(1) by (simp add: node_count_def bench_inv_def clean_inv_def core_inv_def graph_wf_def wf_keys_length)
qed

lemma bench_storable:
  assumes inv: "bench_inv g" and reg: "registered_upto n e g" and ok: "case_ok n e"
  shows "storable g"
proof -
  have core: "core_inv g" and ac: "acyclic_graph g" using inv by (simp_all add: bench_inv_def clean_inv_def)
  have src: "gr_sources g = [(Strong 1, \<lparr>sr_source = Strong 1, sr_boot = Strong 1, sr_epoch = Strong 1, sr_active = True\<rparr>)]"
    using inv by (simp add: bench_inv_def one_source_def register_source_def empty_graph_def)
  have "um_size (gr_edges g) \<le> 2 ^ 24"
    using card_bench_arcs[of n e] reg ok by (simp add: registered_upto_def case_ok_def)
  moreover have "storable_node k m" if "find_node g i = Some m" for i m k
    using modest_storable[OF all_modest_find[OF _ that]] inv core that by (simp add: bench_inv_def core_inv_def keys_ok_def)
  moreover have "storable_edge x" if x: "find_edge g i = Some x" for i x
  proof -
    have "valid (ed_id x)" "ed_producer_id x \<noteq> ed_consumer_id x"
      using core x by (simp_all add: core_inv_def keys_ok_def)
    then show ?thesis using registered_edge[OF reg x] by (metis bench_edge_fields(4))
  qed
  moreover have "gr_sets g = []" using inv by (simp add: bench_inv_def)
  ultimately show ?thesis using core ac by (simp add: storable_def src um_size_def)
qed

lemma reloaded_count:
  assumes "storable g" and "storable g'" and "reloaded g g'"
  shows "node_count g' = node_count g"
proof -
  have "find_node g' i \<noteq> None \<longleftrightarrow> find_node g i \<noteq> None" for i
  proof -
    have "map_option durable (find_node g' i) = map_option (durable \<circ> demote_node) (find_node g i)"
      using assms(3) by (simp add: reloaded_def)
    then show ?thesis by (cases "find_node g i") auto
  qed
  then have "set (um_keys (gr_nodes g')) = set (um_keys (gr_nodes g))" by (auto simp: um.keys_find)
  then show ?thesis
    using assms(1,2) by (simp add: node_count_def storable_def core_inv_def graph_wf_def wf_keys_length)
qed

lemma run_case_reports:
  assumes it: "iteration_ok it" and ok: "case_ok n e"
  shows "run_case it n e = Some \<lparr>br_nodes = n, br_edges = e, br_rows = bench_rows n (card (bench_arcs n e)) n n\<rparr>"
proof -
  obtain g1 where g1: "main_calls (seed_calls n) one_source = Some g1" "bench_inv g1" "registered_upto n 0 g1"
    using seeded[of n] registered_none ok unfolding case_ok_def by metis
  obtain g2 where g2: "register_edges (bench_edges n e) 0 g1 = Some (card (bench_arcs n e), g2)" "bench_inv g2"
    "registered_upto n e g2"
    using registers_all[OF g1(2,3), of e] ok by (auto simp: bench_edges_def bench_arcs_def)
  obtain g3 where g3: "recompute_all_readiness it g2 = Some (OC_ACCEPTED, g3)" "bench_inv g3" "same_structure g2 g3"
    by (rule bench_recompute[OF g2(2) it])
  have "list_all content_command [invalidate_first]" by (simp add: content_command_def invalidate_first_def)
  then obtain g4 where g4: "main_calls [invalidate_first] g3 = Some g4" "bench_inv g4" "same_structure g3 g4"
    by (rule bench_contents[OF g3(2)])
  obtain g5 where g5: "recompute_all_readiness it g4 = Some (OC_ACCEPTED, g5)" "bench_inv g5" "same_structure g4 g5"
    by (rule bench_recompute[OF g4(2) it])
  have "list_all content_command (late_calls n)" by (simp add: content_command_def late_calls_def list_all_iff)
  then obtain g6 where g6: "main_calls (late_calls n) g5 = Some g6" "bench_inv g6" "same_structure g5 g6"
    by (rule bench_contents[OF g5(2)])
  have reg: "registered_upto n e g6"
    by (rule registered_same[OF g2(3)]) (meson same_structure_trans g3(3) g4(3) g5(3) g6(3))
  have st: "storable g6" by (rule bench_storable[OF g6(2) reg ok])
  obtain bs where bs: "save it g6 = Some bs" by (simp add: save_def Let_def)
  obtain g7 where g7: "load it bs (Some empty_graph) = Some (OC_ACCEPTED, [], Some g7)" "reloaded g6 g7"
    using load_saved[OF st it it bs, of empty_graph] by blast
  have "node_count g7 = n"
    using reloaded_count[OF st loaded_storable[OF it g7(1)] g7(2)] registered_nodes[OF g6(2) reg ok] by simp
  then show ?thesis
    using registered_nodes[OF g6(2) reg ok]
    by (simp add: run_case_def serialize_def g1(1) g2(1) g3(1) g4(1) g5(1) g6(1) bs g7(1))
qed

text \<open>The pattern repeats: the last producer has one consumer only.\<close>

lemma repeated_arcs:
  assumes ok: "case_ok n e" and "2 * (n - 1) \<le> e"
  shows "card (bench_arcs n e) < e"
proof -
  let ?f = "\<lambda>j. arc_of (bench_edge (of_nat n) (of_nat j))"
  have arcs: "bench_arcs n e = ?f ` {..<e}" by (auto simp: bench_arcs_def bench_edges_def)
  obtain m where n: "n = m + 2" using ok by (metis case_ok_def le_add_diff_inverse2)
  have last: "?f j = (Strong (of_nat (m + 1)), Strong (of_nat n))" if j: "j < e" "j mod (m + 1) = m" for j
  proof -
    obtain p c where "?f j = (Strong (of_nat p), Strong (of_nat c))" "p = 1 + j mod (n - 1)" "p < c" "c \<le> n"
      by (rule bench_ends[OF ok j(1)])
    moreover from this have "p = m + 1" "c = n" using j(2) by (simp_all add: n)
    ultimately show ?thesis by simp
  qed
  have "m < e" "m + (m + 1) < e" using assms(2) by (simp_all add: n)
  moreover from this have "?f m = ?f (m + (m + 1))"
    using last[of m] last[of "m + (m + 1)"] by (simp only: mod_add_self2) simp
  ultimately have "\<not> inj_on ?f {..<e}" by (auto dest!: inj_onD[of ?f "{..<e}" m "m + (m + 1)"])
  then show ?thesis
    unfolding arcs using card_image_le[of "{..<e}" ?f] eq_card_imp_inj_on[of "{..<e}" ?f] by fastforce
qed

lemma producers_covered:
  assumes ok: "case_ok n e" and "n - 1 \<le> e"
  shows "n - 1 \<le> card (bench_arcs n e)"
proof -
  let ?node = "\<lambda>i. Strong (of_nat i) :: node_id"
  have "inj_on ?node {1..n - 1}" using ok by (auto simp: inj_on_def case_ok_def id_inj)
  then have "n - 1 = card (?node ` {1..n - 1})" by (simp add: card_image)
  also have "\<dots> \<le> card (fst ` bench_arcs n e)"
  proof (rule card_mono)
    have "?node i \<in> fst ` bench_arcs n e" if i: "1 \<le> i" "i \<le> n - 1" for i
    proof -
      have j: "i - 1 < e" "1 + (i - 1) mod (n - 1) = i" using i assms(2) by auto
      obtain p c where "arc_of (bench_edge (of_nat n) (of_nat (i - 1))) = (?node p, Strong (of_nat c))"
        "p = 1 + (i - 1) mod (n - 1)"
        by (rule bench_ends[OF ok j(1)])
      with j have "fst (arc_of (bench_edge (of_nat n) (of_nat (i - 1)))) = ?node i" by simp
      with j(1) show ?thesis by (force simp: bench_arcs_def bench_edges_def)
    qed
    then show "?node ` {1..n - 1} \<subseteq> fst ` bench_arcs n e" by auto
  qed (simp add: bench_arcs_def)
  also have "\<dots> \<le> card (bench_arcs n e)" by (rule card_image_le) (simp add: bench_arcs_def)
  finally show ?thesis .
qed

end
