(* ===== verification/DemoProperties.thy ===== *)
theory DemoProperties
  imports Examples Launch Benchmark
begin

text \<open>
  The programs of the repository from end to end: what the two examples print, what the multi-process
  demonstration reports when nothing fails, that the command lines of the orchestrator start the
  processes it waits for, and the sizes that the benchmark reports.
\<close>

section \<open>The examples\<close>

text \<open>C38: The two examples and the installed package's consumer print what their comments announce, whatever
  the iteration order of the hash maps: in \<open>basic\<close> the phase is READY, and after the second generation of the model the artifact is STALE and
  the phase BLOCKED, with the artifact named as the only blocker; in \<open>cascade\<close> the invalidated adapter blocks
  the whole chain behind it, and the recovery plan names the four nodes in dependency order; the consumer
  exits with 0 and prints the digest of its one node.\<close>

theorem examples_print:
  assumes "iteration_ok it"
  shows "basic_main it = Some
      [''phase readiness: READY'', ''after model gen2 -> artifact=STALE phase=BLOCKED'',
       ''why: node 3 (WORKLOAD_PHASE) is BLOCKED'',
       ''  blocker: producer readiness STALE does not meet required READY''] \<and>
    cascade_main it = Some
      [''phase=READY'',
       ''after adapter invalidation -> adapter=INVALIDATED graph=BLOCKED kernel=BLOCKED phase=BLOCKED'',
       ''recover node 2 (MODEL) -> RECOMPUTATION by ModelRegistry'',
       ''recover node 3 (MODEL) -> REVALIDATION by ModelRegistry'',
       ''recover node 4 (MODEL) -> REVALIDATION by ModelRegistry'',
       ''recover node 5 (MODEL) -> REVALIDATION by ModelRegistry''] \<and>
    consumer_main it = Some (0, [''find_package consumer OK: model READY, digest='' @
       show_u64 (digest it consumer_graph)])"
  using basic_prints[OF assms] cascade_prints[OF assms] consumer_prints[OF assms] by (intro conjI)

theorem examples_print_witness:
  "map_option length (basic_main sample_it) = Some 4 \<and> map_option length (cascade_main sample_it) = Some 6 \<and>
   map_option fst (consumer_main sample_it) = Some 0"
  using examples_print[OF sample_it_ok] by simp

section \<open>The demonstration\<close>

text \<open>C37: When no exchange and no start of a process fails and the marker files can be written, the program in
  the role of the orchestrator exits with 0 and leaves the verdict PASS: the consumer finds the phase READY,
  the replayed message of the old incarnation is refused, the second generation makes the artifact STALE
  and blocks the phase, the rebuilt chain is READY again, survives the restart of the coordinator only as
  REVALIDATION_REQUIRED, and is READY once its readiness is published again.\<close>

theorem demonstration_passes:
  assumes "iteration_ok it" and "wo_fates w = []" and "demo_disk (abs_path dir) (wo_fs w)"
    and "length (abs_path dir) \<le> 2 ^ 20"
  shows "\<exists>p w'. app_main True it abs_path o0 st0 gen0 [''--role'', ''orchestrator'', ''--dir'', dir] = Some p \<and>
    run_state p w = (Some 0, w') \<and>
    fst (run_state (read_file (marker_file (abs_path dir) ''proof_result.txt'')) w') = ''PASS''"
proof -
  obtain w' where "run_state (run_orchestrator it (abs_path dir) o0 st0 gen0) w = (0, w')"
    "fst (run_state (read_file (marker_file (abs_path dir) ''proof_result.txt'')) w') = ''PASS''"
    using orchestrator_passes[OF assms] by blast
  then show ?thesis by (simp add: app_main_def default_options_def)
qed

definition open_disk :: file_system where
  "open_disk = \<lparr>fs_can_open = \<lambda>_. True, fs_can_write = \<lambda>_. True, fs_end = \<lambda>_. None, fs_bytes = \<lambda>_. []\<rparr>"

definition quiet_world :: world where
  "quiet_world = \<lparr>wo_graph = empty_graph, wo_alive = False, wo_open = False, wo_fs = open_disk, wo_fates = []\<rparr>"

theorem demonstration_passes_witness:
  "\<exists>p w'. app_main True sample_it (\<lambda>d. ''/tmp'' @ d) OC_ACCEPTED RS_UNKNOWN null_strong
      [''--role'', ''orchestrator'', ''--dir'', ''/proof''] = Some p \<and>
    run_state p quiet_world = (Some 0, w') \<and>
    fst (run_state (read_file ''/tmp/proof/proof_result.txt'') w') = ''PASS''"
  using demonstration_passes[OF sample_it_ok, of quiet_world "\<lambda>d. ''/tmp'' @ d" "''/proof''"]
  by (simp add: quiet_world_def open_disk_def demo_disk_def marker_file_def)

section \<open>Its command lines\<close>

text \<open>C39: The command lines that the orchestrator builds for its children reach, through the runtime's
  splitting into arguments and the option loop of \<open>main\<close>, the roles it means, with its port, its directory,
  its ready file and its snapshot; provided the path of the program and the directory contain no quote and
  do not end in a backslash.\<close>

theorem commands_reach_roles:
  assumes "cuts_words argv_of" and "quotable exe" and "quotable dir"
  shows "map (\<lambda>args. app_main windows it abs_path o0 st0 gen0 (tl (argv_of (command_line exe args))))
      [role_args ''worker-a'' port dir, role_args ''worker-b'' port dir, role_args ''consumer'' port dir,
       role_args ''replay'' port dir, role_args ''worker-a2'' port dir] =
    [Some (run_worker_a it dir o0), Some (run_worker_b it dir o0), Some (run_consumer it dir o0),
     Some (run_replay it dir o0), Some (run_worker_a2 it dir o0 o0)] \<and>
    map (\<lambda>saved. map_option spawn (app_main windows it abs_path o0 st0 gen0 (tl (argv_of (command_line exe
        (coordinator_args port (marker_file dir ''coord.ready'') saved))))))
      [None, Some (marker_file dir ''graph.bin'')] =
    [Some (spawn (run_coordinator it (marker_file dir ''coord.ready'') [])),
     Some (spawn (run_coordinator it (marker_file dir ''coord.ready'') (marker_file dir ''graph.bin'')))]"
  using roles_launched[OF assms] coordinators_launched[OF assms] by (rule conjI)

theorem commands_reach_roles_witness:
  "app_main True sample_it id OC_ACCEPTED RS_UNKNOWN null_strong
     (tl (cut_args False None (command_line ''C:/df app.exe'' (role_args ''replay'' 5000 ''C:/my proof'')))) =
   Some (run_replay sample_it ''C:/my proof'' OC_ACCEPTED)"
  using commands_reach_roles[OF cut_args_words, of "''C:/df app.exe''" "''C:/my proof''" True sample_it id OC_ACCEPTED
      RS_UNKNOWN null_strong 5000]
  by (simp add: quotable_def)

section \<open>The benchmark\<close>

text \<open>C40: A case of the benchmark runs to its end whatever the iteration orders of the hash maps, up to the limits
  of the snapshot format: every node is declared, the edges that are accepted are exactly the different pairs
  of producer and consumer of the pattern, and the saved graph loads with all its nodes. Every producer gets
  an edge, but as soon as there are twice as many edges as producers, as in all three cases, the pattern
  repeats pairs and the graph holds fewer edges than the case announces.\<close>

theorem benchmark_sizes:
  assumes "iteration_ok it" and "2 \<le> n" and "n \<le> 2 ^ 24" and "e \<le> 2 ^ 24"
  shows "run_case it n e = Some \<lparr>br_nodes = n, br_edges = e, br_rows = bench_rows n (card (bench_arcs n e)) n n\<rparr> \<and>
    (n - 1 \<le> e \<longrightarrow> n - 1 \<le> card (bench_arcs n e)) \<and> (2 * (n - 1) \<le> e \<longrightarrow> card (bench_arcs n e) < e)"
proof -
  have "case_ok n e" using assms by (simp add: case_ok_def)
  with run_case_reports[OF assms(1) this] producers_covered[OF this] repeated_arcs[OF this] show ?thesis by blast
qed

theorem benchmark_sizes_witness:
  "\<exists>a b c. map_option (map (\<lambda>r. (br_nodes r, br_edges r, map snd (br_rows r)))) (benchmark_main sample_it) =
      Some [(1000, 10000, [1000, a, 1000, 1000, 200, 1, 1000, 1000, 1000, 1000, 8000]),
            (10000, 20000, [10000, b, 10000, 1000, 200, 1, 10000, 1000, 10000, 10000, 8000]),
            (20000, 60000, [20000, c, 20000, 1000, 200, 1, 20000, 1000, 20000, 20000, 8000])] \<and>
    999 \<le> a \<and> a < 10000 \<and> 9999 \<le> b \<and> b < 20000 \<and> 19999 \<le> c \<and> c < 60000"
  using benchmark_sizes[OF sample_it_ok, of 1000 10000] benchmark_sizes[OF sample_it_ok, of 10000 20000]
    benchmark_sizes[OF sample_it_ok, of 20000 60000]
  by (simp add: benchmark_main_def bench_rows_def)

end
