(* ===== verification/Spec2Isabelle.thy ===== *)
theory Spec2Isabelle
  imports RuntimeProperties GraphProperties QueryProperties Divergences ServiceProperties ToolProperties DemoProperties
begin

text \<open>
  A verification library for Dependency Fabric, the C++ runtime that keeps a graph of typed nodes
  (artifacts, models, services, ...), decides from declarative edges and dependency sets which of them
  are READY, propagates invalidation downstream and determines recovery obligations. It never
  performs work itself: callers submit mutations with credentials (source, boot incarnation,
  coordinator epoch) and read queries.

  Parts of the program and their theories:

  \<^item> \<open>identity.hpp\<close> - \<open>Identity\<close>: strong identities and generations with a phantom tag, 64-bit
    values, 0 is null, counters that wrap; the families of tags and the conversions within one.
  \<^item> \<open>enums.hpp\<close>, \<open>src/graph/enums.cpp\<close> - \<open>Enums\<close>: enumerations, names, parsers, byte codes. A value
    obtained by \<open>static_cast\<close> from an unchecked byte is the constructor \<open>_raw\<close>.
  \<^item> \<open>node.hpp\<close>, \<open>edge.hpp\<close>, \<open>predicates.hpp\<close>, \<open>dependency_set.hpp\<close>, \<open>queries.hpp\<close>, the private
    state in \<open>graph.hpp\<close> and the interface in \<open>adapters.hpp\<close> - \<open>GraphTypes\<close>: one record per struct. A
    hash map is an association list with distinct keys (\<open>umap\<close> of \<open>FabricPrelude\<close>) and every loop over
    one takes its iteration order as an argument (\<open>iteration\<close>), so theorems hold for all orders.
  \<^item> \<open>Search\<close>: the breadth-first work-list loop that seven functions of the code repeat, as one
    \<open>while\<close> over a record of what differs, with the locales that give its termination and what it
    visits (\<open>reach_search\<close>, \<open>popping_search\<close>, \<open>finding_search\<close>, \<open>marking_search\<close>, \<open>layered_search\<close>).
    Each occurrence is an interpretation in the theory of its component.
  \<^item> \<open>readiness.cpp\<close> - \<open>Readiness\<close> (evaluation of an edge, a set, a node), \<open>Recompute\<close> (recomputation of
    one node and of all nodes in Kahn order, with \<open>Graph::acyclic\<close> of \<open>recovery.cpp\<close>, the same loop),
    \<open>Scheduling\<close> (recomputation of a closure, with \<open>topology_order_locked\<close> of \<open>recovery.cpp\<close>) and
    \<open>Explain\<close> (\<open>blockers\<close>, \<open>explain\<close>).
  \<^item> \<open>graph_core.cpp\<close> - \<open>GraphCore\<close>: authority, mutations of nodes, edges and sets, const queries;
    \<open>Structure\<close>: the cycle test, and what inserting, deleting and switching an edge does to the
    dependency relation and to the indexes.
  \<^item> \<open>invalidation.cpp\<close> - \<open>Invalidation\<close>; \<open>recovery.cpp\<close> - \<open>Recovery\<close>.
  \<^item> All mutations as one command language - \<open>Mutations\<close>; executions as interleavings of whole
    operations - \<open>Runs\<close>. Every public operation of \<open>Graph\<close> holds the mutex for its whole body, so a
    concurrent execution is a sequence of \<open>fabric_step\<close>s from the empty graph.
  \<^item> \<open>adapters.hpp\<close>, \<open>src/adapters/reference.cpp\<close> - \<open>Adapters\<close>: the null adapter and the store of
    facts, whose setters and queries are eight interpretations of the locale \<open>fact_store\<close>.
  \<^item> \<open>protocol.hpp\<close>, \<open>src/protocol/framing.cpp\<close> - \<open>Bytes\<close> (encoders, bounded decoders, hashes; the
    locales \<open>codec\<close> and \<open>exact_codec\<close>) and \<open>Wire\<close> (frames; the loops that read and write them).
  \<^item> \<open>src/persistence/format.cpp\<close> - \<open>Snapshot\<close> (writers and checked readers of the records; the locale
    \<open>record_format\<close>), \<open>Loading\<close> (\<open>load\<close>, files, digests, what a loaded graph satisfies) and \<open>Reloading\<close>
    (loading what was saved).
  \<^item> \<open>src/coordinator/coordinator.cpp\<close> - \<open>Messages\<close> (builders, decoders and parsers; the abstract
    requests) and \<open>Coordinator\<close> (\<open>handle\<close>, the serving loops, the client's exchange).
  \<^item> \<open>src/tools/df_cli.cpp\<close> - \<open>Cli\<close>: the inspection tool as a function to its output.
    \<open>src/tools/df_app_main.cpp\<close> - \<open>Roles\<close>: the processes of the demonstration in the state monad over
    the world of one coordinator, with the locales \<open>world_relation\<close> and \<open>request_relation\<close> for what a
    process keeps whatever it sends. \<open>Launch\<close> holds \<open>main\<close> with its option loop and the command lines
    of the children; \<open>DemoStages\<close> and \<open>Demonstration\<close> follow a run in which nothing fails through its
    graphs.
  \<^item> \<open>src/examples\<close> and \<open>src/cmake/consumer/main.cpp\<close> - \<open>Examples\<close>: the three programs as functions to
    what they print. \<open>src/benchmarks/benchmark_main.cpp\<close> - \<open>Benchmark\<close>: the graphs it generates, the
    calls it makes on them and the sizes it prints.
  \<^item> \<open>framing.cpp\<close>, the sockets under the wire - \<open>Sockets\<close>: \<open>NetStream\<close> objects that own descriptors, the
    calls of the operating system as a parameter (\<open>socket_api\<close>), on POSIX and Winsock.
  \<^item> Programs on known graphs - \<open>Execution\<close> (graphs written out, and when a recomputation changes
    nothing) and \<open>Chains\<close> (the locale \<open>chained\<close>: three nodes in a row, saved, reloaded, published again and
    revalidated; its instances are the graphs of the demonstration and of the accelerator program).
  \<^item> What derived states are worth - \<open>Transparency\<close> (graphs that agree on everything but derived states;
    histories with and without recomputations) and \<open>Restarts\<close> (the same across saving and loading).
  \<^item> \<open>src/cuda/df_cuda_proof.cu\<close> - \<open>Accelerator\<close>: the gated run, the kernel as threads a schedule
    interleaves, the five scenarios; the CUDA runtime (\<open>cuda_api\<close>) and float arithmetic (\<open>float_ops\<close>)
    are parameters. \<open>Scenarios\<close> and \<open>CudaProgram\<close> follow the program through its graphs.
  \<^item> \<open>Samples\<close>: concrete graphs; \<open>Misled\<close>: a reachable graph on which \<open>Graph::acyclic\<close> is wrong.
    \<open>RuntimeProperties\<close>, \<open>GraphProperties\<close>, \<open>QueryProperties\<close>, \<open>Divergences\<close>, \<open>ServiceProperties\<close>,
    \<open>ToolProperties\<close> and \<open>DemoProperties\<close>: the properties, each with an instance.

  How the model follows the code. An operation is one function with the name of the method; a
  mutation takes the credentials and the graph and returns an \<open>outcome\<close> and the next graph. Guards
  are in the order of the code and each rejection is a branch that returns the graph unchanged.
  Out-parameters are fields of an accumulator. \<open>add_edge\<close> is partial (\<open>None\<close>) because \<open>edges_.at\<close>
  may throw, and the recomputation of all nodes is partial because its loop need not end on an
  arbitrary graph; on the graphs the runtime reaches both are proved to return. Loops over a work
  list are total: each is bounded by the ids in the edge map. Counters that the code keeps in 32 bits
  (depths, in-degrees, satisfied members) are \<open>32 word\<close>; where a theorem needs that they do not wrap,
  it follows from the caps of the graph (2^24 nodes, 2^26 edges) or is a hypothesis
  (\<open>sets_in_range\<close>: fewer than 2^32 members of a set).

  Bytes and streams. An encoder is the byte list it appends; a reader runs in the state monad over the
  unread bytes and the sticky flag \<open>ok_\<close>. A read past the end gives zero and clears the flag, as in the
  code, so a loop over a count from a truncated input still runs to its end. The operating system is a
  parameter: a socket is the script of what each \<open>recv\<close> delivers and each \<open>send\<close> accepts, of arbitrary
  length and with failures anywhere, and the file system is a record of what opening, writing and
  reading a path does. Loops over scripts terminate because each step consumes the script.

  What the lemmas show.

  \<^item> Readiness: the accumulating evaluation equals a declarative verdict (\<open>node_verdict\<close>); recomputing
    in an order in which producers come first settles every node; the Kahn loop produces such an order
    exactly on acyclic graphs, when the indexes list each active edge once; recomputation never revives
    escape states.
  \<^item> Structure: the cycle test is exact; well-formedness and sound indexes hold in every reachable
    graph; graphs reached without re-activating edges are acyclic.
  \<^item> Authority: stale requests leave no trace; epochs and boots fence; mutations are atomic. The locale
    \<open>guarded_operations\<close> proves this for any guarded operations and is interpreted on \<open>submit\<close>.
  \<^item> Generations, invalidation, queries: exact effects and frames of the operations.
  \<^item> Wire: framing is exact (\<open>decode_frame\<close> accepts the encodings and nothing else); every request body
    is read back whole and every strict prefix is refused; a conversation over split reads and writes
    is answered message by message; serving always returns and only takes steps of the runtime.
  \<^item> Snapshots: what is saved is loaded, in any iteration order; \<open>load\<close> returns on all inputs and commits
    only validated, acyclic, settled graphs that can be saved again; changed, truncated and extended
    files are refused; nothing of dynamic evidence survives a restart unrevalidated.
  \<^item> Tools: the inspection tool reports the loaded graph truthfully; the demonstration's processes are
    safe whatever the network loses, and a replayed message of a fenced source leaves no trace;
    without failures the demonstration passes, its command lines start the roles it means, and the
    examples print what they announce. The benchmark's graph is built as planned except for the pairs its
    pattern repeats, and is saved and loaded whole.
  \<^item> Transparency: recomputations never change what a mutation answers, and settled states are unique,
    so a run is followed on its facts and its states are read off a settled graph that is written out.
  \<^item> Work: stale nodes gate nothing; the kernel computes the reference under every schedule; the
    accelerator program passes its scenarios on a faithful device; descriptors do not leak.
  \<^item> \<open>Divergences\<close>: what the code does where its documentation says otherwise; properties that meet such a
    case (evaluation of sets, scope of invalidation, truncated requests) state it too.

  Not modelled: the contents of a file whose writing failed and the threads that embed the server; in
  the demonstration, how the operating system starts, waits for and kills processes (a start is the
  whole run of its role, or nothing), time-outs and logging; the durations that
  the benchmark measures. Rounding of floats, how a command line is cut into arguments (\<open>cuts_words\<close>) and the behaviour
  of the CUDA runtime and of the operating system are parameters with their documented behaviour as
  hypotheses (\<open>good_device\<close>, \<open>descriptor_laws\<close>).
\<close>

end
